(* ===== verification/Py.thy ===== *)
theory Py
  imports
    Complex_Main
    "HOL-Library.AList"
    "HOL-Library.List_Lexorder"
    "HOL-Library.Product_Lexorder"
    "HOL-Library.Multiset"
    "HOL-Library.Word"
    "HOL-Library.Sublist"
begin

unbundle bit_operations_syntax

text \<open>
  The prelude of the development: the Python values, strings, dictionaries and results that
  every component shares.

  A Python \<open>str\<close> is the list of its code points (\<open>pystr\<close>), so that the order of
  strings is Python's, non-BMP code points and lone surrogates exist, and \<open>len\<close> counts
  what Python counts; \<open>u ''abc''\<close> is the literal. A \<open>dict\<close> is an association list
  in insertion order (\<open>AList.update\<close> keeps the place of an existing key and appends a
  new one, which is what a Python dictionary does). A call that can raise returns
  \<open>exception + value\<close>, and \<open>ebind\<close>, \<open>esequence\<close> and \<open>etraverse\<close> propagate
  the first exception.
\<close>

named_theorems py_simps \<open>evaluation rules of the prelude\<close>
named_theorems err_elims \<open>inversion of computations that succeed\<close>

section \<open>Strings\<close>

type_synonym pystr = "nat list"
type_synonym byte = "8 word"
type_synonym bytes = "byte list"

definition u :: "string \<Rightarrow> pystr" where
  "u s = map of_char s"

text \<open>\<open>str.startswith\<close>, \<open>str.removeprefix\<close>, \<open>sep.join\<close> and \<open>str.split\<close> with a
  one-character separator (which returns at least one piece).\<close>

definition startswith :: "pystr \<Rightarrow> pystr \<Rightarrow> bool" where
  "startswith s p \<longleftrightarrow> take (length p) s = p"

definition removeprefix :: "pystr \<Rightarrow> pystr \<Rightarrow> pystr" where
  "removeprefix s p = (if startswith s p then drop (length p) s else s)"

fun join_str :: "pystr \<Rightarrow> pystr list \<Rightarrow> pystr" where
  "join_str sep [] = []"
| "join_str sep [x] = x"
| "join_str sep (x # y # xs) = x @ sep @ join_str sep (y # xs)"

fun split_on :: "nat \<Rightarrow> pystr \<Rightarrow> pystr list" where
  "split_on c [] = [[]]"
| "split_on c (x # xs) =
     (if x = c then [] # split_on c xs
      else (case split_on c xs of [] \<Rightarrow> [[x]] | p # ps \<Rightarrow> (x # p) # ps))"

text \<open>Decimal numerals: \<open>str(n)\<close> of an \<open>int\<close>.\<close>

fun nat_str :: "nat \<Rightarrow> pystr" where
  "nat_str n = (if n < 10 then [48 + n] else nat_str (n div 10) @ [48 + n mod 10])"

declare nat_str.simps [simp del]

definition int_str :: "int \<Rightarrow> pystr" where
  "int_str i = (if i < 0 then 45 # nat_str (nat (- i)) else nat_str (nat i))"

lemma startswith_iff: "startswith s p \<longleftrightarrow> (\<exists>t. s = p @ t)"
  unfolding startswith_def by (metis append_eq_conv_conj append_take_drop_id)

lemma startswith_append [simp]: "startswith (p @ t) p"
  by (simp add: startswith_def)

lemma startswith_trans: "startswith s q \<Longrightarrow> startswith q p \<Longrightarrow> startswith s p"
  by (auto simp: startswith_iff)

lemma split_on_nonempty [simp]: "split_on c s \<noteq> []"
  by (induction s) (auto split: list.splits)

lemma split_on_no_sep: "c \<notin> set s \<Longrightarrow> split_on c s = [s]"
  by (induction s) auto

lemma split_on_append:
  "c \<notin> set s \<Longrightarrow> split_on c (s @ c # t) = s # split_on c t"
  by (induction s) auto

lemma split_join:
  assumes "xs \<noteq> []" and "\<forall>x \<in> set xs. c \<notin> set x"
  shows "split_on c (join_str [c] xs) = xs"
  using assms
  by (induction "[c]" xs rule: join_str.induct) (auto simp: split_on_no_sep split_on_append)

lemma nat_str_nonempty [simp]: "nat_str n \<noteq> []"
  by (subst nat_str.simps) simp

lemma nat_str_digits: "\<forall>d \<in> set (nat_str n). 48 \<le> d \<and> d < 58"
proof (induction n rule: nat_str.induct)
  case (1 n)
  then show ?case by (subst nat_str.simps) auto
qed

text \<open>Decimal numerals read back: \<open>nat_str\<close> is injective.\<close>

fun str_nat :: "pystr \<Rightarrow> nat \<Rightarrow> nat" where
  "str_nat [] acc = acc"
| "str_nat (d # ds) acc = str_nat ds (10 * acc + (d - 48))"

lemma str_nat_append: "str_nat (xs @ ys) a = str_nat ys (str_nat xs a)"
  by (induction xs arbitrary: a) auto

lemma str_nat_nat_str: "str_nat (nat_str n) 0 = n"
proof (induction n rule: nat_str.induct)
  case (1 n)
  show ?case
  proof (cases "n < 10")
    case True
    then show ?thesis by (subst nat_str.simps) simp
  next
    case False
    with 1 have "str_nat (nat_str (n div 10)) 0 = n div 10" by simp
    with False show ?thesis
      by (subst nat_str.simps) (simp add: str_nat_append)
  qed
qed

lemma nat_str_inject [simp]: "nat_str m = nat_str n \<longleftrightarrow> m = n"
  by (metis str_nat_nat_str)

lemma nat_str_no_minus: "nat_str m \<noteq> 45 # s"
  using nat_str_digits [of m] by auto

lemma int_str_inject [simp]: "int_str i = int_str j \<longleftrightarrow> i = j"
  using nat_str_no_minus by (auto simp: int_str_def dest: sym)

lemma digit_not_in_nat_str: "c < 48 \<or> 57 < c \<Longrightarrow> c \<notin> set (nat_str n)"
  using nat_str_digits [of n] by auto

section \<open>Results\<close>

text \<open>
  \<open>Inl e\<close> is "raises \<open>e\<close>", \<open>Inr x\<close> is "returns \<open>x\<close>".
\<close>

definition ebind :: "'e + 'a \<Rightarrow> ('a \<Rightarrow> 'e + 'b) \<Rightarrow> 'e + 'b" where
  "ebind r f = (case r of Inl e \<Rightarrow> Inl e | Inr x \<Rightarrow> f x)"

definition emap :: "('a \<Rightarrow> 'b) \<Rightarrow> 'e + 'a \<Rightarrow> 'e + 'b" where
  "emap f r = (case r of Inl e \<Rightarrow> Inl e | Inr x \<Rightarrow> Inr (f x))"

definition is_ok :: "'e + 'a \<Rightarrow> bool" where
  "is_ok r \<longleftrightarrow> (case r of Inl _ \<Rightarrow> False | Inr _ \<Rightarrow> True)"

definition guard :: "bool \<Rightarrow> 'e \<Rightarrow> 'e + unit" where
  "guard b e = (if b then Inr () else Inl e)"

fun esequence :: "('e + 'a) list \<Rightarrow> 'e + 'a list" where
  "esequence [] = Inr []"
| "esequence (Inl e # rs) = Inl e"
| "esequence (Inr x # rs) = (case esequence rs of Inl e \<Rightarrow> Inl e | Inr xs \<Rightarrow> Inr (x # xs))"

fun etraverse :: "('a \<Rightarrow> 'e + 'b) \<Rightarrow> 'a list \<Rightarrow> 'e + 'b list" where
  "etraverse f [] = Inr []"
| "etraverse f (x # xs) =
     (case f x of Inl e \<Rightarrow> Inl e
      | Inr y \<Rightarrow> (case etraverse f xs of Inl e \<Rightarrow> Inl e | Inr ys \<Rightarrow> Inr (y # ys)))"

text \<open>A loop over a list that carries a state and stops at the first exception.\<close>

fun efold :: "('s \<Rightarrow> 'a \<Rightarrow> 'e + 's) \<Rightarrow> 's \<Rightarrow> 'a list \<Rightarrow> 'e + 's" where
  "efold f s [] = Inr s"
| "efold f s (x # xs) = (case f s x of Inl e \<Rightarrow> Inl e | Inr s' \<Rightarrow> efold f s' xs)"

lemma ebind_simps [simp]:
  "ebind (Inl e) f = Inl e"
  "ebind (Inr x) f = f x"
  by (simp_all add: ebind_def)

lemma emap_simps [simp]:
  "emap f (Inl e) = Inl e"
  "emap f (Inr x) = Inr (f x)"
  by (simp_all add: emap_def)

lemma is_ok_simps [simp]: "\<not> is_ok (Inl e)" "is_ok (Inr x)"
  by (simp_all add: is_ok_def)

lemma guard_simps [simp]: "guard True e = Inr ()" "guard False e = Inl e"
  by (simp_all add: guard_def)

lemma guard_Inr [simp]: "guard b e = Inr x \<longleftrightarrow> b"
  by (simp add: guard_def)

lemma guard_Inl [simp]: "guard b e = Inl e' \<longleftrightarrow> \<not> b \<and> e' = e"
  by (auto simp: guard_def)

lemma is_ok_iff: "is_ok r \<longleftrightarrow> (\<exists>x. r = Inr x)"
  by (cases r) auto

lemma not_is_ok_iff: "\<not> is_ok r \<longleftrightarrow> (\<exists>e. r = Inl e)"
  by (cases r) auto

lemma ebind_Inr_iff [err_elims]:
  "ebind r f = Inr y \<longleftrightarrow> (\<exists>x. r = Inr x \<and> f x = Inr y)"
  by (cases r) auto

lemma ebind_Inl_iff:
  "ebind r f = Inl e \<longleftrightarrow> r = Inl e \<or> (\<exists>x. r = Inr x \<and> f x = Inl e)"
  by (cases r) auto

lemma emap_Inr_iff [err_elims]: "emap f r = Inr y \<longleftrightarrow> (\<exists>x. r = Inr x \<and> y = f x)"
  by (cases r) auto

lemma emap_Inl_iff [simp]: "emap f r = Inl e \<longleftrightarrow> r = Inl e"
  by (cases r) auto

lemma etraverse_eq: "etraverse f xs = esequence (map f xs)"
proof (induction xs)
  case (Cons x xs)
  then show ?case by (cases "f x") auto
qed simp

lemma esequence_map_Inr [simp]: "esequence (map Inr xs) = Inr xs"
  by (induction xs) auto

lemma esequence_Inr_iff: "esequence rs = Inr xs \<longleftrightarrow> rs = map Inr xs"
proof (induction rs arbitrary: xs rule: esequence.induct)
  case (3 x rs)
  then show ?case by (cases "esequence rs") (auto simp: Cons_eq_map_conv)
qed auto

lemma etraverse_Inr_iff: "etraverse f xs = Inr ys \<longleftrightarrow> map f xs = map Inr ys"
  by (simp add: etraverse_eq esequence_Inr_iff)

lemma etraverse_length: "etraverse f xs = Inr ys \<Longrightarrow> length ys = length xs"
  by (induction xs arbitrary: ys) (auto split: sum.splits)

lemma etraverse_Inl: "etraverse f xs = Inl e \<Longrightarrow> \<exists>x \<in> set xs. f x = Inl e"
  by (induction xs) (auto split: sum.splits)

lemma etraverse_all_ok: "(\<forall>x \<in> set xs. is_ok (f x)) \<Longrightarrow> is_ok (etraverse f xs)"
  by (induction xs) (auto simp: is_ok_iff)

lemma efold_append:
  "efold f s (xs @ ys) = ebind (efold f s xs) (\<lambda>t. efold f t ys)"
  by (induction xs arbitrary: s) (auto split: sum.splits)

lemma efold_invariant:
  assumes "efold f s xs = Inr t" and "I s"
    and step: "\<And>s x t. x \<in> set xs \<Longrightarrow> I s \<Longrightarrow> f s x = Inr t \<Longrightarrow> I t"
  shows "I t"
  using assms
proof (induction xs arbitrary: s)
  case (Cons x xs)
  from Cons.prems(1) obtain s' where s': "f s x = Inr s'" and rest: "efold f s' xs = Inr t"
    by (auto split: sum.splits)
  have "I s'" using Cons.prems(2) s' by (rule Cons.prems(3) [OF list.set_intros(1)])
  with rest show ?case using Cons.IH Cons.prems(3) by (meson list.set_intros(2))
qed simp

section \<open>Dictionaries\<close>

type_synonym ('k, 'v) dict = "('k \<times> 'v) list"

abbreviation dset :: "'k \<Rightarrow> 'v \<Rightarrow> ('k, 'v) dict \<Rightarrow> ('k, 'v) dict" where
  "dset \<equiv> AList.update"

definition dget :: "('k, 'v) dict \<Rightarrow> 'k \<Rightarrow> 'v \<Rightarrow> 'v" where
  "dget d k v = (case map_of d k of None \<Rightarrow> v | Some x \<Rightarrow> x)"

abbreviation keys :: "('k, 'v) dict \<Rightarrow> 'k list" where
  "keys d \<equiv> map fst d"

definition has_key :: "('k, 'v) dict \<Rightarrow> 'k \<Rightarrow> bool" where
  "has_key d k \<longleftrightarrow> k \<in> fst ` set d"

definition wf_dict :: "('k, 'v) dict \<Rightarrow> bool" where
  "wf_dict d \<longleftrightarrow> distinct (map fst d)"

text \<open>\<open>d.setdefault(k, []).append(x)\<close>, the grouping idiom of the code.\<close>

definition dappend :: "('k, 'v list) dict \<Rightarrow> 'k \<Rightarrow> 'v \<Rightarrow> ('k, 'v list) dict" where
  "dappend d k x = dset k (dget d k [] @ [x]) d"

lemma map_of_dset [simp]: "map_of (dset k v d) = (map_of d)(k \<mapsto> v)"
  by (rule update_conv')

lemma keys_dset: "keys (dset k v d) = (if has_key d k then keys d else keys d @ [k])"
  by (induction d) (auto simp: has_key_def)

lemma has_key_dset [simp]: "has_key (dset k v d) k' \<longleftrightarrow> k' = k \<or> has_key d k'"
  by (induction d) (auto simp: has_key_def)

lemma has_key_map_of: "has_key d k \<longleftrightarrow> map_of d k \<noteq> None"
  by (simp add: has_key_def map_of_eq_None_iff)

lemma has_key_Nil [simp]: "\<not> has_key [] k"
  by (simp add: has_key_def)

lemma has_key_Cons [simp]: "has_key ((a, b) # d) k \<longleftrightarrow> k = a \<or> has_key d k"
  by (auto simp: has_key_def)

lemma wf_dict_Nil [simp]: "wf_dict []"
  by (simp add: wf_dict_def)

lemma wf_dict_dset [simp]: "wf_dict d \<Longrightarrow> wf_dict (dset k v d)"
  by (simp add: wf_dict_def distinct_update)

lemma dget_dset [simp]: "dget (dset k v d) k' w = (if k' = k then v else dget d k' w)"
  by (simp add: dget_def)

lemma dget_Nil [simp]: "dget [] k v = v"
  by (simp add: dget_def)

lemma set_dset: "wf_dict d \<Longrightarrow> set (dset k v d) = insert (k, v) {p \<in> set d. fst p \<noteq> k}"
  by (induction d) (auto simp: wf_dict_def image_iff)

lemma wf_dict_map_of: "wf_dict d \<Longrightarrow> (k, v) \<in> set d \<longleftrightarrow> map_of d k = Some v"
  by (simp add: wf_dict_def)

lemma wf_dict_dappend [simp]: "wf_dict d \<Longrightarrow> wf_dict (dappend d k x)"
  by (simp add: dappend_def)

lemma dget_dappend [simp]:
  "dget (dappend d k x) k' [] = (if k' = k then dget d k [] @ [x] else dget d k' [])"
  by (simp add: dappend_def)

lemma has_key_dappend [simp]: "has_key (dappend d k x) k' \<longleftrightarrow> k' = k \<or> has_key d k'"
  by (simp add: dappend_def)

lemma map_of_snd: "map_of d k = Some v \<Longrightarrow> v \<in> snd ` set d"
  by (drule map_of_SomeD) force

text \<open>Lists and dictionaries with the same keys and values up to order.\<close>

lemma map_of_eq_of_mset:
  assumes "mset d = mset d'" and "wf_dict d"
  shows "map_of d = map_of d'"
proof (rule map_of_inject_set [THEN iffD2])
  have "mset (map fst d) = mset (map fst d')" using assms(1) by simp
  then show "distinct (map fst d')" using assms(2)
    unfolding wf_dict_def by (metis mset_eq_imp_distinct_iff)
  show "distinct (map fst d)" using assms(2) by (simp add: wf_dict_def)
  show "set d = set d'" using assms(1) by (rule mset_eq_setD)
qed

section \<open>Sorting\<close>

text \<open>
  \<open>sorted(xs, key=f)\<close> is stable, as \<open>sort_key\<close> is. A stable sort is determined by the
  subsequences of equal keys, so two permutations of a list in which equal keys stand in the
  same relative order sort to the same list.
\<close>

lemma sort_key_eqI:
  assumes "mset xs = mset ys"
    and "\<And>k. filter (\<lambda>x. f x = k) xs = filter (\<lambda>x. f x = k) ys"
  shows "sort_key f xs = sort_key f ys"
proof (rule properties_for_sort_key)
  show "mset (sort_key f ys) = mset xs" using assms(1) by simp
  show "sorted (map f (sort_key f ys))" by simp
  show "filter (\<lambda>x. f k = f x) (sort_key f ys) = filter (\<lambda>x. f k = f x) xs"
    if "k \<in> set (sort_key f ys)" for k
    using assms(2) [of "f k"] sort_key_stable [of f "f k" ys] by (simp add: eq_commute)
qed

lemma sort_key_map_eqI:
  "mset xs = mset ys \<Longrightarrow> inj_on f (set xs) \<Longrightarrow> sort_key f xs = sort_key f ys"
  by (rule sort_key_inj_key_eq) auto

lemma insort_key_map: "insort_key f (g x) (map g xs) = map g (insort_key (f \<circ> g) x xs)"
  by (induction xs) auto

lemma sort_key_map: "sort_key f (map g xs) = map g (sort_key (f \<circ> g) xs)"
  by (induction xs) (simp_all add: insort_key_map comp_def)

end
