(* ===== verification/PyVal.thy ===== *)
theory PyVal
  imports Py
begin

text \<open>
  Python values as the components exchange them, Python's \<open>==\<close> and hashability on them, and
  the parts of the standard library the sources call on them: \<open>str.encode('utf-8')\<close>,
  \<open>bytes.hex\<close>, \<open>bytes.fromhex\<close>, \<open>hmac\<close> and \<open>json.dumps\<close> with
  \<open>sort_keys=True, separators=(',', ':'), ensure_ascii=False, allow_nan=False\<close>.

  A finite float is its rational value (negative zero apart); its shortest decimal
  \<open>repr\<close>, the \<open>repr\<close> of a string, the \<open>str\<close> of values that are neither strings nor
  integers, the hash function SHA-256, the text of library exceptions and \<open>str.isalnum\<close> of
  a code point are the fields of the record \<open>prims\<close>, a parameter of the definitions that
  use them.
\<close>

section \<open>Values\<close>

datatype pyfloat = FNan | FPosInf | FNegInf | FNegZero | FFin rat

text \<open>
  \<open>PSend\<close> is the graph engine's \<open>Send(node, arg, timeout)\<close>; \<open>PObj t\<close> is any other
  object (a set, bytes, a custom class) of type name \<open>t\<close>.
\<close>

datatype pyval =
    PNone
  | PBool bool
  | PInt int
  | PFloat pyfloat
  | PStr pystr
  | PList "pyval list"
  | PTuple "pyval list"
  | PDict "(pyval \<times> pyval) list"
  | PSend pystr pyval pyval
  | PObj pystr

datatype pyexc =
    ValueError pystr
  | TypeError pystr
  | KeyError pystr
  | RecursionError pystr
  | UnicodeEncodeError
  | IndexError
  | AttributeError pystr
  | AssertionError

text \<open>
  \<open>AssertionError\<close> is a violated contract of the library icontract.
\<close>

text \<open>\<open>except ValueError\<close> also catches its subclass \<open>UnicodeEncodeError\<close>.\<close>

fun is_value_error :: "pyexc \<Rightarrow> bool" where
  "is_value_error (ValueError _) = True"
| "is_value_error UnicodeEncodeError = True"
| "is_value_error _ = False"

fun is_type_error :: "pyexc \<Rightarrow> bool" where
  "is_type_error (TypeError _) = True"
| "is_type_error _ = False"

record prims =
  sha256_word :: "bytes \<Rightarrow> 256 word"
  float_repr :: "rat \<Rightarrow> pystr"
  str_repr :: "pystr \<Rightarrow> pystr"
  val_str :: "pyval \<Rightarrow> pystr"
  exc_text :: "pyexc \<Rightarrow> pystr"
  alnum :: "nat \<Rightarrow> bool"

text \<open>The 32 bytes of \<open>hashlib.sha256(m).digest()\<close>, most significant first.\<close>

definition sha256 :: "prims \<Rightarrow> bytes \<Rightarrow> bytes" where
  "sha256 P m = map (\<lambda>i. ucast (drop_bit (8 * (31 - i)) (sha256_word P m))) [0..<32]"

lemma length_sha256 [simp]: "length (sha256 P m) = 32"
  by (simp add: sha256_def)

fun num_val :: "pyval \<Rightarrow> rat option" where
  "num_val (PBool b) = Some (if b then 1 else 0)"
| "num_val (PInt i) = Some (of_int i)"
| "num_val (PFloat (FFin r)) = Some r"
| "num_val (PFloat FNegZero) = Some 0"
| "num_val _ = None"

text \<open>Python's \<open>==\<close>: numbers by value across types, containers by content.\<close>

fun py_eq :: "pyval \<Rightarrow> pyval \<Rightarrow> bool" where
  "py_eq (PStr s) w = (w = PStr s)"
| "py_eq PNone w = (w = PNone)"
| "py_eq (PObj t) w = (w = PObj t)"
| "py_eq (PList xs) w =
     (case w of PList ys \<Rightarrow> list_all2 (\<lambda>f y. f y) (map py_eq xs) ys | _ \<Rightarrow> False)"
| "py_eq (PTuple xs) w =
     (case w of PTuple ys \<Rightarrow> list_all2 (\<lambda>f y. f y) (map py_eq xs) ys | _ \<Rightarrow> False)"
| "py_eq (PDict d) w =
     (case w of
        PDict e \<Rightarrow> length d = length e \<and>
          list_all (\<lambda>(f, g). list_ex (\<lambda>(k, v). f k \<and> g v) e)
            (map (\<lambda>(k, v). (py_eq k, py_eq v)) d)
      | _ \<Rightarrow> False)"
| "py_eq (PSend n a t) w =
     (case w of PSend m b s \<Rightarrow> n = m \<and> py_eq a b \<and> py_eq t s | _ \<Rightarrow> False)"
| "py_eq (PFloat FPosInf) w = (w = PFloat FPosInf)"
| "py_eq (PFloat FNegInf) w = (w = PFloat FNegInf)"
| "py_eq v w = (num_val v \<noteq> None \<and> num_val v = num_val w)"

text \<open>\<open>bool(v)\<close> and hashability (a set member or dictionary key must be hashable).\<close>

fun py_truthy :: "pyval \<Rightarrow> bool" where
  "py_truthy PNone = False"
| "py_truthy (PBool b) = b"
| "py_truthy (PInt i) = (i \<noteq> 0)"
| "py_truthy (PFloat f) = (f \<noteq> FNegZero \<and> f \<noteq> FFin 0)"
| "py_truthy (PStr s) = (s \<noteq> [])"
| "py_truthy (PList xs) = (xs \<noteq> [])"
| "py_truthy (PTuple xs) = (xs \<noteq> [])"
| "py_truthy (PDict d) = (d \<noteq> [])"
| "py_truthy (PSend _ _ _) = True"
| "py_truthy (PObj _) = True"

fun py_hashable :: "pyval \<Rightarrow> bool" where
  "py_hashable (PList _) = False"
| "py_hashable (PDict _) = False"
| "py_hashable (PTuple xs) = list_all py_hashable xs"
| "py_hashable (PSend _ a t) = (py_hashable a \<and> py_hashable t)"
| "py_hashable _ = True"

text \<open>\<open>str(v)\<close>.\<close>

fun py_str :: "prims \<Rightarrow> pyval \<Rightarrow> pystr" where
  "py_str P (PStr s) = s"
| "py_str P (PInt i) = int_str i"
| "py_str P (PBool b) = (if b then u ''True'' else u ''False'')"
| "py_str P PNone = u ''None''"
| "py_str P v = val_str P v"

text \<open>\<open>list(v)\<close>, the iteration over a value.\<close>

fun py_list :: "pyval \<Rightarrow> pyexc + pyval list" where
  "py_list (PList xs) = Inr xs"
| "py_list (PTuple xs) = Inr xs"
| "py_list (PDict d) = Inr (map fst d)"
| "py_list (PStr s) = Inr (map (\<lambda>c. PStr [c]) s)"
| "py_list v = Inl (TypeError (u ''object is not iterable''))"

text \<open>\<open>d.get(k)\<close> for a string key of a dictionary value, \<open>None\<close> when absent.\<close>

definition vget :: "(pyval \<times> pyval) list \<Rightarrow> pystr \<Rightarrow> pyval" where
  "vget d k = dget d (PStr k) PNone"

text \<open>\<open>dict(v)\<close>: of a mapping, or of an iterable of pairs.\<close>

definition py_pair :: "pyval \<Rightarrow> pyexc + pyval \<times> pyval" where
  "py_pair v =
     (case py_list v of
        Inl _ \<Rightarrow> Inl (TypeError (u ''cannot convert dictionary update sequence element to a sequence''))
      | Inr [a, b] \<Rightarrow> if py_hashable a then Inr (a, b) else Inl (TypeError (u ''unhashable type''))
      | Inr _ \<Rightarrow> Inl (ValueError (u ''dictionary update sequence element has the wrong length'')))"

fun py_dict :: "pyval \<Rightarrow> pyexc + (pyval \<times> pyval) list" where
  "py_dict (PDict d) = Inr d"
| "py_dict v = ebind (py_list v) (efold (\<lambda>d x. emap (\<lambda>(a, b). dset a b d) (py_pair x)) [])"

text \<open>The entries of a dictionary value, none for another value.\<close>

fun dict_of_val :: "pyval \<Rightarrow> (pyval \<times> pyval) list" where
  "dict_of_val (PDict d) = d"
| "dict_of_val _ = []"

text \<open>The type name Python prints.\<close>

fun type_name :: "pyval \<Rightarrow> pystr" where
  "type_name PNone = u ''NoneType''"
| "type_name (PBool _) = u ''bool''"
| "type_name (PInt _) = u ''int''"
| "type_name (PFloat _) = u ''float''"
| "type_name (PStr _) = u ''str''"
| "type_name (PList _) = u ''list''"
| "type_name (PTuple _) = u ''tuple''"
| "type_name (PDict _) = u ''dict''"
| "type_name (PSend _ _ _) = u ''Send''"
| "type_name (PObj t) = t"

section \<open>UTF-8 and hexadecimal\<close>

definition utf8_cp :: "nat \<Rightarrow> bytes option" where
  "utf8_cp c =
     (if c < 128 then Some [of_nat c]
      else if c < 2048 then Some [of_nat (192 + c div 64), of_nat (128 + c mod 64)]
      else if 55296 \<le> c \<and> c \<le> 57343 then None
      else if c < 65536 then
        Some [of_nat (224 + c div 4096), of_nat (128 + c div 64 mod 64), of_nat (128 + c mod 64)]
      else Some [of_nat (240 + c div 262144), of_nat (128 + c div 4096 mod 64),
                 of_nat (128 + c div 64 mod 64), of_nat (128 + c mod 64)])"

fun utf8 :: "pystr \<Rightarrow> bytes option" where
  "utf8 [] = Some []"
| "utf8 (c # cs) =
     (case utf8_cp c of None \<Rightarrow> None
      | Some b \<Rightarrow> (case utf8 cs of None \<Rightarrow> None | Some bs \<Rightarrow> Some (b @ bs)))"

definition encode_utf8 :: "pystr \<Rightarrow> pyexc + bytes" where
  "encode_utf8 s = (case utf8 s of None \<Rightarrow> Inl UnicodeEncodeError | Some b \<Rightarrow> Inr b)"

definition hex_digit :: "nat \<Rightarrow> nat" where
  "hex_digit n = (if n < 10 then 48 + n else 87 + n)"

definition hex_byte :: "byte \<Rightarrow> pystr" where
  "hex_byte b = [hex_digit (unat b div 16), hex_digit (unat b mod 16)]"

definition hex :: "bytes \<Rightarrow> pystr" where
  "hex bs = concat (map hex_byte bs)"

definition unhex_digit :: "nat \<Rightarrow> nat option" where
  "unhex_digit c =
     (if 48 \<le> c \<and> c \<le> 57 then Some (c - 48)
      else if 97 \<le> c \<and> c \<le> 102 then Some (c - 87)
      else if 65 \<le> c \<and> c \<le> 70 then Some (c - 55)
      else None)"

text \<open>\<open>bytes.fromhex\<close> accepts both cases and skips ASCII whitespace between bytes.\<close>

definition ascii_space :: "nat \<Rightarrow> bool" where
  "ascii_space c \<longleftrightarrow> c = 32 \<or> (9 \<le> c \<and> c \<le> 13)"

fun fromhex :: "pystr \<Rightarrow> bytes option" where
  "fromhex [] = Some []"
| "fromhex [c] = (if ascii_space c then Some [] else None)"
| "fromhex (c # d # cs) =
     (if ascii_space c then fromhex (d # cs)
      else (case (unhex_digit c, unhex_digit d) of
              (Some x, Some y) \<Rightarrow>
                (case fromhex cs of None \<Rightarrow> None | Some bs \<Rightarrow> Some (of_nat (16 * x + y) # bs))
            | _ \<Rightarrow> None))"

section \<open>HMAC\<close>

text \<open>RFC 2104 over SHA-256 with its 64-byte block, as \<open>hmac.new(key, msg, sha256).digest()\<close>.\<close>

definition hmac_key :: "prims \<Rightarrow> bytes \<Rightarrow> bytes" where
  "hmac_key P k = (let k' = (if 64 < length k then sha256 P k else k)
                   in k' @ replicate (64 - length k') 0)"

definition hmac :: "prims \<Rightarrow> bytes \<Rightarrow> bytes \<Rightarrow> bytes" where
  "hmac P k m =
     sha256 P (map (\<lambda>b. b XOR 92) (hmac_key P k) @
               sha256 P (map (\<lambda>b. b XOR 54) (hmac_key P k) @ m))"

section \<open>json.dumps\<close>

text \<open>A backslash is code point 92, followed by b, t, n, f, r, a quote or a backslash.\<close>

definition escape_char :: "nat \<Rightarrow> pystr" where
  "escape_char c =
     (if c = 8 then [92, 98] else if c = 9 then [92, 116] else if c = 10 then [92, 110]
      else if c = 12 then [92, 102] else if c = 13 then [92, 114]
      else if c = 34 then [92, 34] else if c = 92 then [92, 92]
      else if c < 32 then [92, 117, 48, 48, hex_digit (c div 16), hex_digit (c mod 16)]
      else [c])"

definition json_string :: "pystr \<Rightarrow> pystr" where
  "json_string s = [34] @ concat (map escape_char s) @ [34]"

fun json_float :: "prims \<Rightarrow> pyfloat \<Rightarrow> pyexc + pystr" where
  "json_float P (FFin r) = Inr (float_repr P r)"
| "json_float P FNegZero = Inr (u ''-0.0'')"
| "json_float P _ = Inl (ValueError (u ''Out of range float values are not JSON compliant''))"

text \<open>Keys are sorted before they are converted, so keys that do not compare raise.\<close>

fun json_key :: "prims \<Rightarrow> pyval \<Rightarrow> pyexc + pystr" where
  "json_key P (PStr s) = Inr s"
| "json_key P PNone = Inr (u ''null'')"
| "json_key P (PBool b) = Inr (if b then u ''true'' else u ''false'')"
| "json_key P (PInt i) = Inr (int_str i)"
| "json_key P (PFloat f) = json_float P f"
| "json_key P _ = Inl (TypeError (u ''keys must be str, int, float, bool or None''))"

fun key_str :: "pyval \<Rightarrow> pystr" where
  "key_str (PStr s) = s"
| "key_str _ = []"

definition is_str :: "pyval \<Rightarrow> bool" where
  "is_str v \<longleftrightarrow> (case v of PStr _ \<Rightarrow> True | _ \<Rightarrow> False)"

definition sort_items :: "(pyval \<times> 'a) list \<Rightarrow> pyexc + (pyval \<times> 'a) list" where
  "sort_items kvs =
     (if length kvs \<le> 1 then Inr kvs
      else if list_all (\<lambda>(k, _). is_str k) kvs then Inr (sort_key (\<lambda>(k, _). key_str k) kvs)
      else if list_all (\<lambda>(k, _). num_val k \<noteq> None) kvs
        then Inr (sort_key (\<lambda>(k, _). the (num_val k)) kvs)
      else Inl (TypeError (u ''keys are not comparable'')))"

definition comma_sep :: "pystr list \<Rightarrow> pystr" where
  "comma_sep xs = join_str [44] xs"

fun json_dumps :: "prims \<Rightarrow> pyval \<Rightarrow> pyexc + pystr" where
  "json_dumps P PNone = Inr (u ''null'')"
| "json_dumps P (PBool b) = Inr (if b then u ''true'' else u ''false'')"
| "json_dumps P (PInt i) = Inr (int_str i)"
| "json_dumps P (PFloat f) = json_float P f"
| "json_dumps P (PStr s) = Inr (json_string s)"
| "json_dumps P (PList xs) =
     emap (\<lambda>ss. [91] @ comma_sep ss @ [93]) (esequence (map (json_dumps P) xs))"
| "json_dumps P (PTuple xs) =
     emap (\<lambda>ss. [91] @ comma_sep ss @ [93]) (esequence (map (json_dumps P) xs))"
| "json_dumps P (PDict kvs) =
     ebind (sort_items (map (\<lambda>(k, v). (k, json_dumps P v)) kvs)) (\<lambda>items.
     emap (\<lambda>ss. [123] @ comma_sep ss @ [125])
       (etraverse (\<lambda>(k, r). ebind (json_key P k) (\<lambda>s. emap (\<lambda>t. json_string s @ [58] @ t) r)) items))"
| "json_dumps P (PSend _ _ _) = Inl (TypeError (u ''Send is not JSON serializable''))"
| "json_dumps P (PObj t) = Inl (TypeError (t @ u '' is not JSON serializable''))"

section \<open>A sample of the parameters\<close>

text \<open>For concrete instances: the constant hash, and strings that are their own \<open>repr\<close>.\<close>

definition demo_prims :: prims where
  "demo_prims = \<lparr>sha256_word = (\<lambda>_. 0), float_repr = (\<lambda>_. []), str_repr = (\<lambda>s. s),
     val_str = (\<lambda>_. []), exc_text = (\<lambda>_. []), alnum = (\<lambda>_. True)\<rparr>"

lemma demo_sha256 [simp]: "sha256 demo_prims m = replicate 32 0"
  by (rule nth_equalityI) (simp_all add: sha256_def demo_prims_def)

end
