(* ===== verification/GTypes.thy ===== *)
theory GTypes
  imports PyVal
begin

text \<open>
  The vocabulary of the graph engine (graph/types.py, graph/errors.py and the exception
  classes of the other modules): reserved names, write proposals, run events and checkpoints,
  and the exceptions as one datatype whose arguments are the exceptions' attributes. The
  English text of a message is not modelled.
\<close>

section \<open>Reserved names\<close>

definition START :: pystr where "START = u ''__start__''"
definition END :: pystr where "END = u ''__end__''"
definition RESERVED_PREFIX :: pystr where "RESERVED_PREFIX = u ''__''"
definition TRIGGER_PREFIX :: pystr where "TRIGGER_PREFIX = u ''__trigger__:''"
definition TASKS_CHANNEL :: pystr where "TASKS_CHANNEL = u ''__tasks__''"
definition RESUME_PREFIX :: pystr where "RESUME_PREFIX = u ''__resume__:''"
definition JOIN_PREFIX :: pystr where "JOIN_PREFIX = u ''__join__:''"

definition trigger_channel :: "pystr \<Rightarrow> pystr" where
  "trigger_channel node_id = TRIGGER_PREFIX @ node_id"

definition is_reserved :: "pystr \<Rightarrow> bool" where
  "is_reserved name \<longleftrightarrow> startswith name RESERVED_PREFIX"

definition is_trigger :: "pystr \<Rightarrow> bool" where
  "is_trigger name \<longleftrightarrow> startswith name TRIGGER_PREFIX"

lemmas name_defs = START_def END_def RESERVED_PREFIX_def TRIGGER_PREFIX_def
  TASKS_CHANNEL_def RESUME_PREFIX_def JOIN_PREFIX_def u_def

lemma START_neq_END [simp]: "START \<noteq> END" "END \<noteq> START"
  by (simp_all add: name_defs)

lemma START_not_empty [simp]: "START \<noteq> []" "END \<noteq> []"
  by (simp_all add: name_defs)

lemma reserved_constants [simp]:
  "is_reserved START" "is_reserved END" "is_reserved TASKS_CHANNEL"
  "is_reserved TRIGGER_PREFIX" "is_reserved (RESUME_PREFIX @ s)" "is_reserved (JOIN_PREFIX @ s)"
  by (simp_all add: is_reserved_def startswith_def name_defs)

lemma is_trigger_trigger_channel [simp]: "is_trigger (trigger_channel n)"
  by (simp add: is_trigger_def trigger_channel_def)

lemma trigger_is_reserved [simp]: "is_trigger n \<Longrightarrow> is_reserved n"
  unfolding is_trigger_def is_reserved_def
  by (erule startswith_trans) (simp add: startswith_def name_defs)

lemma trigger_channel_inject [simp]: "trigger_channel m = trigger_channel n \<longleftrightarrow> m = n"
  by (simp add: trigger_channel_def)

lemma not_trigger_constants [simp]:
  "\<not> is_trigger TASKS_CHANNEL" "\<not> is_trigger START" "\<not> is_trigger (JOIN_PREFIX @ s)"
  "\<not> is_trigger (RESUME_PREFIX @ s)"
  by (simp_all add: is_trigger_def startswith_def name_defs)

lemma trigger_neq [simp]:
  "trigger_channel n \<noteq> TASKS_CHANNEL" "trigger_channel n \<noteq> JOIN_PREFIX @ s"
  "TASKS_CHANNEL \<noteq> JOIN_PREFIX @ s"
  by (simp_all add: trigger_channel_def name_defs)

section \<open>Writes\<close>

record channel_write =
  w_node :: pystr
  w_chan :: pystr
  w_value :: pyval
  w_seq :: nat

definition ChannelWrite :: "pystr \<Rightarrow> pystr \<Rightarrow> pyval \<Rightarrow> nat \<Rightarrow> channel_write" where
  "ChannelWrite n c v q = \<lparr>w_node = n, w_chan = c, w_value = v, w_seq = q\<rparr>"

lemma ChannelWrite_simps [simp]:
  "w_node (ChannelWrite n c v q) = n"
  "w_chan (ChannelWrite n c v q) = c"
  "w_value (ChannelWrite n c v q) = v"
  "w_seq (ChannelWrite n c v q) = q"
  by (simp_all add: ChannelWrite_def)

text \<open>A task's identity \<open>(node_id, seq)\<close>: 0 is the trigger-driven task, 1.. the Sends.\<close>

type_synonym task_id = "pystr \<times> nat"

section \<open>Commands\<close>

text \<open>
  \<open>Command(update, goto, resume, graph)\<close> of graph/routing.py: \<open>goto\<close> is a node name, a Send
  or a sequence of those, \<open>resume\<close> is unset or a value (\<open>None\<close> included), \<open>graph\<close> is
  \<open>None\<close> unless the command addresses another graph.
\<close>

record command =
  cmd_update :: "(pyval \<times> pyval) list option"
  cmd_goto :: pyval
  cmd_resume :: "pyval option"
  cmd_graph :: pyval

section \<open>Exceptions\<close>

datatype unknown_reason = Undeclared | Reserved

datatype gerror =
    PyError pyexc
  | EmptyChannelError pystr
  | UnknownChannelError pystr pystr unknown_reason
  | ChannelWriteConflictError pystr nat "pystr list"
  | BarrierMemberError pystr nat pyval "pystr set"
  | SendTargetError pystr
  | BranchDestinationError pystr pyval
  | NodeResultError pystr nat pystr
  | NodeExecutionError pystr nat pystr
  | ParentCommandError command
  | GraphInterrupt pyval pystr "pyval list"
  | MalformedDispatchOrderError pystr nat
  | SuperstepLimitError pystr nat
  | GraphRuntimeError pystr

text \<open>\<open>EventStatus\<close> and \<open>RunStatus\<close> have one value each.\<close>

record run_event =
  ev_run :: pystr
  ev_graph :: pystr
  ev_node :: pystr
  ev_superstep :: nat
  ev_digest :: pystr
  ev_task_index :: nat

definition GraphRunEvent :: "pystr \<Rightarrow> pystr \<Rightarrow> pystr \<Rightarrow> nat \<Rightarrow> pystr \<Rightarrow> nat \<Rightarrow> run_event" where
  "GraphRunEvent r g n s d i =
     \<lparr>ev_run = r, ev_graph = g, ev_node = n, ev_superstep = s, ev_digest = d, ev_task_index = i\<rparr>"

record run_result =
  rr_run :: pystr
  rr_graph :: pystr
  rr_state :: "(pystr, pyval) dict"
  rr_digest :: pystr
  rr_supersteps :: nat
  rr_events :: "run_event list"

text \<open>A channel's serialized state, and a resumable snapshot of a run.\<close>

type_synonym snap = "(pystr, pyval) dict"
type_synonym versions = "(pystr, int) dict"

record run_checkpoint =
  cp_run :: pystr
  cp_graph :: pystr
  cp_superstep :: nat
  cp_digest :: pystr
  cp_channels :: "(pystr, snap) dict"
  cp_seen :: "(pystr, versions) dict"

definition fork :: "run_checkpoint \<Rightarrow> pystr \<Rightarrow> run_checkpoint" where
  "fork cp new_run_id =
     \<lparr>cp_run = new_run_id, cp_graph = cp_graph cp, cp_superstep = cp_superstep cp,
      cp_digest = cp_digest cp, cp_channels = cp_channels cp, cp_seen = cp_seen cp\<rparr>"

end
