(* ===== verification/Channels.thy ===== *)
theory Channels
  imports GTypes
begin

text \<open>
  The versioned channels of graph/channels.py. A channel is its version, its name and the
  state of its class; \<open>chan_validate\<close>, \<open>chan_commit\<close>, \<open>chan_get\<close>,
  \<open>chan_checkpoint\<close>, \<open>chan_restore\<close> and \<open>chan_drain\<close> are the methods, by class.
  \<open>copy.deepcopy\<close> is the identity on values. The two-phase protocol every channel class
  promises is the locale \<open>two_phase\<close>, interpreted on these definitions.
\<close>

section \<open>State\<close>

datatype chan_body =
    LastValueChannel pyval
  | AppendChannel "pyval list"
  | ReducerChannel "pyval \<Rightarrow> pyval \<Rightarrow> pyexc + pyval" pyval pyval
  | TriggerChannel
  | BarrierChannel "pystr set" "pystr set"
  | TopicChannel "pyval list"

record channel =
  ch_version :: int
  ch_name :: pystr
  ch_body :: chan_body

definition new_channel :: "pystr \<Rightarrow> chan_body \<Rightarrow> channel" where
  "new_channel name b = \<lparr>ch_version = 0, ch_name = name, ch_body = b\<rparr>"

definition chan_is_empty :: "channel \<Rightarrow> bool" where
  "chan_is_empty c \<longleftrightarrow> ch_version c = 0"

section \<open>Validate\<close>

text \<open>\<open>ReducerChannel._fold\<close>, and the validation that stages it.\<close>

fun reduce_fold :: "(pyval \<Rightarrow> pyval \<Rightarrow> pyexc + pyval) \<Rightarrow> pyval \<Rightarrow> channel_write list \<Rightarrow> pyexc + pyval" where
  "reduce_fold f v [] = Inr v"
| "reduce_fold f v (w # ws) =
     (case f v (w_value w) of Inl e \<Rightarrow> Inl e | Inr v' \<Rightarrow> reduce_fold f v' ws)"

definition reducer_validate ::
    "prims \<Rightarrow> (pyval \<Rightarrow> pyval \<Rightarrow> pyexc + pyval) \<Rightarrow> pyval \<Rightarrow> channel_write list \<Rightarrow> gerror + unit" where
  "reducer_validate P f v ws =
     (if ws = [] then Inr ()
      else case reduce_fold f v ws of
        Inl e \<Rightarrow> Inl (PyError e)
      | Inr staged \<Rightarrow>
          (case json_dumps P staged of
             Inl _ \<Rightarrow> Inl (PyError (ValueError (u ''not stably JSON-serializable'')))
           | Inr _ \<Rightarrow> Inr ()))"

text \<open>
  \<open>BarrierChannel.validate\<close>: the first write whose value is no member raises; an unhashable
  value raises already in the set lookup.
\<close>

fun barrier_validate :: "pystr set \<Rightarrow> channel_write list \<Rightarrow> nat \<Rightarrow> gerror + unit" where
  "barrier_validate names [] s = Inr ()"
| "barrier_validate names (w # ws) s =
     (if \<not> py_hashable (w_value w) then Inl (PyError (TypeError (u ''unhashable type'')))
      else if w_value w \<in> PStr ` names then barrier_validate names ws s
      else Inl (BarrierMemberError (w_chan w) s (w_value w) names))"

definition last_value_validate :: "channel_write list \<Rightarrow> nat \<Rightarrow> gerror + unit" where
  "last_value_validate ws s =
     (if length ws > 1
      then Inl (ChannelWriteConflictError (w_chan (hd ws)) s (sort (map w_node ws)))
      else Inr ())"

text \<open>The method of each class; the three that are not listed here accept every group.\<close>

definition chan_validate :: "prims \<Rightarrow> channel \<Rightarrow> channel_write list \<Rightarrow> nat \<Rightarrow> gerror + unit" where
  "chan_validate P c ws s =
     (case ch_body c of
        LastValueChannel _ \<Rightarrow> last_value_validate ws s
      | AppendChannel _ \<Rightarrow> Inr ()
      | ReducerChannel f _ v \<Rightarrow> reducer_validate P f v ws
      | TriggerChannel \<Rightarrow> Inr ()
      | BarrierChannel names _ \<Rightarrow> barrier_validate names ws s
      | TopicChannel _ \<Rightarrow> Inr ())"

lemmas chan_validate_defs = chan_validate_def last_value_validate_def

section \<open>Commit\<close>

text \<open>A list value extends the accumulator, any other value is appended as one element.\<close>

definition extend_items :: "pyval list \<Rightarrow> channel_write list \<Rightarrow> pyval list" where
  "extend_items items ws =
     items @ concat (map (\<lambda>w. case w_value w of PList xs \<Rightarrow> xs | v \<Rightarrow> [v]) ws)"

text \<open>
  The set of members seen so far, write by write. A value that is not a string is never
  committed: \<open>validate\<close> has refused it (\<open>commit_after_validate\<close>).
\<close>

fun barrier_see :: "pystr set \<Rightarrow> channel_write list \<Rightarrow> pystr set \<times> (gerror + unit)" where
  "barrier_see seen [] = (seen, Inr ())"
| "barrier_see seen (w # ws) =
     (case w_value w of
        PStr m \<Rightarrow> barrier_see (insert m seen) ws
      | _ \<Rightarrow> (seen, Inl (PyError (TypeError (u ''not a member name'')))))"

definition bump :: "channel \<Rightarrow> chan_body \<Rightarrow> channel" where
  "bump c b = c\<lparr>ch_version := ch_version c + 1, ch_body := b\<rparr>"

text \<open>
  The commit of each class on a group that is not empty: the channel after the call, and
  whether its version advanced (or the exception).
\<close>

definition last_value_commit :: "channel \<Rightarrow> channel_write list \<Rightarrow> channel \<times> (gerror + bool)" where
  "last_value_commit c ws = (bump c (LastValueChannel (w_value (hd ws))), Inr True)"

definition append_commit ::
    "channel \<Rightarrow> pyval list \<Rightarrow> channel_write list \<Rightarrow> channel \<times> (gerror + bool)" where
  "append_commit c items ws = (bump c (AppendChannel (extend_items items ws)), Inr True)"

definition reducer_commit ::
    "channel \<Rightarrow> (pyval \<Rightarrow> pyval \<Rightarrow> pyexc + pyval) \<Rightarrow> pyval \<Rightarrow> pyval \<Rightarrow> channel_write list
      \<Rightarrow> channel \<times> (gerror + bool)" where
  "reducer_commit c f e v ws =
     (case reduce_fold f v ws of
        Inl x \<Rightarrow> (c, Inl (PyError x))
      | Inr v' \<Rightarrow> (bump c (ReducerChannel f e v'), Inr True))"

definition barrier_commit ::
    "channel \<Rightarrow> pystr set \<Rightarrow> pystr set \<Rightarrow> channel_write list \<Rightarrow> channel \<times> (gerror + bool)" where
  "barrier_commit c names seen ws =
     (case barrier_see seen ws of
        (seen', Inl x) \<Rightarrow> (c\<lparr>ch_body := BarrierChannel names seen'\<rparr>, Inl x)
      | (seen', Inr _) \<Rightarrow>
          (if seen' = names then (bump c (BarrierChannel names {}), Inr True)
           else (c\<lparr>ch_body := BarrierChannel names seen'\<rparr>, Inr False)))"

definition topic_commit ::
    "channel \<Rightarrow> pyval list \<Rightarrow> channel_write list \<Rightarrow> channel \<times> (gerror + bool)" where
  "topic_commit c items ws = (bump c (TopicChannel (extend_items items ws)), Inr True)"

definition chan_commit :: "channel \<Rightarrow> channel_write list \<Rightarrow> channel \<times> (gerror + bool)" where
  "chan_commit c ws =
     (if ws = [] then (c, Inr False)
      else case ch_body c of
        LastValueChannel _ \<Rightarrow> last_value_commit c ws
      | AppendChannel items \<Rightarrow> append_commit c items ws
      | ReducerChannel f e v \<Rightarrow> reducer_commit c f e v ws
      | TriggerChannel \<Rightarrow> (bump c TriggerChannel, Inr True)
      | BarrierChannel names seen \<Rightarrow> barrier_commit c names seen ws
      | TopicChannel items \<Rightarrow> topic_commit c items ws)"

lemmas chan_commit_defs = chan_commit_def last_value_commit_def append_commit_def
  reducer_commit_def barrier_commit_def topic_commit_def

section \<open>Reading\<close>

definition chan_value :: "channel \<Rightarrow> pyval" where
  "chan_value c =
     (case ch_body c of
        LastValueChannel v \<Rightarrow> v
      | AppendChannel items \<Rightarrow> PList items
      | ReducerChannel _ _ v \<Rightarrow> v
      | TriggerChannel \<Rightarrow> PBool True
      | BarrierChannel _ _ \<Rightarrow> PBool True
      | TopicChannel items \<Rightarrow> PList items)"

definition chan_get :: "channel \<Rightarrow> gerror + pyval" where
  "chan_get c =
     (if chan_is_empty c
      then Inl (EmptyChannelError (if ch_name c = [] then u ''<unbound>'' else ch_name c))
      else Inr (chan_value c))"

text \<open>\<open>TopicChannel.drain\<close> returns the items and clears them; the version stays.\<close>

definition chan_drain :: "channel \<Rightarrow> channel \<times> pyval list" where
  "chan_drain c =
     (case ch_body c of
        TopicChannel items \<Rightarrow> (c\<lparr>ch_body := TopicChannel []\<rparr>, items)
      | _ \<Rightarrow> (c, []))"

section \<open>Checkpoint and restore\<close>

definition VERSION :: pystr where "VERSION = u ''version''"
definition VALUE :: pystr where "VALUE = u ''value''"
definition ITEMS :: pystr where "ITEMS = u ''items''"
definition SEEN :: pystr where "SEEN = u ''seen''"

lemmas snap_keys = VERSION_def VALUE_def ITEMS_def SEEN_def u_def

lemma snap_keys_distinct [simp]:
  "VERSION \<noteq> VALUE" "VALUE \<noteq> VERSION" "VERSION \<noteq> ITEMS" "ITEMS \<noteq> VERSION"
  "VERSION \<noteq> SEEN" "SEEN \<noteq> VERSION" "VALUE \<noteq> ITEMS" "ITEMS \<noteq> VALUE"
  "VALUE \<noteq> SEEN" "SEEN \<noteq> VALUE" "ITEMS \<noteq> SEEN" "SEEN \<noteq> ITEMS"
  by (simp_all add: snap_keys)

definition chan_checkpoint :: "channel \<Rightarrow> snap" where
  "chan_checkpoint c =
     (VERSION, PInt (ch_version c)) #
     (case ch_body c of
        LastValueChannel v \<Rightarrow> [(VALUE, v)]
      | AppendChannel items \<Rightarrow> [(ITEMS, PList items)]
      | ReducerChannel _ _ v \<Rightarrow> [(VALUE, v)]
      | TriggerChannel \<Rightarrow> []
      | BarrierChannel _ seen \<Rightarrow> [(SEEN, PList (map PStr (sorted_list_of_set seen)))]
      | TopicChannel items \<Rightarrow> [(ITEMS, PList items)])"

text \<open>\<open>int(v)\<close> on the values a snapshot can hold.\<close>

fun py_int :: "pyval \<Rightarrow> pyexc + int" where
  "py_int (PInt i) = Inr i"
| "py_int (PBool b) = Inr (if b then 1 else 0)"
| "py_int (PFloat (FFin r)) = Inr (if r < 0 then - \<lfloor>- r\<rfloor> else \<lfloor>r\<rfloor>)"
| "py_int (PFloat FNegZero) = Inr 0"
| "py_int (PStr _) = Inl (ValueError (u ''invalid literal for int()''))"
| "py_int (PFloat _) = Inl (ValueError (u ''cannot convert float to integer''))"
| "py_int _ = Inl (TypeError (u ''int() argument must be a string or a real number''))"

definition str_set :: "pyval list \<Rightarrow> pyexc + pystr set" where
  "str_set vs =
     (if list_all is_str vs then Inr (set (map key_str vs))
      else Inl (TypeError (u ''barrier members are strings'')))"

definition restore_body :: "chan_body \<Rightarrow> snap \<Rightarrow> pyexc + chan_body" where
  "restore_body b sn =
     (case b of
        LastValueChannel _ \<Rightarrow> Inr (LastValueChannel (dget sn VALUE PNone))
      | AppendChannel _ \<Rightarrow> emap AppendChannel (py_list (dget sn ITEMS (PList [])))
      | ReducerChannel f e _ \<Rightarrow> Inr (ReducerChannel f e (dget sn VALUE e))
      | TriggerChannel \<Rightarrow> Inr TriggerChannel
      | BarrierChannel names _ \<Rightarrow>
          emap (BarrierChannel names) (ebind (py_list (dget sn SEEN (PList []))) str_set)
      | TopicChannel _ \<Rightarrow> emap TopicChannel (py_list (dget sn ITEMS (PList []))))"

definition chan_restore :: "channel \<Rightarrow> snap \<Rightarrow> pyexc + channel" where
  "chan_restore c sn =
     (case map_of sn VERSION of
        None \<Rightarrow> Inl (KeyError VERSION)
      | Some v \<Rightarrow> ebind (py_int v) (\<lambda>n.
          emap (\<lambda>b. c\<lparr>ch_version := n, ch_body := b\<rparr>) (restore_body (ch_body c) sn)))"

section \<open>Well-formed channels\<close>

text \<open>
  The names a barrier waits for are finite and not empty, and the members it has seen are
  some of them but not all (a complete set fires and is reset at once).
\<close>

definition wf_body :: "chan_body \<Rightarrow> bool" where
  "wf_body b \<longleftrightarrow>
     (case b of BarrierChannel names seen \<Rightarrow> finite names \<and> seen \<subset> names | _ \<Rightarrow> True)"

definition wf_channel :: "channel \<Rightarrow> bool" where
  "wf_channel c \<longleftrightarrow> 0 \<le> ch_version c \<and> wf_body (ch_body c)"

text \<open>The state a class starts in: two bodies are of one class when it is the same.\<close>

fun fresh_body :: "chan_body \<Rightarrow> chan_body" where
  "fresh_body (LastValueChannel _) = LastValueChannel PNone"
| "fresh_body (AppendChannel _) = AppendChannel []"
| "fresh_body (ReducerChannel f e _) = ReducerChannel f e e"
| "fresh_body TriggerChannel = TriggerChannel"
| "fresh_body (BarrierChannel names _) = BarrierChannel names {}"
| "fresh_body (TopicChannel _) = TopicChannel []"

section \<open>Facts of single channels\<close>

lemma bump_simps [simp]:
  "ch_version (bump c b) = ch_version c + 1" "ch_name (bump c b) = ch_name c"
  "ch_body (bump c b) = b"
  by (simp_all add: bump_def)

lemma barrier_validate_Inr:
  "barrier_validate names ws s = Inr () \<longleftrightarrow> (\<forall>w \<in> set ws. w_value w \<in> PStr ` names)"
  by (induction ws) auto

text \<open>The members a group of writes names.\<close>

definition members :: "channel_write list \<Rightarrow> pystr set" where
  "members ws = {m. PStr m \<in> w_value ` set ws}"

lemma members_Nil [simp]: "members [] = {}"
  by (simp add: members_def)

lemma barrier_see_ok:
  "(\<forall>w \<in> set ws. w_value w \<in> range PStr) \<Longrightarrow> barrier_see seen ws = (seen \<union> members ws, Inr ())"
  by (induction ws arbitrary: seen) (auto simp: members_def)

lemma members_subset: "barrier_validate names ws s = Inr () \<Longrightarrow> members ws \<subseteq> names"
  by (auto simp: barrier_validate_Inr members_def)

lemma barrier_see_validated:
  "barrier_validate names ws s = Inr () \<Longrightarrow> barrier_see seen ws = (seen \<union> members ws, Inr ())"
  by (rule barrier_see_ok) (auto simp: barrier_validate_Inr)

lemma chan_commit_empty [simp]: "chan_commit c [] = (c, Inr False)"
  by (simp add: chan_commit_defs)

lemma chan_commit_name [simp]: "ch_name (fst (chan_commit c ws)) = ch_name c"
  by (simp add: chan_commit_defs split: chan_body.splits sum.splits prod.splits)

lemma chan_commit_version:
  "snd (chan_commit c ws) = Inr b \<Longrightarrow>
     ch_version (fst (chan_commit c ws)) = ch_version c + (if b then 1 else 0)"
  by (auto simp: chan_commit_defs split: chan_body.splits sum.splits prod.splits if_splits)

lemma chan_commit_class:
  "fresh_body (ch_body (fst (chan_commit c ws))) = fresh_body (ch_body c)"
  by (simp add: chan_commit_defs split: chan_body.splits sum.splits prod.splits)

lemma commit_after_validate:
  assumes "chan_validate P c ws s = Inr ()"
  shows "\<exists>b. snd (chan_commit c ws) = Inr b"
  using assms
  by (auto simp: chan_validate_defs chan_commit_defs reducer_validate_def barrier_see_validated
      split: chan_body.splits sum.splits if_splits)

lemma wf_commit:
  assumes "wf_channel c" and "chan_validate P c ws s = Inr ()"
  shows "wf_channel (fst (chan_commit c ws))"
proof (cases "ch_body c")
  case (BarrierChannel names seen)
  with assms have "finite names" "seen \<subset> names" "members ws \<subseteq> names"
    and "barrier_see seen ws = (seen \<union> members ws, Inr ())"
    using members_subset barrier_see_validated
    by (force simp: wf_channel_def wf_body_def chan_validate_defs)+
  with BarrierChannel assms(1) show ?thesis
    by (auto simp: chan_commit_defs wf_channel_def wf_body_def)
qed (use assms in \<open>auto simp: chan_commit_defs wf_channel_def wf_body_def split: sum.splits\<close>)

section \<open>The two-phase protocol\<close>

text \<open>A run of supersteps: each group is validated against the channel it is committed to.\<close>

fun legal_run ::
    "('c \<Rightarrow> 'w list \<Rightarrow> nat \<Rightarrow> 'e + unit) \<Rightarrow> ('c \<Rightarrow> 'w list \<Rightarrow> 'c \<times> ('e + bool))
      \<Rightarrow> 'c \<Rightarrow> nat \<Rightarrow> 'w list list \<Rightarrow> bool" where
  "legal_run validate commit c s [] = True"
| "legal_run validate commit c s (g # gs) =
     (validate c g s = Inr () \<and> legal_run validate commit (fst (commit c g)) (Suc s) gs)"

fun commit_run :: "('c \<Rightarrow> 'w list \<Rightarrow> 'c \<times> ('e + bool)) \<Rightarrow> 'c \<Rightarrow> 'w list list \<Rightarrow> 'c" where
  "commit_run commit c [] = c"
| "commit_run commit c (g # gs) = commit_run commit (fst (commit c g)) gs"

text \<open>
  What the scheduler relies on: validation changes nothing (it has no channel among its
  results), a validated group commits without raising, an empty group commits nothing, and a
  commit advances the version by exactly one if it says so and not at all otherwise.
\<close>

locale two_phase =
  fixes validate :: "'c \<Rightarrow> 'w list \<Rightarrow> nat \<Rightarrow> 'e + unit"
    and commit :: "'c \<Rightarrow> 'w list \<Rightarrow> 'c \<times> ('e + bool)"
    and version :: "'c \<Rightarrow> int"
    and wf :: "'c \<Rightarrow> bool"
  assumes commit_total: "wf c \<Longrightarrow> validate c ws s = Inr () \<Longrightarrow> \<exists>b. snd (commit c ws) = Inr b"
    and commit_nothing: "commit c [] = (c, Inr False)"
    and commit_bump:
      "snd (commit c ws) = Inr b \<Longrightarrow> version (fst (commit c ws)) = version c + (if b then 1 else 0)"
    and commit_wf: "wf c \<Longrightarrow> validate c ws s = Inr () \<Longrightarrow> wf (fst (commit c ws))"
begin

lemma commit_version_bounds:
  assumes "wf c" and "validate c g s = Inr ()"
  shows "version c \<le> version (fst (commit c g))" "version (fst (commit c g)) \<le> version c + 1"
proof -
  from commit_total [OF assms] obtain b where "snd (commit c g) = Inr b" ..
  from commit_bump [OF this] show "version c \<le> version (fst (commit c g))"
    "version (fst (commit c g)) \<le> version c + 1" by auto
qed

lemma run_wf: "wf c \<Longrightarrow> legal_run validate commit c s gs \<Longrightarrow> wf (commit_run commit c gs)"
  by (induction gs arbitrary: c s) (auto intro: commit_wf)

lemma run_version_bounds:
  "wf c \<Longrightarrow> legal_run validate commit c s gs \<Longrightarrow>
     version c \<le> version (commit_run commit c gs) \<and>
     version (commit_run commit c gs) \<le> version c + int (length gs)"
proof (induction gs arbitrary: c s)
  case (Cons g gs)
  from Cons.prems have v: "validate c g s = Inr ()" and l: "legal_run validate commit (fst (commit c g)) (Suc s) gs"
    by auto
  from Cons.IH [OF commit_wf [OF Cons.prems(1) v] l] commit_version_bounds [OF Cons.prems(1) v]
  show ?case by auto
qed simp

end

interpretation graph_channel: two_phase "chan_validate P" chan_commit ch_version wf_channel
  by unfold_locales
    (auto simp: chan_commit_version intro: commit_after_validate wf_commit)

section \<open>Barriers\<close>

lemma barrier_commit:
  assumes "ch_body c = BarrierChannel names seen" and "barrier_validate names ws s = Inr ()"
    and "ws \<noteq> []"
  shows "chan_commit c ws =
    (if seen \<union> members ws = names then (bump c (BarrierChannel names {}), Inr True)
     else (c\<lparr>ch_body := BarrierChannel names (seen \<union> members ws)\<rparr>, Inr False))"
  using assms by (simp add: chan_commit_defs barrier_see_validated)

text \<open>Over a run, the members heard from: a barrier that has advanced has heard from all.\<close>

lemma barrier_heard:
  assumes "ch_body c = BarrierChannel names seen" and "wf_channel c"
    and "legal_run (chan_validate P) chan_commit c s gs"
  shows "\<exists>seen'. ch_body (commit_run chan_commit c gs) = BarrierChannel names seen' \<and>
    seen' \<subseteq> seen \<union> \<Union> (members ` set gs) \<and>
    (ch_version (commit_run chan_commit c gs) = ch_version c \<longrightarrow> seen' = seen \<union> \<Union> (members ` set gs)) \<and>
    (ch_version c < ch_version (commit_run chan_commit c gs) \<longrightarrow> names \<subseteq> seen \<union> \<Union> (members ` set gs))"
  using assms
proof (induction gs arbitrary: c s seen)
  case (Cons g gs)
  let ?c = "fst (chan_commit c g)"
  from Cons.prems have val: "chan_validate P c g s = Inr ()" by simp
  then have bv: "barrier_validate names g s = Inr ()"
    using Cons.prems(1) by (simp add: chan_validate_defs)
  have wf: "wf_channel ?c" using Cons.prems(2) val by (rule wf_commit)
  have leg: "legal_run (chan_validate P) chan_commit ?c (Suc s) gs" using Cons.prems(3) by simp
  have mono: "ch_version ?c \<le> ch_version (commit_run chan_commit ?c gs)"
    using graph_channel.run_version_bounds [OF wf leg] by simp
  consider (nil) "g = []" | (fire) "g \<noteq> []" "seen \<union> members g = names"
    | (wait) "g \<noteq> []" "seen \<union> members g \<noteq> names" by blast
  then show ?case
  proof cases
    case nil
    with Cons.IH [OF _ wf leg] Cons.prems(1) show ?thesis by simp
  next
    case fire
    with barrier_commit [OF Cons.prems(1) bv]
    have c: "?c = bump c (BarrierChannel names {})" by simp
    with Cons.IH [OF _ wf leg, of "{}"] fire mono show ?thesis by auto
  next
    case wait
    with barrier_commit [OF Cons.prems(1) bv]
    have c: "?c = c\<lparr>ch_body := BarrierChannel names (seen \<union> members g)\<rparr>" by simp
    with Cons.IH [OF _ wf leg, of "seen \<union> members g"] show ?thesis by (auto simp: Un_assoc)
  qed
qed simp

section \<open>Checkpoints\<close>

lemma chan_roundtrip:
  assumes "wf_channel c" and "ch_name c0 = ch_name c"
    and "fresh_body (ch_body c0) = fresh_body (ch_body c)"
  shows "chan_restore c0 (chan_checkpoint c) = Inr c"
proof -
  have "restore_body (ch_body c0) (chan_checkpoint c) = Inr (ch_body c)"
  proof (cases "ch_body c")
    case (BarrierChannel names seen)
    with assms(1) have "finite seen"
      by (auto simp: wf_channel_def wf_body_def intro: finite_subset)
    moreover have "list_all is_str (map PStr xs)" "map key_str (map PStr xs) = xs" for xs
      by (induction xs) (auto simp: is_str_def)
    ultimately show ?thesis using BarrierChannel assms(3)
      by (cases "ch_body c0") (auto simp: restore_body_def chan_checkpoint_def str_set_def dget_def)
  qed (use assms(3) in \<open>cases "ch_body c0"; auto simp: restore_body_def chan_checkpoint_def dget_def\<close>)+
  moreover have "map_of (chan_checkpoint c) VERSION = Some (PInt (ch_version c))"
    by (simp add: chan_checkpoint_def)
  ultimately show ?thesis
    using assms(2) by (simp add: chan_restore_def channel.equality)
qed

end
