(* ===== verification/Routing.thy ===== *)
theory Routing
  imports GTypes
begin

text \<open>
  Dynamic routing (graph/routing.py): Send packets, node results and commands turned into
  channel writes, and conditional branches resolved to destinations. Every failure is an
  exception of \<open>gerror\<close>, so a bad result never becomes a write.
\<close>

section \<open>Send packets\<close>

definition NODE :: pystr where "NODE = u ''node''"
definition ARG :: pystr where "ARG = u ''arg''"
definition TIMEOUT :: pystr where "TIMEOUT = u ''timeout''"

fun send_to_dict :: "pyval \<Rightarrow> pyexc + pyval" where
  "send_to_dict (PSend n a t) = Inr (PDict [(PStr NODE, PStr n), (PStr ARG, a), (PStr TIMEOUT, t)])"
| "send_to_dict _ = Inl (AttributeError (u ''to_dict''))"

fun send_from_dict :: "prims \<Rightarrow> pyval \<Rightarrow> pyexc + pyval" where
  "send_from_dict P (PDict d) =
     (case map_of d (PStr NODE) of
        None \<Rightarrow> Inl (KeyError NODE)
      | Some n \<Rightarrow> Inr (PSend (py_str P n) (vget d ARG) (vget d TIMEOUT)))"
| "send_from_dict P _ = Inl (TypeError (u ''indices must be strings''))"

lemma send_roundtrip: "send_to_dict s = Inr d \<Longrightarrow> send_from_dict P d = Inr s"
  by (cases s) (auto simp: vget_def dget_def NODE_def ARG_def TIMEOUT_def u_def)

section \<open>Commands and node results\<close>

definition PARENT :: pystr where "PARENT = u ''__parent__''"

text \<open>What a node returns: \<open>None\<close>, a \<open>Command\<close>, or any other value (a Mapping if it is a dict).\<close>

datatype node_result = RNone | RCommand command | RValue pyval

fun goto_items :: "pyval \<Rightarrow> pyexc + pyval list" where
  "goto_items (PStr s) = Inr [PStr s]"
| "goto_items (PSend n a t) = Inr [PSend n a t]"
| "goto_items v = py_list v"

definition join_channel :: "pystr list \<Rightarrow> pystr \<Rightarrow> pystr" where
  "join_channel sources target = JOIN_PREFIX @ join_str [43] (sort sources) @ [58] @ target"

text \<open>\<open>known_nodes\<close> is the list of the graph's node ids.\<close>

definition send_write ::
    "pystr \<Rightarrow> pystr \<Rightarrow> pyval \<Rightarrow> pyval \<Rightarrow> nat \<Rightarrow> pystr list \<Rightarrow> gerror + channel_write" where
  "send_write origin node arg timeout task_seq known_nodes =
     (if node \<notin> set known_nodes then Inl (SendTargetError node)
      else Inr (ChannelWrite origin TASKS_CHANNEL (PSend node arg timeout) task_seq))"

fun mapping_writes ::
    "pystr \<Rightarrow> (pyval \<times> pyval) list \<Rightarrow> pystr \<Rightarrow> nat \<Rightarrow> nat \<Rightarrow> gerror + channel_write list" where
  "mapping_writes node_id [] run_id superstep task_seq = Inr []"
| "mapping_writes node_id ((key, v) # m) run_id superstep task_seq =
     (case key of
        PStr k \<Rightarrow>
          (if is_reserved k then Inl (UnknownChannelError k node_id Reserved)
           else emap ((#) (ChannelWrite node_id k v task_seq))
                  (mapping_writes node_id m run_id superstep task_seq))
      | _ \<Rightarrow> Inl (NodeResultError run_id superstep node_id))"

definition goto_write ::
    "prims \<Rightarrow> pystr \<Rightarrow> nat \<Rightarrow> pystr list \<Rightarrow> pyval \<Rightarrow> gerror + channel_write list" where
  "goto_write P node_id task_seq known_nodes target =
     (case target of
        PSend n a t \<Rightarrow> emap (\<lambda>w. [w]) (send_write node_id n a t task_seq known_nodes)
      | PStr s \<Rightarrow>
          (if s = END then Inr []
           else if s \<in> set known_nodes
             then Inr [ChannelWrite node_id (trigger_channel s) (PBool True) task_seq]
           else Inl (SendTargetError s))
      | _ \<Rightarrow>
          (if py_hashable target then Inl (SendTargetError (py_str P target))
           else Inl (PyError (TypeError (u ''unhashable type'')))))"

definition interpret_result ::
    "prims \<Rightarrow> pystr \<Rightarrow> node_result \<Rightarrow> pystr \<Rightarrow> nat \<Rightarrow> nat \<Rightarrow> pystr list
      \<Rightarrow> gerror + channel_write list" where
  "interpret_result P node_id result run_id superstep task_seq known_nodes =
     (case result of
        RNone \<Rightarrow> Inr []
      | RCommand cmd \<Rightarrow>
          (if cmd_resume cmd \<noteq> None then Inl (NodeResultError run_id superstep node_id)
           else if cmd_graph cmd \<noteq> PNone then
             (if py_eq (cmd_graph cmd) (PStr PARENT) then Inl (ParentCommandError cmd)
              else Inl (NodeResultError run_id superstep node_id))
           else
             ebind (case cmd_update cmd of
                      None \<Rightarrow> Inr []
                    | Some m \<Rightarrow> mapping_writes node_id m run_id superstep task_seq) (\<lambda>updates.
             ebind (case goto_items (cmd_goto cmd) of Inl e \<Rightarrow> Inl (PyError e) | Inr ts \<Rightarrow> Inr ts)
               (\<lambda>targets.
             emap (\<lambda>gs. updates @ concat gs)
               (etraverse (goto_write P node_id task_seq known_nodes) targets))))
      | RValue (PDict m) \<Rightarrow> mapping_writes node_id m run_id superstep task_seq
      | RValue _ \<Rightarrow> Inl (NodeResultError run_id superstep node_id))"

section \<open>Conditional branches\<close>

type_synonym state_view = "(pystr, pyval) dict"

record branch_spec =
  br_source :: pystr
  br_path :: "state_view \<Rightarrow> gerror + pyval"
  br_map :: "(pystr, pystr) dict"

definition destinations :: "branch_spec \<Rightarrow> pystr list" where
  "destinations spec = sort (remdups (map snd (br_map spec)))"

text \<open>One item of a path's result: a Send, or a key resolved to a node name (or END).\<close>

definition resolve_item :: "branch_spec \<Rightarrow> pyval \<Rightarrow> gerror + pyval" where
  "resolve_item spec item =
     (case item of
        PSend n a t \<Rightarrow> (if n = END then Inl (SendTargetError END) else Inr item)
      | PStr s \<Rightarrow>
          (if s = START then Inl (BranchDestinationError (br_source spec) item)
           else if s = END then Inr (PStr END)
           else case map_of (br_map spec) s of
                  None \<Rightarrow> Inl (BranchDestinationError (br_source spec) item)
                | Some d \<Rightarrow> Inr (PStr d))
      | _ \<Rightarrow> Inl (BranchDestinationError (br_source spec) item))"

definition evaluate_branch :: "branch_spec \<Rightarrow> state_view \<Rightarrow> gerror + pyval list" where
  "evaluate_branch spec view =
     ebind (br_path spec view) (\<lambda>result.
     ebind (case result of
              PStr s \<Rightarrow> Inr [PStr s]
            | PSend n a t \<Rightarrow> Inr [PSend n a t]
            | PList xs \<Rightarrow> Inr xs
            | PTuple xs \<Rightarrow> Inr xs
            | _ \<Rightarrow> Inl (BranchDestinationError (br_source spec) result))
       (etraverse (resolve_item spec)))"

section \<open>What the writes are\<close>

text \<open>
  The writes a result turns into: the node's own task sequence and origin, a user channel, the
  trigger of a known node, or a Send to a known node.
\<close>

definition routed_write :: "pystr \<Rightarrow> nat \<Rightarrow> pystr list \<Rightarrow> channel_write \<Rightarrow> bool" where
  "routed_write node_id task_seq known w \<longleftrightarrow>
     w_node w = node_id \<and> w_seq w = task_seq \<and>
     (\<not> is_reserved (w_chan w) \<or>
      (\<exists>n \<in> set known. w_chan w = trigger_channel n) \<or>
      (w_chan w = TASKS_CHANNEL \<and> (\<exists>n \<in> set known. \<exists>a t. w_value w = PSend n a t)))"

lemma send_write_Inr [err_elims]:
  "send_write o' n a t q known = Inr w \<longleftrightarrow>
     n \<in> set known \<and> w = ChannelWrite o' TASKS_CHANNEL (PSend n a t) q"
  by (auto simp: send_write_def)

lemma mapping_writes_keys:
  "mapping_writes n m r s q = Inr ws \<Longrightarrow>
     \<exists>d. m = map (\<lambda>(k, v). (PStr k, v)) d \<and> ws = map (\<lambda>(k, v). ChannelWrite n k v q) d \<and>
         (\<forall>(k, v) \<in> set d. \<not> is_reserved k)"
proof (induction m arbitrary: ws)
  case (Cons kv m)
  obtain key v where kv: "kv = (key, v)" by (cases kv)
  with Cons.prems obtain k ws' where k: "key = PStr k" "\<not> is_reserved k"
    and ws': "mapping_writes n m r s q = Inr ws'" "ws = ChannelWrite n k v q # ws'"
    by (auto simp: emap_Inr_iff split: pyval.splits if_splits)
  from Cons.IH [OF ws'(1)] obtain d where "m = map (\<lambda>(k, v). (PStr k, v)) d"
    "ws' = map (\<lambda>(k, v). ChannelWrite n k v q) d" "\<forall>(k, v) \<in> set d. \<not> is_reserved k" by blast
  with k ws' kv show ?case by (intro exI [of _ "(k, v) # d"]) auto
qed simp

lemma mapping_writes_routed:
  "mapping_writes n m r s q = Inr ws \<Longrightarrow> w \<in> set ws \<Longrightarrow> routed_write n q known w"
  by (drule mapping_writes_keys) (fastforce simp: routed_write_def)

lemma goto_write_routed:
  "goto_write P n q known t = Inr ws \<Longrightarrow> w \<in> set ws \<Longrightarrow> routed_write n q known w"
  by (auto simp: goto_write_def routed_write_def emap_Inr_iff send_write_Inr
      split: pyval.splits if_splits)

lemma interpret_result_routed:
  assumes "interpret_result P n res r s q known = Inr ws" and "w \<in> set ws"
  shows "routed_write n q known w"
proof (cases res)
  case (RCommand cmd)
  with assms(1) obtain ups ts gs where
    ups: "(case cmd_update cmd of None \<Rightarrow> Inr [] | Some m \<Rightarrow> mapping_writes n m r s q) = Inr ups"
    and gs: "etraverse (goto_write P n q known) ts = Inr gs" and ws: "ws = ups @ concat gs"
    by (auto simp: interpret_result_def ebind_Inr_iff emap_Inr_iff split: if_splits)
  show ?thesis
  proof (cases "w \<in> set ups")
    case True
    with ups show ?thesis by (auto split: option.splits intro: mapping_writes_routed)
  next
    case False
    with assms(2) ws obtain g where "g \<in> set gs" "w \<in> set g" by auto
    moreover from gs this have "\<exists>t \<in> set ts. goto_write P n q known t = Inr g"
      by (auto simp: etraverse_Inr_iff) (metis image_iff list.set_map)
    ultimately show ?thesis using goto_write_routed by blast
  qed
next
  case (RValue v)
  with assms show ?thesis
    by (cases v) (auto simp: interpret_result_def intro: mapping_writes_routed)
qed (use assms in \<open>simp add: interpret_result_def\<close>)

lemma resolve_item_known:
  assumes "resolve_item spec i = Inr d"
  shows "(\<exists>n a t. d = PSend n a t \<and> n \<noteq> END) \<or> d = PStr END \<or> (\<exists>x \<in> set (destinations spec). d = PStr x)"
  using assms
  by (auto simp: resolve_item_def destinations_def split: pyval.splits if_splits option.splits
      dest!: map_of_snd)

lemma evaluate_branch_known:
  assumes "evaluate_branch spec view = Inr ds" and "d \<in> set ds"
  shows "(\<exists>n a t. d = PSend n a t \<and> n \<noteq> END) \<or> d = PStr END \<or> (\<exists>x \<in> set (destinations spec). d = PStr x)"
proof -
  from assms(1) obtain xs where "etraverse (resolve_item spec) xs = Inr ds"
    by (auto simp: evaluate_branch_def ebind_Inr_iff)
  with assms(2) obtain i where "resolve_item spec i = Inr d"
    by (auto simp: etraverse_Inr_iff) (metis image_iff list.set_map)
  then show ?thesis by (rule resolve_item_known)
qed

end
