(* ===== verification/GState.thy ===== *)
theory GState
  imports Channels Routing
begin

text \<open>
  The committed graph state of graph/state.py: named channels behind a barrier that validates
  every write group before it commits any, the snapshot nodes read, its digest, and the
  checkpoint of all channels. Channel factories are the bodies they make.
\<close>

section \<open>Digests\<close>

definition json_dict :: "(pystr, pyval) dict \<Rightarrow> pyval" where
  "json_dict d = PDict (map (\<lambda>(k, v). (PStr k, v)) d)"

definition state_digest :: "prims \<Rightarrow> (pystr, pyval) dict \<Rightarrow> pyexc + pystr" where
  "state_digest P snapshot =
     ebind (json_dumps P (json_dict snapshot)) (\<lambda>payload.
     ebind (encode_utf8 payload) (\<lambda>b. Inr (u ''sha256:'' @ hex (sha256 P b))))"

section \<open>The state and its channels\<close>

record gstate =
  gs_channels :: "(pystr, channel) dict"

definition GraphState :: "(pystr, chan_body) dict \<Rightarrow> gstate" where
  "GraphState factories =
     \<lparr>gs_channels = foldl (\<lambda>d (name, b). dset name (new_channel name b) d) [] factories\<rparr>"

definition put_channel :: "gstate \<Rightarrow> pystr \<Rightarrow> channel \<Rightarrow> gstate" where
  "put_channel st name c = st\<lparr>gs_channels := dset name c (gs_channels st)\<rparr>"

text \<open>
  \<open>GraphState.channel\<close>: a missing trigger channel is registered on demand, any other missing
  name raises.
\<close>

definition get_channel :: "gstate \<Rightarrow> pystr \<Rightarrow> gstate \<times> (gerror + channel)" where
  "get_channel st name =
     (if is_trigger name then
        (case map_of (gs_channels st) name of
           Some c \<Rightarrow> (st, Inr c)
         | None \<Rightarrow> (let c = new_channel name TriggerChannel in (put_channel st name c, Inr c)))
      else if is_reserved name then
        (case map_of (gs_channels st) name of
           Some c \<Rightarrow> (st, Inr c)
         | None \<Rightarrow> (st, Inl (UnknownChannelError name [] Reserved)))
      else
        (case map_of (gs_channels st) name of
           Some c \<Rightarrow> (st, Inr c)
         | None \<Rightarrow> (st, Inl (UnknownChannelError name [] Undeclared))))"

section \<open>The commit barrier\<close>

definition group_writes :: "channel_write list \<Rightarrow> (pystr, channel_write list) dict" where
  "group_writes ws = foldl (\<lambda>g w. dappend g (w_chan w) w) [] ws"

text \<open>The channel a group is validated against: a missing trigger channel is a temporary one.\<close>

definition validation_channel :: "gstate \<Rightarrow> pystr \<Rightarrow> gerror + channel" where
  "validation_channel st name =
     (case map_of (gs_channels st) name of
        Some c \<Rightarrow> Inr c
      | None \<Rightarrow> if is_trigger name then Inr (new_channel name TriggerChannel)
                else snd (get_channel st name))"

fun json_check :: "prims \<Rightarrow> channel_write list \<Rightarrow> gerror + unit" where
  "json_check P [] = Inr ()"
| "json_check P (w # ws) =
     (case json_dumps P (w_value w) of
        Inl _ \<Rightarrow> Inl (PyError (ValueError (u ''not stably JSON-serializable'')))
      | Inr _ \<Rightarrow> json_check P ws)"

definition validate_group ::
    "prims \<Rightarrow> gstate \<Rightarrow> (pystr, channel_write list) dict \<Rightarrow> nat \<Rightarrow> pystr \<Rightarrow> gerror + unit" where
  "validate_group P st groups superstep name =
     ebind (validation_channel st name) (\<lambda>c.
     ebind (chan_validate P c (dget groups name []) superstep) (\<lambda>_.
       if is_reserved name then Inr () else json_check P (dget groups name [])))"

definition validate_grouped_writes ::
    "prims \<Rightarrow> gstate \<Rightarrow> (pystr, channel_write list) dict \<Rightarrow> nat \<Rightarrow> gerror + unit" where
  "validate_grouped_writes P st groups superstep =
     efold (\<lambda>_ name. validate_group P st groups superstep name) () (sort (keys groups))"

definition validate_writes :: "prims \<Rightarrow> gstate \<Rightarrow> channel_write list \<Rightarrow> nat \<Rightarrow> gerror + unit" where
  "validate_writes P st ws superstep =
     validate_grouped_writes P st (group_writes ws) superstep"

fun commit_groups ::
    "gstate \<Rightarrow> (pystr, channel_write list) dict \<Rightarrow> pystr list \<Rightarrow> pystr set
      \<Rightarrow> gstate \<times> (gerror + pystr set)" where
  "commit_groups st groups [] advanced = (st, Inr advanced)"
| "commit_groups st groups (name # names) advanced =
     (case get_channel st name of
        (st', Inl e) \<Rightarrow> (st', Inl e)
      | (st', Inr c) \<Rightarrow>
          (case chan_commit c (dget groups name []) of
             (c', Inl e) \<Rightarrow> (put_channel st' name c', Inl e)
           | (c', Inr b) \<Rightarrow>
               commit_groups (put_channel st' name c') groups names
                 (if b then insert (ch_name c') advanced else advanced)))"

text \<open>The state after the call, also when it raises.\<close>

definition apply_writes ::
    "prims \<Rightarrow> gstate \<Rightarrow> channel_write list \<Rightarrow> nat \<Rightarrow> gstate \<times> (gerror + pystr set)" where
  "apply_writes P st ws superstep =
     (let groups = group_writes ws in
      case validate_grouped_writes P st groups superstep of
        Inl e \<Rightarrow> (st, Inl e)
      | Inr _ \<Rightarrow> commit_groups st groups (sort (keys groups)) {})"

section \<open>Reading\<close>

definition gs_versions :: "gstate \<Rightarrow> versions" where
  "gs_versions st = map (\<lambda>(name, c). (name, ch_version c)) (gs_channels st)"

definition snapshot :: "gstate \<Rightarrow> state_view" where
  "snapshot st =
     map (\<lambda>(name, c). (name, chan_value c))
       (filter (\<lambda>(name, c). \<not> is_reserved name \<and> \<not> chan_is_empty c)
         (sort_key fst (gs_channels st)))"

definition gs_digest :: "prims \<Rightarrow> gstate \<Rightarrow> pyexc + pystr" where
  "gs_digest P st = state_digest P (snapshot st)"

section \<open>Checkpoint and restore\<close>

text \<open>The snapshot of a channel; the Send packets of the task channel are serialized.\<close>

definition checkpoint_one :: "pystr \<times> channel \<Rightarrow> pyexc + (pystr \<times> snap)" where
  "checkpoint_one = (\<lambda>(name, c).
     let sn = chan_checkpoint c in
     if name = TASKS_CHANNEL \<and> has_key sn ITEMS then
       ebind (py_list (dget sn ITEMS PNone)) (\<lambda>items.
       emap (\<lambda>ds. (name, dset ITEMS (PList ds) sn)) (etraverse send_to_dict items))
     else Inr (name, sn))"

definition checkpoint_channels :: "gstate \<Rightarrow> pyexc + (pystr, snap) dict" where
  "checkpoint_channels st = etraverse checkpoint_one (gs_channels st)"

definition restore_one :: "prims \<Rightarrow> gstate \<Rightarrow> pystr \<times> snap \<Rightarrow> gerror + gstate" where
  "restore_one P st = (\<lambda>(name, sn).
     case get_channel st name of
       (_, Inl e) \<Rightarrow> Inl e
     | (st', Inr c) \<Rightarrow>
         (case (if name = TASKS_CHANNEL \<and> has_key sn ITEMS then
                  ebind (py_list (dget sn ITEMS PNone)) (\<lambda>ds.
                  emap (\<lambda>items. dset ITEMS (PList items) sn) (etraverse (send_from_dict P) ds))
                else Inr sn) of
            Inl e \<Rightarrow> Inl (PyError e)
          | Inr sn' \<Rightarrow>
              (case chan_restore c sn' of
                 Inl e \<Rightarrow> Inl (PyError e)
               | Inr c' \<Rightarrow> Inr (put_channel st' name c'))))"

definition restore_channels :: "prims \<Rightarrow> gstate \<Rightarrow> (pystr, snap) dict \<Rightarrow> gerror + gstate" where
  "restore_channels P st snapshots = efold (restore_one P) st snapshots"

section \<open>The view of a branch\<close>

fun view_groups ::
    "prims \<Rightarrow> gstate \<Rightarrow> nat \<Rightarrow> state_view \<Rightarrow> (pystr, channel_write list) dict \<Rightarrow> gerror + state_view" where
  "view_groups P st superstep view [] = Inr view"
| "view_groups P st superstep view ((name, grp) # gs) =
     ebind (snd (get_channel st name)) (\<lambda>c.
     ebind (chan_validate P c grp superstep) (\<lambda>_.
     ebind (snd (chan_commit c grp)) (\<lambda>_.
     ebind (chan_get (fst (chan_commit c grp))) (\<lambda>v.
       view_groups P st superstep (dset name v view) gs))))"

definition own_writes_view ::
    "prims \<Rightarrow> gstate \<Rightarrow> channel_write list \<Rightarrow> nat \<Rightarrow> gerror + state_view" where
  "own_writes_view P st ws superstep =
     view_groups P st superstep (snapshot st)
       (group_writes (filter (\<lambda>w. \<not> is_reserved (w_chan w)) ws))"

section \<open>Grouping\<close>

lemma group_writes_snoc: "group_writes (ws @ [w]) = dappend (group_writes ws) (w_chan w) w"
  by (simp add: group_writes_def)

lemma group_writes_Nil [simp]: "group_writes [] = []"
  by (simp add: group_writes_def)

lemma dget_group_writes [simp]:
  "dget (group_writes ws) n [] = filter (\<lambda>w. w_chan w = n) ws"
  by (induction ws rule: rev_induct) (auto simp: group_writes_snoc)

lemma has_key_group_writes [simp]: "has_key (group_writes ws) n \<longleftrightarrow> n \<in> w_chan ` set ws"
  by (induction ws rule: rev_induct) (auto simp: group_writes_snoc)

lemma wf_dict_group_writes [simp]: "wf_dict (group_writes ws)"
  by (induction ws rule: rev_induct) (auto simp: group_writes_snoc)

lemma set_keys_group_writes [simp]: "fst ` set (group_writes ws) = w_chan ` set ws"
  using has_key_group_writes [of ws] by (auto simp: has_key_def)

lemma group_writes_eqI:
  assumes "\<And>n. filter (\<lambda>w. w_chan w = n) ws = filter (\<lambda>w. w_chan w = n) vs"
  shows "sort (keys (group_writes ws)) = sort (keys (group_writes vs))"
proof -
  have "n \<in> w_chan ` set ws \<longleftrightarrow> n \<in> w_chan ` set vs" for n
  proof -
    have "n \<in> w_chan ` set ws \<longleftrightarrow> filter (\<lambda>w. w_chan w = n) ws \<noteq> []" for ws
      by (auto simp: filter_empty_conv)
    from this [of ws] this [of vs] assms [of n] show ?thesis by simp
  qed
  then have "w_chan ` set ws = w_chan ` set vs" by blast
  moreover have "distinct (keys (group_writes ws))" for ws
    using wf_dict_group_writes [of ws] by (simp add: wf_dict_def)
  ultimately have "mset (keys (group_writes ws)) = mset (keys (group_writes vs))"
    by (intro iffD1 [OF set_eq_iff_mset_eq_distinct]) simp_all
  then show ?thesis by (metis mset_sort properties_for_sort sorted_sort)
qed

section \<open>Well-formed states\<close>

definition is_send :: "pyval \<Rightarrow> bool" where
  "is_send v \<longleftrightarrow> (case v of PSend _ _ _ \<Rightarrow> True | _ \<Rightarrow> False)"

definition wf_entry :: "pystr \<times> channel \<Rightarrow> bool" where
  "wf_entry = (\<lambda>(n, c). ch_name c = n \<and> wf_channel c \<and>
     (is_trigger n \<longrightarrow> ch_body c = TriggerChannel) \<and>
     (n = TASKS_CHANNEL \<longrightarrow> (\<exists>items. ch_body c = TopicChannel items \<and> list_all is_send items)))"

definition wf_state :: "gstate \<Rightarrow> bool" where
  "wf_state st \<longleftrightarrow> wf_dict (gs_channels st) \<and> list_all wf_entry (gs_channels st)"

lemma wf_state_map_of: "wf_state st \<Longrightarrow> map_of (gs_channels st) n = Some c \<Longrightarrow> wf_entry (n, c)"
  by (auto simp: wf_state_def list_all_iff dest: map_of_SomeD)

lemma wf_state_put:
  assumes "wf_state st" and "wf_entry (n, c)"
  shows "wf_state (put_channel st n c)"
  using assms by (auto simp: wf_state_def put_channel_def list_all_iff set_dset)

lemma map_of_put [simp]:
  "map_of (gs_channels (put_channel st n c)) = (map_of (gs_channels st))(n \<mapsto> c)"
  by (simp add: put_channel_def)

lemma new_channel_simps [simp]:
  "ch_version (new_channel n b) = 0" "ch_name (new_channel n b) = n" "ch_body (new_channel n b) = b"
  by (simp_all add: new_channel_def)

lemma wf_new_trigger [simp]: "is_trigger n \<Longrightarrow> wf_entry (n, new_channel n TriggerChannel)"
  by (auto simp: wf_entry_def wf_channel_def wf_body_def)

text \<open>The channel a name denotes at the barrier, the temporary trigger included.\<close>

definition resolve :: "gstate \<Rightarrow> pystr \<Rightarrow> channel option" where
  "resolve st n =
     (case map_of (gs_channels st) n of
        Some c \<Rightarrow> Some c
      | None \<Rightarrow> if is_trigger n then Some (new_channel n TriggerChannel) else None)"

lemma validation_channel_Inr: "validation_channel st n = Inr c \<longleftrightarrow> resolve st n = Some c"
  by (auto simp: validation_channel_def resolve_def get_channel_def split: option.splits)

lemma get_channel_resolve:
  "resolve st n = Some c \<Longrightarrow> \<exists>st'. get_channel st n = (st', Inr c) \<and>
     (\<forall>d. put_channel st' n d = put_channel st n d)"
  by (auto simp: resolve_def get_channel_def put_channel_def Let_def split: option.splits if_splits)

lemma wf_resolve: "wf_state st \<Longrightarrow> resolve st n = Some c \<Longrightarrow> wf_entry (n, c)"
  by (auto simp: resolve_def wf_state_map_of split: option.splits if_splits)

lemma resolve_put [simp]:
  "resolve (put_channel st n c) m = (if m = n then Some c else resolve st m)"
  by (simp add: resolve_def)

section \<open>The barrier commits all or nothing\<close>

lemma efold_unit_Inr:
  "efold (\<lambda>_ x. f x) () xs = Inr () \<longleftrightarrow> (\<forall>x \<in> set xs. f x = Inr ())"
  by (induction xs) (auto split: sum.splits)

lemma validate_grouped_Inr:
  "validate_grouped_writes P st groups s = Inr () \<longleftrightarrow>
     (\<forall>n. has_key groups n \<longrightarrow> validate_group P st groups s n = Inr ())"
  by (auto simp: validate_grouped_writes_def efold_unit_Inr has_key_def)

lemma validate_group_Inr:
  "validate_group P st groups s n = Inr () \<longleftrightarrow>
     (\<exists>c. resolve st n = Some c \<and> chan_validate P c (dget groups n []) s = Inr () \<and>
          (is_reserved n \<or> json_check P (dget groups n []) = Inr ()))"
  by (auto simp: validate_group_def ebind_Inr_iff validation_channel_Inr)

text \<open>
  Committing the groups of some distinct names, each of which has validated: it never raises,
  and every channel is the one its own group makes of it.
\<close>

lemma image_Cons_if:
  "{f m | m. m \<in> set (n # ns) \<and> Q m} = (if Q n then {f n} else {}) \<union> {f m | m. m \<in> set ns \<and> Q m}"
  by auto

lemma image_set_cong:
  assumes "\<And>m. m \<in> S \<Longrightarrow> f m = g m" and "\<And>m. m \<in> S \<Longrightarrow> Q m \<longleftrightarrow> R m"
  shows "{f m | m. m \<in> S \<and> Q m} = {g m | m. m \<in> S \<and> R m}"
  using assms by (metis (no_types, lifting))

lemma commit_groups_ok:
  assumes "distinct names"
    and "\<And>n. n \<in> set names \<Longrightarrow> \<exists>c b. resolve st n = Some c \<and> snd (chan_commit c (dget groups n [])) = Inr b"
  shows "\<exists>st' adv'. commit_groups st groups names adv = (st', Inr adv') \<and>
    (\<forall>n. map_of (gs_channels st') n =
       (if n \<in> set names then Some (fst (chan_commit (the (resolve st n)) (dget groups n [])))
        else map_of (gs_channels st) n)) \<and>
    adv' = adv \<union> {ch_name (the (resolve st n)) | n. n \<in> set names \<and>
       snd (chan_commit (the (resolve st n)) (dget groups n [])) = Inr True}"
  using assms
proof (induction names arbitrary: st adv)
  case (Cons n names)
  from Cons.prems(2) [of n] obtain c b where c: "resolve st n = Some c"
    and b: "snd (chan_commit c (dget groups n [])) = Inr b" by auto
  from get_channel_resolve [OF c] obtain st0 where st0: "get_channel st n = (st0, Inr c)"
    and put: "\<And>d. put_channel st0 n d = put_channel st n d" by blast
  obtain c' where c': "chan_commit c (dget groups n []) = (c', Inr b)"
    using b by (metis prod.collapse)
  have name: "ch_name c' = ch_name c"
    using chan_commit_name [of c "dget groups n []"] c' by simp
  let ?st = "put_channel st n c'" and ?adv = "if b then insert (ch_name c') adv else adv"
  have step: "commit_groups st groups (n # names) adv = commit_groups ?st groups names ?adv"
    by (simp add: st0 c' put)
  have d: "distinct names" "n \<notin> set names" using Cons.prems(1) by auto
  have res: "resolve ?st m = resolve st m" if "m \<in> set names" for m
    using d that by auto
  have "\<exists>c b. resolve ?st m = Some c \<and> snd (chan_commit c (dget groups m [])) = Inr b"
    if "m \<in> set names" for m
    using Cons.prems(2) [of m] that res by auto
  from Cons.IH [OF d(1) this, of ?adv] obtain st' adv' where
    run: "commit_groups ?st groups names ?adv = (st', Inr adv')" and
    look: "\<forall>m. map_of (gs_channels st') m =
       (if m \<in> set names then Some (fst (chan_commit (the (resolve ?st m)) (dget groups m [])))
        else map_of (gs_channels ?st) m)" and
    adv': "adv' = ?adv \<union> {ch_name (the (resolve ?st m)) | m. m \<in> set names \<and>
       snd (chan_commit (the (resolve ?st m)) (dget groups m [])) = Inr True}" by blast
  have "map_of (gs_channels st') m =
       (if m \<in> set (n # names) then Some (fst (chan_commit (the (resolve st m)) (dget groups m [])))
        else map_of (gs_channels st) m)" for m
  proof (cases "m \<in> set names")
    case True
    have r: "resolve ?st m = resolve st m" using True by (rule res)
    have "map_of (gs_channels st') m =
      Some (fst (chan_commit (the (resolve ?st m)) (dget groups m [])))"
      using look True by simp
    with r True show ?thesis by simp
  next
    case False
    with look have "map_of (gs_channels st') m = map_of (gs_channels ?st) m" by simp
    with False c c' show ?thesis by simp
  qed
  moreover have "adv' = adv \<union> {ch_name (the (resolve st m)) | m. m \<in> set (n # names) \<and>
       snd (chan_commit (the (resolve st m)) (dget groups m [])) = Inr True}"
  proof -
    have "{ch_name (the (resolve ?st m)) | m. m \<in> set names \<and>
       snd (chan_commit (the (resolve ?st m)) (dget groups m [])) = Inr True} =
      {ch_name (the (resolve st m)) | m. m \<in> set names \<and>
       snd (chan_commit (the (resolve st m)) (dget groups m [])) = Inr True}"
      by (rule image_set_cong) (simp_all only: res)
    with adv' have a: "adv' = ?adv \<union> {ch_name (the (resolve st m)) | m. m \<in> set names \<and>
       snd (chan_commit (the (resolve st m)) (dget groups m [])) = Inr True}" (is "_ = _ \<union> ?R") by simp
    have n: "snd (chan_commit (the (resolve st n)) (dget groups n [])) = Inr b"
      "ch_name (the (resolve st n)) = ch_name c'" using c b name by simp_all
    have "?adv \<union> ?R = adv \<union> ((if b then {ch_name c'} else {}) \<union> ?R)" by (cases b) simp_all
    then show ?thesis unfolding image_Cons_if a n by (cases b) (simp_all only: sum.inject if_True if_False simp_thms)
  qed
  ultimately show ?case using step run by auto
qed auto


lemma commit_groups_wf_dict:
  "wf_dict (gs_channels st) \<Longrightarrow> wf_dict (gs_channels (fst (commit_groups st groups names adv)))"
proof (induction names arbitrary: st adv)
  case (Cons n names)
  have "wf_dict (gs_channels (fst (get_channel st n)))"
    using Cons.prems by (simp add: get_channel_def put_channel_def Let_def split: option.splits)
  then show ?case using Cons.IH
    by (auto simp: put_channel_def split: prod.splits sum.splits)
qed simp

text \<open>What the barrier does when every group validates.\<close>

lemma apply_writes_ok:
  assumes "validate_writes P st ws s = Inr ()"
  obtains st' adv where "apply_writes P st ws s = (st', Inr adv)"
    and "\<And>n. map_of (gs_channels st') n =
       (if n \<in> w_chan ` set ws
        then Some (fst (chan_commit (the (resolve st n)) (filter (\<lambda>w. w_chan w = n) ws)))
        else map_of (gs_channels st) n)"
    and "adv = {ch_name (the (resolve st n)) | n. n \<in> w_chan ` set ws \<and>
       snd (chan_commit (the (resolve st n)) (filter (\<lambda>w. w_chan w = n) ws)) = Inr True}"
    and "\<And>n. n \<in> w_chan ` set ws \<Longrightarrow> \<exists>c. resolve st n = Some c \<and>
       chan_validate P c (filter (\<lambda>w. w_chan w = n) ws) s = Inr ()"
proof -
  let ?g = "group_writes ws" and ?names = "sort (keys (group_writes ws))"
  have v: "validate_grouped_writes P st ?g s = Inr ()"
    using assms by (simp add: validate_writes_def)
  have val: "\<exists>c. resolve st n = Some c \<and> chan_validate P c (filter (\<lambda>w. w_chan w = n) ws) s = Inr ()"
    if "n \<in> w_chan ` set ws" for n
    using v that by (auto simp: validate_grouped_Inr validate_group_Inr)
  have "distinct ?names" using wf_dict_group_writes [of ws] by (simp add: wf_dict_def)
  moreover have "\<exists>c b. resolve st n = Some c \<and> snd (chan_commit c (dget ?g n [])) = Inr b"
    if "n \<in> set ?names" for n
  proof -
    from that have "n \<in> w_chan ` set ws" by simp
    from val [OF this] show ?thesis using commit_after_validate by fastforce
  qed
  ultimately obtain st' adv where "commit_groups st ?g ?names {} = (st', Inr adv)"
    and "\<forall>n. map_of (gs_channels st') n =
       (if n \<in> set ?names then Some (fst (chan_commit (the (resolve st n)) (dget ?g n [])))
        else map_of (gs_channels st) n)"
    and "adv = {} \<union> {ch_name (the (resolve st n)) | n. n \<in> set ?names \<and>
       snd (chan_commit (the (resolve st n)) (dget ?g n [])) = Inr True}"
    using commit_groups_ok [of ?names st ?g "{}"] by blast
  then show ?thesis using v val
    by (intro that [of st' adv]) (simp_all add: apply_writes_def)
qed

lemma apply_writes_cases:
  "(\<exists>e. validate_writes P st ws s = Inl e \<and> apply_writes P st ws s = (st, Inl e)) \<or>
   (validate_writes P st ws s = Inr () \<and> (\<exists>st' adv. apply_writes P st ws s = (st', Inr adv)))"
proof (cases "validate_writes P st ws s")
  case (Inl e)
  then show ?thesis by (simp add: apply_writes_def validate_writes_def)
next
  case (Inr x)
  then have "validate_writes P st ws s = Inr ()" by simp
  then have "\<exists>st' adv. apply_writes P st ws s = (st', Inr adv)" by (rule apply_writes_ok) blast
  with Inr show ?thesis by simp
qed

text \<open>The writes a task channel accepts.\<close>

definition sends_only :: "channel_write list \<Rightarrow> bool" where
  "sends_only ws \<longleftrightarrow> (\<forall>w \<in> set ws. w_chan w = TASKS_CHANNEL \<longrightarrow> is_send (w_value w))"

lemma extend_sends:
  "list_all is_send items \<Longrightarrow> \<forall>w \<in> set ws. is_send (w_value w) \<Longrightarrow> list_all is_send (extend_items items ws)"
  by (auto simp: extend_items_def list_all_iff is_send_def split: pyval.splits)

lemma chan_commit_body:
  "ch_body c = TriggerChannel \<Longrightarrow> ch_body (fst (chan_commit c ws)) = TriggerChannel"
  "ch_body c = TopicChannel items \<Longrightarrow>
     ch_body (fst (chan_commit c ws)) = TopicChannel (extend_items items ws)"
  by (auto simp: chan_commit_defs extend_items_def)

lemma wf_entry_commit:
  assumes "wf_entry (n, c)" and "chan_validate P c ws s = Inr ()"
    and "n = TASKS_CHANNEL \<Longrightarrow> \<forall>w \<in> set ws. is_send (w_value w)"
  shows "wf_entry (n, fst (chan_commit c ws))"
  using assms wf_commit [of c P ws s] chan_commit_body [of c] extend_sends
  by (fastforce simp: wf_entry_def)

lemma apply_writes_wf:
  assumes "wf_state st" and "sends_only ws" and "apply_writes P st ws s = (st', r)"
  shows "wf_state st'"
proof (cases "validate_writes P st ws s")
  case (Inl e)
  with assms show ?thesis by (simp add: apply_writes_def validate_writes_def)
next
  case (Inr x)
  then have "validate_writes P st ws s = Inr ()" by simp
  then obtain st1 adv where run: "apply_writes P st ws s = (st1, Inr adv)"
    and look: "\<And>n. map_of (gs_channels st1) n =
       (if n \<in> w_chan ` set ws
        then Some (fst (chan_commit (the (resolve st n)) (filter (\<lambda>w. w_chan w = n) ws)))
        else map_of (gs_channels st) n)"
    and val: "\<And>n. n \<in> w_chan ` set ws \<Longrightarrow> \<exists>c. resolve st n = Some c \<and>
       chan_validate P c (filter (\<lambda>w. w_chan w = n) ws) s = Inr ()"
    by (rule apply_writes_ok) auto
  have "wf_dict (gs_channels (fst (apply_writes P st ws s)))"
    using assms(1) commit_groups_wf_dict [of st]
    by (simp add: apply_writes_def Let_def wf_state_def split: sum.splits)
  then have wfd: "wf_dict (gs_channels st1)" using run by simp
  have "wf_entry (n, c)" if "(n, c) \<in> set (gs_channels st1)" for n c
  proof (cases "n \<in> w_chan ` set ws")
    case True
    from val [OF True] obtain d where d: "resolve st n = Some d"
      "chan_validate P d (filter (\<lambda>w. w_chan w = n) ws) s = Inr ()" by blast
    have "\<forall>w \<in> set (filter (\<lambda>w. w_chan w = n) ws). is_send (w_value w)" if "n = TASKS_CHANNEL"
      using that assms(2) by (auto simp: sends_only_def)
    from wf_entry_commit [OF wf_resolve [OF assms(1) d(1)] d(2) this]
    have "wf_entry (n, fst (chan_commit d (filter (\<lambda>w. w_chan w = n) ws)))" .
    moreover have "c = fst (chan_commit d (filter (\<lambda>w. w_chan w = n) ws))"
      using look [of n] True d(1) that wfd by (simp add: wf_dict_map_of)
    ultimately show ?thesis by simp
  next
    case False
    with look [of n] that wfd have "map_of (gs_channels st) n = Some c" by (simp add: wf_dict_map_of)
    then show ?thesis using assms(1) by (simp add: wf_state_map_of)
  qed
  with wfd have "wf_state st1" by (auto simp: wf_state_def list_all_iff)
  with run assms(3) show ?thesis by simp
qed

section \<open>The order of writes across channels does not matter\<close>

lemma commit_groups_cong:
  "(\<And>n. n \<in> set names \<Longrightarrow> dget g n [] = dget g' n []) \<Longrightarrow>
     commit_groups st g names adv = commit_groups st g' names adv"
  by (induction names arbitrary: st adv) (auto split: prod.splits sum.splits)

lemma validate_grouped_cong:
  "sort (keys g) = sort (keys g') \<Longrightarrow> (\<And>n. dget g n [] = dget g' n []) \<Longrightarrow>
     validate_grouped_writes P st g s = validate_grouped_writes P st g' s"
proof -
  assume k: "sort (keys g) = sort (keys g')" and d: "\<And>n. dget g n [] = dget g' n []"
  have "validate_group P st g s n = validate_group P st g' s n" for n
    unfolding validate_group_def d ..
  then have "validate_group P st g s = validate_group P st g' s" by (rule ext)
  with k show ?thesis unfolding validate_grouped_writes_def by simp
qed

lemma apply_writes_cong:
  assumes "\<And>n. filter (\<lambda>w. w_chan w = n) ws = filter (\<lambda>w. w_chan w = n) vs"
  shows "apply_writes P st ws s = apply_writes P st vs s"
proof -
  have k: "sort (keys (group_writes ws)) = sort (keys (group_writes vs))"
    using assms by (rule group_writes_eqI)
  have "validate_grouped_writes P st (group_writes ws) s = validate_grouped_writes P st (group_writes vs) s"
    by (rule validate_grouped_cong [OF k]) (simp add: assms)
  moreover have "commit_groups st (group_writes ws) names adv = commit_groups st (group_writes vs) names adv"
    for names adv by (rule commit_groups_cong) (simp add: assms)
  ultimately show ?thesis unfolding apply_writes_def Let_def k
    by (simp split: sum.splits)
qed

section \<open>Snapshots\<close>

lemma keys_snapshot_sorted:
  assumes "wf_state st"
  shows "sorted_wrt (<) (keys (snapshot st))"
proof -
  let ?cs = "sort_key fst (gs_channels st)" and ?ok = "\<lambda>(n, c). \<not> is_reserved n \<and> \<not> chan_is_empty c"
  have k: "keys (snapshot st) = map fst (filter ?ok ?cs)"
    by (simp add: snapshot_def comp_def case_prod_unfold)
  have "distinct (map fst (gs_channels st))" using assms by (simp add: wf_state_def wf_dict_def)
  then have "distinct (map fst ?cs)"
    by (metis (no_types, lifting) mset_eq_imp_distinct_iff mset_map mset_sort)
  then have "distinct (map fst (filter ?ok ?cs))" by (rule distinct_map_filter)
  moreover have "sorted (map fst (filter ?ok ?cs))" by (rule sorted_filter) simp
  ultimately show ?thesis unfolding k by (simp add: strict_sorted_iff)
qed

lemma snapshot_iff:
  assumes "wf_state st"
  shows "(n, v) \<in> set (snapshot st) \<longleftrightarrow>
    (\<exists>c. map_of (gs_channels st) n = Some c \<and> \<not> is_reserved n \<and> ch_version c \<noteq> 0 \<and> v = chan_value c)"
  using assms by (auto simp: snapshot_def wf_state_def wf_dict_map_of [symmetric] chan_is_empty_def)

lemma wf_dict_snapshot [simp]: "wf_state st \<Longrightarrow> wf_dict (snapshot st)"
  using keys_snapshot_sorted [of st] by (simp add: wf_dict_def strict_sorted_iff)

section \<open>Checkpoints\<close>

text \<open>
  A state of a compiled graph: the channels of its factories in order, then the trigger
  channels registered on demand.
\<close>

definition fresh_entry :: "pystr \<times> channel \<Rightarrow> pystr \<times> chan_body" where
  "fresh_entry = (\<lambda>(n, c). (n, fresh_body (ch_body c)))"

definition built_from :: "(pystr, chan_body) dict \<Rightarrow> gstate \<Rightarrow> bool" where
  "built_from factories st \<longleftrightarrow> wf_state st \<and>
     map fresh_entry (take (length factories) (gs_channels st)) = factories \<and>
     list_all (is_trigger \<circ> fst) (drop (length factories) (gs_channels st))"

definition fresh_channel :: "pystr \<times> channel \<Rightarrow> pystr \<times> channel" where
  "fresh_channel = (\<lambda>(n, c). (n, new_channel n (fresh_body (ch_body c))))"

lemma dset_append_hit: "n \<notin> fst ` set ps \<Longrightarrow> dset n c (ps @ (n, d) # qs) = ps @ (n, c) # qs"
  by (induction ps) auto

lemma dset_append_miss: "n \<notin> fst ` set ps \<Longrightarrow> dset n c ps = ps @ [(n, c)]"
  by (induction ps) auto

lemma GraphState_fresh:
  assumes "distinct (keys base)"
  shows "gs_channels (GraphState (map fresh_entry base)) = map fresh_channel base"
  using assms
proof (induction base rule: rev_induct)
  case (snoc p base)
  have "fst ` set (map fresh_channel base) = fst ` set base"
    by (force simp: fresh_channel_def)
  with snoc show ?case
    by (simp add: GraphState_def fresh_entry_def fresh_channel_def case_prod_unfold)
       (simp add: dset_append_miss image_image)
qed (simp add: GraphState_def)

lemma checkpoint_one_name: "checkpoint_one e = Inr x \<Longrightarrow> fst x = fst e"
  by (auto simp: checkpoint_one_def Let_def ebind_Inr_iff emap_Inr_iff split: if_splits prod.splits)

text \<open>The serialized snapshot of a well-formed channel restores it.\<close>

lemma restore_checkpoint_one:
  assumes "wf_entry (n, c)" and "checkpoint_one (n, c) = Inr (n, sn)"
    and "get_channel st n = (st', Inr c0)" and "ch_name c0 = n"
    and "fresh_body (ch_body c0) = fresh_body (ch_body c)"
  shows "restore_one P st (n, sn) = Inr (put_channel st' n c)"
proof (cases "n = TASKS_CHANNEL")
  case True
  with assms(1) obtain items where items: "ch_body c = TopicChannel items" "list_all is_send items"
    by (auto simp: wf_entry_def)
  then have cp: "chan_checkpoint c = [(VERSION, PInt (ch_version c)), (ITEMS, PList items)]"
    by (simp add: chan_checkpoint_def)
  with True assms(2) obtain ds where ds: "etraverse send_to_dict items = Inr ds"
    and sn: "sn = [(VERSION, PInt (ch_version c)), (ITEMS, PList ds)]"
    by (auto simp: checkpoint_one_def emap_Inr_iff dget_def)
  have "etraverse (send_from_dict P) ds = Inr items"
  proof -
    from ds have "map send_to_dict items = map Inr ds" by (simp add: etraverse_Inr_iff)
    then have "map (send_from_dict P) ds = map Inr items"
      by (induction items arbitrary: ds) (auto simp: Cons_eq_map_conv send_roundtrip)
    then show ?thesis by (simp add: etraverse_Inr_iff)
  qed
  moreover have "dset ITEMS (PList items) sn = chan_checkpoint c" by (simp add: sn cp)
  moreover have "chan_restore c0 (chan_checkpoint c) = Inr c"
    using assms by (intro chan_roundtrip) (auto simp: wf_entry_def)
  ultimately show ?thesis using True assms(3) by (simp add: restore_one_def sn dget_def)
next
  case False
  then have "sn = chan_checkpoint c" using assms(2) by (simp add: checkpoint_one_def)
  moreover have "chan_restore c0 (chan_checkpoint c) = Inr c"
    using assms by (intro chan_roundtrip) (auto simp: wf_entry_def)
  ultimately show ?thesis using False assms(3) by (simp add: restore_one_def)
qed

lemma efold_restore_base:
  assumes "distinct (keys (ps @ base))" and "list_all wf_entry base"
    and "etraverse checkpoint_one base = Inr snaps"
    and "gs_channels st = ps @ map fresh_channel base"
  shows "efold (restore_one P) st snaps = Inr (st\<lparr>gs_channels := ps @ base\<rparr>)"
  using assms
proof (induction base arbitrary: ps st snaps)
  case Nil
  then show ?case by (simp add: gstate.equality)
next
  case (Cons e base)
  obtain n c where e: "e = (n, c)" by (cases e)
  from Cons.prems(3) obtain x rest where x: "checkpoint_one e = Inr x"
    and rest: "etraverse checkpoint_one base = Inr rest" "snaps = x # rest"
    by (auto split: sum.splits)
  obtain sn where sn: "x = (n, sn)" using checkpoint_one_name [OF x] e by (cases x) auto
  let ?c0 = "new_channel n (fresh_body (ch_body c))"
  have n: "n \<notin> fst ` set ps" "n \<notin> fst ` set base" using Cons.prems(1) e by auto
  then have "map_of (gs_channels st) n = Some ?c0"
    using Cons.prems(4) e map_of_eq_None_iff [of ps n]
    by (simp add: map_add_def fresh_channel_def)
  then have get: "get_channel st n = (st, Inr ?c0)" by (simp add: get_channel_def)
  have fresh: "fresh_body (fresh_body b) = fresh_body b" for b by (cases b) simp_all
  have "restore_one P st (n, sn) = Inr (put_channel st n c)"
    using Cons.prems(2) x e sn restore_checkpoint_one [OF _ _ get, of c sn P] by (simp add: fresh)
  moreover have "gs_channels (put_channel st n c) = (ps @ [e]) @ map fresh_channel base"
    using n(1) Cons.prems(4) e by (simp add: put_channel_def fresh_channel_def dset_append_hit)
  ultimately show ?case
    using Cons.IH [of "ps @ [e]" rest "put_channel st n c"] Cons.prems rest sn
    by (simp add: put_channel_def)
qed

lemma efold_restore_triggers:
  assumes "distinct (keys (ps @ dyn))" and "list_all wf_entry dyn" and "list_all (is_trigger \<circ> fst) dyn"
    and "etraverse checkpoint_one dyn = Inr snaps" and "gs_channels st = ps"
  shows "efold (restore_one P) st snaps = Inr (st\<lparr>gs_channels := ps @ dyn\<rparr>)"
  using assms
proof (induction dyn arbitrary: ps st snaps)
  case Nil
  then show ?case by (simp add: gstate.equality)
next
  case (Cons e dyn)
  obtain n c where e: "e = (n, c)" by (cases e)
  from Cons.prems(4) obtain x rest where x: "checkpoint_one e = Inr x"
    and rest: "etraverse checkpoint_one dyn = Inr rest" "snaps = x # rest"
    by (auto split: sum.splits)
  obtain sn where sn: "x = (n, sn)" using checkpoint_one_name [OF x] e by (cases x) auto
  let ?c0 = "new_channel n TriggerChannel"
  have n: "n \<notin> fst ` set ps" "is_trigger n" using Cons.prems(1,3) e by auto
  then have "map_of (gs_channels st) n = None" using Cons.prems(5) by (simp add: map_of_eq_None_iff)
  then have get: "get_channel st n = (put_channel st n ?c0, Inr ?c0)"
    using n(2) by (simp add: get_channel_def Let_def)
  have "ch_body c = TriggerChannel" using Cons.prems(2) e n(2) by (simp add: wf_entry_def)
  then have "restore_one P st (n, sn) = Inr (put_channel (put_channel st n ?c0) n c)"
    using Cons.prems(2) x e sn restore_checkpoint_one [OF _ _ get, of c sn P] by simp
  moreover have "gs_channels (put_channel (put_channel st n ?c0) n c) = ps @ [e]"
    using n(1) Cons.prems(5) e by (simp add: put_channel_def dset_append_miss dset_append_hit)
  ultimately show ?case
    using Cons.IH [of "ps @ [e]" rest "put_channel (put_channel st n ?c0) n c"] Cons.prems rest sn
    by (simp add: put_channel_def)
qed

lemma restore_checkpoint_channels:
  assumes "built_from factories st" and "checkpoint_channels st = Inr snaps"
  shows "restore_channels P (GraphState factories) snaps = Inr st"
proof -
  let ?k = "length factories"
  let ?base = "take ?k (gs_channels st)" and ?dyn = "drop ?k (gs_channels st)"
  have all: "gs_channels st = ?base @ ?dyn" by simp
  from assms(1) have d: "distinct (keys (?base @ ?dyn))" and w: "list_all wf_entry (?base @ ?dyn)"
    and f: "factories = map fresh_entry ?base" and t: "list_all (is_trigger \<circ> fst) ?dyn"
    by (simp_all add: built_from_def wf_state_def wf_dict_def)
  from assms(2) have "etraverse checkpoint_one (?base @ ?dyn) = Inr snaps"
    by (simp add: checkpoint_channels_def)
  then obtain s1 s2 where s: "etraverse checkpoint_one ?base = Inr s1"
    "etraverse checkpoint_one ?dyn = Inr s2" "snaps = s1 @ s2"
    by (auto simp: etraverse_Inr_iff append_eq_map_conv simp del: append_take_drop_id)
  let ?g = "GraphState factories"
  have "gs_channels ?g = [] @ map fresh_channel ?base"
    using GraphState_fresh [of ?base] d f by (simp del: append_take_drop_id)
  with d w s(1) have 1: "efold (restore_one P) ?g s1 = Inr (?g\<lparr>gs_channels := [] @ ?base\<rparr>)"
    by (intro efold_restore_base) (simp_all del: append_take_drop_id)
  have 2: "efold (restore_one P) (?g\<lparr>gs_channels := ?base\<rparr>) s2 = Inr (?g\<lparr>gs_channels := ?base @ ?dyn\<rparr>)"
    using efold_restore_triggers [OF d _ t s(2), of "?g\<lparr>gs_channels := ?base\<rparr>" P] w
    by (simp del: append_take_drop_id)
  show ?thesis unfolding restore_channels_def s(3) using 1 2
    by (simp add: efold_append gstate.equality)
qed

end
