(* ===== verification/Persistence.thy ===== *)
theory Persistence
  imports GState
begin

text \<open>
  The thread-addressed persistence kernel (graph/persistence.py, _persistence_state.py,
  _persistence_io.py and the saver of persistence_adapter.py): checkpoint records and pending
  writes per thread, with what the JSON file makes of them. The directory is a dictionary from
  file stems to thread files; a write replaces the whole file or leaves it as it was. File
  locks, temporary files and the time stamps of records are not modelled.
\<close>

section \<open>Values on disk\<close>

text \<open>\<open>dataclasses.asdict\<close> turns a Send packet, at any depth, into the dictionary of its fields.\<close>

fun asdict_val :: "pyval \<Rightarrow> pyval" where
  "asdict_val (PSend n a t) = PDict [(PStr NODE, PStr n), (PStr ARG, asdict_val a), (PStr TIMEOUT, asdict_val t)]"
| "asdict_val (PList xs) = PList (map asdict_val xs)"
| "asdict_val (PTuple xs) = PTuple (map asdict_val xs)"
| "asdict_val (PDict d) = PDict (map (\<lambda>(k, v). (asdict_val k, asdict_val v)) d)"
| "asdict_val v = v"

text \<open>
  A value after \<open>json.loads(json.dumps(v, sort_keys=True))\<close>: sequences are lists, dictionaries
  have string keys in order.
\<close>

fun json_key_nan :: "prims \<Rightarrow> pyval \<Rightarrow> pyexc + pystr" where
  "json_key_nan P (PFloat FNan) = Inr (u ''NaN'')"
| "json_key_nan P (PFloat FPosInf) = Inr (u ''Infinity'')"
| "json_key_nan P (PFloat FNegInf) = Inr (u ''-Infinity'')"
| "json_key_nan P v = json_key P v"

fun json_shape :: "prims \<Rightarrow> pyval \<Rightarrow> pyexc + pyval" where
  "json_shape P (PList xs) = emap PList (esequence (map (json_shape P) xs))"
| "json_shape P (PTuple xs) = emap PList (esequence (map (json_shape P) xs))"
| "json_shape P (PDict kvs) =
     ebind (sort_items (map (\<lambda>(k, v). (k, json_shape P v)) kvs)) (\<lambda>items.
     emap (\<lambda>ps. PDict (foldl (\<lambda>d (k, v). dset k v d) [] ps))
       (etraverse (\<lambda>(k, r). ebind (json_key_nan P k) (\<lambda>s. emap (\<lambda>v. (PStr s, v)) r)) items))"
| "json_shape P (PSend _ _ _) = Inl (TypeError (u ''Send is not JSON serializable''))"
| "json_shape P (PObj t) = Inl (TypeError (t @ u '' is not JSON serializable''))"
| "json_shape P v = Inr v"

definition disk_val :: "prims \<Rightarrow> pyval \<Rightarrow> pyexc + pyval" where
  "disk_val P v = json_shape P (asdict_val v)"

definition disk_dict :: "prims \<Rightarrow> (pystr, pyval) dict \<Rightarrow> pyexc + (pystr, pyval) dict" where
  "disk_dict P d = etraverse (\<lambda>(k, v). emap (Pair k) (disk_val P v)) (sort_key fst d)"

definition disk_checkpoint :: "prims \<Rightarrow> run_checkpoint \<Rightarrow> pyexc + run_checkpoint" where
  "disk_checkpoint P cp =
     emap (\<lambda>chans. cp\<lparr>cp_channels := chans,
        cp_seen := map (\<lambda>(n, vs). (n, sort_key fst vs)) (sort_key fst (cp_seen cp))\<rparr>)
       (etraverse (\<lambda>(n, sn). emap (Pair n) (disk_dict P sn)) (sort_key fst (cp_channels cp)))"

section \<open>Records\<close>

record ckpt_record =
  cr_thread :: pystr
  cr_id :: pystr
  cr_parent :: "pystr option"
  cr_checkpoint :: run_checkpoint
  cr_metadata :: "(pystr, pyval) dict"

record pending_write =
  pw_thread :: pystr
  pw_checkpoint :: "pystr option"
  pw_task :: pystr
  pw_path :: pystr
  pw_writes :: "(pystr \<times> pyval) list"

record thread_file =
  tf_checkpoints :: "ckpt_record list"
  tf_pending :: "pending_write list"

definition empty_thread :: thread_file where
  "empty_thread = \<lparr>tf_checkpoints = [], tf_pending = []\<rparr>"

text \<open>What \<open>to_dict\<close>, the file and \<open>from_dict\<close> make of a record.\<close>

definition disk_record :: "prims \<Rightarrow> ckpt_record \<Rightarrow> pyexc + ckpt_record" where
  "disk_record P r =
     ebind (disk_checkpoint P (cr_checkpoint r)) (\<lambda>cp.
     emap (\<lambda>m. r\<lparr>cr_checkpoint := cp, cr_metadata := m\<rparr>) (disk_dict P (cr_metadata r)))"

definition disk_pending :: "prims \<Rightarrow> pending_write \<Rightarrow> pyexc + pending_write" where
  "disk_pending P w =
     emap (\<lambda>ws. w\<lparr>pw_writes := ws\<rparr>)
       (etraverse (\<lambda>(c, v). emap (Pair c) (disk_val P v)) (pw_writes w))"

text \<open>The payload is encoded as UTF-8 once it is serialized.\<close>

definition enc_str :: "pystr \<Rightarrow> bool" where
  "enc_str s \<longleftrightarrow> utf8 s \<noteq> None"

fun enc_val :: "pyval \<Rightarrow> bool" where
  "enc_val (PStr s) = enc_str s"
| "enc_val (PList xs) = list_all enc_val xs"
| "enc_val (PTuple xs) = list_all enc_val xs"
| "enc_val (PDict d) = list_all (\<lambda>(k, v). k \<and> v) (map (\<lambda>(k, v). (enc_val k, enc_val v)) d)"
| "enc_val (PSend n a t) = (enc_str n \<and> enc_val a \<and> enc_val t)"
| "enc_val v = True"

definition enc_dict :: "(pystr, pyval) dict \<Rightarrow> bool" where
  "enc_dict d \<longleftrightarrow> list_all (\<lambda>(k, v). enc_str k \<and> enc_val v) d"

definition enc_opt :: "pystr option \<Rightarrow> bool" where
  "enc_opt x \<longleftrightarrow> (case x of None \<Rightarrow> True | Some s \<Rightarrow> enc_str s)"

definition enc_record :: "ckpt_record \<Rightarrow> bool" where
  "enc_record r \<longleftrightarrow> enc_str (cr_thread r) \<and> enc_str (cr_id r) \<and> enc_opt (cr_parent r) \<and>
     enc_dict (cr_metadata r) \<and> enc_str (cp_run (cr_checkpoint r)) \<and>
     enc_str (cp_graph (cr_checkpoint r)) \<and> enc_str (cp_digest (cr_checkpoint r)) \<and>
     list_all (\<lambda>(n, sn). enc_str n \<and> enc_dict sn) (cp_channels (cr_checkpoint r)) \<and>
     list_all (\<lambda>(n, vs). enc_str n \<and> list_all (enc_str \<circ> fst) vs) (cp_seen (cr_checkpoint r))"

definition enc_pending :: "pending_write \<Rightarrow> bool" where
  "enc_pending w \<longleftrightarrow> enc_str (pw_thread w) \<and> enc_opt (pw_checkpoint w) \<and> enc_str (pw_task w) \<and>
     enc_str (pw_path w) \<and> list_all (\<lambda>(c, v). enc_str c \<and> enc_val v) (pw_writes w)"

definition serialize_thread :: "prims \<Rightarrow> thread_file \<Rightarrow> pyexc + thread_file" where
  "serialize_thread P tf =
     ebind (etraverse (disk_record P) (tf_checkpoints tf)) (\<lambda>cs.
     ebind (etraverse (disk_pending P) (tf_pending tf)) (\<lambda>ps.
       if list_all enc_record cs \<and> list_all enc_pending ps
       then Inr \<lparr>tf_checkpoints = cs, tf_pending = ps\<rparr>
       else Inl UnicodeEncodeError))"

section \<open>The directory\<close>

type_synonym store = "(pystr, thread_file) dict"

definition safe_id :: "prims \<Rightarrow> pystr \<Rightarrow> pyexc + pystr" where
  "safe_id P raw =
     (if raw = [] then Inl (ValueError (u ''must not be empty''))
      else
        (let safe = take 80 (map (\<lambda>ch. if alnum P ch \<or> ch \<in> set (u ''._=-'') then ch else 95) raw) in
         emap (\<lambda>b. safe @ [45] @ take 16 (hex (sha256 P b))) (encode_utf8 raw)))"

definition read_thread :: "store \<Rightarrow> pystr \<Rightarrow> thread_file" where
  "read_thread store path = dget store path empty_thread"

text \<open>A write that raises leaves the directory unchanged.\<close>

definition write_thread :: "prims \<Rightarrow> pystr \<Rightarrow> thread_file \<Rightarrow> store \<Rightarrow> pyexc + store" where
  "write_thread P path tf store = emap (\<lambda>d. dset path d store) (serialize_thread P tf)"

section \<open>Appending checkpoints\<close>

definition pad6 :: "pystr \<Rightarrow> pystr" where
  "pad6 s = replicate (6 - length s) 48 @ s"

definition numbered :: "pystr \<Rightarrow> nat \<Rightarrow> pystr" where
  "numbered base i = base @ [45] @ nat_str i"

lemma numbered_inject [simp]: "numbered base i = numbered base j \<longleftrightarrow> i = j"
  by (simp add: numbered_def)

lemma finite_numbered: "finite {j. i \<le> j \<and> numbered base j \<in> set used}"
proof (rule finite_subset)
  show "{j. i \<le> j \<and> numbered base j \<in> set used} \<subseteq> numbered base -` set used" by auto
  show "finite (numbered base -` set used)" by (intro finite_vimageI) (auto simp: inj_def)
qed

function fresh_index :: "pystr \<Rightarrow> pystr list \<Rightarrow> nat \<Rightarrow> nat" where
  "fresh_index base used i =
     (if numbered base i \<in> set used then fresh_index base used (i + 1) else i)"
  by pat_completeness auto
termination
proof (relation "measure (\<lambda>(base, used, i). card {j. i \<le> j \<and> numbered base j \<in> set used})", goal_cases)
  case (2 base used i)
  then have "i \<in> {j. i \<le> j \<and> numbered base j \<in> set used}" by simp
  moreover have "i \<notin> {j. i + 1 \<le> j \<and> numbered base j \<in> set used}" by simp
  moreover have "{j. i + 1 \<le> j \<and> numbered base j \<in> set used} \<subseteq> {j. i \<le> j \<and> numbered base j \<in> set used}"
    by auto
  ultimately have "{j. i + 1 \<le> j \<and> numbered base j \<in> set used} \<subset> {j. i \<le> j \<and> numbered base j \<in> set used}"
    by blast
  then have "card {j. i + 1 \<le> j \<and> numbered base j \<in> set used} < card {j. i \<le> j \<and> numbered base j \<in> set used}"
    by (rule psubset_card_mono [OF finite_numbered])
  then show ?case by simp
qed simp

declare fresh_index.simps [simp del]

definition next_checkpoint_id :: "run_checkpoint \<Rightarrow> ckpt_record list \<Rightarrow> pystr" where
  "next_checkpoint_id cp records =
     (let base = pad6 (nat_str (cp_superstep cp)) @ [45] @ take 12 (last (split_on 58 (cp_digest cp)));
          used = map cr_id records in
      if base \<notin> set used then base else numbered base (fresh_index base used 1))"

text \<open>Equality of checkpoints: dataclass equality, with Python's \<open>==\<close> on the values.\<close>

definition dict_val :: "(pystr, pyval) dict \<Rightarrow> pyval" where
  "dict_val d = PDict (map (\<lambda>(k, v). (PStr k, v)) d)"

definition checkpoint_eq :: "run_checkpoint \<Rightarrow> run_checkpoint \<Rightarrow> bool" where
  "checkpoint_eq a b \<longleftrightarrow>
     cp_run a = cp_run b \<and> cp_graph a = cp_graph b \<and> cp_superstep a = cp_superstep b \<and>
     cp_digest a = cp_digest b \<and>
     py_eq (dict_val (map (\<lambda>(n, sn). (n, dict_val sn)) (cp_channels a)))
       (dict_val (map (\<lambda>(n, sn). (n, dict_val sn)) (cp_channels b))) \<and>
     py_eq (dict_val (map (\<lambda>(n, vs). (n, dict_val (map (\<lambda>(c, i). (c, PInt i)) vs))) (cp_seen a)))
       (dict_val (map (\<lambda>(n, vs). (n, dict_val (map (\<lambda>(c, i). (c, PInt i)) vs))) (cp_seen b)))"

definition find_record :: "ckpt_record list \<Rightarrow> pystr \<Rightarrow> ckpt_record option" where
  "find_record records i = List.find (\<lambda>r. cr_id r = i) records"

text \<open>\<open>_append_run_checkpoint_unlocked\<close>: the record is returned as it was built, not as it is stored.\<close>

definition append_run_checkpoint ::
    "prims \<Rightarrow> store \<Rightarrow> pystr \<Rightarrow> pystr \<Rightarrow> run_checkpoint \<Rightarrow> thread_file \<Rightarrow> pystr option \<Rightarrow> pystr option
      \<Rightarrow> (pystr, pyval) dict \<Rightarrow> pyexc + (store \<times> ckpt_record)" where
  "append_run_checkpoint P store path thread_id cp tf checkpoint_id parent metadata =
     (let records = tf_checkpoints tf;
          resolved = (case checkpoint_id of
                        Some i \<Rightarrow> if i = [] then next_checkpoint_id cp records else i
                      | None \<Rightarrow> next_checkpoint_id cp records) in
      case find_record records resolved of
        Some existing \<Rightarrow>
          (if checkpoint_eq (cr_checkpoint existing) cp \<and> (parent = None \<or> cr_parent existing = parent)
           then Inr (store, existing)
           else Inl (ValueError (u ''checkpoint_id already exists'')))
      | None \<Rightarrow>
          (let parent' = (if parent = None \<and> records \<noteq> [] then Some (cr_id (last records)) else parent);
               record = \<lparr>cr_thread = thread_id, cr_id = resolved, cr_parent = parent',
                         cr_checkpoint = cp, cr_metadata = metadata\<rparr> in
           emap (\<lambda>s. (s, record))
             (write_thread P path (tf\<lparr>tf_checkpoints := records @ [record]\<rparr>) store)))"

definition put_run_checkpoint ::
    "prims \<Rightarrow> store \<Rightarrow> pystr \<Rightarrow> run_checkpoint \<Rightarrow> pystr option \<Rightarrow> pystr option \<Rightarrow> (pystr, pyval) dict
      \<Rightarrow> pyexc + (store \<times> ckpt_record)" where
  "put_run_checkpoint P store thread_id cp checkpoint_id parent metadata =
     ebind (safe_id P thread_id) (\<lambda>path.
       append_run_checkpoint P store path thread_id cp (read_thread store path) checkpoint_id parent metadata)"

section \<open>Reading checkpoints\<close>

definition get_state_history :: "prims \<Rightarrow> store \<Rightarrow> pystr \<Rightarrow> pyexc + ckpt_record list" where
  "get_state_history P store thread_id =
     emap (\<lambda>path. tf_checkpoints (read_thread store path)) (safe_id P thread_id)"

definition select_record :: "ckpt_record list \<Rightarrow> pystr option \<Rightarrow> ckpt_record option" where
  "select_record records checkpoint_id =
     (if records = [] then None
      else case checkpoint_id of None \<Rightarrow> Some (last records) | Some i \<Rightarrow> find_record records i)"

definition get_checkpoint_record ::
    "prims \<Rightarrow> store \<Rightarrow> pystr \<Rightarrow> pystr option \<Rightarrow> pyexc + ckpt_record option" where
  "get_checkpoint_record P store thread_id checkpoint_id =
     emap (\<lambda>rs. select_record rs checkpoint_id) (get_state_history P store thread_id)"

definition get_run_checkpoint ::
    "prims \<Rightarrow> store \<Rightarrow> pystr \<Rightarrow> pystr option \<Rightarrow> pyexc + run_checkpoint option" where
  "get_run_checkpoint P store thread_id checkpoint_id =
     emap (map_option cr_checkpoint) (get_checkpoint_record P store thread_id checkpoint_id)"

text \<open>\<open>extract_state\<close>: the user channels that have a version, by \<open>value\<close> or else \<open>items\<close>.\<close>

fun extract_state :: "(pystr, snap) dict \<Rightarrow> pyexc + (pystr, pyval) dict" where
  "extract_state [] = Inr []"
| "extract_state ((name, sn) # cs) =
     (if is_reserved name then extract_state cs
      else ebind (py_int (dget sn VERSION (PInt 0))) (\<lambda>v.
        if v \<le> 0 then extract_state cs
        else if has_key sn VALUE then emap ((#) (name, dget sn VALUE PNone)) (extract_state cs)
        else if has_key sn ITEMS then emap ((#) (name, dget sn ITEMS PNone)) (extract_state cs)
        else extract_state cs))"

definition record_state :: "ckpt_record \<Rightarrow> pyexc + (pystr, pyval) dict" where
  "record_state r = extract_state (cp_channels (cr_checkpoint r))"

definition get_state :: "prims \<Rightarrow> store \<Rightarrow> pystr \<Rightarrow> pystr option \<Rightarrow> pyexc + (pystr, pyval) dict" where
  "get_state P store thread_id checkpoint_id =
     ebind (get_checkpoint_record P store thread_id checkpoint_id) (\<lambda>r.
       case r of None \<Rightarrow> Inl (KeyError thread_id) | Some rec \<Rightarrow> record_state rec)"

section \<open>Manual updates\<close>

fun update_snaps ::
    "(pystr, snap) dict \<Rightarrow> (pystr, pyval) dict \<Rightarrow> pyexc + (pystr, snap) dict" where
  "update_snaps channels [] = Inr channels"
| "update_snaps channels ((name, value) # values) =
     (let sn = dget channels name [(VERSION, PInt 0)] in
      ebind (if has_key sn ITEMS
             then ebind (py_list (dget sn ITEMS (PList []))) (\<lambda>items.
                    let incoming = (case value of PList vs \<Rightarrow> vs | _ \<Rightarrow> [value]) in
                    Inr (dset ITEMS (PList (items @ incoming)) sn))
             else Inr (dset VALUE value sn)) (\<lambda>sn'.
      ebind (py_int (dget sn' VERSION (PInt 0))) (\<lambda>v.
        update_snaps (dset name (dset VERSION (PInt (v + 1)) sn') channels) values)))"

definition derive_updated_checkpoint ::
    "prims \<Rightarrow> run_checkpoint \<Rightarrow> (pystr, pyval) dict \<Rightarrow> (pystr, chan_body) dict option \<Rightarrow> pystr
      \<Rightarrow> gerror + run_checkpoint" where
  "derive_updated_checkpoint P base values channel_factories as_node =
     (let step = cp_superstep base + 1 in
      ebind
        (case channel_factories of
           None \<Rightarrow>
             (case ebind (update_snaps (cp_channels base) values) (\<lambda>chans.
                     ebind (extract_state chans) (\<lambda>s.
                     emap (Pair chans) (state_digest P s))) of
                Inl e \<Rightarrow> Inl (PyError e)
              | Inr cd \<Rightarrow> Inr cd)
         | Some factories \<Rightarrow>
             ebind (restore_channels P (GraphState factories) (cp_channels base)) (\<lambda>st.
             case apply_writes P st
                    (map (\<lambda>(name, value). ChannelWrite as_node name value 0) (sort_key fst values)) step of
               (st', Inl e) \<Rightarrow> Inl e
             | (st', Inr _) \<Rightarrow>
                 (case ebind (checkpoint_channels st') (\<lambda>chans. emap (Pair chans) (gs_digest P st')) of
                    Inl e \<Rightarrow> Inl (PyError e)
                  | Inr cd \<Rightarrow> Inr cd)))
        (\<lambda>(channels, digest).
           Inr \<lparr>cp_run = cp_run base, cp_graph = cp_graph base, cp_superstep = step,
                cp_digest = digest, cp_channels = channels, cp_seen = cp_seen base\<rparr>))"

definition lift_py :: "pyexc + 'a \<Rightarrow> gerror + 'a" where
  "lift_py r = (case r of Inl e \<Rightarrow> Inl (PyError e) | Inr x \<Rightarrow> Inr x)"

definition update_state ::
    "prims \<Rightarrow> store \<Rightarrow> pystr \<Rightarrow> (pystr, pyval) dict \<Rightarrow> (pystr, chan_body) dict option \<Rightarrow> pystr option
      \<Rightarrow> pystr \<Rightarrow> gerror + (store \<times> ckpt_record)" where
  "update_state P store thread_id values channel_factories checkpoint_id as_node =
     ebind (lift_py (safe_id P thread_id)) (\<lambda>path.
     let tf = read_thread store path in
     case select_record (tf_checkpoints tf) checkpoint_id of
       None \<Rightarrow> Inl (PyError (KeyError thread_id))
     | Some base \<Rightarrow>
         ebind (derive_updated_checkpoint P (cr_checkpoint base) values channel_factories as_node) (\<lambda>cp.
         lift_py (append_run_checkpoint P store path thread_id cp tf None (Some (cr_id base))
           [(u ''source'', PStr (u ''update_state'')), (u ''as_node'', PStr as_node)])))"

text \<open>The updates before one that raises stay in the store.\<close>

fun bulk_update_state ::
    "prims \<Rightarrow> store \<Rightarrow> pystr \<Rightarrow> (pystr, pyval) dict list \<Rightarrow> (pystr, chan_body) dict option \<Rightarrow> pystr
      \<Rightarrow> ckpt_record option \<Rightarrow> store \<times> (gerror + ckpt_record)" where
  "bulk_update_state P store thread_id [] factories as_node record =
     (store, (case record of None \<Rightarrow> Inl (PyError (ValueError (u ''requires at least one update'')))
              | Some r \<Rightarrow> Inr r))"
| "bulk_update_state P store thread_id (values # updates) factories as_node record =
     (case update_state P store thread_id values factories None as_node of
        Inl e \<Rightarrow> (store, Inl e)
      | Inr (store', r) \<Rightarrow> bulk_update_state P store' thread_id updates factories as_node (Some r))"

section \<open>Pending writes\<close>

text \<open>The two operations on the file of a path, and on the thread.\<close>

definition journal_at :: "prims \<Rightarrow> pystr \<Rightarrow> store \<Rightarrow> pending_write \<Rightarrow> pyexc + store" where
  "journal_at P path store w =
     (let tf = read_thread store path in
      write_thread P path (tf\<lparr>tf_pending := tf_pending tf @ [w]\<rparr>) store)"

definition clear_at :: "prims \<Rightarrow> pystr \<Rightarrow> store \<Rightarrow> pystr option \<Rightarrow> pyexc + store" where
  "clear_at P path store task_id =
     (let tf = read_thread store path;
          kept = (case task_id of None \<Rightarrow> [] | Some i \<Rightarrow> filter (\<lambda>w. pw_task w \<noteq> i) (tf_pending tf)) in
      write_thread P path (tf\<lparr>tf_pending := kept\<rparr>) store)"

definition put_writes ::
    "prims \<Rightarrow> store \<Rightarrow> pystr \<Rightarrow> (pystr \<times> pyval) list \<Rightarrow> pystr \<Rightarrow> pystr option \<Rightarrow> pystr \<Rightarrow> pyexc + store" where
  "put_writes P store thread_id writes task_id checkpoint_id task_path =
     ebind (safe_id P thread_id) (\<lambda>path.
       journal_at P path store
         \<lparr>pw_thread = thread_id, pw_checkpoint = checkpoint_id, pw_task = task_id,
          pw_path = task_path, pw_writes = writes\<rparr>)"

definition recover_pending_writes :: "prims \<Rightarrow> store \<Rightarrow> pystr \<Rightarrow> pyexc + pending_write list" where
  "recover_pending_writes P store thread_id =
     emap (\<lambda>path. tf_pending (read_thread store path)) (safe_id P thread_id)"

definition clear_pending_writes :: "prims \<Rightarrow> store \<Rightarrow> pystr \<Rightarrow> pystr option \<Rightarrow> pyexc + store" where
  "clear_pending_writes P store thread_id task_id =
     ebind (safe_id P thread_id) (\<lambda>path. clear_at P path store task_id)"

section \<open>Whole threads\<close>

definition copy_thread :: "prims \<Rightarrow> store \<Rightarrow> pystr \<Rightarrow> pystr \<Rightarrow> pyexc + store" where
  "copy_thread P store source target =
     ebind (safe_id P source) (\<lambda>spath.
       case map_of store spath of
         None \<Rightarrow> Inl (KeyError source)
       | Some tf \<Rightarrow>
           ebind (safe_id P target) (\<lambda>tpath.
             write_thread P tpath
               \<lparr>tf_checkpoints = map (\<lambda>r. r\<lparr>cr_thread := target\<rparr>) (tf_checkpoints tf),
                tf_pending = map (\<lambda>w. w\<lparr>pw_thread := target\<rparr>) (tf_pending tf)\<rparr> store))"

definition delete_thread :: "prims \<Rightarrow> store \<Rightarrow> pystr \<Rightarrow> pyexc + store" where
  "delete_thread P store thread_id =
     emap (\<lambda>path. filter (\<lambda>(k, _). k \<noteq> path) store) (safe_id P thread_id)"

definition delete_runs_file :: "pystr list \<Rightarrow> thread_file \<Rightarrow> thread_file" where
  "delete_runs_file run_ids tf =
     (let wanted = (\<lambda>r. cp_run (cr_checkpoint r) \<in> set run_ids);
          gone = map (Some \<circ> cr_id) (filter wanted (tf_checkpoints tf)) in
      \<lparr>tf_checkpoints = filter (\<lambda>r. \<not> wanted r) (tf_checkpoints tf),
       tf_pending = filter (\<lambda>w. pw_checkpoint w \<notin> set gone \<and>
          \<not> list_ex (\<lambda>run. startswith (pw_task w) (run @ [58])) run_ids) (tf_pending tf)\<rparr>)"

text \<open>No stored file fails to serialize again, so the loop over the files has no partial effect.\<close>

definition delete_for_runs :: "prims \<Rightarrow> store \<Rightarrow> pystr list \<Rightarrow> pyexc + store" where
  "delete_for_runs P store run_ids =
     etraverse (\<lambda>(path, tf). emap (Pair path) (serialize_thread P (delete_runs_file run_ids tf))) store"

definition prune_file :: "thread_file \<Rightarrow> thread_file" where
  "prune_file tf =
     (if tf_checkpoints tf = [] then tf
      else \<lparr>tf_checkpoints = [(last (tf_checkpoints tf))\<lparr>cr_parent := None\<rparr>], tf_pending = []\<rparr>)"

fun prune :: "prims \<Rightarrow> store \<Rightarrow> pystr list \<Rightarrow> store \<times> (pyexc + unit)" where
  "prune P store [] = (store, Inr ())"
| "prune P store (thread_id # ids) =
     (case ebind (safe_id P thread_id) (\<lambda>path.
             let tf = read_thread store path in
             if tf_checkpoints tf = [] then Inr store
             else write_thread P path (prune_file tf) store) of
        Inl e \<Rightarrow> (store, Inl e)
      | Inr store' \<Rightarrow> prune P store' ids)"

section \<open>What is on disk stays as it is\<close>

text \<open>Values whose dictionaries have distinct string keys.\<close>

fun str_keyed :: "pyval \<Rightarrow> bool" where
  "str_keyed (PList xs) = list_all str_keyed xs"
| "str_keyed (PTuple xs) = list_all str_keyed xs"
| "str_keyed (PDict d) =
     (list_all (\<lambda>(k, b). is_str k \<and> b) (map (\<lambda>(k, v). (k, str_keyed v)) d) \<and> distinct (map fst d))"
| "str_keyed (PSend n a t) = (str_keyed a \<and> str_keyed t)"
| "str_keyed v = True"

fun json_normal :: "pyval \<Rightarrow> bool" where
  "json_normal (PList xs) = list_all json_normal xs"
| "json_normal (PTuple xs) = False"
| "json_normal (PDict d) =
     (list_all (\<lambda>(k, b). is_str k \<and> b) (map (\<lambda>(k, v). (k, json_normal v)) d) \<and>
      sorted_wrt (<) (map (key_str \<circ> fst) d))"
| "json_normal (PSend n a t) = False"
| "json_normal (PObj t) = False"
| "json_normal v = True"

lemma is_str_key: "is_str k \<Longrightarrow> k = PStr (key_str k)"
  by (cases k) (auto simp: is_str_def)

lemma str_keyed_asdict: "str_keyed v \<Longrightarrow> str_keyed (asdict_val v)"
proof (induction v rule: asdict_val.induct)
  case (4 d)
  have k: "asdict_val k = k \<and> is_str k \<and> str_keyed v" if "(k, v) \<in> set d" for k v
    using 4(3) that by (auto simp: list_all_iff is_str_def split: pyval.splits)
  then have "map fst (map (\<lambda>(k, v). (asdict_val k, asdict_val v)) d) = map fst d"
    by (auto simp: case_prod_unfold)
  then have "distinct (map fst (map (\<lambda>(k, v). (asdict_val k, asdict_val v)) d))"
    using 4(3) by (simp only: str_keyed.simps)
  moreover have "is_str (asdict_val k) \<and> str_keyed (asdict_val v)" if "(k, v) \<in> set d" for k v
    using 4(2) [OF that refl] k [OF that] by auto
  ultimately show ?case by (auto simp: list_all_iff simp del: map_map)
qed (auto simp: list_all_iff NODE_def ARG_def TIMEOUT_def u_def is_str_def)

lemma sort_items_str:
  "list_all (\<lambda>(k, _). is_str k) kvs \<Longrightarrow> sort_items kvs = Inr (sort_key (\<lambda>(k, _). key_str k) kvs)"
  by (cases kvs rule: remdups_adj.cases) (auto simp: sort_items_def)

lemma foldl_dset_distinct:
  "distinct (map fst (d @ ps)) \<Longrightarrow> foldl (\<lambda>d (k, v). dset k v d) d ps = d @ ps"
proof (induction ps arbitrary: d)
  case (Cons p ps)
  obtain k v where p: "p = (k, v)" by (cases p)
  with Cons.prems have "dset k v d = d @ [p]" by (auto intro!: dset_append_miss)
  with Cons p show ?case by simp
qed simp

lemma json_key_str [simp]: "json_key_nan P (PStr s) = Inr s"
  by simp

lemma sorted_distinct_strict: "sorted xs \<Longrightarrow> distinct xs \<Longrightarrow> sorted_wrt (<) (xs :: pystr list)"
  by (simp add: strict_sorted_iff)

abbreviation sort_str :: "(pyval \<times> 'a) list \<Rightarrow> (pyval \<times> 'a) list" where
  "sort_str \<equiv> sort_key (\<lambda>p. key_str (fst p))"

definition shaped :: "prims \<Rightarrow> (pyval \<times> pyval) \<Rightarrow> (pyval \<times> pyval) \<Rightarrow> bool" where
  "shaped P p q \<longleftrightarrow> fst q = fst p \<and> json_shape P (snd p) = Inr (snd q)"

lemma etraverse_Cons: "etraverse f (x # xs) = ebind (f x) (\<lambda>y. emap ((#) y) (etraverse f xs))"
  by (auto simp: ebind_def emap_def split: sum.splits)

lemma shaped_pair: "shaped P (k, v) q \<longleftrightarrow> (\<exists>w. q = (k, w) \<and> json_shape P v = Inr w)"
  by (cases q) (auto simp: shaped_def)

text \<open>What the dictionary case computes when all keys are distinct strings.\<close>

lemma json_shape_items:
  assumes "list_all (is_str \<circ> fst) xs"
  shows "etraverse (\<lambda>(k, r). ebind (json_key_nan P k) (\<lambda>s. emap (\<lambda>v. (PStr s, v)) r))
      (map (\<lambda>(k, v). (k, json_shape P v)) xs) = Inr ps \<longleftrightarrow> list_all2 (shaped P) xs ps"
  using assms
proof (induction xs arbitrary: ps)
  case (Cons x xs)
  obtain s v where x: "x = (PStr s, v)" using Cons.prems is_str_key by (cases x) force
  have str: "list_all (is_str \<circ> fst) xs" using Cons.prems by (simp add: comp_def)
  show ?case
    unfolding x list.map prod.case etraverse_Cons ebind_Inr_iff emap_Inr_iff Cons.IH [OF str] json_key_str
    by (auto simp: list_all2_Cons1 shaped_pair)
qed auto

lemma json_shape_dict:
  assumes "list_all (is_str \<circ> fst) kvs" and "distinct (map fst kvs)"
  shows "json_shape P (PDict kvs) = Inr w \<longleftrightarrow> (\<exists>ps. w = PDict ps \<and> list_all2 (shaped P) (sort_str kvs) ps)"
proof -
  let ?kvs = "map (\<lambda>(k, v). (k, json_shape P v)) kvs"
  have "list_all (\<lambda>(k, _). is_str k) ?kvs" using assms(1) by (auto simp: list_all_iff)
  then have "sort_items ?kvs = Inr (sort_key (\<lambda>(k, _). key_str k) ?kvs)" by (rule sort_items_str)
  also have "sort_key (\<lambda>(k, _). key_str k) ?kvs = map (\<lambda>(k, v). (k, json_shape P v)) (sort_str kvs)"
    by (simp add: sort_key_map comp_def case_prod_unfold)
  finally have si: "sort_items ?kvs = Inr (map (\<lambda>(k, v). (k, json_shape P v)) (sort_str kvs))" .
  have str: "list_all (is_str \<circ> fst) (sort_str kvs)" using assms(1) by (simp add: list_all_iff)
  have d: "distinct (map fst (sort_str kvs))"
    using assms(2) by (metis (no_types, lifting) mset_eq_imp_distinct_iff mset_map mset_sort)
  have fold: "foldl (\<lambda>d (k, v). dset k v d) [] ps = ps" if "list_all2 (shaped P) (sort_str kvs) ps" for ps
  proof -
    have "map fst ps = map fst (sort_str kvs)"
      using that by (induction rule: list_all2_induct) (auto simp: shaped_def)
    with d foldl_dset_distinct [of "[]" ps] show ?thesis by simp
  qed
  show ?thesis
    unfolding json_shape.simps si ebind_simps emap_Inr_iff json_shape_items [OF str]
    using fold by auto
qed

lemma str_keyed_dict:
  "str_keyed (PDict d) \<longleftrightarrow> list_all (is_str \<circ> fst) d \<and> list_all (str_keyed \<circ> snd) d \<and> distinct (map fst d)"
  by (auto simp: list_all_iff)

lemma json_normal_dict:
  "json_normal (PDict d) \<longleftrightarrow> list_all (is_str \<circ> fst) d \<and> list_all (json_normal \<circ> snd) d \<and>
     sorted_wrt (<) (map (\<lambda>p. key_str (fst p)) d)"
  by (auto simp: list_all_iff comp_def)

lemma str_keys_inj:
  assumes "list_all (is_str \<circ> fst) d"
  shows "distinct (map (\<lambda>p. key_str (fst p)) d) \<longleftrightarrow> distinct (map fst d)"
proof -
  have "map fst d = map PStr (map (\<lambda>p. key_str (fst p)) d)"
    using assms is_str_key by (induction d) auto
  then show ?thesis by (metis (no_types, lifting) distinct_map inj_onI pyval.inject(4))
qed

lemma esequence_shape:
  "esequence (map (json_shape P) xs) = Inr ys \<longleftrightarrow> list_all2 (\<lambda>x y. json_shape P x = Inr y) xs ys"
  by (auto simp: esequence_Inr_iff list_all2_conv_all_nth list_eq_iff_nth_eq)

lemma list_all2_all:
  "list_all2 R xs ys \<Longrightarrow> (\<And>x y. x \<in> set xs \<Longrightarrow> R x y \<Longrightarrow> Q y) \<Longrightarrow> list_all Q ys"
  by (induction rule: list_all2_induct) auto

lemma json_shape_normal: "str_keyed v \<Longrightarrow> json_shape P v = Inr w \<Longrightarrow> json_normal w"
proof (induction P v arbitrary: w rule: json_shape.induct)
  case (1 P xs)
  from 1(3) obtain ys where ys: "w = PList ys" "list_all2 (\<lambda>x y. json_shape P x = Inr y) xs ys"
    by (auto simp: emap_Inr_iff esequence_shape)
  from ys(2) have "list_all json_normal ys"
    by (rule list_all2_all) (use 1 in \<open>auto simp: list_all_iff\<close>)
  with ys show ?case by simp
next
  case (2 P xs)
  from 2(3) obtain ys where ys: "w = PList ys" "list_all2 (\<lambda>x y. json_shape P x = Inr y) xs ys"
    by (auto simp: emap_Inr_iff esequence_shape)
  from ys(2) have "list_all json_normal ys"
    by (rule list_all2_all) (use 2 in \<open>auto simp: list_all_iff\<close>)
  with ys show ?case by simp
next
  case (3 P kvs)
  from 3(2) have kv: "list_all (is_str \<circ> fst) kvs" "list_all (str_keyed \<circ> snd) kvs" "distinct (map fst kvs)"
    unfolding str_keyed_dict by simp_all
  from 3(3) obtain ps where ps: "w = PDict ps" "list_all2 (shaped P) (sort_str kvs) ps"
    unfolding json_shape_dict [OF kv(1,3)] by blast
  have keys: "map fst ps = map fst (sort_str kvs)"
    using ps(2) by (induction rule: list_all2_induct) (auto simp: shaped_def)
  have "list_all (json_normal \<circ> snd) ps"
    using ps(2) by (rule list_all2_all) (use 3(1) kv(2) in \<open>auto simp: shaped_def list_all_iff\<close>)
  moreover have "list_all (is_str \<circ> fst) ps"
    using ps(2) by (rule list_all2_all) (use kv(1) in \<open>auto simp: shaped_def list_all_iff\<close>)
  moreover have "sorted_wrt (<) (map (\<lambda>p. key_str (fst p)) ps)"
  proof -
    have e: "map (\<lambda>p. key_str (fst p)) ps = map (\<lambda>p. key_str (fst p)) (sort_str kvs)"
      using arg_cong [OF keys, of "map key_str"] by (simp add: comp_def)
    have "distinct (map (\<lambda>p. key_str (fst p)) kvs)" using kv by (simp add: str_keys_inj)
    then have "distinct (map (\<lambda>p. key_str (fst p)) (sort_str kvs))"
      by (metis (no_types, lifting) mset_eq_imp_distinct_iff mset_map mset_sort)
    then show ?thesis unfolding e by (intro sorted_distinct_strict) simp_all
  qed
  ultimately show ?case unfolding ps(1) json_normal_dict by blast
qed auto

lemma json_normal_shape: "json_normal w \<Longrightarrow> json_shape P w = Inr w"
proof (induction P w rule: json_shape.induct)
  case (1 P xs)
  then have "list_all2 (\<lambda>x y. json_shape P x = Inr y) xs xs"
    by (auto simp: list_all_iff list_all2_same)
  then show ?case by (simp add: esequence_shape [symmetric])
next
  case (3 P kvs)
  from 3(2) have kv: "list_all (is_str \<circ> fst) kvs" "list_all (json_normal \<circ> snd) kvs"
    "sorted_wrt (<) (map (\<lambda>p. key_str (fst p)) kvs)" unfolding json_normal_dict by simp_all
  then have "distinct (map fst kvs)" by (simp add: strict_sorted_iff str_keys_inj [symmetric])
  moreover have "sort_str kvs = kvs"
    using kv(3) by (intro sort_key_id_if_sorted) (simp add: strict_sorted_iff)
  moreover have "list_all2 (shaped P) kvs kvs"
    using 3(1) kv(2) by (auto simp: list_all2_same shaped_def list_all_iff)
  ultimately show ?case using json_shape_dict [OF kv(1)] by auto
qed auto

lemma json_normal_asdict: "json_normal w \<Longrightarrow> asdict_val w = w"
proof (induction w rule: asdict_val.induct)
  case (4 d)
  then show ?case by (force simp: list_all_iff is_str_def intro!: map_idI split: pyval.splits)
qed (auto simp: list_all_iff intro!: map_idI)

text \<open>A value read back from disk is written unchanged.\<close>

definition stable_val :: "prims \<Rightarrow> pyval \<Rightarrow> bool" where
  "stable_val P v \<longleftrightarrow> disk_val P v = Inr v"

lemma disk_val_stable: "str_keyed v \<Longrightarrow> disk_val P v = Inr w \<Longrightarrow> stable_val P w"
proof -
  assume "str_keyed v" "disk_val P v = Inr w"
  then have "json_normal w"
    unfolding disk_val_def by (rule json_shape_normal [OF str_keyed_asdict])
  from json_normal_asdict [OF this] json_normal_shape [OF this] show ?thesis
    by (simp add: stable_val_def disk_val_def)
qed

lemma etraverse_pairs:
  "etraverse (\<lambda>(k, v). emap (Pair k) (g v)) xs = Inr ys \<longleftrightarrow>
     list_all2 (\<lambda>p q. fst q = fst p \<and> g (snd p) = Inr (snd q)) xs ys"
proof (induction xs arbitrary: ys)
  case (Cons x xs)
  have "list_all2 (\<lambda>p q. fst q = fst p \<and> g (snd p) = Inr (snd q)) (x # xs) ys \<longleftrightarrow>
      (\<exists>w ws. g (snd x) = Inr w \<and> ys = (fst x, w) # ws \<and>
        list_all2 (\<lambda>p q. fst q = fst p \<and> g (snd p) = Inr (snd q)) xs ws)"
    by (cases ys) (auto simp: prod_eq_iff)
  then show ?case
    unfolding etraverse_Cons ebind_Inr_iff emap_Inr_iff Cons.IH by (cases x) (auto simp: emap_Inr_iff)
qed auto

lemma etraverse_pairs_keys:
  "etraverse (\<lambda>(k, v). emap (Pair k) (g v)) xs = Inr ys \<Longrightarrow> map fst ys = map fst xs"
  unfolding etraverse_pairs by (induction rule: list_all2_induct) auto

lemma pairs_fix:
  assumes "etraverse (\<lambda>(k, v). emap (Pair k) (g v)) xs = Inr ys"
    and "\<And>p w. p \<in> set xs \<Longrightarrow> g (snd p) = Inr w \<Longrightarrow> g w = Inr w"
  shows "etraverse (\<lambda>(k, v). emap (Pair k) (g v)) ys = Inr ys"
proof -
  have "list_all (\<lambda>q. g (snd q) = Inr (snd q)) ys"
    using assms(1) unfolding etraverse_pairs by (rule list_all2_all) (use assms(2) in auto)
  then show ?thesis unfolding etraverse_pairs by (simp add: list_all2_same list_all_iff)
qed

definition plain_dict :: "(pystr, pyval) dict \<Rightarrow> bool" where
  "plain_dict d \<longleftrightarrow> list_all (str_keyed \<circ> snd) d"

definition plain_record :: "ckpt_record \<Rightarrow> bool" where
  "plain_record r \<longleftrightarrow> plain_dict (cr_metadata r) \<and>
     list_all (plain_dict \<circ> snd) (cp_channels (cr_checkpoint r))"

lemma disk_dict_fix:
  assumes "disk_dict P d = Inr d'" and "plain_dict d"
  shows "disk_dict P d' = Inr d'"
proof -
  have "map fst d' = map fst (sort_key fst d)"
    using assms(1) unfolding disk_dict_def by (rule etraverse_pairs_keys)
  then have "sorted (map fst d')" by (simp del: sorted_map)
  then have "sort_key fst d' = d'" by (rule sort_key_id_if_sorted)
  moreover have "etraverse (\<lambda>(k, v). emap (Pair k) (disk_val P v)) d' = Inr d'"
    using assms(1) unfolding disk_dict_def
    by (rule pairs_fix)
      (use assms(2) disk_val_stable in \<open>auto simp: plain_dict_def list_all_iff stable_val_def\<close>)
  ultimately show ?thesis by (simp add: disk_dict_def)
qed

lemma disk_checkpoint_fix:
  assumes "disk_checkpoint P cp = Inr cp'" and "list_all (plain_dict \<circ> snd) (cp_channels cp)"
  shows "disk_checkpoint P cp' = Inr cp'"
proof -
  from assms(1) obtain chans where
    ch: "etraverse (\<lambda>(n, sn). emap (Pair n) (disk_dict P sn)) (sort_key fst (cp_channels cp)) = Inr chans"
    and cp': "cp' = cp\<lparr>cp_channels := chans,
        cp_seen := map (\<lambda>(n, vs). (n, sort_key fst vs)) (sort_key fst (cp_seen cp))\<rparr>"
    by (auto simp: disk_checkpoint_def emap_Inr_iff)
  have "sort_key fst chans = chans"
    using etraverse_pairs_keys [OF ch] by (intro sort_key_id_if_sorted) simp
  moreover have "etraverse (\<lambda>(n, sn). emap (Pair n) (disk_dict P sn)) chans = Inr chans"
    using ch by (rule pairs_fix) (use assms(2) disk_dict_fix in \<open>auto simp: list_all_iff\<close>)
  moreover have "sort_key fst (cp_seen cp') = cp_seen cp'"
    by (rule sort_key_id_if_sorted) (simp add: cp' comp_def case_prod_unfold)
  moreover have "map (\<lambda>(n, vs). (n, sort_key fst vs)) (cp_seen cp') = cp_seen cp'"
    by (rule map_idI) (auto simp: cp' sort_key_id_if_sorted)
  moreover have "cp_channels cp' = chans" by (simp add: cp')
  ultimately show ?thesis by (simp add: disk_checkpoint_def run_checkpoint.equality)
qed

lemma disk_record_fix:
  assumes "disk_record P r = Inr r'" and "plain_record r"
  shows "disk_record P r' = Inr r'"
proof -
  from assms(1) obtain cp m where cp: "disk_checkpoint P (cr_checkpoint r) = Inr cp"
    and m: "disk_dict P (cr_metadata r) = Inr m" and r': "r' = r\<lparr>cr_checkpoint := cp, cr_metadata := m\<rparr>"
    by (auto simp: disk_record_def ebind_Inr_iff emap_Inr_iff)
  with assms(2) disk_checkpoint_fix [OF cp] disk_dict_fix [OF m] show ?thesis
    by (simp add: plain_record_def disk_record_def)
qed

section \<open>Well-formed thread files\<close>

definition stable_record :: "prims \<Rightarrow> ckpt_record \<Rightarrow> bool" where
  "stable_record P r \<longleftrightarrow> disk_record P r = Inr r \<and> enc_record r"

definition stable_pending :: "prims \<Rightarrow> pending_write \<Rightarrow> bool" where
  "stable_pending P w \<longleftrightarrow> disk_pending P w = Inr w \<and> enc_pending w"

definition wf_file :: "prims \<Rightarrow> thread_file \<Rightarrow> bool" where
  "wf_file P tf \<longleftrightarrow> list_all (stable_record P) (tf_checkpoints tf) \<and>
     list_all (stable_pending P) (tf_pending tf) \<and> distinct (map cr_id (tf_checkpoints tf))"

definition wf_store :: "prims \<Rightarrow> store \<Rightarrow> bool" where
  "wf_store P store \<longleftrightarrow> (\<forall>path tf. map_of store path = Some tf \<longrightarrow> wf_file P tf)"

lemma wf_empty_thread [simp]: "wf_file P empty_thread"
  by (simp add: wf_file_def empty_thread_def)

lemma wf_read_thread: "wf_store P store \<Longrightarrow> wf_file P (read_thread store path)"
  by (auto simp: wf_store_def read_thread_def dget_def split: option.splits)

lemma etraverse_append:
  "etraverse f (xs @ ys) = ebind (etraverse f xs) (\<lambda>as. emap ((@) as) (etraverse f ys))"
  by (induction xs) (auto simp: ebind_def emap_def split: sum.splits)

lemma etraverse_id: "(\<forall>x \<in> set xs. f x = Inr x) \<Longrightarrow> etraverse f xs = Inr xs"
  by (induction xs) auto

lemma stable_serialize:
  "wf_file P tf \<Longrightarrow> etraverse (disk_record P) (tf_checkpoints tf) = Inr (tf_checkpoints tf)"
  "wf_file P tf \<Longrightarrow> etraverse (disk_pending P) (tf_pending tf) = Inr (tf_pending tf)"
  "wf_file P tf \<Longrightarrow> list_all enc_record (tf_checkpoints tf)"
  "wf_file P tf \<Longrightarrow> list_all enc_pending (tf_pending tf)"
  by (auto simp: wf_file_def stable_record_def stable_pending_def list_all_iff intro!: etraverse_id)

lemma serialize_wf: "wf_file P tf \<Longrightarrow> serialize_thread P tf = Inr tf"
  by (simp add: serialize_thread_def stable_serialize)

text \<open>Files with some records or pending writes left out are as stable as they were.\<close>

lemma wf_file_sub:
  assumes "wf_file P tf" and "set (tf_pending tf') \<subseteq> set (tf_pending tf)"
    and "\<exists>Q. tf_checkpoints tf' = filter Q (tf_checkpoints tf)"
  shows "wf_file P tf'"
  using assms by (auto simp: wf_file_def list_all_iff distinct_map_filter)

lemma serialize_append_record:
  assumes "wf_file P tf" and "disk_record P r = Inr r'" and "enc_record r'"
  shows "serialize_thread P (tf\<lparr>tf_checkpoints := tf_checkpoints tf @ [r]\<rparr>) =
    Inr (tf\<lparr>tf_checkpoints := tf_checkpoints tf @ [r']\<rparr>)"
  using assms by (simp add: serialize_thread_def etraverse_append stable_serialize)

lemma serialize_append_record_inv:
  assumes "wf_file P tf" and "serialize_thread P (tf\<lparr>tf_checkpoints := tf_checkpoints tf @ [r]\<rparr>) = Inr tf'"
  obtains r' where "disk_record P r = Inr r'" "enc_record r'"
    "tf' = tf\<lparr>tf_checkpoints := tf_checkpoints tf @ [r']\<rparr>"
  using assms
  by (auto simp: serialize_thread_def etraverse_append stable_serialize ebind_Inr_iff emap_Inr_iff
      split: if_splits sum.splits)

lemma serialize_append_pending_inv:
  assumes "wf_file P tf" and "serialize_thread P (tf\<lparr>tf_pending := tf_pending tf @ [w]\<rparr>) = Inr tf'"
  obtains w' where "disk_pending P w = Inr w'" "enc_pending w'"
    "tf' = tf\<lparr>tf_pending := tf_pending tf @ [w']\<rparr>"
  using assms
  by (auto simp: serialize_thread_def etraverse_append stable_serialize ebind_Inr_iff emap_Inr_iff
      split: if_splits sum.splits)

lemma disk_record_id: "disk_record P r = Inr r' \<Longrightarrow> cr_id r' = cr_id r \<and> cr_parent r' = cr_parent r \<and> cr_thread r' = cr_thread r"
  by (auto simp: disk_record_def ebind_Inr_iff emap_Inr_iff)

lemma disk_pending_id:
  "disk_pending P w = Inr w' \<Longrightarrow> pw_task w' = pw_task w \<and> pw_checkpoint w' = pw_checkpoint w \<and>
     pw_path w' = pw_path w \<and> pw_thread w' = pw_thread w"
  by (auto simp: disk_pending_def emap_Inr_iff)

section \<open>Identifiers\<close>

lemma fresh_index_spec: "numbered base (fresh_index base used i) \<notin> set used \<and> i \<le> fresh_index base used i"
proof (induction base used i rule: fresh_index.induct)
  case (1 base used i)
  then show ?case by (subst (1 2) fresh_index.simps) (auto dest: Suc_leD)
qed

lemma next_checkpoint_id_fresh: "next_checkpoint_id cp records \<notin> cr_id ` set records"
  using fresh_index_spec [of _ "map cr_id records" 1]
  by (auto simp: next_checkpoint_id_def Let_def image_iff)

lemma find_record_None: "find_record records i = None \<longleftrightarrow> i \<notin> cr_id ` set records"
  by (auto simp: find_record_def find_None_iff)

lemma find_record_Some: "find_record records i = Some r \<Longrightarrow> r \<in> set records \<and> cr_id r = i"
  by (auto simp: find_record_def find_Some_iff)

section \<open>Appending\<close>

lemma read_dset [simp]:
  "read_thread (dset path tf store) q = (if q = path then tf else read_thread store q)"
  by (simp add: read_thread_def)

lemma wf_store_dset: "wf_store P store \<Longrightarrow> wf_file P tf \<Longrightarrow> wf_store P (dset path tf store)"
  by (auto simp: wf_store_def)

lemma append_run_checkpoint_cases:
  assumes wf: "wf_file P tf"
    and run: "append_run_checkpoint P store path thread cp tf cid parent meta = Inr (store', rec)"
  shows "(store' = store \<and> rec \<in> set (tf_checkpoints tf) \<and> checkpoint_eq (cr_checkpoint rec) cp) \<or>
    (\<exists>stored. disk_record P rec = Inr stored \<and> enc_record stored \<and> cr_checkpoint rec = cp \<and>
       cr_metadata rec = meta \<and> cr_id rec \<notin> cr_id ` set (tf_checkpoints tf) \<and>
       store' = dset path (tf\<lparr>tf_checkpoints := tf_checkpoints tf @ [stored]\<rparr>) store)"
proof -
  let ?rs = "tf_checkpoints tf"
  let ?id = "case cid of Some i \<Rightarrow> if i = [] then next_checkpoint_id cp ?rs else i
             | None \<Rightarrow> next_checkpoint_id cp ?rs"
  show ?thesis
  proof (cases "find_record ?rs ?id")
    case (Some existing)
    with run have "store' = store" "rec = existing" "checkpoint_eq (cr_checkpoint existing) cp"
      by (auto simp: append_run_checkpoint_def Let_def split: if_splits)
    with find_record_Some [OF Some] show ?thesis by simp
  next
    case None
    with run have w: "write_thread P path (tf\<lparr>tf_checkpoints := ?rs @ [rec]\<rparr>) store = Inr store'"
      and rec: "cr_id rec = ?id" "cr_checkpoint rec = cp" "cr_metadata rec = meta"
      by (auto simp: append_run_checkpoint_def Let_def emap_Inr_iff)
    from w obtain tf' where ser: "serialize_thread P (tf\<lparr>tf_checkpoints := ?rs @ [rec]\<rparr>) = Inr tf'"
      and store': "store' = dset path tf' store" by (auto simp: write_thread_def emap_Inr_iff)
    from serialize_append_record_inv [OF wf ser] obtain stored where
      "disk_record P rec = Inr stored" "enc_record stored"
      "tf' = tf\<lparr>tf_checkpoints := ?rs @ [stored]\<rparr>" by blast
    with store' rec None show ?thesis by (auto simp: find_record_None)
  qed
qed

lemma wf_append_record:
  assumes "wf_file P tf" and "disk_record P r = Inr stored" and "enc_record stored" and "plain_record r"
    and "cr_id r \<notin> cr_id ` set (tf_checkpoints tf)"
  shows "wf_file P (tf\<lparr>tf_checkpoints := tf_checkpoints tf @ [stored]\<rparr>)"
  using assms disk_record_fix [OF assms(2,4)] disk_record_id [OF assms(2)]
  by (auto simp: wf_file_def stable_record_def)

text \<open>The history of the thread grows by at most the disk form of the record it returns.\<close>

lemma put_run_checkpoint_spec:
  assumes wf: "wf_store P store" and path: "safe_id P thread = Inr path"
    and put: "put_run_checkpoint P store thread cp cid parent meta = Inr (store', rec)"
    and plain: "list_all (plain_dict \<circ> snd) (cp_channels cp)" "plain_dict meta"
  shows "wf_store P store' \<and> (\<forall>q. q \<noteq> path \<longrightarrow> map_of store' q = map_of store q) \<and>
    (store' = store \<and> rec \<in> set (tf_checkpoints (read_thread store path)) \<and> checkpoint_eq (cr_checkpoint rec) cp \<or>
     (\<exists>stored. disk_record P rec = Inr stored \<and> cr_checkpoint rec = cp \<and>
        tf_checkpoints (read_thread store' path) = tf_checkpoints (read_thread store path) @ [stored]))"
proof -
  let ?tf = "read_thread store path"
  have wft: "wf_file P ?tf" using wf by (rule wf_read_thread)
  from put path have "append_run_checkpoint P store path thread cp ?tf cid parent meta = Inr (store', rec)"
    by (simp add: put_run_checkpoint_def)
  from append_run_checkpoint_cases [OF wft this] show ?thesis
  proof (elim disjE exE conjE)
    fix stored
    assume d: "disk_record P rec = Inr stored" "enc_record stored" "cr_checkpoint rec = cp"
      "cr_metadata rec = meta" "cr_id rec \<notin> cr_id ` set (tf_checkpoints ?tf)"
      "store' = dset path (?tf\<lparr>tf_checkpoints := tf_checkpoints ?tf @ [stored]\<rparr>) store"
    have "plain_record rec" using plain d(3,4) by (simp add: plain_record_def)
    from wf_append_record [OF wft d(1,2) this d(5)] wf have "wf_store P store'"
      unfolding d(6) by (intro wf_store_dset)
    with d show ?thesis by auto
  qed (use wf in auto)
qed

section \<open>The journal of pending writes\<close>

text \<open>
  What the run boundary relies on: a write that is put is recovered after the ones before it,
  in the form the disk gives it, and a clear drops the records of its task and no other.
\<close>

locale pending_journal =
  fixes recover :: "'s \<Rightarrow> 'w list"
    and put :: "'s \<Rightarrow> 'w \<Rightarrow> 'e + 's"
    and clear :: "'s \<Rightarrow> 't \<Rightarrow> 'e + 's"
    and task :: "'w \<Rightarrow> 't"
    and wf :: "'s \<Rightarrow> bool"
    and storable :: "'w \<Rightarrow> bool"
    and written :: "'w \<Rightarrow> 'w \<Rightarrow> bool"
  assumes put_recover: "wf s \<Longrightarrow> storable w \<Longrightarrow> put s w = Inr s' \<Longrightarrow>
      \<exists>w'. written w w' \<and> recover s' = recover s @ [w'] \<and> wf s'"
    and written_task: "written w w' \<Longrightarrow> task w' = task w"
    and clear_recover: "wf s \<Longrightarrow> clear s t = Inr s' \<Longrightarrow>
      recover s' = filter (\<lambda>w. task w \<noteq> t) (recover s) \<and> wf s'"
    and clear_total: "wf s \<Longrightarrow> \<exists>s'. clear s t = Inr s'"
begin

lemma cleared: "wf s \<Longrightarrow> clear s t = Inr s' \<Longrightarrow> w \<in> set (recover s') \<Longrightarrow> task w \<noteq> t"
  by (drule (1) clear_recover) auto

lemma replace_single:
  assumes "wf s" and "storable w" and "clear s (task w) = Inr s1" and "put s1 w = Inr s2"
  shows "wf s2 \<and> (\<exists>w'. written w w' \<and> filter (\<lambda>x. task x = task w) (recover s2) = [w']) \<and>
    filter (\<lambda>x. task x \<noteq> task w) (recover s2) = filter (\<lambda>x. task x \<noteq> task w) (recover s)"
proof -
  from clear_recover [OF assms(1,3)] have r1: "recover s1 = filter (\<lambda>x. task x \<noteq> task w) (recover s)"
    and wf1: "wf s1" by simp_all
  from put_recover [OF wf1 assms(2,4)] obtain w' where w': "written w w'"
    "recover s2 = recover s1 @ [w']" "wf s2" by blast
  have "filter (\<lambda>x. task x = task w) (recover s1) = []" by (simp add: r1 filter_empty_conv)
  moreover have "filter (\<lambda>x. task x \<noteq> task w) (recover s1) = recover s1" by (simp add: r1)
  ultimately show ?thesis using w' written_task [OF w'(1)] r1 by simp
qed

end

definition plain_pending :: "pending_write \<Rightarrow> bool" where
  "plain_pending w \<longleftrightarrow> list_all (str_keyed \<circ> snd) (pw_writes w)"

lemma disk_pending_fix:
  assumes "disk_pending P w = Inr w'" and "plain_pending w"
  shows "disk_pending P w' = Inr w'"
proof -
  from assms(1) obtain ws where ws: "etraverse (\<lambda>(c, v). emap (Pair c) (disk_val P v)) (pw_writes w) = Inr ws"
    and w': "w' = w\<lparr>pw_writes := ws\<rparr>" by (auto simp: disk_pending_def emap_Inr_iff)
  have "etraverse (\<lambda>(c, v). emap (Pair c) (disk_val P v)) ws = Inr ws"
    using ws by (rule pairs_fix)
      (use assms(2) disk_val_stable in \<open>auto simp: plain_pending_def list_all_iff stable_val_def\<close>)
  then show ?thesis by (simp add: disk_pending_def w')
qed

lemma journal_at_spec:
  assumes "wf_store P s" and "plain_pending w" and "journal_at P path s w = Inr s'"
  shows "\<exists>w'. disk_pending P w = Inr w' \<and>
    s' = dset path (read_thread s path\<lparr>tf_pending := tf_pending (read_thread s path) @ [w']\<rparr>) s \<and> wf_store P s'"
proof -
  let ?tf = "read_thread s path"
  have wf: "wf_file P ?tf" using assms(1) by (rule wf_read_thread)
  from assms(3) obtain tf' where
    ser: "serialize_thread P (?tf\<lparr>tf_pending := tf_pending ?tf @ [w]\<rparr>) = Inr tf'" and s': "s' = dset path tf' s"
    by (auto simp: journal_at_def Let_def write_thread_def emap_Inr_iff)
  from serialize_append_pending_inv [OF wf ser] obtain w' where
    w': "disk_pending P w = Inr w'" "enc_pending w'" "tf' = ?tf\<lparr>tf_pending := tf_pending ?tf @ [w']\<rparr>" by blast
  have "wf_file P tf'"
    using wf w'(2) disk_pending_fix [OF w'(1) assms(2)] by (simp add: w'(3) wf_file_def stable_pending_def)
  with w' s' assms(1) show ?thesis by (auto intro: wf_store_dset)
qed

lemma clear_at_spec:
  assumes "wf_store P s"
  shows "clear_at P path s (Some t) =
      Inr (dset path (read_thread s path\<lparr>tf_pending := filter (\<lambda>w. pw_task w \<noteq> t) (tf_pending (read_thread s path))\<rparr>) s)"
    and "wf_store P (dset path (read_thread s path\<lparr>tf_pending := filter (\<lambda>w. pw_task w \<noteq> t) (tf_pending (read_thread s path))\<rparr>) s)"
proof -
  let ?tf = "read_thread s path\<lparr>tf_pending := filter (\<lambda>w. pw_task w \<noteq> t) (tf_pending (read_thread s path))\<rparr>"
  have "wf_file P ?tf"
    using wf_read_thread [OF assms, of path] by (auto simp: wf_file_def list_all_iff)
  then show "clear_at P path s (Some t) = Inr (dset path ?tf s)" "wf_store P (dset path ?tf s)"
    using assms by (simp_all add: clear_at_def Let_def write_thread_def serialize_wf wf_store_dset)
qed

interpretation thread_journal: pending_journal
  "\<lambda>s. tf_pending (read_thread s path)" "journal_at P path" "\<lambda>s t. clear_at P path s (Some t)"
  pw_task "wf_store P" plain_pending "\<lambda>w w'. disk_pending P w = Inr w'"
proof
  fix s w s'
  assume "wf_store P s" "plain_pending w" "journal_at P path s w = Inr s'"
  from journal_at_spec [OF this] show "\<exists>w'. disk_pending P w = Inr w' \<and>
    tf_pending (read_thread s' path) = tf_pending (read_thread s path) @ [w'] \<and> wf_store P s'" by auto
qed (auto simp: clear_at_spec dest: disk_pending_id)

end
