(* ===== verification/Compiler.thy ===== *)
theory Compiler
  imports GState
begin

text \<open>
  Graph construction and compile-time validation (graph/compiler.py): the recording builder,
  the checks of \<open>compile()\<close> in their documented order, Kahn's algorithm for the
  canonical order, the reachability walk, and the compiled topology of graph/scheduler.py.
  A channel factory is the body of the channel it makes.
\<close>

section \<open>Nodes and builders\<close>

text \<open>
  A node callable maps its input to a program: it returns, raises, is cancelled, or calls
  \<open>interrupt(value)\<close> and goes on with the value that call returns.
\<close>

datatype nprog =
    NRet node_result
  | NRaise pyexc
  | NCancel
  | NInterrupt pyval "pyval \<Rightarrow> nprog"

type_synonym node_fn = "pyval \<Rightarrow> nprog"

record builder =
  b_graph_id :: pystr
  b_nodes :: "(pystr \<times> node_fn) list"
  b_edges :: "(pystr \<times> pystr) list"
  b_join_edges :: "(pystr list \<times> pystr) list"
  b_branches :: "branch_spec list"
  b_channels :: "(pystr \<times> chan_body) list"

datatype compile_error =
    NoPathMap pystr
  | ReservedChannel pystr
  | DuplicateChannel pystr
  | ReservedNode pystr
  | DuplicateNodeError pystr
  | EndAsSource pystr
  | StartAsTarget pystr
  | DirectStartEnd
  | UnknownEdgeEndpointError pystr pystr pystr
  | JoinNeedsTwo "pystr list" pystr
  | JoinTarget pystr
  | JoinRepeats "pystr list" pystr
  | SecondBranch pystr
  | NoEntryEdge
  | GraphCycleError "pystr list"
  | FanInNotSupportedError pystr "pystr list"
  | OrphanNodeError "pystr list"
  | EndUnreachable

definition GraphBuilder :: "pystr \<Rightarrow> builder" where
  "GraphBuilder graph_id =
     \<lparr>b_graph_id = graph_id, b_nodes = [], b_edges = [], b_join_edges = [], b_branches = [],
      b_channels = []\<rparr>"

definition add_node :: "pystr \<Rightarrow> node_fn \<Rightarrow> builder \<Rightarrow> builder" where
  "add_node node_id fn b = b\<lparr>b_nodes := b_nodes b @ [(node_id, fn)]\<rparr>"

text \<open>The source of \<open>add_edge\<close>: one name, or the list form that declares an all-of join.\<close>

fun add_edge :: "pystr + pystr list \<Rightarrow> pystr \<Rightarrow> builder \<Rightarrow> builder" where
  "add_edge (Inl source) target b = b\<lparr>b_edges := b_edges b @ [(source, target)]\<rparr>"
| "add_edge (Inr sources) target b = b\<lparr>b_join_edges := b_join_edges b @ [(sources, target)]\<rparr>"

definition add_conditional_edges ::
    "pystr \<Rightarrow> (state_view \<Rightarrow> gerror + pyval) \<Rightarrow> ((pystr, pystr) dict + pystr list) option \<Rightarrow> builder
      \<Rightarrow> compile_error + builder" where
  "add_conditional_edges source path path_map b =
     (case path_map of
        None \<Rightarrow> Inl (NoPathMap source)
      | Some pm \<Rightarrow>
          (let mapping = (case pm of Inl d \<Rightarrow> d
                          | Inr names \<Rightarrow> foldl (\<lambda>d name. dset name name d) [] names)
           in Inr (b\<lparr>b_branches := b_branches b @
                      [\<lparr>br_source = source, br_path = path, br_map = mapping\<rparr>]\<rparr>)))"

fun add_sequence :: "pystr option \<Rightarrow> (pystr \<times> node_fn) list \<Rightarrow> builder \<Rightarrow> builder" where
  "add_sequence previous [] b = b"
| "add_sequence previous ((node_id, fn) # entries) b =
     (let b' = add_node node_id fn b;
          b'' = (case previous of None \<Rightarrow> b' | Some p \<Rightarrow> add_edge (Inl p) node_id b')
      in add_sequence (Some node_id) entries b'')"

definition add_channel :: "pystr \<Rightarrow> chan_body \<Rightarrow> builder \<Rightarrow> builder" where
  "add_channel name factory b = b\<lparr>b_channels := b_channels b @ [(name, factory)]\<rparr>"

section \<open>The compiled graph\<close>

record compiled =
  cg_graph_id :: pystr
  cg_nodes :: "(pystr, node_fn) dict"
  cg_order :: "pystr list"
  cg_successors :: "(pystr, pystr list) dict"
  cg_triggers :: "(pystr, pystr list) dict"
  cg_factories :: "(pystr, chan_body) dict"
  cg_allow_orphans :: bool
  cg_allow_cycles :: bool
  cg_branches :: "(pystr, branch_spec) dict"
  cg_join_writes :: "(pystr, (pystr \<times> pystr) list) dict"
  cg_managed_remaining :: "pystr option"

section \<open>Validation\<close>

fun check_channels ::
    "(pystr, chan_body) dict \<Rightarrow> (pystr \<times> chan_body) list \<Rightarrow> compile_error + (pystr, chan_body) dict" where
  "check_channels declared [] = Inr declared"
| "check_channels declared ((name, factory) # cs) =
     (if name = [] \<or> is_reserved name then Inl (ReservedChannel name)
      else if has_key declared name then Inl (DuplicateChannel name)
      else check_channels (dset name factory declared) cs)"

definition bad_node_id :: "pystr \<Rightarrow> bool" where
  "bad_node_id n \<longleftrightarrow> n = [] \<or> n = START \<or> n = END \<or> is_reserved n \<or> 43 \<in> set n"

fun check_node_ids :: "(pystr \<times> node_fn) list \<Rightarrow> compile_error + unit" where
  "check_node_ids [] = Inr ()"
| "check_node_ids ((n, _) # ns) = (if bad_node_id n then Inl (ReservedNode n) else check_node_ids ns)"

fun collect_nodes ::
    "(pystr, node_fn) dict \<Rightarrow> (pystr \<times> node_fn) list \<Rightarrow> compile_error + (pystr, node_fn) dict" where
  "collect_nodes nodes [] = Inr nodes"
| "collect_nodes nodes ((n, f) # ns) =
     (if has_key nodes n then Inl (DuplicateNodeError n) else collect_nodes (dset n f nodes) ns)"

definition known_endpoint :: "pystr list \<Rightarrow> pystr \<Rightarrow> bool" where
  "known_endpoint nodes e \<longleftrightarrow> e = START \<or> e = END \<or> e \<in> set nodes"

text \<open>An exact duplicate of an edge is dropped.\<close>

fun check_edges ::
    "pystr list \<Rightarrow> (pystr \<times> pystr) list \<Rightarrow> (pystr \<times> pystr) list \<Rightarrow> compile_error + (pystr \<times> pystr) list" where
  "check_edges nodes acc [] = Inr acc"
| "check_edges nodes acc ((s, t) # es) =
     (if s = END then Inl (EndAsSource t)
      else if t = START then Inl (StartAsTarget s)
      else if s = START \<and> t = END then Inl DirectStartEnd
      else if \<not> known_endpoint nodes s then Inl (UnknownEdgeEndpointError s t s)
      else if \<not> known_endpoint nodes t then Inl (UnknownEdgeEndpointError s t t)
      else check_edges nodes (if (s, t) \<in> set acc then acc else acc @ [(s, t)]) es)"

definition first_unknown :: "pystr list \<Rightarrow> pystr list \<Rightarrow> pystr option" where
  "first_unknown nodes es = List.find (\<lambda>e. e \<notin> set nodes) es"

fun check_joins ::
    "pystr list \<Rightarrow> (pystr list \<times> pystr) list \<Rightarrow> compile_error + (pystr list \<times> pystr) list" where
  "check_joins nodes [] = Inr []"
| "check_joins nodes ((ss, t) # js) =
     (if length ss < 2 then Inl (JoinNeedsTwo ss t)
      else if t = START \<or> t = END then Inl (JoinTarget t)
      else case first_unknown nodes (ss @ [t]) of
        Some e \<Rightarrow> Inl (UnknownEdgeEndpointError (join_str [43] ss) t e)
      | None \<Rightarrow>
          (if \<not> distinct ss then Inl (JoinRepeats ss t)
           else emap ((#) (sort ss, t)) (check_joins nodes js)))"

fun check_branches ::
    "pystr list \<Rightarrow> (pystr, branch_spec) dict \<Rightarrow> branch_spec list
      \<Rightarrow> compile_error + (pystr, branch_spec) dict" where
  "check_branches nodes acc [] = Inr acc"
| "check_branches nodes acc (b # bs) =
     (if br_source b \<noteq> START \<and> br_source b \<notin> set nodes
      then Inl (UnknownEdgeEndpointError (br_source b) [] (br_source b))
      else if has_key acc (br_source b) then Inl (SecondBranch (br_source b))
      else case List.find (\<lambda>d. d \<noteq> END \<and> d \<notin> set nodes) (map snd (br_map b)) of
        Some d \<Rightarrow> Inl (UnknownEdgeEndpointError (br_source b) d d)
      | None \<Rightarrow> check_branches nodes (dset (br_source b) b acc) bs)"

definition dependency_edges ::
    "(pystr \<times> pystr) list \<Rightarrow> (pystr list \<times> pystr) list \<Rightarrow> (pystr, branch_spec) dict \<Rightarrow> (pystr \<times> pystr) list" where
  "dependency_edges edges joins branches =
     edges @ concat (map (\<lambda>(ss, t). map (\<lambda>s. (s, t)) ss) joins) @
     concat (map (\<lambda>(source, spec). map (\<lambda>d. (source, d)) (filter (\<lambda>d. d \<noteq> END) (destinations spec)))
       branches)"

section \<open>Kahn's algorithm\<close>

definition internal_edges :: "pystr list \<Rightarrow> (pystr \<times> pystr) list \<Rightarrow> (pystr \<times> pystr) list" where
  "internal_edges nodes edges = filter (\<lambda>(s, t). s \<in> set nodes \<and> t \<in> set nodes) edges"

definition in_degrees :: "pystr list \<Rightarrow> (pystr \<times> pystr) list \<Rightarrow> (pystr, int) dict" where
  "in_degrees nodes edges =
     foldl (\<lambda>d (s, t). dset t (dget d t 0 + 1) d) (map (\<lambda>n. (n, 0)) nodes) (internal_edges nodes edges)"

definition successor_lists :: "(pystr \<times> pystr) list \<Rightarrow> (pystr, pystr list) dict" where
  "successor_lists edges = foldl (\<lambda>d (s, t). dappend d s t) [] edges"

text \<open>The inner loop: one predecessor of each target is done.\<close>

fun relax :: "pystr list \<Rightarrow> (pystr, int) dict \<Rightarrow> pystr list \<Rightarrow> (pystr, int) dict \<times> pystr list" where
  "relax [] deg queue = (deg, queue)"
| "relax (t # ts) deg queue =
     (let deg' = dset t (dget deg t 0 - 1) deg in
      relax ts deg' (if dget deg' t 0 = 0 then sort (queue @ [t]) else queue))"

definition positive :: "(pystr, int) dict \<Rightarrow> pystr set" where
  "positive deg = {k. 0 < dget deg k 0}"

lemma finite_positive [simp]: "finite (positive deg)"
proof (rule finite_subset)
  show "positive deg \<subseteq> fst ` set deg"
    by (auto simp: positive_def dget_def split: option.splits dest: map_of_SomeD)
       (metis fst_conv image_eqI map_of_SomeD)
qed simp

text \<open>Every round takes one name off the queue; a name enters it when its degree stops being positive.\<close>

lemma relax_measure:
  "length (snd (relax ts deg queue)) + card (positive (fst (relax ts deg queue)))
     \<le> length queue + card (positive deg)"
proof (induction ts deg queue rule: relax.induct)
  case (2 t ts deg queue)
  let ?deg = "dset t (dget deg t 0 - 1) deg"
  have sub: "positive ?deg \<subseteq> positive deg" by (auto simp: positive_def split: if_splits)
  then have le: "card (positive ?deg) \<le> card (positive deg)" by (simp add: card_mono)
  show ?case
  proof (cases "dget deg t 0 = 1")
    case True
    then have "t \<in> positive deg" "t \<notin> positive ?deg" by (auto simp: positive_def)
    with sub have "card (positive ?deg) < card (positive deg)"
      by (intro psubset_card_mono) auto
    with 2 True show ?thesis by (simp add: Let_def)
  next
    case False
    with 2 le show ?thesis by (simp add: Let_def)
  qed
qed simp

function kahn_loop ::
    "(pystr, pystr list) dict \<Rightarrow> (pystr, int) dict \<Rightarrow> pystr list \<Rightarrow> pystr list \<Rightarrow> pystr list" where
  "kahn_loop succs deg [] order = order"
| "kahn_loop succs deg (current # queue) order =
     (case relax (sort (dget succs current [])) deg queue of
        (deg', queue') \<Rightarrow> kahn_loop succs deg' queue' (order @ [current]))"
  by pat_completeness auto
termination
proof (relation "measure (\<lambda>(succs, deg, queue, order). length queue + card (positive deg))", goal_cases)
  case (2 succs deg current queue order deg' queue')
  then show ?case
    using relax_measure [of "sort (dget succs current [])" deg queue]
    by (simp add: 2 [symmetric])
qed simp

definition kahn_order :: "pystr list \<Rightarrow> (pystr \<times> pystr) list \<Rightarrow> pystr list" where
  "kahn_order nodes edges =
     (let deg = in_degrees nodes edges in
      kahn_loop (successor_lists (internal_edges nodes edges)) deg
        (sort (map fst (filter (\<lambda>(n, d). d = 0) deg))) [])"

definition topological_order ::
    "pystr list \<Rightarrow> (pystr \<times> pystr) list \<Rightarrow> bool \<Rightarrow> compile_error + pystr list" where
  "topological_order nodes edges allow_cycles =
     (let order = kahn_order nodes edges in
      if length order \<noteq> length nodes then
        (if allow_cycles then Inr (sort nodes)
         else Inl (GraphCycleError (sort (filter (\<lambda>n. n \<notin> set order) nodes))))
      else Inr order)"

section \<open>Fan-in and reachability\<close>

definition fan_in_sources :: "(pystr \<times> pystr) list \<Rightarrow> (pystr, pystr list) dict" where
  "fan_in_sources edges = foldl (\<lambda>d (s, t). dappend d t s) [] (filter (\<lambda>(s, t). t \<noteq> END) edges)"

definition check_fan_in :: "(pystr \<times> pystr) list \<Rightarrow> compile_error + unit" where
  "check_fan_in edges =
     (let ins = fan_in_sources edges in
      case List.find (\<lambda>t. length (dget ins t []) > 1) (sort (keys ins)) of
        Some t \<Rightarrow> Inl (FanInNotSupportedError t (sort (dget ins t [])))
      | None \<Rightarrow> Inr ())"

fun visit :: "pystr list \<Rightarrow> pystr list \<Rightarrow> pystr list \<Rightarrow> pystr list \<times> pystr list" where
  "visit [] reached frontier = (reached, frontier)"
| "visit (t # ts) reached frontier =
     (if t \<in> set reached then visit ts reached frontier
      else visit ts (t # reached) (if t \<noteq> END then frontier @ [t] else frontier))"

definition walk_edges ::
    "(pystr \<times> pystr) list \<Rightarrow> (pystr, branch_spec) dict \<Rightarrow> (pystr \<times> pystr) list" where
  "walk_edges deps branches =
     deps @ map (\<lambda>(s, spec). (s, END)) (filter (\<lambda>(s, spec). END \<in> set (map snd (br_map spec))) branches)"

lemma visit_reached: "set (fst (visit ts reached frontier)) = set reached \<union> set ts"
  by (induction ts reached frontier rule: visit.induct) auto

lemma visit_frontier:
  "set (snd (visit ts reached frontier)) = set frontier \<union> ((set ts - set reached) - {END})"
  by (induction ts reached frontier rule: visit.induct) auto

lemma visit_measure:
  assumes "finite S" and "set ts \<subseteq> S"
  shows "length (snd (visit ts reached frontier)) + card (S - set (fst (visit ts reached frontier)))
    \<le> length frontier + card (S - set reached)"
  using assms(2)
proof (induction ts reached frontier rule: visit.induct)
  case (2 t ts reached frontier)
  show ?case
  proof (cases "t \<in> set reached")
    case True
    with 2 show ?thesis by simp
  next
    case False
    with 2(3) assms(1) have "card (S - set (t # reached)) < card (S - set reached)"
      by (intro psubset_card_mono) auto
    with False 2(2) [OF False] 2(3) show ?thesis by (simp split: if_splits)
  qed
qed simp

function reach_loop :: "(pystr, pystr list) dict \<Rightarrow> pystr list \<Rightarrow> pystr list \<Rightarrow> pystr list" where
  "reach_loop walk reached frontier =
     (if frontier = [] then reached
      else case visit (dget walk (last frontier) []) reached (butlast frontier) of
        (reached', frontier') \<Rightarrow> reach_loop walk reached' frontier')"
  by pat_completeness auto
termination
proof (relation "measure (\<lambda>(walk, reached, frontier).
    length frontier + card (\<Union> (set ` snd ` set walk) - set reached))", goal_cases)
  case (2 walk reached frontier reached' frontier')
  let ?S = "\<Union> (set ` snd ` set walk)"
  have "set (dget walk (last frontier) []) \<subseteq> ?S"
    by (cases "map_of walk (last frontier)") (auto simp: dget_def dest!: map_of_snd)
  from visit_measure [OF _ this, of reached "butlast frontier"]
  have "length frontier' + card (?S - set reached') \<le> length (butlast frontier) + card (?S - set reached)"
    by (simp add: 2(2) [symmetric])
  moreover have "length (butlast frontier) < length frontier" using 2(1) by simp
  ultimately show ?case by simp
qed simp

declare reach_loop.simps [simp del]

definition reachable_nodes ::
    "(pystr \<times> pystr) list \<Rightarrow> (pystr, branch_spec) dict \<Rightarrow> pystr list" where
  "reachable_nodes deps branches = reach_loop (successor_lists (walk_edges deps branches)) [] [START]"

section \<open>Compilation\<close>

definition join_tables ::
    "pystr list \<Rightarrow> (pystr list \<times> pystr) list \<Rightarrow> (pystr, chan_body) dict
      \<Rightarrow> (pystr, chan_body) dict \<times> (pystr, pystr list) dict \<times> (pystr, (pystr \<times> pystr) list) dict" where
  "join_tables nodes joins factories =
     foldl (\<lambda>(fs, trig, jw) (ss, t).
         let name = join_channel ss t in
         (dset name (BarrierChannel (set ss) {}) fs,
          dappend trig t name,
          foldl (\<lambda>jw s. dappend jw s (name, s)) jw ss))
       (factories, map (\<lambda>n. (n, [trigger_channel n])) nodes, []) joins"

text \<open>The routing tables of a validated graph, and the graph itself.\<close>

definition assemble ::
    "builder \<Rightarrow> bool \<Rightarrow> bool \<Rightarrow> (pystr, chan_body) dict \<Rightarrow> (pystr, node_fn) dict
      \<Rightarrow> (pystr \<times> pystr) list \<Rightarrow> (pystr list \<times> pystr) list \<Rightarrow> (pystr, branch_spec) dict
      \<Rightarrow> pystr list \<Rightarrow> compiled" where
  "assemble b allow_orphans allow_cycles declared nodes edges joins branches order =
     (case join_tables (keys nodes) joins (dset TASKS_CHANNEL (TopicChannel []) declared) of
        (factories, triggers, join_writes) \<Rightarrow>
          \<lparr>cg_graph_id = b_graph_id b, cg_nodes = nodes, cg_order = order,
           cg_successors = map (\<lambda>(s, ts). (s, sort ts)) (successor_lists edges),
           cg_triggers = triggers, cg_factories = factories,
           cg_allow_orphans = allow_orphans, cg_allow_cycles = allow_cycles,
           cg_branches = branches,
           cg_join_writes = map (\<lambda>(s, ws). (s, sort ws)) join_writes,
           cg_managed_remaining = None\<rparr>)"

definition compile :: "builder \<Rightarrow> bool \<Rightarrow> bool \<Rightarrow> compile_error + compiled" where
  "compile b allow_orphans allow_cycles =
     ebind (check_channels [] (b_channels b)) (\<lambda>declared.
     ebind (check_node_ids (b_nodes b)) (\<lambda>_.
     ebind (collect_nodes [] (b_nodes b)) (\<lambda>nodes.
     ebind (check_edges (keys nodes) [] (b_edges b)) (\<lambda>edges.
     ebind (check_joins (keys nodes) (b_join_edges b)) (\<lambda>joins.
     ebind (check_branches (keys nodes) [] (b_branches b)) (\<lambda>branches.
     ebind (guard (START \<in> fst ` set edges \<or> has_key branches START) NoEntryEdge) (\<lambda>_.
     let deps = dependency_edges edges joins branches in
     ebind (topological_order (keys nodes) deps allow_cycles) (\<lambda>order.
     ebind (check_fan_in edges) (\<lambda>_.
     let reached = reachable_nodes deps branches;
         orphans = sort (filter (\<lambda>n. n \<notin> set reached) (keys nodes)) in
     ebind (guard (orphans = [] \<or> allow_orphans) (OrphanNodeError orphans)) (\<lambda>_.
     ebind (guard (END \<in> set reached \<or> allow_cycles) EndUnreachable) (\<lambda>_.
       Inr (assemble b allow_orphans allow_cycles declared nodes edges joins branches order))))))))))))"

section \<open>What the grouped edges are\<close>

lemma successor_lists_snoc:
  "successor_lists (es @ [(s, t)]) = dappend (successor_lists es) s t"
  by (simp add: successor_lists_def)

lemma dget_successor_lists: "dget (successor_lists es) s [] = map snd (filter (\<lambda>e. fst e = s) es)"
proof (induction es arbitrary: s rule: rev_induct)
  case (snoc e es)
  then show ?case by (cases e) (auto simp: successor_lists_snoc)
qed (simp add: successor_lists_def)

lemma set_keys_successor_lists: "has_key (successor_lists es) s \<longleftrightarrow> s \<in> fst ` set es"
proof (induction es rule: rev_induct)
  case (snoc e es)
  then show ?case by (cases e) (auto simp: successor_lists_snoc)
qed (simp add: successor_lists_def)

lemma in_degree_fold:
  "dget (foldl (\<lambda>d (s, t). dset t (dget d t 0 + 1) d) d0 es) k 0 = dget d0 k 0 + int (count_list (map snd es) k)"
  by (induction es arbitrary: d0) (auto split: prod.splits)

lemma in_degree_keys:
  "has_key (foldl (\<lambda>d (s, t). dset t (dget d t (0::int) + 1) d) d0 es) k \<longleftrightarrow> has_key d0 k \<or> k \<in> snd ` set es"
  by (induction es arbitrary: d0) (auto split: prod.splits)

lemma in_degree_wf:
  "wf_dict d0 \<Longrightarrow> wf_dict (foldl (\<lambda>d (s, t). dset t (dget d t (0::int) + 1) d) d0 es)"
  by (induction es arbitrary: d0) (auto split: prod.splits)

lemma dget_zero_dict [simp]: "dget (map (\<lambda>n. (n, 0::int)) ns) k 0 = 0"
  by (induction ns) (auto simp: dget_def)

lemma in_degrees_facts:
  assumes "distinct nodes"
  shows "dget (in_degrees nodes es) k 0 = int (count_list (map snd (internal_edges nodes es)) k)"
    "has_key (in_degrees nodes es) k \<longleftrightarrow> k \<in> set nodes"
    "wf_dict (in_degrees nodes es)"
proof -
  show "dget (in_degrees nodes es) k 0 = int (count_list (map snd (internal_edges nodes es)) k)"
    by (simp add: in_degrees_def in_degree_fold)
  show "has_key (in_degrees nodes es) k \<longleftrightarrow> k \<in> set nodes"
    unfolding in_degrees_def in_degree_keys by (auto simp: internal_edges_def has_key_def image_iff)
  show "wf_dict (in_degrees nodes es)"
    using assms unfolding in_degrees_def by (intro in_degree_wf) (simp add: wf_dict_def comp_def)
qed

section \<open>Kahn's algorithm orders the nodes, or there is a cycle\<close>

lemma relax_deg: "dget (fst (relax ts deg queue)) k 0 = dget deg k 0 - int (count_list ts k)"
  by (induction ts deg queue rule: relax.induct) (auto simp: Let_def)

text \<open>A name is pushed exactly when its degree comes down to zero.\<close>

lemma relax_queue:
  assumes "distinct queue" and "\<And>k. k \<in> set queue \<Longrightarrow> dget deg k 0 \<le> 0"
  shows "distinct (snd (relax ts deg queue)) \<and>
    set (snd (relax ts deg queue)) =
      set queue \<union> {k. 0 < dget deg k 0 \<and> dget deg k 0 \<le> int (count_list ts k)}"
  using assms
proof (induction ts deg queue rule: relax.induct)
  case (1 deg queue)
  then show ?case by auto
next
  case (2 t ts deg queue)
  let ?deg = "dset t (dget deg t 0 - 1) deg"
  let ?q = "if dget ?deg t 0 = 0 then sort (queue @ [t]) else queue"
  have "distinct ?q" using 2(2,3) by (force split: if_splits)
  moreover have "dget ?deg k 0 \<le> 0" if "k \<in> set ?q" for k
    using that 2(3) [of k] 2(3) [of t] by (auto split: if_splits)
  ultimately have IH: "distinct (snd (relax ts ?deg ?q))"
    "set (snd (relax ts ?deg ?q)) =
      set ?q \<union> {k. 0 < dget ?deg k 0 \<and> dget ?deg k 0 \<le> int (count_list ts k)}"
    using 2(1) [OF refl] by auto
  have "set ?q \<union> {k. 0 < dget ?deg k 0 \<and> dget ?deg k 0 \<le> int (count_list ts k)} =
    set queue \<union> {k. 0 < dget deg k 0 \<and> dget deg k 0 \<le> int (count_list (t # ts) k)}"
    by (auto split: if_splits)
  with IH show ?case by (simp add: Let_def)
qed

text \<open>
  The invariant of the loop, over the internal edges \<open>E\<close>: the degree of a node counts its
  edges from nodes not yet in the order, and the queue holds the nodes without any.
\<close>

definition open_degree :: "(pystr \<times> pystr) list \<Rightarrow> pystr list \<Rightarrow> pystr \<Rightarrow> nat" where
  "open_degree E order k = length (filter (\<lambda>(s, t). t = k \<and> s \<notin> set order) E)"

definition before :: "pystr list \<Rightarrow> pystr \<Rightarrow> pystr \<Rightarrow> bool" where
  "before xs a b \<longleftrightarrow> (\<exists>ys zs. xs = ys @ b # zs \<and> a \<in> set ys)"

definition kahn_inv :: "pystr list \<Rightarrow> (pystr \<times> pystr) list \<Rightarrow> (pystr, int) dict \<Rightarrow> pystr list \<Rightarrow> pystr list \<Rightarrow> bool" where
  "kahn_inv nodes E deg queue order \<longleftrightarrow>
     distinct order \<and> distinct queue \<and> set order \<subseteq> set nodes \<and>
     set queue = {k \<in> set nodes. open_degree E order k = 0 \<and> k \<notin> set order} \<and>
     (\<forall>k. dget deg k 0 = int (open_degree E order k)) \<and>
     (\<forall>(s, t) \<in> set E. t \<in> set order \<longrightarrow> before order s t)"

lemma open_degree_zero: "open_degree E order k = 0 \<longleftrightarrow> (\<forall>(s, t) \<in> set E. t = k \<longrightarrow> s \<in> set order)"
  by (auto simp: open_degree_def filter_empty_conv)

lemma open_degree_Nil: "open_degree E [] k = count_list (map snd E) k"
  by (induction E) (auto simp: open_degree_def)

lemma open_degree_snoc:
  "c \<notin> set order \<Longrightarrow>
     open_degree E order k = open_degree E (order @ [c]) k + count_list (map snd (filter (\<lambda>e. fst e = c) E)) k"
  by (induction E) (auto simp: open_degree_def)

lemma before_snoc: "before xs a b \<Longrightarrow> before (xs @ [c]) a b"
  unfolding before_def by (metis append_Cons append_assoc)

lemma count_list_sort [simp]: "count_list (sort xs) k = count_list xs k"
  by (metis count_mset mset_sort)

lemma kahn_inv_step:
  assumes "kahn_inv nodes E deg (c # queue) order" and "set E \<subseteq> set nodes \<times> set nodes"
    and "relax (sort (map snd (filter (\<lambda>e. fst e = c) E))) deg queue = (deg', queue')"
  shows "kahn_inv nodes E deg' queue' (order @ [c])"
proof -
  let ?ts = "map snd (filter (\<lambda>e. fst e = c) E)"
  from assms(1) have ord: "distinct order" "set order \<subseteq> set nodes" "c \<notin> set order" "c \<in> set nodes"
    and q: "distinct queue" "c \<notin> set queue"
    and qs: "set (c # queue) = {k \<in> set nodes. open_degree E order k = 0 \<and> k \<notin> set order}"
    and deg: "\<And>k. dget deg k 0 = int (open_degree E order k)"
    and bef: "\<And>s t. (s, t) \<in> set E \<Longrightarrow> t \<in> set order \<Longrightarrow> before order s t"
    by (auto simp: kahn_inv_def)
  have split: "open_degree E order k = open_degree E (order @ [c]) k + count_list ?ts k" for k
    using ord(3) by (rule open_degree_snoc)
  have deg': "dget deg' k 0 = int (open_degree E (order @ [c]) k)" for k
    using relax_deg [of "sort ?ts" deg queue k] assms(3) deg [of k] split [of k] by simp
  have "dget deg k 0 \<le> 0" if "k \<in> set queue" for k
  proof -
    from that qs have "open_degree E order k = 0" by auto
    with deg show ?thesis by simp
  qed
  from relax_queue [OF q(1) this, of "sort ?ts"] assms(3)
  have q': "distinct queue'"
    "set queue' = set queue \<union> {k. 0 < open_degree E order k \<and> open_degree E order k \<le> count_list ?ts k}"
    by (simp_all add: deg)
  have "k \<in> set nodes" if "0 < open_degree E order k" for k
    using that assms(2) by (auto simp: open_degree_def filter_empty_conv)
  moreover have "open_degree E order k = 0" if "k \<in> set order" for k
    unfolding open_degree_zero using that bef unfolding before_def by fastforce
  moreover have "count_list ?ts c = 0"
  proof -
    have "open_degree E order c = 0" using qs by auto
    with split [of c] show ?thesis by simp
  qed
  moreover have "k \<in> set queue \<longleftrightarrow> k \<in> set nodes \<and> open_degree E order k = 0 \<and> k \<notin> set order \<and> k \<noteq> c" for k
    using qs q(2) by (cases "k = c") (auto simp: set_eq_iff)
  ultimately have "k \<in> set queue' \<longleftrightarrow>
      k \<in> set nodes \<and> open_degree E (order @ [c]) k = 0 \<and> k \<notin> set (order @ [c])" for k
    using split [of k] unfolding q'(2) by (cases "k = c") (fastforce simp del: split)+
  then have "set queue' = {k \<in> set nodes. open_degree E (order @ [c]) k = 0 \<and> k \<notin> set (order @ [c])}"
    by blast
  moreover have "before (order @ [c]) s t" if "(s, t) \<in> set E" "t \<in> set (order @ [c])" for s t
  proof (cases "t \<in> set order")
    case True
    with that(1) bef show ?thesis by (blast intro: before_snoc)
  next
    case False
    with that have "t = c" by simp
    moreover have "open_degree E order c = 0" using qs by auto
    ultimately have "s \<in> set order" using that(1) by (auto simp: open_degree_zero)
    with \<open>t = c\<close> show ?thesis by (auto simp: before_def)
  qed
  ultimately show ?thesis using ord q' deg' by (auto simp: kahn_inv_def)
qed

lemma kahn_loop_inv:
  assumes "set E \<subseteq> set nodes \<times> set nodes" and "kahn_inv nodes E deg queue order"
  shows "\<exists>deg'. kahn_inv nodes E deg' [] (kahn_loop (successor_lists E) deg queue order)"
  using assms(2)
proof (induction "successor_lists E" deg queue order rule: kahn_loop.induct)
  case (2 deg c queue order)
  obtain deg' queue' where r: "relax (sort (dget (successor_lists E) c [])) deg queue = (deg', queue')"
    by (cases "relax (sort (dget (successor_lists E) c [])) deg queue") auto
  have "kahn_inv nodes E deg' queue' (order @ [c])"
    using kahn_inv_step [OF 2(2) assms(1)] r by (simp add: dget_successor_lists)
  with 2(1) [OF r [symmetric]] r show ?case by simp
qed auto

lemma internal_edges_sub: "set (internal_edges nodes edges) \<subseteq> set nodes \<times> set nodes"
  by (auto simp: internal_edges_def)

lemma kahn_order_inv:
  assumes "distinct nodes"
  shows "\<exists>deg. kahn_inv nodes (internal_edges nodes edges) deg [] (kahn_order nodes edges)"
proof -
  let ?E = "internal_edges nodes edges" and ?d = "in_degrees nodes edges"
  let ?q = "sort (map fst (filter (\<lambda>(n, d). d = 0) ?d))"
  note facts = in_degrees_facts [OF assms, of edges]
  have deg: "dget ?d k 0 = int (open_degree ?E [] k)" for k
    by (simp only: facts(1) open_degree_Nil)
  have "distinct (map fst (filter (\<lambda>(n, d). d = 0) ?d))"
    using facts(3) by (simp add: wf_dict_def distinct_map_filter)
  moreover have "k \<in> set ?q \<longleftrightarrow> k \<in> set nodes \<and> open_degree ?E [] k = 0" for k
  proof -
    have "k \<in> set ?q \<longleftrightarrow> (k, 0) \<in> set ?d" by (auto simp: image_iff)
    also have "\<dots> \<longleftrightarrow> map_of ?d k = Some 0" using facts(3) by (rule wf_dict_map_of)
    also have "\<dots> \<longleftrightarrow> has_key ?d k \<and> dget ?d k 0 = 0"
      by (auto simp: has_key_map_of dget_def)
    finally show ?thesis using facts(2) deg by simp
  qed
  ultimately have "kahn_inv nodes ?E ?d ?q []"
    using deg by (auto simp: kahn_inv_def)
  from kahn_loop_inv [OF internal_edges_sub this] show ?thesis by (simp add: kahn_order_def Let_def)
qed

lemma before_pos:
  assumes "distinct xs" and "before xs a b"
  shows "length (takeWhile (\<lambda>y. y \<noteq> a) xs) < length (takeWhile (\<lambda>y. y \<noteq> b) xs)"
proof -
  from assms(2) obtain ys zs where xs: "xs = ys @ b # zs" and a: "a \<in> set ys" by (auto simp: before_def)
  then have "b \<notin> set ys" using assms(1) by auto
  then have "takeWhile (\<lambda>y. y \<noteq> b) xs = ys" using xs by (simp add: takeWhile_append)
  moreover have "takeWhile (\<lambda>y. y \<noteq> a) xs = takeWhile (\<lambda>y. y \<noteq> a) ys"
    using xs a by (simp add: takeWhile_append1)
  moreover have "length (takeWhile (\<lambda>y. y \<noteq> a) ys) < length ys"
    using a by (induction ys) auto
  ultimately show ?thesis by simp
qed

lemma ordered_acyclic:
  assumes "distinct xs" and "\<And>s t. (s, t) \<in> E \<Longrightarrow> before xs s t"
  shows "acyclic E"
proof -
  let ?pos = "\<lambda>a. length (takeWhile (\<lambda>y. y \<noteq> a) xs)"
  have "E \<subseteq> measure ?pos" using assms before_pos by auto
  then show ?thesis by (meson acyclic_subset wf_acyclic wf_measure)
qed

lemma stuck_cyclic:
  assumes "finite E" and "L \<noteq> {}" and "\<And>t. t \<in> L \<Longrightarrow> \<exists>s \<in> L. (s, t) \<in> E"
  shows "\<not> acyclic E"
proof
  assume "acyclic E"
  with assms(1) have "wf E" by (rule finite_acyclic_wf)
  then obtain z where "z \<in> L" and "\<And>y. (y, z) \<in> E \<Longrightarrow> y \<notin> L"
    by (rule wfE_min' [OF _ assms(2)]) auto
  with assms(3) [of z] show False by auto
qed

text \<open>The order is complete exactly when the edges among the nodes are acyclic.\<close>

lemma kahn_order_spec:
  assumes "distinct nodes"
  shows "distinct (kahn_order nodes edges)" "set (kahn_order nodes edges) \<subseteq> set nodes"
    and "\<And>s t. (s, t) \<in> set (internal_edges nodes edges) \<Longrightarrow> t \<in> set (kahn_order nodes edges)
          \<Longrightarrow> before (kahn_order nodes edges) s t"
    and "length (kahn_order nodes edges) = length nodes \<longleftrightarrow> acyclic (set (internal_edges nodes edges))"
proof -
  let ?E = "internal_edges nodes edges" and ?o = "kahn_order nodes edges"
  from kahn_order_inv [OF assms] obtain deg where inv: "kahn_inv nodes ?E deg [] ?o" by blast
  then show d: "distinct ?o" and sub: "set ?o \<subseteq> set nodes"
    and bef: "\<And>s t. (s, t) \<in> set ?E \<Longrightarrow> t \<in> set ?o \<Longrightarrow> before ?o s t"
    by (auto simp: kahn_inv_def)
  have len: "length ?o = length nodes \<longleftrightarrow> set ?o = set nodes"
    using card_subset_eq [OF finite_set sub] distinct_card [OF d] distinct_card [OF assms] by metis
  show "length ?o = length nodes \<longleftrightarrow> acyclic (set ?E)"
  proof (cases "set ?o = set nodes")
    case True
    then have "acyclic (set ?E)"
      using bef internal_edges_sub [of nodes edges] by (intro ordered_acyclic [OF d]) auto
    with True len show ?thesis by simp
  next
    case False
    let ?L = "set nodes - set ?o"
    have "\<exists>s \<in> ?L. (s, t) \<in> set ?E" if "t \<in> ?L" for t
    proof -
      from that inv have "open_degree ?E ?o t \<noteq> 0" by (auto simp: kahn_inv_def)
      then show ?thesis using internal_edges_sub [of nodes edges]
        by (auto simp: open_degree_zero)
    qed
    moreover have "?L \<noteq> {}" using False sub by blast
    ultimately have "\<not> acyclic (set ?E)" by (intro stuck_cyclic [OF finite_set]) 
    with False len show ?thesis by simp
  qed
qed

section \<open>The walk reaches what is reachable\<close>

definition live_edges :: "(pystr \<times> pystr) list \<Rightarrow> (pystr \<times> pystr) set" where
  "live_edges es = {(s, t) \<in> set es. s \<noteq> END}"

definition reach_inv :: "(pystr \<times> pystr) list \<Rightarrow> pystr list \<Rightarrow> pystr list \<Rightarrow> bool" where
  "reach_inv es reached frontier \<longleftrightarrow>
     set reached \<subseteq> (live_edges es)\<^sup>+ `` {START} \<and>
     set frontier \<subseteq> insert START (set reached) - {END} \<and>
     (\<forall>s \<in> insert START (set reached) - {END} - set frontier. \<forall>t. (s, t) \<in> set es \<longrightarrow> t \<in> set reached)"

lemma reach_loop_spec:
  "reach_inv es reached frontier \<Longrightarrow>
     set (reach_loop (successor_lists es) reached frontier) = (live_edges es)\<^sup>+ `` {START}"
proof (induction "successor_lists es" reached frontier rule: reach_loop.induct)
  case (1 reached frontier)
  let ?R = "live_edges es" and ?all = "insert START (set reached)"
  from 1(2) have sound: "set reached \<subseteq> ?R\<^sup>+ `` {START}" and fron: "set frontier \<subseteq> ?all - {END}"
    and closed: "\<And>s t. s \<in> ?all \<Longrightarrow> s \<noteq> END \<Longrightarrow> s \<notin> set frontier \<Longrightarrow> (s, t) \<in> set es \<Longrightarrow> t \<in> set reached"
    unfolding reach_inv_def by blast+
  show ?case
  proof (cases "frontier = []")
    case True
    have "t \<in> set reached" if "(START, t) \<in> ?R\<^sup>+" for t
      using that
    proof (induction rule: trancl_induct)
      case (base t)
      then show ?case using closed [of START t] True by (simp add: live_edges_def)
    next
      case (step s t)
      then show ?case using closed [of s t] True by (simp add: live_edges_def)
    qed
    with sound have "set reached = ?R\<^sup>+ `` {START}" by blast
    moreover have "reach_loop (successor_lists es) reached frontier = reached"
      using True by (subst reach_loop.simps) simp
    ultimately show ?thesis by simp
  next
    case False
    let ?c = "last frontier" and ?ts = "dget (successor_lists es) (last frontier) []"
    obtain r' f' where v: "visit ?ts reached (butlast frontier) = (r', f')"
      by (cases "visit ?ts reached (butlast frontier)")
    have r': "set r' = set reached \<union> set ?ts"
      and f': "set f' = set (butlast frontier) \<union> ((set ?ts - set reached) - {END})"
      using visit_reached [of ?ts reached "butlast frontier"]
        visit_frontier [of ?ts reached "butlast frontier"] by (simp_all add: v)
    have ts: "t \<in> set ?ts \<longleftrightarrow> (?c, t) \<in> set es" for t
      by (force simp: dget_successor_lists)
    have fr: "set frontier = insert ?c (set (butlast frontier))"
    proof -
      have "set (butlast frontier @ [?c]) = insert ?c (set (butlast frontier))" by simp
      then show ?thesis using False by simp
    qed
    then have c: "?c \<in> ?all" "?c \<noteq> END" using fron by blast+
    have "(START, ?c) \<in> ?R\<^sup>*"
    proof (cases "?c = START")
      case False
      with c(1) sound have "(START, ?c) \<in> ?R\<^sup>+" by blast
      then show ?thesis by (rule trancl_into_rtrancl)
    qed simp
    then have "(START, t) \<in> ?R\<^sup>+" if "t \<in> set ?ts" for t
      using that ts c(2) by (intro rtrancl_into_trancl1 [of START ?c]) (simp_all add: live_edges_def)
    then have "set r' \<subseteq> ?R\<^sup>+ `` {START}" using sound r' by blast
    moreover have "set f' \<subseteq> insert START (set r') - {END}" using fron r' f' fr by blast
    moreover have "t \<in> set r'" if "s \<in> insert START (set r') - {END} - set f'" "(s, t) \<in> set es" for s t
    proof (cases "s = ?c")
      case True
      with that(2) ts r' show ?thesis by blast
    next
      case False
      with that(1) r' f' fr have "s \<in> ?all" "s \<noteq> END" "s \<notin> set frontier" by blast+
      with closed that(2) r' show ?thesis by blast
    qed
    ultimately have inv: "reach_inv es r' f'" unfolding reach_inv_def by blast
    have "reach_loop (successor_lists es) reached frontier = reach_loop (successor_lists es) r' f'"
      using False v by (subst reach_loop.simps) simp
    with 1(1) [OF False v [symmetric] inv] show ?thesis by simp
  qed
qed

lemma reachable_nodes_spec:
  "set (reachable_nodes deps branches) = (live_edges (walk_edges deps branches))\<^sup>+ `` {START}"
  unfolding reachable_nodes_def by (rule reach_loop_spec) (simp add: reach_inv_def)

section \<open>What compilation produces\<close>

lemma check_channels_spec:
  "check_channels d cs = Inr d' \<Longrightarrow> wf_dict d \<Longrightarrow>
     wf_dict d' \<and> set d' = set d \<union> set cs \<and> (\<forall>(n, f) \<in> set cs. n \<noteq> [] \<and> \<not> is_reserved n)"
proof (induction d cs rule: check_channels.induct)
  case (2 declared name factory cs)
  then have "\<not> has_key declared name" "name \<noteq> []" "\<not> is_reserved name"
    and r: "check_channels (dset name factory declared) cs = Inr d'" by (auto split: if_splits)
  then have "{p \<in> set declared. fst p \<noteq> name} = set declared" by (auto simp: has_key_def)
  then have "set (dset name factory declared) = insert (name, factory) (set declared)"
    using set_dset [OF 2(3), of name factory] by simp
  with 2 r show ?case by (auto split: if_splits)
qed simp

lemma collect_nodes_spec:
  "collect_nodes d ns = Inr d' \<Longrightarrow> wf_dict d \<Longrightarrow>
     wf_dict d' \<and> fst ` set d' = fst ` set d \<union> fst ` set ns"
proof (induction d ns rule: collect_nodes.induct)
  case (2 nodes n f ns)
  have "fst ` set (dset n f nodes) = insert n (fst ` set nodes)"
    using 2(3) by (auto simp: set_dset image_iff)
  with 2 show ?case by (auto split: if_splits)
qed simp

lemma check_node_ids_Inr: "check_node_ids ns = Inr () \<longleftrightarrow> (\<forall>(n, f) \<in> set ns. \<not> bad_node_id n)"
  by (induction ns rule: check_node_ids.induct) auto

lemma check_edges_spec:
  "check_edges nodes acc es = Inr es' \<Longrightarrow> distinct acc \<Longrightarrow>
     distinct es' \<and> set es' = set acc \<union> set es \<and>
     (\<forall>(s, t) \<in> set es. s \<noteq> END \<and> t \<noteq> START \<and> (s, t) \<noteq> (START, END) \<and>
        known_endpoint nodes s \<and> known_endpoint nodes t)"
  by (induction nodes acc es rule: check_edges.induct) (auto split: if_splits)

lemma find_None_iff2: "List.find P xs = None \<longleftrightarrow> (\<forall>x \<in> set xs. \<not> P x)"
  by (auto simp: find_None_iff)

lemma check_joins_spec:
  "check_joins nodes js = Inr js' \<Longrightarrow>
     js' = map (\<lambda>(ss, t). (sort ss, t)) js \<and>
     (\<forall>(ss, t) \<in> set js. 2 \<le> length ss \<and> distinct ss \<and> set ss \<subseteq> set nodes \<and> t \<in> set nodes)"
proof (induction js arbitrary: js')
  case (Cons j js)
  obtain ss t where j: "j = (ss, t)" by (cases j)
  with Cons.prems obtain js1 where "check_joins nodes js = Inr js1" "js' = (sort ss, t) # js1"
    and "2 \<le> length ss" "distinct ss" "first_unknown nodes (ss @ [t]) = None"
    by (auto simp: emap_Inr_iff split: if_splits option.splits)
  with Cons.IH j show ?case by (auto simp: first_unknown_def find_None_iff2)
qed simp

definition known_branch :: "pystr list \<Rightarrow> pystr \<times> branch_spec \<Rightarrow> bool" where
  "known_branch nodes = (\<lambda>(s, b). br_source b = s \<and> (s = START \<or> s \<in> set nodes) \<and>
     (\<forall>d \<in> set (destinations b). d = END \<or> d \<in> set nodes))"

lemma check_branches_spec:
  "check_branches nodes acc bs = Inr acc' \<Longrightarrow> wf_dict acc \<Longrightarrow> \<forall>e \<in> set acc. known_branch nodes e \<Longrightarrow>
     wf_dict acc' \<and> (\<forall>e \<in> set acc'. known_branch nodes e)"
proof (induction bs arbitrary: acc)
  case (Cons b bs)
  from Cons.prems(1) have src: "br_source b = START \<or> br_source b \<in> set nodes"
    and "List.find (\<lambda>d. d \<noteq> END \<and> d \<notin> set nodes) (map snd (br_map b)) = None"
    and rest: "check_branches nodes (dset (br_source b) b acc) bs = Inr acc'"
    and new: "\<not> has_key acc (br_source b)"
    by (auto split: if_splits option.splits)
  then have k: "known_branch nodes (br_source b, b)"
    by (auto simp: known_branch_def destinations_def find_None_iff2)
  have "\<forall>e \<in> set (dset (br_source b) b acc). known_branch nodes e"
    using k Cons.prems(3) by (auto simp: set_dset [OF Cons.prems(2)])
  from Cons.IH [OF rest _ this] Cons.prems(2) show ?case by simp
qed simp

lemma topological_order_ok:
  assumes "topological_order nodes edges c = Inr order" and "distinct nodes"
  shows "distinct order \<and> set order = set nodes"
proof (cases "length (kahn_order nodes edges) = length nodes")
  case True
  with assms(1) have "order = kahn_order nodes edges" by (simp add: topological_order_def)
  with True kahn_order_spec(1,2) [OF assms(2), of edges] assms(2) show ?thesis
    by (metis card_subset_eq distinct_card finite_set)
next
  case False
  with assms show ?thesis by (auto simp: topological_order_def split: if_splits)
qed

lemma check_fan_in_Inr:
  "check_fan_in edges = Inr () \<longleftrightarrow>
     (\<forall>t. t \<noteq> END \<longrightarrow> length (filter (\<lambda>e. snd e = t) edges) \<le> 1)"
proof -
  have g: "dget (fan_in_sources es) t [] = map fst (filter (\<lambda>e. snd e = t \<and> t \<noteq> END) es)" for es t
  proof (induction es arbitrary: t rule: rev_induct)
    case (snoc e es)
    then show ?case by (cases e) (auto simp: fan_in_sources_def)
  qed (simp add: fan_in_sources_def)
  have k: "has_key (fan_in_sources es) t \<longleftrightarrow> t \<noteq> END \<and> t \<in> snd ` set es" for es t
  proof (induction es rule: rev_induct)
    case (snoc e es)
    then show ?case by (cases e) (auto simp: fan_in_sources_def)
  qed (simp add: fan_in_sources_def)
  have "check_fan_in edges = Inr () \<longleftrightarrow>
      (\<forall>t. has_key (fan_in_sources edges) t \<longrightarrow> length (dget (fan_in_sources edges) t []) \<le> 1)"
  proof -
    have "check_fan_in edges = Inr () \<longleftrightarrow>
        List.find (\<lambda>t. length (dget (fan_in_sources edges) t []) > 1) (sort (keys (fan_in_sources edges))) = None"
      by (auto simp: check_fan_in_def Let_def split: option.splits)
    then show ?thesis unfolding find_None_iff2 by (auto simp: has_key_def not_less)
  qed
  also have "\<dots> \<longleftrightarrow> (\<forall>t. t \<noteq> END \<longrightarrow> length (filter (\<lambda>e. snd e = t) edges) \<le> 1)"
  proof (intro iff_allI)
    fix t
    show "(has_key (fan_in_sources edges) t \<longrightarrow> length (dget (fan_in_sources edges) t []) \<le> 1) \<longleftrightarrow>
        (t \<noteq> END \<longrightarrow> length (filter (\<lambda>e. snd e = t) edges) \<le> 1)"
    proof (cases "t \<in> snd ` set edges")
      case True
      then show ?thesis by (simp add: k g)
    next
      case False
      then have "filter (\<lambda>e. snd e = t) edges = []" by (auto simp: filter_empty_conv)
      with False show ?thesis by (simp add: k g)
    qed
  qed
  finally show ?thesis .
qed

section \<open>Well-formed graphs\<close>

text \<open>The declared factories make fresh channels, and no barrier without a name to wait for.\<close>

definition fresh_factory :: "pystr \<times> chan_body \<Rightarrow> bool" where
  "fresh_factory = (\<lambda>(n, f). fresh_body f = f \<and> wf_body f \<and> \<not> is_trigger n \<and>
     (n = TASKS_CHANNEL \<longrightarrow> f = TopicChannel []))"

definition fresh_factories :: "(pystr, chan_body) dict \<Rightarrow> bool" where
  "fresh_factories fs \<longleftrightarrow> wf_dict fs \<and> list_all fresh_factory fs"

definition join_entries :: "(pystr list \<times> pystr) list \<Rightarrow> pystr \<Rightarrow> (pystr \<times> pystr) list" where
  "join_entries joins s =
     concat (map (\<lambda>(ss, t). map (\<lambda>x. (join_channel ss t, x)) (filter (\<lambda>x. x = s) ss)) joins)"

lemma join_write_fold:
  "dget (foldl (\<lambda>jw s. dappend jw s (name, s)) jw ss) s [] = dget jw s [] @ map (\<lambda>x. (name, x)) (filter (\<lambda>x. x = s) ss)"
  by (induction ss arbitrary: jw) auto

lemma join_channel_simps [simp]:
  "is_reserved (join_channel ss t)" "\<not> is_trigger (join_channel ss t)"
  "join_channel ss t \<noteq> TASKS_CHANNEL" "join_channel ss t \<noteq> trigger_channel n"
  by (auto simp: join_channel_def dest: trigger_neq(2) [THEN notE])
    (metis trigger_neq)+

lemma join_tables_snoc:
  "join_tables nodes (joins @ [(ss, t)]) fs0 =
     (case join_tables nodes joins fs0 of (fs, trig, jw) \<Rightarrow>
        (dset (join_channel ss t) (BarrierChannel (set ss) {}) fs, dappend trig t (join_channel ss t),
         foldl (\<lambda>jw s. dappend jw s (join_channel ss t, s)) jw ss))"
  by (simp add: join_tables_def Let_def split: prod.splits)

lemma join_tables_Nil:
  "join_tables nodes [] fs0 = (fs0, map (\<lambda>n. (n, [trigger_channel n])) nodes, [])"
  by (simp add: join_tables_def)

lemma join_tables_writes:
  "join_tables nodes joins fs0 = (fs, trig, jw) \<Longrightarrow> dget jw s [] = join_entries joins s"
proof (induction joins arbitrary: fs trig jw rule: rev_induct)
  case (snoc j joins)
  obtain ss t where j: "j = (ss, t)" by (cases j)
  obtain fs1 trig1 jw1 where 1: "join_tables nodes joins fs0 = (fs1, trig1, jw1)"
    by (cases "join_tables nodes joins fs0")
  with snoc.prems j have "jw = foldl (\<lambda>jw s. dappend jw s (join_channel ss t, s)) jw1 ss"
    by (simp add: join_tables_snoc)
  with snoc.IH [OF 1] j show ?case by (simp add: join_write_fold join_entries_def)
qed (simp add: join_tables_Nil join_entries_def)

lemma join_tables_triggers:
  "join_tables nodes joins fs0 = (fs, trig, jw) \<Longrightarrow> n \<in> set nodes \<Longrightarrow>
     dget trig n [] = trigger_channel n # map (\<lambda>(ss, t). join_channel ss t) (filter (\<lambda>(ss, t). t = n) joins)"
proof (induction joins arbitrary: fs trig jw rule: rev_induct)
  case Nil
  then have "trig = map (\<lambda>n. (n, [trigger_channel n])) nodes" by (simp add: join_tables_Nil)
  moreover have "map_of (map (\<lambda>n. (n, [trigger_channel n])) nodes) n = Some [trigger_channel n]"
    using Nil(2) by (simp add: map_of_map_restrict)
  ultimately show ?case by (simp add: dget_def)
next
  case (snoc j joins)
  obtain ss t where j: "j = (ss, t)" by (cases j)
  obtain fs1 trig1 jw1 where 1: "join_tables nodes joins fs0 = (fs1, trig1, jw1)"
    by (cases "join_tables nodes joins fs0")
  with snoc.prems(1) j have "trig = dappend trig1 t (join_channel ss t)"
    by (simp add: join_tables_snoc)
  with snoc.IH [OF 1 snoc.prems(2)] j show ?case by auto
qed

text \<open>A barrier channel is the one of the last join of its name.\<close>

lemma join_tables_factories:
  "join_tables nodes joins fs0 = (fs, trig, jw) \<Longrightarrow>
     map_of fs n = (case List.find (\<lambda>(ss, t). join_channel ss t = n) (rev joins) of
        Some (ss, t) \<Rightarrow> Some (BarrierChannel (set ss) {}) | None \<Rightarrow> map_of fs0 n)"
proof (induction joins arbitrary: fs trig jw rule: rev_induct)
  case (snoc j joins)
  obtain ss t where j: "j = (ss, t)" by (cases j)
  obtain fs1 trig1 jw1 where 1: "join_tables nodes joins fs0 = (fs1, trig1, jw1)"
    by (cases "join_tables nodes joins fs0")
  with snoc.prems j have "fs = dset (join_channel ss t) (BarrierChannel (set ss) {}) fs1"
    by (simp add: join_tables_snoc)
  with snoc.IH [OF 1] j show ?case by auto
qed (simp add: join_tables_Nil)

lemma join_tables_fresh:
  "join_tables nodes joins fs0 = (fs, trig, jw) \<Longrightarrow> fresh_factories fs0 \<Longrightarrow>
     \<forall>(ss, t) \<in> set joins. ss \<noteq> [] \<Longrightarrow> fresh_factories fs"
proof (induction joins arbitrary: fs trig jw rule: rev_induct)
  case (snoc j joins)
  obtain ss t where j: "j = (ss, t)" by (cases j)
  obtain fs1 trig1 jw1 where 1: "join_tables nodes joins fs0 = (fs1, trig1, jw1)"
    by (cases "join_tables nodes joins fs0")
  from snoc.IH [OF 1] snoc.prems have fr: "fresh_factories fs1" by simp
  have "fs = dset (join_channel ss t) (BarrierChannel (set ss) {}) fs1"
    using snoc.prems(1) j 1 by (simp add: join_tables_snoc)
  moreover have "fresh_factory (join_channel ss t, BarrierChannel (set ss) {})"
    using snoc.prems(3) j by (auto simp: fresh_factory_def wf_body_def psubset_eq)
  ultimately show ?case using fr by (auto simp: fresh_factories_def list_all_iff set_dset)
qed (simp add: join_tables_Nil)

text \<open>
  What every compiled graph satisfies: the canonical order lists the nodes once, every static
  successor and every branch destination is a node or END, and the routing channels are there.
\<close>

definition wf_compiled :: "compiled \<Rightarrow> bool" where
  "wf_compiled cg \<longleftrightarrow>
     wf_dict (cg_nodes cg) \<and> list_all (\<lambda>n. \<not> bad_node_id n) (keys (cg_nodes cg)) \<and>
     distinct (cg_order cg) \<and> set (cg_order cg) = fst ` set (cg_nodes cg) \<and>
     (\<forall>s t. t \<in> set (dget (cg_successors cg) s []) \<longrightarrow> t = END \<or> t \<in> fst ` set (cg_nodes cg)) \<and>
     list_all (known_branch (keys (cg_nodes cg))) (cg_branches cg) \<and>
     (\<forall>n \<in> fst ` set (cg_nodes cg). trigger_channel n \<in> set (dget (cg_triggers cg) n [])) \<and>
     (\<forall>s nm m. (nm, m) \<in> set (dget (cg_join_writes cg) s []) \<longrightarrow>
        m = s \<and> (\<exists>names. map_of (cg_factories cg) nm = Some (BarrierChannel names {}))) \<and>
     map_of (cg_factories cg) TASKS_CHANNEL = Some (TopicChannel [])"

lemma sort_Nil_iff: "sort xs = [] \<longleftrightarrow> xs = []"
  by (metis length_0_conv length_sort)

lemma sort_filter_Nil: "sort (filter P xs) = [] \<longleftrightarrow> (\<forall>x \<in> set xs. \<not> P x)" for xs :: "pystr list"
  by (metis filter_empty_conv set_empty2 set_sort)

definition checked ::
    "builder \<Rightarrow> bool \<Rightarrow> bool \<Rightarrow> (pystr, chan_body) dict \<Rightarrow> (pystr, node_fn) dict
      \<Rightarrow> (pystr \<times> pystr) list \<Rightarrow> (pystr list \<times> pystr) list \<Rightarrow> (pystr, branch_spec) dict
      \<Rightarrow> pystr list \<Rightarrow> bool" where
  "checked b ao ac declared nodes edges joins branches order \<longleftrightarrow>
     check_channels [] (b_channels b) = Inr declared \<and> check_node_ids (b_nodes b) = Inr () \<and>
     collect_nodes [] (b_nodes b) = Inr nodes \<and> check_edges (keys nodes) [] (b_edges b) = Inr edges \<and>
     check_joins (keys nodes) (b_join_edges b) = Inr joins \<and>
     check_branches (keys nodes) [] (b_branches b) = Inr branches \<and>
     (START \<in> fst ` set edges \<or> has_key branches START) \<and>
     topological_order (keys nodes) (dependency_edges edges joins branches) ac = Inr order \<and>
     check_fan_in edges = Inr () \<and>
     (fst ` set nodes \<subseteq> set (reachable_nodes (dependency_edges edges joins branches) branches) \<or> ao) \<and>
     (END \<in> set (reachable_nodes (dependency_edges edges joins branches) branches) \<or> ac)"

lemma compile_Inr:
  "compile b ao ac = Inr cg \<longleftrightarrow>
     (\<exists>declared nodes edges joins branches order.
        checked b ao ac declared nodes edges joins branches order \<and>
        cg = assemble b ao ac declared nodes edges joins branches order)"
  unfolding compile_def Let_def ebind_Inr_iff guard_Inr sort_filter_Nil checked_def
  by (simp add: image_subset_iff) blast

lemma assemble_fields:
  "cg_nodes (assemble b ao ac declared nodes edges joins branches order) = nodes"
  "cg_order (assemble b ao ac declared nodes edges joins branches order) = order"
  "cg_branches (assemble b ao ac declared nodes edges joins branches order) = branches"
  "cg_allow_cycles (assemble b ao ac declared nodes edges joins branches order) = ac"
  "cg_graph_id (assemble b ao ac declared nodes edges joins branches order) = b_graph_id b"
  "cg_managed_remaining (assemble b ao ac declared nodes edges joins branches order) = None"
  "cg_successors (assemble b ao ac declared nodes edges joins branches order) =
     map (\<lambda>(s, ts). (s, sort ts)) (successor_lists edges)"
  by (simp_all add: assemble_def split: prod.splits)

lemma assemble_tables:
  "\<exists>jw. join_tables (keys nodes) joins (dset TASKS_CHANNEL (TopicChannel []) declared) =
     (cg_factories (assemble b ao ac declared nodes edges joins branches order),
      cg_triggers (assemble b ao ac declared nodes edges joins branches order), jw) \<and>
   cg_join_writes (assemble b ao ac declared nodes edges joins branches order) =
     map (\<lambda>(s, ws). (s, sort ws)) jw"
  by (simp add: assemble_def split: prod.splits)

lemma dget_map_sort: "dget (map (\<lambda>(s, ts). (s, sort ts)) d) s [] = sort (dget d s [])"
  by (induction d) (auto simp: dget_def)

lemma not_reserved_trigger: "\<not> is_reserved n \<Longrightarrow> \<not> is_trigger n"
  using trigger_is_reserved by blast

lemma compile_fresh:
  assumes "compile b ao ac = Inr cg" and "\<forall>(n, f) \<in> set (b_channels b). fresh_body f = f \<and> wf_body f"
  shows "fresh_factories (cg_factories cg)"
proof -
  from assms(1) obtain declared nodes edges joins branches order where
    ok: "checked b ao ac declared nodes edges joins branches order" and
    cg: "cg = assemble b ao ac declared nodes edges joins branches order"
    unfolding compile_Inr by blast
  from assemble_tables [of nodes joins declared b ao ac edges branches order, folded cg]
  obtain jw where t: "join_tables (keys nodes) joins (dset TASKS_CHANNEL (TopicChannel []) declared) =
       (cg_factories cg, cg_triggers cg, jw)" by blast
  from ok have d: "check_channels [] (b_channels b) = Inr declared"
    and j: "check_joins (keys nodes) (b_join_edges b) = Inr joins" by (simp_all add: checked_def)
  from check_channels_spec [OF d wf_dict_Nil] assms(2)
  have "fresh_factories declared"
    by (fastforce simp: fresh_factories_def list_all_iff fresh_factory_def not_reserved_trigger)
  then have "fresh_factories (dset TASKS_CHANNEL (TopicChannel []) declared)"
    by (auto simp: fresh_factories_def list_all_iff set_dset fresh_factory_def wf_body_def)
  moreover have "\<forall>(ss, t) \<in> set joins. ss \<noteq> []"
  proof -
    have "ss \<noteq> []" if "(ss, t) \<in> set joins" for ss t
    proof -
      from check_joins_spec [OF j] that obtain ss0 where "ss = sort ss0" "2 \<le> length ss0" by auto
      then show ?thesis by (auto simp: sort_Nil_iff)
    qed
    then show ?thesis by blast
  qed
  ultimately show ?thesis by (rule join_tables_fresh [OF t])
qed

lemma compile_wf_compiled:
  assumes "compile b ao ac = Inr cg"
  shows "wf_compiled cg"
proof -
  from assms obtain declared nodes edges joins branches order where
    ok: "checked b ao ac declared nodes edges joins branches order" and
    cg: "cg = assemble b ao ac declared nodes edges joins branches order"
    unfolding compile_Inr by blast
  note cg_simps = assemble_fields [of b ao ac declared nodes edges joins branches order, folded cg]
  from assemble_tables [of nodes joins declared b ao ac edges branches order, folded cg]
  obtain jw where
    t: "join_tables (keys nodes) joins (dset TASKS_CHANNEL (TopicChannel []) declared) =
       (cg_factories cg, cg_triggers cg, jw)" and
    jw: "cg_join_writes cg = map (\<lambda>(s, ws). (s, sort ws)) jw" by blast
  from ok have
    ids: "check_node_ids (b_nodes b) = Inr ()" and
    ns: "collect_nodes [] (b_nodes b) = Inr nodes" and
    es: "check_edges (keys nodes) [] (b_edges b) = Inr edges" and
    js: "check_joins (keys nodes) (b_join_edges b) = Inr joins" and
    bs: "check_branches (keys nodes) [] (b_branches b) = Inr branches" and
    ord: "topological_order (keys nodes) (dependency_edges edges joins branches) ac = Inr (cg_order cg)"
    by (simp_all add: checked_def cg_simps)
  have wfn: "wf_dict nodes" "fst ` set nodes = fst ` set (b_nodes b)"
    using collect_nodes_spec [OF ns] by simp_all
  have o: "distinct (cg_order cg) \<and> set (cg_order cg) = fst ` set nodes"
    using topological_order_ok [OF ord] wfn(1) by (simp add: wf_dict_def)
  have "list_all (\<lambda>n. \<not> bad_node_id n) (keys nodes)"
    using ids wfn(2) by (auto simp: check_node_ids_Inr list_all_iff)
  moreover have "t = END \<or> t \<in> fst ` set nodes" if "t \<in> set (dget (cg_successors cg) s [])" for s t
  proof -
    have "(s, t) \<in> set edges" using that by (auto simp: cg_simps dget_map_sort dget_successor_lists)
    with check_edges_spec [OF es] show ?thesis by (auto simp: known_endpoint_def)
  qed
  moreover have "list_all (known_branch (keys nodes)) branches"
    using check_branches_spec [OF bs] by (simp add: list_all_iff)
  moreover have "trigger_channel n \<in> set (dget (cg_triggers cg) n [])" if "n \<in> fst ` set nodes" for n
    using join_tables_triggers [OF t, of n] that by simp
  moreover have "m = s \<and> (\<exists>names. map_of (cg_factories cg) nm = Some (BarrierChannel names {}))"
    if "(nm, m) \<in> set (dget (cg_join_writes cg) s [])" for s nm m
  proof -
    from that have "(nm, m) \<in> set (join_entries joins s)"
      by (simp add: jw dget_map_sort join_tables_writes [OF t])
    then obtain ss tg where e: "(ss, tg) \<in> set joins" "nm = join_channel ss tg" and "m = s"
      by (auto simp: join_entries_def)
    then have "List.find (\<lambda>(ss, t). join_channel ss t = nm) (rev joins) \<noteq> None"
      by (auto simp: find_None_iff2)
    with join_tables_factories [OF t, of nm] \<open>m = s\<close> show ?thesis by auto
  qed
  moreover have "map_of (cg_factories cg) TASKS_CHANNEL = Some (TopicChannel [])"
  proof -
    have "List.find (\<lambda>(ss, t). join_channel ss t = TASKS_CHANNEL) (rev joins) = None"
      by (auto simp: find_None_iff2)
    then show ?thesis using join_tables_factories [OF t, of TASKS_CHANNEL] by simp
  qed
  ultimately show ?thesis using wfn(1) o by (simp add: wf_compiled_def cg_simps)
qed

lemma compile_managed: "compile b ao ac = Inr cg \<Longrightarrow> cg_managed_remaining cg = None"
  unfolding compile_Inr by (auto simp: assemble_fields)

end
