(* ===== verification/Executor.thy ===== *)
theory Executor
  imports Compiler
begin

text \<open>
  One superstep's tasks (graph/executor.py) and the interrupts they may raise
  (graph/interrupts.py): the ready set, a task's isolated input and its write bundle, the
  dispatch order, and the outcome of running all tasks. What lies outside the code is a
  parameter: the order \<open>effects.dispatch_order\<close> proposes, which timeouts expire, and which
  tasks \<open>asyncio.wait(..., FIRST_EXCEPTION)\<close> reports as done once one has raised.
\<close>

section \<open>Interrupts\<close>

record interrupt_frame =
  fr_run :: pystr
  fr_node :: pystr
  fr_seq :: nat
  fr_resumes :: "pyval list"
  fr_counter :: nat

definition InterruptFrame :: "pystr \<Rightarrow> pystr \<Rightarrow> nat \<Rightarrow> pyval list \<Rightarrow> interrupt_frame" where
  "InterruptFrame r n q rs =
     \<lparr>fr_run = r, fr_node = n, fr_seq = q, fr_resumes = rs, fr_counter = 0\<rparr>"

definition task_key :: "pystr \<Rightarrow> nat \<Rightarrow> pystr" where
  "task_key node_id task_seq = node_id @ [58] @ nat_str task_seq"

definition resume_channel :: "pystr \<Rightarrow> nat \<Rightarrow> pystr" where
  "resume_channel node_id task_seq = RESUME_PREFIX @ task_key node_id task_seq"

definition interrupt_id :: "prims \<Rightarrow> interrupt_frame \<Rightarrow> pyexc + pystr" where
  "interrupt_id P fr =
     ebind (encode_utf8 (fr_run fr @ [58] @ fr_node fr @ [58] @ nat_str (fr_seq fr))) (\<lambda>b.
       Inr (take 32 (hex (sha256 P b))))"

text \<open>The k-th call returns the k-th recorded resume value; the first unrecorded one raises.\<close>

definition interrupt :: "prims \<Rightarrow> interrupt_frame \<Rightarrow> pyval \<Rightarrow> interrupt_frame \<times> (gerror + pyval)" where
  "interrupt P fr value =
     (let index = fr_counter fr; fr' = fr\<lparr>fr_counter := index + 1\<rparr> in
      if index < length (fr_resumes fr) then (fr', Inr (fr_resumes fr ! index))
      else (case interrupt_id P fr' of
              Inl e \<Rightarrow> (fr', Inl (PyError e))
            | Inr i \<Rightarrow> (fr', Inl (GraphInterrupt value i (fr_resumes fr)))))"

section \<open>Nodes\<close>

datatype prog_end = Returned node_result | Raised gerror | Cancelled

primrec run_prog :: "prims \<Rightarrow> nprog \<Rightarrow> interrupt_frame \<Rightarrow> prog_end" where
  "run_prog P (NRet r) = (\<lambda>fr. Returned r)"
| "run_prog P (NRaise e) = (\<lambda>fr. Raised (PyError e))"
| "run_prog P NCancel = (\<lambda>fr. Cancelled)"
| "run_prog P (NInterrupt v k) = (\<lambda>fr.
     case interrupt P fr v of
       (fr', Inl e) \<Rightarrow> Raised e
     | (fr', Inr x) \<Rightarrow> run_prog P (k x) fr')"

text \<open>\<open>_execute_node\<close>: every exception but the interrupt signal becomes a NodeExecutionError.\<close>

definition execute_node ::
    "prims \<Rightarrow> compiled \<Rightarrow> pystr \<Rightarrow> pyval \<Rightarrow> interrupt_frame \<Rightarrow> pystr \<Rightarrow> nat \<Rightarrow> prog_end" where
  "execute_node P cg node_id node_input fr run_id superstep =
     (case map_of (cg_nodes cg) node_id of
        None \<Rightarrow> Raised (NodeExecutionError run_id superstep node_id)
      | Some fn \<Rightarrow>
          (case run_prog P (fn node_input) fr of
             Raised (GraphInterrupt v i c) \<Rightarrow> Raised (GraphInterrupt v i c)
           | Raised _ \<Rightarrow> Raised (NodeExecutionError run_id superstep node_id)
           | r \<Rightarrow> r))"

section \<open>Tasks\<close>

record task =
  t_node :: pystr
  t_seq :: nat
  t_arg :: pyval
  t_timeout :: pyval

definition Task :: "pystr \<Rightarrow> nat \<Rightarrow> pyval \<Rightarrow> pyval \<Rightarrow> task" where
  "Task n q a t = \<lparr>t_node = n, t_seq = q, t_arg = a, t_timeout = t\<rparr>"

definition is_pull :: "task \<Rightarrow> bool" where
  "is_pull t \<longleftrightarrow> t_seq t = 0"

definition identity :: "task \<Rightarrow> task_id" where
  "identity t = (t_node t, t_seq t)"

type_synonym seen = "(pystr, versions) dict"

definition node_ready :: "compiled \<Rightarrow> versions \<Rightarrow> seen \<Rightarrow> pystr \<Rightarrow> bool" where
  "node_ready cg start_versions seen node_id \<longleftrightarrow>
     list_ex (\<lambda>name. dget start_versions name 0 > dget (dget seen node_id []) name 0)
       (dget (cg_triggers cg) node_id [])"

fun push_tasks :: "(pystr, nat) dict \<Rightarrow> pyval list \<Rightarrow> pyexc + task list" where
  "push_tasks counter [] = Inr []"
| "push_tasks counter (PSend n a t # sends) =
     (let seq = dget counter n 0 + 1 in
      emap ((#) (Task n seq a t)) (push_tasks (dset n seq counter) sends))"
| "push_tasks counter (v # sends) = Inl (AttributeError NODE)"

definition prepare_tasks ::
    "compiled \<Rightarrow> gstate \<Rightarrow> versions \<Rightarrow> seen \<Rightarrow> gstate \<times> (gerror + task list)" where
  "prepare_tasks cg st start_versions seen =
     (let pull = map (\<lambda>n. Task n 0 PNone PNone) (filter (node_ready cg start_versions seen) (cg_order cg)) in
      case get_channel st TASKS_CHANNEL of
        (st', Inl e) \<Rightarrow> (st', Inl e)
      | (st', Inr c) \<Rightarrow>
          (case ch_body c of
             TopicChannel _ \<Rightarrow>
               (case chan_drain c of
                  (c', sends) \<Rightarrow>
                    (put_channel st' TASKS_CHANNEL c',
                     (case push_tasks [] sends of
                        Inl e \<Rightarrow> Inl (PyError e)
                      | Inr push \<Rightarrow> Inr (pull @ push))))
           | _ \<Rightarrow> (st', Inr pull)))"

section \<open>The writes of a task\<close>

definition trigger_writes :: "compiled \<Rightarrow> pystr \<Rightarrow> nat \<Rightarrow> channel_write list" where
  "trigger_writes cg node_id task_seq =
     map (\<lambda>target. ChannelWrite node_id (trigger_channel target) (PBool True) task_seq)
       (filter (\<lambda>target. target \<noteq> END) (dget (cg_successors cg) node_id [])) @
     map (\<lambda>(join_name, member). ChannelWrite node_id join_name (PStr member) task_seq)
       (dget (cg_join_writes cg) node_id [])"

definition branch_write :: "compiled \<Rightarrow> pystr \<Rightarrow> nat \<Rightarrow> pyval \<Rightarrow> gerror + channel_write list" where
  "branch_write cg node_id task_seq destination =
     (case destination of
        PSend n a t \<Rightarrow> emap (\<lambda>w. [w]) (send_write node_id n a t task_seq (keys (cg_nodes cg)))
      | PStr d \<Rightarrow>
          (if d = END then Inr []
           else Inr [ChannelWrite node_id (trigger_channel d) (PBool True) task_seq])
      | _ \<Rightarrow> Inl (PyError (TypeError NODE)))"

definition branch_writes ::
    "compiled \<Rightarrow> pystr \<Rightarrow> nat \<Rightarrow> branch_spec \<Rightarrow> state_view \<Rightarrow> gerror + channel_write list" where
  "branch_writes cg node_id task_seq spec view =
     ebind (evaluate_branch spec view) (\<lambda>ds.
       emap concat (etraverse (branch_write cg node_id task_seq) ds))"

datatype task_end = TDone "channel_write list" | TFail gerror | TCancelled

text \<open>
  \<open>_run_one\<close>. A pull task reads the snapshot (with the remaining budget under the managed
  field), a push task its Send's argument.
\<close>

definition node_input :: "compiled \<Rightarrow> gstate \<Rightarrow> task \<Rightarrow> int \<Rightarrow> pyval" where
  "node_input cg st t remaining =
     (if is_pull t then
        json_dict (case cg_managed_remaining cg of
                     None \<Rightarrow> snapshot st
                   | Some field \<Rightarrow> dset field (PInt remaining) (snapshot st))
      else t_arg t)"

definition bundle_of ::
    "prims \<Rightarrow> compiled \<Rightarrow> gstate \<Rightarrow> task \<Rightarrow> node_result \<Rightarrow> pystr \<Rightarrow> nat \<Rightarrow> gerror + channel_write list" where
  "bundle_of P cg st t result run_id superstep =
     ebind (interpret_result P (t_node t) result run_id superstep (t_seq t) (keys (cg_nodes cg))) (\<lambda>task_writes.
     ebind (case map_of (cg_branches cg) (t_node t) of
              None \<Rightarrow> Inr []
            | Some spec \<Rightarrow>
                ebind (own_writes_view P st task_writes superstep) (\<lambda>view.
                  branch_writes cg (t_node t) (t_seq t) spec view)) (\<lambda>branch.
       Inr (task_writes @ trigger_writes cg (t_node t) (t_seq t) @ branch)))"

definition run_one ::
    "prims \<Rightarrow> compiled \<Rightarrow> gstate \<Rightarrow> (task \<Rightarrow> bool) \<Rightarrow> task \<Rightarrow> pystr \<Rightarrow> nat \<Rightarrow> int
      \<Rightarrow> (pystr, pyval list) dict \<Rightarrow> task_end" where
  "run_one P cg st expires t run_id superstep remaining resumes =
     (let fr = InterruptFrame run_id (t_node t) (t_seq t) (dget resumes (task_key (t_node t) (t_seq t)) []) in
      if t_timeout t \<noteq> PNone \<and> expires t then TFail (NodeExecutionError run_id superstep (t_node t))
      else case execute_node P cg (t_node t) (node_input cg st t remaining) fr run_id superstep of
        Raised e \<Rightarrow> TFail e
      | Cancelled \<Rightarrow> TCancelled
      | Returned result \<Rightarrow>
          (case bundle_of P cg st t result run_id superstep of
             Inl e \<Rightarrow> TFail e
           | Inr bundle \<Rightarrow> TDone bundle))"

section \<open>Running a superstep\<close>

text \<open>
  What a failed superstep leaves: the error, the task it came from, and the surviving work.
  \<open>StepFailed\<close> is a \<open>GraphRuntimeError\<close> (an interrupt signal has become
  \<open>GraphInterrupted\<close>), \<open>StepRaised\<close> any other exception.
\<close>

record failure =
  fl_error :: gerror
  fl_node :: pystr
  fl_seq :: nat
  fl_succeeded :: "task_id list"
  fl_writes :: "channel_write list"
  fl_pulls :: "pystr list"
  fl_sends :: "pyval list"

datatype step_error = StepCancelled | StepRaised gerror | StepFailed failure

fun is_runtime_error :: "gerror \<Rightarrow> bool" where
  "is_runtime_error (NodeResultError _ _ _) = True"
| "is_runtime_error (NodeExecutionError _ _ _) = True"
| "is_runtime_error (GraphInterrupt _ _ _) = True"
| "is_runtime_error (MalformedDispatchOrderError _ _) = True"
| "is_runtime_error (SuperstepLimitError _ _) = True"
| "is_runtime_error (GraphRuntimeError _) = True"
| "is_runtime_error _ = False"

record environment =
  env_order :: "nat \<Rightarrow> task_id list \<Rightarrow> task_id list"
  env_expires :: "nat \<Rightarrow> task \<Rightarrow> bool"
  env_done :: "nat \<Rightarrow> task_id \<Rightarrow> bool"

definition validated_dispatch_order ::
    "environment \<Rightarrow> task list \<Rightarrow> pystr \<Rightarrow> nat \<Rightarrow> gerror + task list" where
  "validated_dispatch_order env tasks run_id superstep =
     (let identities = map identity tasks;
          proposed = env_order env superstep identities in
      if mset proposed \<noteq> mset identities then Inl (MalformedDispatchOrderError run_id superstep)
      else Inr (map (\<lambda>i. the (map_of (rev (map (\<lambda>t. (identity t, t)) tasks)) i)) proposed))"

definition write_key :: "channel_write \<Rightarrow> pystr \<times> pystr \<times> nat" where
  "write_key w = (w_chan w, w_node w, w_seq w)"

definition sort_writes :: "channel_write list \<Rightarrow> channel_write list" where
  "sort_writes = sort_key write_key"

definition mark_seen :: "compiled \<Rightarrow> versions \<Rightarrow> pystr \<Rightarrow> seen \<Rightarrow> seen" where
  "mark_seen cg start_versions node_id seen =
     dset node_id (foldl (\<lambda>d name. dset name (dget start_versions name 0) d) (dget seen node_id [])
       (dget (cg_triggers cg) node_id [])) seen"

definition mark_tasks :: "compiled \<Rightarrow> versions \<Rightarrow> task list \<Rightarrow> seen \<Rightarrow> seen" where
  "mark_tasks cg start_versions ts seen =
     foldl (\<lambda>s t. if is_pull t then mark_seen cg start_versions (t_node t) s else s) seen ts"

fun is_fail :: "task_end \<Rightarrow> bool" where
  "is_fail (TFail _) = True"
| "is_fail _ = False"

fun done_writes :: "task_end \<Rightarrow> channel_write list" where
  "done_writes (TDone ws) = ws"
| "done_writes _ = []"

fun is_done :: "task_end \<Rightarrow> bool" where
  "is_done (TDone _) = True"
| "is_done _ = False"

fun fail_error :: "task_end \<Rightarrow> gerror" where
  "fail_error (TFail e) = e"
| "fail_error _ = PyError (KeyError [])"

definition step_failure :: "task list \<Rightarrow> (task \<Rightarrow> task_end) \<Rightarrow> (task \<Rightarrow> bool) \<Rightarrow> task \<Rightarrow> failure" where
  "step_failure exec_order outcome completed failed =
     (let succeeded = filter (\<lambda>t. completed t \<and> is_done (outcome t)) exec_order in
      \<lparr>fl_error = fail_error (outcome failed), fl_node = t_node failed, fl_seq = t_seq failed,
       fl_succeeded = map identity succeeded,
       fl_writes = sort_writes (concat (map (\<lambda>t. done_writes (outcome t)) succeeded)),
       fl_pulls = map t_node (filter is_pull succeeded),
       fl_sends = map (\<lambda>t. PSend (t_node t) (t_arg t) (t_timeout t))
         (filter (\<lambda>t. \<not> is_pull t \<and> \<not> (completed t \<and> is_done (outcome t))) exec_order)\<rparr>)"

definition finish_tasks ::
    "compiled \<Rightarrow> task list \<Rightarrow> (task \<Rightarrow> task_end) \<Rightarrow> (task \<Rightarrow> bool) \<Rightarrow> seen \<Rightarrow> versions
      \<Rightarrow> step_error + (channel_write list \<times> pystr list \<times> task_id list \<times> seen)" where
  "finish_tasks cg exec_order outcome completed seen start_versions =
     (case filter (\<lambda>t. completed t \<and> is_fail (outcome t)) exec_order of
        failed # _ \<Rightarrow>
          (if is_runtime_error (fail_error (outcome failed))
           then Inl (StepFailed (step_failure exec_order outcome completed failed))
           else Inl (StepRaised (fail_error (outcome failed))))
      | [] \<Rightarrow>
          (if list_ex (\<lambda>t. completed t \<and> outcome t = TCancelled) exec_order then Inl StepCancelled
           else if list_all completed exec_order then
             Inr (sort_writes (concat (map (\<lambda>t. done_writes (outcome t)) exec_order)),
                  map t_node exec_order, map identity exec_order,
                  mark_tasks cg start_versions exec_order seen)
           else Inl (StepRaised (PyError (KeyError [])))))"

text \<open>With no task that raises, \<open>asyncio.wait\<close> returns when all are done.\<close>

definition run_tasks ::
    "prims \<Rightarrow> compiled \<Rightarrow> environment \<Rightarrow> task list \<Rightarrow> gstate \<Rightarrow> seen \<Rightarrow> versions \<Rightarrow> pystr \<Rightarrow> nat \<Rightarrow> int
      \<Rightarrow> (pystr, pyval list) dict
      \<Rightarrow> step_error + (channel_write list \<times> pystr list \<times> task_id list \<times> seen)" where
  "run_tasks P cg env tasks st seen start_versions run_id superstep remaining resumes =
     (case validated_dispatch_order env tasks run_id superstep of
        Inl e \<Rightarrow> Inl (StepFailed \<lparr>fl_error = e, fl_node = [], fl_seq = 0, fl_succeeded = [],
                       fl_writes = [], fl_pulls = [], fl_sends = []\<rparr>)
      | Inr exec_order \<Rightarrow>
          (let outcome = (\<lambda>t. run_one P cg st (env_expires env superstep) t run_id superstep remaining resumes);
               completed = (\<lambda>t. list_ex (is_fail \<circ> outcome) exec_order \<longrightarrow> env_done env superstep (identity t))
           in finish_tasks cg exec_order outcome completed seen start_versions))"

section \<open>Identities\<close>

lemma distinct_map_neq: "distinct (map f (x # xs)) \<Longrightarrow> t \<in> set xs \<Longrightarrow> f t \<noteq> f x"
  by (auto simp: image_iff)

lemma pull_node_neq:
  "distinct (map identity (x # ts)) \<Longrightarrow> t \<in> set ts \<Longrightarrow> is_pull t \<Longrightarrow> is_pull x \<Longrightarrow> t_node t \<noteq> t_node x"
  by (drule (1) distinct_map_neq) (simp add: identity_def is_pull_def)

lemma Task_simps [simp]:
  "t_node (Task n q a t) = n" "t_seq (Task n q a t) = q" "t_arg (Task n q a t) = a"
  "t_timeout (Task n q a t) = t" "identity (Task n q a t) = (n, q)"
  by (simp_all add: Task_def identity_def)

text \<open>The pushes of a node are numbered upwards from what its counter says.\<close>

lemma push_tasks_spec:
  "push_tasks counter sends = Inr ts \<Longrightarrow>
     distinct (map identity ts) \<and> (\<forall>t \<in> set ts. dget counter (t_node t) 0 < t_seq t)"
proof (induction counter sends arbitrary: ts rule: push_tasks.induct)
  case (2 counter n a t sends)
  let ?seq = "dget counter n 0 + 1"
  from 2(2) obtain rest where rest: "push_tasks (dset n ?seq counter) sends = Inr rest"
    and ts: "ts = Task n ?seq a t # rest" by (auto simp: Let_def emap_Inr_iff)
  from 2(1) [OF refl rest] have d: "distinct (map identity rest)"
    and lt: "\<And>x. x \<in> set rest \<Longrightarrow> dget (dset n ?seq counter) (t_node x) 0 < t_seq x" by auto
  have "(n, ?seq) \<notin> identity ` set rest"
    using lt by (fastforce simp: identity_def)
  moreover have "dget counter (t_node x) 0 < t_seq x" if "x \<in> set rest" for x
    using lt [OF that] by (auto split: if_splits)
  ultimately show ?case using d by (auto simp: ts)
qed auto

text \<open>The ready set: one task per ready node, and the Sends in their order.\<close>

lemma prepare_tasks_Inr:
  assumes "prepare_tasks cg st sv seen = (st', Inr tasks)"
  obtains push where
    "tasks = map (\<lambda>n. Task n 0 PNone PNone) (filter (node_ready cg sv seen) (cg_order cg)) @ push"
    "\<forall>t \<in> set push. 0 < t_seq t" "distinct (map identity push)"
proof -
  let ?pull = "map (\<lambda>n. Task n 0 PNone PNone) (filter (node_ready cg sv seen) (cg_order cg))"
  from assms consider (none) "tasks = ?pull"
    | (some) sends push where "push_tasks [] sends = Inr push" "tasks = ?pull @ push"
    by (auto simp: prepare_tasks_def Let_def split: prod.splits sum.splits chan_body.splits)
  then show ?thesis
  proof cases
    case none
    then show ?thesis by (intro that [of "[]"]) simp_all
  next
    case some
    with push_tasks_spec [OF some(1)] show ?thesis
      by (intro that [of push]) fastforce+
  qed
qed

lemma prepare_distinct:
  assumes "prepare_tasks cg st sv seen = (st', Inr tasks)" and "distinct (cg_order cg)"
  shows "distinct (map identity tasks)"
proof -
  from assms(1) obtain push where t:
    "tasks = map (\<lambda>n. Task n 0 PNone PNone) (filter (node_ready cg sv seen) (cg_order cg)) @ push"
    and p: "\<forall>t \<in> set push. 0 < t_seq t" "distinct (map identity push)"
    by (rule prepare_tasks_Inr)
  have "distinct (map (\<lambda>n. (n, 0::nat)) (filter (node_ready cg sv seen) (cg_order cg)))"
    using assms(2) by (simp add: distinct_map inj_on_def)
  moreover have "(n, 0) \<notin> identity ` set push" for n
    using p(1) by (auto simp: identity_def)
  ultimately show ?thesis using p(2) by (auto simp: t comp_def)
qed

lemma prepare_pulls:
  assumes "prepare_tasks cg st sv seen = (st', Inr tasks)" and "t \<in> set tasks" and "is_pull t"
  shows "t_node t \<in> set (cg_order cg) \<and> node_ready cg sv seen (t_node t)"
  using assms(1)
proof (rule prepare_tasks_Inr)
  fix push
  assume t: "tasks = map (\<lambda>n. Task n 0 PNone PNone) (filter (node_ready cg sv seen) (cg_order cg)) @ push"
    and p: "\<forall>t \<in> set push. 0 < t_seq t" "distinct (map identity push)"
  have "t \<notin> set push" using p(1) assms(3) by (auto simp: is_pull_def)
  with assms(2) t show ?thesis by auto
qed

section \<open>The writes of a task carry its identity\<close>

definition owned :: "task \<Rightarrow> channel_write \<Rightarrow> bool" where
  "owned t w \<longleftrightarrow> (w_node w, w_seq w) = identity t"

lemma routed_owned: "routed_write (t_node t) (t_seq t) known w \<Longrightarrow> owned t w"
  by (simp add: routed_write_def owned_def identity_def)

lemma trigger_writes_owned: "w \<in> set (trigger_writes cg (t_node t) (t_seq t)) \<Longrightarrow> owned t w"
  by (auto simp: trigger_writes_def owned_def identity_def)

lemma branch_write_owned:
  "branch_write cg (t_node t) (t_seq t) d = Inr ws \<Longrightarrow> w \<in> set ws \<Longrightarrow> owned t w"
  by (auto simp: branch_write_def owned_def identity_def emap_Inr_iff send_write_Inr
      split: pyval.splits if_splits)

lemma branch_writes_owned:
  assumes "branch_writes cg (t_node t) (t_seq t) spec view = Inr ws" and "w \<in> set ws"
  shows "owned t w"
proof -
  from assms(1) obtain ds gs where "etraverse (branch_write cg (t_node t) (t_seq t)) ds = Inr gs"
    and "ws = concat gs" by (auto simp: branch_writes_def ebind_Inr_iff emap_Inr_iff)
  with assms(2) obtain d g where "branch_write cg (t_node t) (t_seq t) d = Inr g" "w \<in> set g"
    by (auto simp: etraverse_Inr_iff) (metis image_iff list.set_map)
  then show ?thesis by (rule branch_write_owned)
qed

lemma bundle_owned:
  assumes "bundle_of P cg st t res r s = Inr ws" and "w \<in> set ws"
  shows "owned t w"
proof -
  from assms(1) obtain tw bw where
    tw: "interpret_result P (t_node t) res r s (t_seq t) (keys (cg_nodes cg)) = Inr tw" and
    bw: "bw = [] \<or> (\<exists>spec view. branch_writes cg (t_node t) (t_seq t) spec view = Inr bw)" and
    ws: "ws = tw @ trigger_writes cg (t_node t) (t_seq t) @ bw"
    by (auto simp: bundle_of_def ebind_Inr_iff split: option.splits) blast
  from assms(2) ws consider "w \<in> set tw" | "w \<in> set (trigger_writes cg (t_node t) (t_seq t))"
    | "w \<in> set bw" by auto
  then show ?thesis
  proof cases
    case 1
    with interpret_result_routed [OF tw] show ?thesis by (blast intro: routed_owned)
  next
    case 2
    then show ?thesis by (rule trigger_writes_owned)
  next
    case 3
    with bw show ?thesis by (auto intro: branch_writes_owned)
  qed
qed

lemma run_one_owned:
  "w \<in> set (done_writes (run_one P cg st ex t r s rem rs)) \<Longrightarrow> owned t w"
  by (auto simp: run_one_def Let_def bundle_owned split: prog_end.splits sum.splits if_splits)

section \<open>The dispatch order does not matter\<close>

lemma mset_concat_map: "mset (concat (map f xs)) = \<Sum>\<^sub># (image_mset (\<lambda>x. mset (f x)) (mset xs))"
  by (induction xs) auto

lemma filter_concat_other:
  assumes "\<And>t. t \<in> set xs \<Longrightarrow> \<forall>w \<in> set (f t). owned t w" and "i \<notin> identity ` set xs"
  shows "filter (\<lambda>w. (w_node w, w_seq w) = i \<and> Q w) (concat (map f xs)) = []"
  using assms by (fastforce simp: filter_empty_conv owned_def)

lemma filter_concat_own:
  assumes "\<And>t. t \<in> set xs \<Longrightarrow> \<forall>w \<in> set (f t). owned t w" and "distinct (map identity xs)" and "t \<in> set xs"
  shows "filter (\<lambda>w. (w_node w, w_seq w) = identity t \<and> Q w) (concat (map f xs)) = filter Q (f t)"
  using assms
proof (induction xs)
  case (Cons x xs)
  show ?case
  proof (cases "t = x")
    case True
    have "filter (\<lambda>w. (w_node w, w_seq w) = identity x \<and> Q w) (concat (map f xs)) = []"
      using Cons.prems(1,2) by (intro filter_concat_other) auto
    moreover have "filter (\<lambda>w. (w_node w, w_seq w) = identity x \<and> Q w) (f x) = filter Q (f x)"
      using Cons.prems(1) by (intro filter_cong) (auto simp: owned_def)
    ultimately show ?thesis using True by simp
  next
    case False
    then have t: "t \<in> set xs" using Cons.prems(3) by simp
    then have "identity t \<noteq> identity x" using Cons.prems(2) by (simp add: distinct_map_neq)
    then have "filter (\<lambda>w. (w_node w, w_seq w) = identity t \<and> Q w) (f x) = []"
      using Cons.prems(1) [of x] by (auto simp: filter_empty_conv owned_def)
    with Cons t show ?thesis by simp
  qed
qed simp

lemma sort_writes_perm:
  assumes "mset xs = mset ys" and "distinct (map identity xs)"
    and own: "\<And>t. t \<in> set xs \<Longrightarrow> \<forall>w \<in> set (f t). owned t w"
  shows "sort_writes (concat (map f xs)) = sort_writes (concat (map f ys))"
  unfolding sort_writes_def
proof (rule sort_key_eqI)
  show "mset (concat (map f xs)) = mset (concat (map f ys))"
    using assms(1) by (simp add: mset_concat_map)
  have set: "set ys = set xs" using assms(1) by (metis set_mset_mset)
  have dy: "distinct (map identity ys)"
    using assms(1,2) by (metis mset_eq_imp_distinct_iff mset_map)
  fix k
  have key: "write_key w = k \<longleftrightarrow> (w_node w, w_seq w) = snd k \<and> w_chan w = fst k" for w
    by (cases k) (auto simp: write_key_def)
  show "filter (\<lambda>w. write_key w = k) (concat (map f xs)) = filter (\<lambda>w. write_key w = k) (concat (map f ys))"
  proof (cases "snd k \<in> identity ` set xs")
    case True
    then obtain t where t: "t \<in> set xs" "snd k = identity t" by auto
    have "filter (\<lambda>w. (w_node w, w_seq w) = identity t \<and> w_chan w = fst k) (concat (map f xs)) =
        filter (\<lambda>w. w_chan w = fst k) (f t)"
      using own assms(2) t(1) by (rule filter_concat_own)
    moreover have "filter (\<lambda>w. (w_node w, w_seq w) = identity t \<and> w_chan w = fst k) (concat (map f ys)) =
        filter (\<lambda>w. w_chan w = fst k) (f t)"
      using own dy t(1) set by (intro filter_concat_own) auto
    ultimately show ?thesis by (simp add: key t(2))
  next
    case False
    have "filter (\<lambda>w. (w_node w, w_seq w) = snd k \<and> w_chan w = fst k) (concat (map f xs)) = []"
      using own False by (rule filter_concat_other)
    moreover have "filter (\<lambda>w. (w_node w, w_seq w) = snd k \<and> w_chan w = fst k) (concat (map f ys)) = []"
      using own False set by (intro filter_concat_other) auto
    ultimately show ?thesis by (simp add: key)
  qed
qed

text \<open>An accepted order is a permutation of the ready tasks.\<close>

lemma map_of_identity:
  "distinct (map identity ts) \<Longrightarrow> t \<in> set ts \<Longrightarrow> map_of (rev (map (\<lambda>t. (identity t, t)) ts)) (identity t) = Some t"
proof -
  assume d: "distinct (map identity ts)" and t: "t \<in> set ts"
  let ?d = "rev (map (\<lambda>t. (identity t, t)) ts)"
  have "distinct (map fst ?d)" using d by (simp add: rev_map comp_def distinct_map)
  moreover have "(identity t, t) \<in> set ?d" using t by simp
  ultimately show ?thesis by (rule map_of_is_SomeI)
qed

lemma dispatch_perm:
  assumes "validated_dispatch_order env ts r s = Inr xs" and "distinct (map identity ts)"
  shows "mset xs = mset ts"
proof -
  let ?m = "\<lambda>i. the (map_of (rev (map (\<lambda>t. (identity t, t)) ts)) i)"
  from assms(1) have m: "mset (env_order env s (map identity ts)) = mset (map identity ts)"
    and xs: "xs = map ?m (env_order env s (map identity ts))"
    by (auto simp: validated_dispatch_order_def Let_def split: if_splits)
  have "mset xs = image_mset ?m (mset (map identity ts))" by (simp add: xs m)
  also have "\<dots> = image_mset (\<lambda>t. ?m (identity t)) (mset ts)" by (simp add: image_mset.compositionality comp_def)
  also have "\<dots> = image_mset (\<lambda>t. t) (mset ts)"
    by (rule image_mset_cong) (simp add: map_of_identity assms(2))
  finally show ?thesis by simp
qed

lemma finish_tasks_Inr:
  "finish_tasks cg xs outcome completed seen sv = Inr (ws, ns, ids, seen') \<longleftrightarrow>
     (\<forall>t \<in> set xs. completed t \<and> \<not> is_fail (outcome t) \<and> outcome t \<noteq> TCancelled) \<and>
     ws = sort_writes (concat (map (\<lambda>t. done_writes (outcome t)) xs)) \<and>
     ns = map t_node xs \<and> ids = map identity xs \<and> seen' = mark_tasks cg sv xs seen"
proof (cases "filter (\<lambda>t. completed t \<and> is_fail (outcome t)) xs")
  case Nil
  then show ?thesis
    by (auto simp: finish_tasks_def list_ex_iff list_all_iff filter_empty_conv)
next
  case (Cons y ys)
  then have "y \<in> set xs" "completed y" "is_fail (outcome y)"
    using filter_eq_Cons_iff [of "\<lambda>t. completed t \<and> is_fail (outcome t)" xs y ys] by auto
  with Cons show ?thesis by (auto simp: finish_tasks_def)
qed

text \<open>Which versions a node has seen, after the pulls of a superstep are marked.\<close>

lemma foldl_dset_const:
  "dget (foldl (\<lambda>d name. dset name (f name) d) d0 ns) k v = (if k \<in> set ns then f k else dget d0 k v)"
  by (induction ns arbitrary: d0) auto

lemma dget_mark_seen:
  "dget (mark_seen cg sv n seen) m [] =
     (if m = n then foldl (\<lambda>d name. dset name (dget sv name 0) d) (dget seen n []) (dget (cg_triggers cg) n [])
      else dget seen m [])"
  by (simp add: mark_seen_def)

lemma mark_tasks_other:
  "(\<forall>t \<in> set ts. is_pull t \<longrightarrow> t_node t \<noteq> n) \<Longrightarrow> dget (mark_tasks cg sv ts seen) n [] = dget seen n []"
  by (induction ts arbitrary: seen) (auto simp: mark_tasks_def dget_mark_seen)

lemma mark_tasks_own:
  assumes "distinct (map identity ts)" and "t \<in> set ts" and "is_pull t"
  shows "dget (mark_tasks cg sv ts seen) (t_node t) [] =
    foldl (\<lambda>d name. dset name (dget sv name 0) d) (dget seen (t_node t) []) (dget (cg_triggers cg) (t_node t) [])"
  using assms(1,2)
proof (induction ts arbitrary: seen)
  case (Cons x ts)
  show ?case
  proof (cases "t = x")
    case True
    have "\<forall>y \<in> set ts. is_pull y \<longrightarrow> t_node y \<noteq> t_node x"
      using Cons.prems(1) True assms(3) pull_node_neq by blast
    then have "dget (mark_tasks cg sv ts (mark_seen cg sv (t_node x) seen)) (t_node x) [] =
        dget (mark_seen cg sv (t_node x) seen) (t_node x) []" by (rule mark_tasks_other)
    with True assms(3) show ?thesis by (simp add: mark_tasks_def dget_mark_seen)
  next
    case False
    with Cons.prems have t: "t \<in> set ts" "distinct (map identity ts)" by auto
    have "t_node x \<noteq> t_node t" if "is_pull x"
      using pull_node_neq [OF Cons.prems(1) t(1) assms(3) that] by simp
    with Cons.IH [OF t(2,1)] show ?thesis by (auto simp: mark_tasks_def dget_mark_seen)
  qed
qed simp

lemma mark_tasks_perm:
  assumes "mset xs = mset ys" and "distinct (map identity xs)"
  shows "dget (mark_tasks cg sv xs seen) n [] = dget (mark_tasks cg sv ys seen) n []"
proof -
  have set: "set ys = set xs" using assms(1) by (metis set_mset_mset)
  have dy: "distinct (map identity ys)"
    using assms by (metis mset_eq_imp_distinct_iff mset_map)
  show ?thesis
  proof (cases "\<exists>t \<in> set xs. is_pull t \<and> t_node t = n")
    case True
    then obtain t where "t \<in> set xs" "is_pull t" "t_node t = n" by blast
    with mark_tasks_own [OF assms(2), of t cg sv seen] mark_tasks_own [OF dy, of t cg sv seen] set
    show ?thesis by simp
  next
    case False
    then have "\<forall>t \<in> set xs. is_pull t \<longrightarrow> t_node t \<noteq> n" "\<forall>t \<in> set ys. is_pull t \<longrightarrow> t_node t \<noteq> n"
      using set by auto
    then show ?thesis by (simp add: mark_tasks_other)
  qed
qed

text \<open>A superstep that succeeds under one dispatch order succeeds alike under every other.\<close>

lemma run_tasks_order:
  assumes "distinct (map identity tasks)"
    and run: "run_tasks P cg env tasks st seen sv r s rem rs = Inr (ws, ns, ids, seen1)"
    and perm: "mset (env_order env' s (map identity tasks)) = mset (map identity tasks)"
    and same: "env_expires env' = env_expires env"
  shows "\<exists>ns' ids' seen2. run_tasks P cg env' tasks st seen sv r s rem rs = Inr (ws, ns', ids', seen2) \<and>
    mset ns' = mset ns \<and> mset ids' = mset ids \<and> (\<forall>n. dget seen2 n [] = dget seen1 n [])"
proof -
  let ?out = "\<lambda>t. run_one P cg st (env_expires env s) t r s rem rs"
  from run obtain xs where xs: "validated_dispatch_order env tasks r s = Inr xs"
    and fin: "finish_tasks cg xs ?out (\<lambda>t. list_ex (is_fail \<circ> ?out) xs \<longrightarrow> env_done env s (identity t)) seen sv =
      Inr (ws, ns, ids, seen1)"
    by (auto simp: run_tasks_def Let_def split: sum.splits)
  obtain ys where ys: "validated_dispatch_order env' tasks r s = Inr ys"
    using perm by (simp add: validated_dispatch_order_def Let_def)
  have m: "mset xs = mset tasks" "mset ys = mset tasks"
    using dispatch_perm [OF xs assms(1)] dispatch_perm [OF ys assms(1)] by simp_all
  then have mxy: "mset xs = mset ys" by simp
  then have set: "set ys = set xs" by (metis set_mset_mset)
  have dx: "distinct (map identity xs)"
    using assms(1) m(1) by (metis mset_eq_imp_distinct_iff mset_map)
  from fin have ok: "\<forall>t \<in> set xs. \<not> is_fail (?out t) \<and> ?out t \<noteq> TCancelled"
    and ws: "ws = sort_writes (concat (map (\<lambda>t. done_writes (?out t)) xs))"
    and rest: "ns = map t_node xs" "ids = map identity xs" "seen1 = mark_tasks cg sv xs seen"
    by (simp_all add: finish_tasks_Inr)
  have "\<not> list_ex (is_fail \<circ> ?out) ys" using ok set by (auto simp: list_ex_iff)
  moreover have "ws = sort_writes (concat (map (\<lambda>t. done_writes (?out t)) ys))"
    unfolding ws using mxy dx by (rule sort_writes_perm) (blast dest: run_one_owned)
  ultimately have "finish_tasks cg ys ?out (\<lambda>t. list_ex (is_fail \<circ> ?out) ys \<longrightarrow> env_done env' s (identity t)) seen sv =
      Inr (ws, map t_node ys, map identity ys, mark_tasks cg sv ys seen)"
    using ok set by (simp add: finish_tasks_Inr)
  then have "run_tasks P cg env' tasks st seen sv r s rem rs =
      Inr (ws, map t_node ys, map identity ys, mark_tasks cg sv ys seen)"
    by (simp add: run_tasks_def ys same)
  moreover have "mset (map t_node ys) = mset ns" "mset (map identity ys) = mset ids"
    using mxy by (simp_all add: rest)
  ultimately show ?thesis using mark_tasks_perm [OF mxy dx] by (fastforce simp: rest)
qed

section \<open>A failed superstep\<close>

text \<open>
  The failure's payload: the work that survives is that of the tasks that are done, and each
  push task either is done or has its packet handed back.
\<close>

lemma finish_tasks_failed:
  assumes "finish_tasks cg xs outcome completed seen sv = Inl (StepFailed f)"
  obtains t where "t \<in> set xs" "completed t" "outcome t = TFail (fl_error f)"
    "is_runtime_error (fl_error f)" "fl_node f = t_node t" "fl_seq f = t_seq t"
    "f = step_failure xs outcome completed t"
proof -
  from assms obtain t ts where c: "filter (\<lambda>t. completed t \<and> is_fail (outcome t)) xs = t # ts"
    and rt: "is_runtime_error (fail_error (outcome t))" and f: "f = step_failure xs outcome completed t"
    by (auto simp: finish_tasks_def split: list.splits if_splits)
  from c have t: "t \<in> set xs" "completed t" "is_fail (outcome t)"
    using filter_eq_Cons_iff [of "\<lambda>t. completed t \<and> is_fail (outcome t)" xs t ts] by auto
  then have "outcome t = TFail (fl_error f)"
    by (cases "outcome t") (simp_all add: f step_failure_def Let_def)
  moreover have "fl_error f = fail_error (outcome t)" "fl_node f = t_node t" "fl_seq f = t_seq t"
    by (simp_all add: f step_failure_def Let_def)
  ultimately show ?thesis using t(1,2) rt f by (intro that [of t]) simp_all
qed

lemma set_sort_writes [simp]: "set (sort_writes ws) = set ws"
  by (simp add: sort_writes_def)

lemma step_failure_parts:
  "fl_succeeded (step_failure xs outcome completed t) =
     map identity (filter (\<lambda>t. completed t \<and> is_done (outcome t)) xs)"
  "set (fl_writes (step_failure xs outcome completed t)) =
     (\<Union>x \<in> {x \<in> set xs. completed x \<and> is_done (outcome x)}. set (done_writes (outcome x)))"
  "fl_sends (step_failure xs outcome completed t) =
     map (\<lambda>t. PSend (t_node t) (t_arg t) (t_timeout t))
       (filter (\<lambda>t. \<not> is_pull t \<and> \<not> (completed t \<and> is_done (outcome t))) xs)"
  by (auto simp: step_failure_def Let_def)

section \<open>Interrupts are answered by call order\<close>

text \<open>
  The payloads a program asks for on the path its answers lead it, and where that path ends
  when the answers suffice.
\<close>

primrec asks :: "nprog \<Rightarrow> pyval list \<Rightarrow> pyval list" where
  "asks (NRet r) = (\<lambda>rs. [])"
| "asks (NRaise e) = (\<lambda>rs. [])"
| "asks NCancel = (\<lambda>rs. [])"
| "asks (NInterrupt v k) = (\<lambda>rs. v # (case rs of [] \<Rightarrow> [] | x # xs \<Rightarrow> asks (k x) xs))"

primrec answer :: "nprog \<Rightarrow> pyval list \<Rightarrow> prog_end" where
  "answer (NRet r) = (\<lambda>rs. Returned r)"
| "answer (NRaise e) = (\<lambda>rs. Raised (PyError e))"
| "answer NCancel = (\<lambda>rs. Cancelled)"
| "answer (NInterrupt v k) = (\<lambda>rs. answer (k (hd rs)) (tl rs))"

lemma interrupt_id_counter [simp]: "interrupt_id P (fr\<lparr>fr_counter := n\<rparr>) = interrupt_id P fr"
  by (simp add: interrupt_id_def)

lemma run_prog_asks:
  assumes "interrupt_id P fr = Inr i" and "fr_counter fr \<le> length (fr_resumes fr)"
  shows "run_prog P p fr =
    (let rs = drop (fr_counter fr) (fr_resumes fr) in
     if length (asks p rs) \<le> length rs then answer p rs
     else Raised (GraphInterrupt (last (asks p rs)) i (fr_resumes fr)))"
  using assms
proof (induction p arbitrary: fr)
  case (NInterrupt v k)
  let ?fr = "fr\<lparr>fr_counter := Suc (fr_counter fr)\<rparr>"
  show ?case
  proof (cases "fr_counter fr < length (fr_resumes fr)")
    case True
    let ?x = "fr_resumes fr ! fr_counter fr"
    have d: "drop (fr_counter fr) (fr_resumes fr) = ?x # drop (Suc (fr_counter fr)) (fr_resumes fr)"
      using True by (simp add: Cons_nth_drop_Suc)
    have "run_prog P (NInterrupt v k) fr = run_prog P (k ?x) ?fr"
      using True by (simp add: interrupt_def Let_def)
    also have "\<dots> = (let rs = drop (fr_counter ?fr) (fr_resumes ?fr) in
       if length (asks (k ?x) rs) \<le> length rs then answer (k ?x) rs
       else Raised (GraphInterrupt (last (asks (k ?x) rs)) i (fr_resumes ?fr)))"
      using NInterrupt True by (intro NInterrupt.IH) simp_all
    finally show ?thesis by (auto simp: d Let_def)
  next
    case False
    then have "drop (fr_counter fr) (fr_resumes fr) = []" using NInterrupt.prems(2) by simp
    with False NInterrupt.prems(1) show ?thesis by (simp add: interrupt_def Let_def)
  qed
qed (simp_all add: Let_def)

end
