(* ===== verification/PersistenceRuntime.thy ===== *)
theory PersistenceRuntime
  imports Persistence Executor
begin

text \<open>
  The run's boundary to the persistence kernel (graph/persistence_runtime.py): which checkpoint
  a run resumes from and which pending record follows it, how that record maps onto the ready
  tasks, the journal of a superstep, and what a failed superstep leaves behind.
\<close>

section \<open>State\<close>

text \<open>\<open>rp_thread\<close> is the thread when a kernel and a thread are given; the kernel's files are \<open>rp_store\<close>.\<close>

record run_persistence =
  rp_store :: store
  rp_thread :: "pystr option"
  rp_parent :: "pystr option"
  rp_pending :: "pending_write option"

definition task_id_of :: "pystr \<Rightarrow> nat \<Rightarrow> pystr" where
  "task_id_of run_id superstep = run_id @ [58] @ nat_str superstep"

section \<open>Resolving what to resume from\<close>

definition resume_record ::
    "ckpt_record list \<Rightarrow> pystr option \<Rightarrow> run_checkpoint \<Rightarrow> pyexc + ckpt_record option" where
  "resume_record history checkpoint_id resume_from =
     (case checkpoint_id of
        Some i \<Rightarrow>
          (case select_record history (Some i) of
             None \<Rightarrow> Inl (KeyError i)
           | Some r \<Rightarrow> if checkpoint_eq (cr_checkpoint r) resume_from then Inr (Some r)
                       else Inl (ValueError (u ''resume_from does not match'')))
      | None \<Rightarrow>
          (case filter (\<lambda>r. checkpoint_eq (cr_checkpoint r) resume_from) history of
             [] \<Rightarrow> (if history \<noteq> [] then Inl (ValueError (u ''resume_from is not persisted'')) else Inr None)
           | [r] \<Rightarrow> Inr (Some r)
           | _ \<Rightarrow> Inl (ValueError (u ''resume_from matches multiple''))))"

fun clear_committed ::
    "prims \<Rightarrow> store \<Rightarrow> pystr \<Rightarrow> pystr option \<Rightarrow> pystr \<Rightarrow> pending_write list \<Rightarrow> pyexc + store" where
  "clear_committed P store thread parent committed [] = Inr store"
| "clear_committed P store thread parent committed (w # ws) =
     (if pw_checkpoint w = parent \<and> pw_task w = committed
      then ebind (clear_pending_writes P store thread (Some (pw_task w))) (\<lambda>store'.
             clear_committed P store' thread parent committed ws)
      else clear_committed P store thread parent committed ws)"

definition pending_after ::
    "prims \<Rightarrow> store \<Rightarrow> pystr \<Rightarrow> ckpt_record \<Rightarrow> pyexc + (store \<times> pending_write option)" where
  "pending_after P store thread record =
     ebind (recover_pending_writes P store thread) (\<lambda>pending.
     let replay = filter (\<lambda>w. pw_checkpoint w = Some (cr_id record)) pending in
     if length replay > 1 then Inl (ValueError (u ''multiple pending supersteps''))
     else
       emap (\<lambda>s. (s, case replay of [] \<Rightarrow> None | w # _ \<Rightarrow> Some w))
         (clear_committed P store thread (cr_parent record)
           (task_id_of (cp_run (cr_checkpoint record)) (cp_superstep (cr_checkpoint record))) pending))"

definition bind_record ::
    "prims \<Rightarrow> run_persistence \<Rightarrow> pystr \<Rightarrow> ckpt_record \<Rightarrow> pyexc + run_persistence" where
  "bind_record P rp thread record =
     emap (\<lambda>(s, w). rp\<lparr>rp_store := s, rp_parent := Some (cr_id record), rp_pending := w\<rparr>)
       (pending_after P (rp_store rp) thread record)"

definition resolve_persistence ::
    "prims \<Rightarrow> store \<Rightarrow> bool \<Rightarrow> pystr option \<Rightarrow> pystr option \<Rightarrow> bool \<Rightarrow> run_checkpoint option
      \<Rightarrow> pyexc + (run_persistence \<times> run_checkpoint option)" where
  "resolve_persistence P store has_kernel thread_id checkpoint_id input_none resume_from =
     (let rp = \<lparr>rp_store = store, rp_thread = thread_id, rp_parent = None, rp_pending = None\<rparr> in
      if has_kernel \<noteq> (thread_id \<noteq> None) then Inl (ValueError (u ''must be provided together''))
      else case thread_id of
        None \<Rightarrow> Inr (rp, resume_from)
      | Some thread \<Rightarrow>
          ebind (get_state_history P store thread) (\<lambda>history.
          case resume_from of
            Some cp \<Rightarrow>
              ebind (resume_record history checkpoint_id cp) (\<lambda>r.
              case r of
                None \<Rightarrow> Inr (rp, Some cp)
              | Some record \<Rightarrow> emap (\<lambda>rp'. (rp', Some cp)) (bind_record P rp thread record))
          | None \<Rightarrow>
              (case select_record history checkpoint_id of
                 Some record \<Rightarrow>
                   (if input_none
                    then emap (\<lambda>rp'. (rp', Some (cr_checkpoint record))) (bind_record P rp thread record)
                    else if checkpoint_id \<noteq> None then Inl (KeyError thread)
                    else Inr (rp, None))
               | None \<Rightarrow>
                   (if checkpoint_id \<noteq> None \<or> input_none then Inl (KeyError thread)
                    else Inr (rp, None)))))"

section \<open>Replay plans\<close>

record replay_plan =
  pl_task :: pystr
  pl_full :: bool
  pl_writes :: "channel_write list"
  pl_live :: "task list"
  pl_covered :: "pystr list"
  pl_resumes :: "(pystr, pyval list) dict"

fun split_resumes ::
    "(pystr \<times> pyval) list \<Rightarrow> (pystr, pyval list) dict \<Rightarrow> (pystr \<times> pyval) list
      \<Rightarrow> pyexc + ((pystr, pyval list) dict \<times> (pystr \<times> pyval) list)" where
  "split_resumes [] resumes real_writes = Inr (resumes, real_writes)"
| "split_resumes ((channel, v) # ws) resumes real_writes =
     (if startswith channel RESUME_PREFIX
      then ebind (if py_truthy v then py_list v else Inr []) (\<lambda>vs.
             split_resumes ws (dset (drop (length RESUME_PREFIX) channel) vs resumes) real_writes)
      else split_resumes ws resumes (real_writes @ [(channel, v)]))"

definition path_nodes :: "pystr \<Rightarrow> pystr list" where
  "path_nodes path = (if path = [] then [] else split_on 43 path)"

definition node_path :: "pystr list \<Rightarrow> pystr" where
  "node_path nodes = join_str [43] (sort nodes)"

definition indexed_writes :: "pystr \<Rightarrow> (pystr \<times> pyval) list \<Rightarrow> channel_write list" where
  "indexed_writes path ws = map (\<lambda>(i, (c, v)). ChannelWrite path c v i) (enumerate 0 ws)"

definition pending_replay_plan ::
    "run_persistence \<Rightarrow> task list \<Rightarrow> pystr \<Rightarrow> nat \<Rightarrow> pyexc + replay_plan" where
  "pending_replay_plan rp tasks run_id superstep =
     (case rp_pending rp of
        None \<Rightarrow> Inl (ValueError (u ''no pending writes''))
      | Some pending \<Rightarrow>
          (if pw_task pending \<noteq> task_id_of run_id superstep then Inl (ValueError (u ''pending task does not match''))
           else
             ebind (split_resumes (pw_writes pending) [] []) (\<lambda>(resumes, real_writes).
             let recorded = path_nodes (pw_path pending); ready = map t_node tasks in
             if \<not> (mset recorded \<subseteq># mset ready) then Inl (ValueError (u ''nodes outside the ready set''))
             else if mset recorded = mset ready then
               (if resumes \<noteq> [] then Inl (ValueError (u ''full task coverage with resume entries''))
                else Inr \<lparr>pl_task = pw_task pending, pl_full = True, pl_writes = [], pl_live = [],
                          pl_covered = [], pl_resumes = []\<rparr>)
             else if list_ex (\<lambda>n. count_list recorded n \<noteq> count_list ready n) recorded then
               Inr \<lparr>pl_task = pw_task pending, pl_full = False, pl_writes = [], pl_live = tasks,
                    pl_covered = [], pl_resumes = resumes\<rparr>
             else
               Inr \<lparr>pl_task = pw_task pending, pl_full = False,
                    pl_writes = indexed_writes (pw_path pending) real_writes,
                    pl_live = filter (\<lambda>t. t_node t \<notin> set recorded) tasks,
                    pl_covered = sort (remdups (map t_node
                      (filter (\<lambda>t. is_pull t \<and> t_node t \<in> set recorded) tasks))),
                    pl_resumes = resumes\<rparr>)))"

text \<open>\<open>replay\<close>: the recorded superstep is applied, nothing is executed.\<close>

definition replay_pending ::
    "prims \<Rightarrow> compiled \<Rightarrow> run_persistence \<Rightarrow> gstate \<Rightarrow> seen \<Rightarrow> task list \<Rightarrow> pystr \<Rightarrow> nat
      \<Rightarrow> gerror + (gstate \<times> seen)" where
  "replay_pending P cg rp st seen tasks run_id superstep =
     (case rp_pending rp of
        None \<Rightarrow> Inl (PyError (ValueError (u ''no pending writes'')))
      | Some pending \<Rightarrow>
          (if pw_task pending \<noteq> task_id_of run_id superstep
           then Inl (PyError (ValueError (u ''pending task does not match'')))
           else if pw_path pending \<noteq> node_path (map t_node tasks)
           then Inl (PyError (ValueError (u ''pending task path does not match'')))
           else
             (let seen' = mark_tasks cg (gs_versions st) tasks seen in
              case apply_writes P st (indexed_writes (pw_path pending) (pw_writes pending)) superstep of
                (st', Inl e) \<Rightarrow> Inl e
              | (st', Inr _) \<Rightarrow> Inr (st', seen'))))"

section \<open>Journal and commit\<close>

definition journal ::
    "prims \<Rightarrow> run_persistence \<Rightarrow> (pystr \<times> pyval) list \<Rightarrow> pystr \<Rightarrow> pystr \<Rightarrow> pyexc + run_persistence" where
  "journal P rp writes task_id task_path =
     (case rp_thread rp of
        None \<Rightarrow> Inr rp
      | Some thread \<Rightarrow>
          emap (\<lambda>s. rp\<lparr>rp_store := s\<rparr>)
            (put_writes P (rp_store rp) thread writes task_id (rp_parent rp) task_path))"

text \<open>The record of the task is cleared first; if the new one cannot be written, it is lost.\<close>

definition journal_replace ::
    "prims \<Rightarrow> run_persistence \<Rightarrow> (pystr \<times> pyval) list \<Rightarrow> pystr \<Rightarrow> pystr
      \<Rightarrow> run_persistence \<times> (pyexc + unit)" where
  "journal_replace P rp writes task_id task_path =
     (case rp_thread rp of
        None \<Rightarrow> (rp, Inr ())
      | Some thread \<Rightarrow>
          (case clear_pending_writes P (rp_store rp) thread (Some task_id) of
             Inl e \<Rightarrow> (rp, Inl e)
           | Inr s \<Rightarrow>
               (case put_writes P s thread writes task_id (rp_parent rp) task_path of
                  Inl e \<Rightarrow> (rp\<lparr>rp_store := s\<rparr>, Inl e)
                | Inr s' \<Rightarrow> (rp\<lparr>rp_store := s'\<rparr>, Inr ()))))"

definition commit_run_checkpoint ::
    "prims \<Rightarrow> run_persistence \<Rightarrow> run_checkpoint \<Rightarrow> pystr option \<Rightarrow> pyexc + run_persistence" where
  "commit_run_checkpoint P rp cp pending_task_id =
     (case rp_thread rp of
        None \<Rightarrow> Inr rp
      | Some thread \<Rightarrow>
          ebind (put_run_checkpoint P (rp_store rp) thread cp None (rp_parent rp)
                  [(u ''graph_id'', PStr (cp_graph cp)), (u ''graph_run_id'', PStr (cp_run cp))])
            (\<lambda>(s, record).
             let rp' = rp\<lparr>rp_store := s, rp_parent := Some (cr_id record)\<rparr> in
             case pending_task_id of
               None \<Rightarrow> Inr rp'
             | Some t \<Rightarrow> emap (\<lambda>s'. rp'\<lparr>rp_store := s'\<rparr>) (clear_pending_writes P s thread (Some t))))"

section \<open>What a failed superstep leaves\<close>

definition write_pairs :: "channel_write list \<Rightarrow> (pystr \<times> pyval) list" where
  "write_pairs ws = map (\<lambda>w. (w_chan w, w_value w)) ws"

definition resume_entries :: "failure \<Rightarrow> (pystr \<times> pyval) list" where
  "resume_entries f =
     (case fl_error f of
        GraphInterrupt v i consumed \<Rightarrow> [(resume_channel (fl_node f) (fl_seq f), PList consumed)]
      | _ \<Rightarrow> [])"

text \<open>The pending view: the state with the surviving writes, and the unfinished Sends handed back.\<close>

definition failure_view ::
    "prims \<Rightarrow> compiled \<Rightarrow> failure \<Rightarrow> channel_write list \<Rightarrow> gstate \<Rightarrow> seen \<Rightarrow> versions \<Rightarrow> pystr \<Rightarrow> nat \<Rightarrow> nat
      \<Rightarrow> gerror + run_checkpoint" where
  "failure_view P cg f writes st seen start_versions run_id superstep committed =
     ebind (lift_py (checkpoint_channels st)) (\<lambda>snaps.
     ebind (restore_channels P (GraphState (cg_factories cg)) snaps) (\<lambda>view.
     case apply_writes P view writes superstep of
       (view1, Inl e) \<Rightarrow> Inl e
     | (view1, Inr _) \<Rightarrow>
         (case (if fl_sends f = [] then (view1, Inr {})
                else apply_writes P view1
                  (map (\<lambda>(i, s). ChannelWrite (u ''__engine__'') TASKS_CHANNEL s i) (enumerate 0 (fl_sends f)))
                  superstep) of
            (view2, Inl e) \<Rightarrow> Inl e
          | (view2, Inr _) \<Rightarrow>
              ebind (lift_py (gs_digest P view2)) (\<lambda>digest.
              emap (\<lambda>chans. \<lparr>cp_run = run_id, cp_graph = cg_graph_id cg, cp_superstep = committed,
                   cp_digest = digest, cp_channels = chans,
                   cp_seen = foldl (\<lambda>s n. mark_seen cg start_versions n s) seen (fl_pulls f)\<rparr>)
                (lift_py (checkpoint_channels view2))))))"

definition persist_failure_remains ::
    "prims \<Rightarrow> compiled \<Rightarrow> bool \<Rightarrow> failure \<Rightarrow> gstate \<Rightarrow> seen \<Rightarrow> versions \<Rightarrow> run_persistence \<Rightarrow> pystr \<Rightarrow> nat \<Rightarrow> nat
      \<Rightarrow> run_persistence \<times> (gerror + run_checkpoint list)" where
  "persist_failure_remains P cg on_checkpoint f st seen start_versions rp run_id superstep committed =
     (let writes = fl_writes f; entries = resume_entries f;
          valid = writes = [] \<or> validate_writes P st writes superstep = Inr ();
          writes' = (if valid then writes else []);
          path = (if valid then node_path (map fst (fl_succeeded f)) else []) in
      if writes = [] \<and> entries = [] then (rp, Inr [])
      else if \<not> valid \<and> entries = [] then (rp, Inr [])
      else case (if rp_pending rp = None
                 then journal P rp (write_pairs writes' @ entries) (task_id_of run_id superstep) path
                 else Inr rp) of
        Inl e \<Rightarrow> (rp, Inl (PyError e))
      | Inr rp' \<Rightarrow>
          (if \<not> on_checkpoint \<or> writes' = [] then (rp', Inr [])
           else case failure_view P cg f writes' st seen start_versions run_id superstep committed of
             Inl e \<Rightarrow> (rp', Inl e)
           | Inr cp \<Rightarrow> (rp', Inr [cp])))"

section \<open>Node paths\<close>

lemma mset_path_nodes:
  assumes "\<forall>n \<in> set ns. 43 \<notin> set n" and "[] \<notin> set ns"
  shows "path_nodes (node_path ns) = sort ns"
proof (cases "ns = []")
  case True
  then show ?thesis by (simp add: path_nodes_def node_path_def)
next
  case False
  then have s: "sort ns \<noteq> []" by (simp add: sort_Nil_iff)
  have "join_str [43] (sort ns) \<noteq> []"
  proof -
    obtain x xs where x: "sort ns = x # xs" using s by (cases "sort ns") auto
    then have "x \<in> set (sort ns)" by simp
    then have "x \<noteq> []" using assms(2) by auto
    with x show ?thesis by (cases xs) simp_all
  qed
  moreover have "split_on 43 (join_str [43] (sort ns)) = sort ns"
    using s assms(1) by (intro split_join) simp_all
  ultimately show ?thesis by (simp add: path_nodes_def node_path_def)
qed

lemma task_id_inject [simp]: "task_id_of r m = task_id_of r n \<longleftrightarrow> m = n"
  by (simp add: task_id_of_def)

section \<open>A commit depends on the values alone\<close>

lemma all_values:
  assumes "map w_value ws = map w_value vs"
  shows "(\<forall>w \<in> set ws. Q (w_value w)) \<longleftrightarrow> (\<forall>w \<in> set vs. Q (w_value w))"
proof -
  have "list_all Q (map w_value ws) = list_all Q (map w_value vs)" using assms by simp
  then show ?thesis by (simp add: list_all_iff)
qed

lemma reduce_fold_values:
  "map w_value ws = map w_value vs \<Longrightarrow> reduce_fold f x ws = reduce_fold f x vs"
proof (induction ws arbitrary: vs x)
  case (Cons w ws)
  then obtain v vs' where "vs = v # vs'" "w_value v = w_value w" "map w_value ws = map w_value vs'"
    by (cases vs) auto
  with Cons.IH show ?case by (auto split: sum.splits)
qed simp

lemma barrier_see_values:
  "map w_value ws = map w_value vs \<Longrightarrow> barrier_see seen ws = barrier_see seen vs"
proof (induction ws arbitrary: vs seen)
  case (Cons w ws)
  then obtain v vs' where "vs = v # vs'" "w_value v = w_value w" "map w_value ws = map w_value vs'"
    by (cases vs) auto
  with Cons.IH show ?case by (auto split: pyval.splits)
qed simp

lemma extend_items_values:
  assumes "map w_value ws = map w_value vs"
  shows "extend_items items ws = extend_items items vs"
proof -
  have "map (\<lambda>w. case w_value w of PList xs \<Rightarrow> xs | v \<Rightarrow> [v]) us =
      map (\<lambda>x. case x of PList xs \<Rightarrow> xs | v \<Rightarrow> [v]) (map w_value us)" for us by simp
  with assms show ?thesis unfolding extend_items_def by metis
qed

lemma chan_commit_values:
  assumes "map w_value ws = map w_value vs"
  shows "chan_commit c ws = chan_commit c vs"
proof (cases ws)
  case Nil
  with assms show ?thesis by simp
next
  case (Cons w ws')
  with assms obtain v vs' where v: "vs = v # vs'" "w_value v = w_value w" by (cases vs) auto
  have hd: "ws \<noteq> []" "vs \<noteq> []" "w_value (hd ws) = w_value (hd vs)" using Cons v by simp_all
  show ?thesis
    using hd reduce_fold_values [OF assms] barrier_see_values [OF assms] extend_items_values [OF assms]
    by (cases "ch_body c") (simp_all add: chan_commit_defs)
qed

lemma chan_validate_values:
  assumes "map w_value ws = map w_value vs"
  shows "chan_validate P c ws s = Inr () \<longleftrightarrow> chan_validate P c vs s = Inr ()"
proof -
  have len: "length ws = length vs" using assms by (rule map_eq_imp_length_eq)
  have nil: "ws = [] \<longleftrightarrow> vs = []" using len by auto
  have bar: "barrier_validate names ws s = Inr () \<longleftrightarrow> barrier_validate names vs s = Inr ()" for names
    unfolding barrier_validate_Inr using assms by (rule all_values)
  show ?thesis
    using reduce_fold_values [OF assms] bar
    by (cases "ch_body c") (simp_all add: chan_validate_defs reducer_validate_def len nil)
qed

lemma json_check_Inr: "json_check P ws = Inr () \<longleftrightarrow> (\<forall>w \<in> set ws. is_ok (json_dumps P (w_value w)))"
  by (induction ws) (auto split: sum.splits)

lemma write_pairs_filter:
  "map w_value (filter (\<lambda>w. w_chan w = n) ws) = map snd (filter (\<lambda>p. fst p = n) (write_pairs ws))"
  by (induction ws) (auto simp: write_pairs_def)

lemma apply_writes_values:
  assumes "write_pairs vs = write_pairs ws" and "apply_writes P st ws s = (st', Inr adv)"
  shows "apply_writes P st vs s = (st', Inr adv)"
proof -
  have val: "map w_value (filter (\<lambda>w. w_chan w = n) vs) = map w_value (filter (\<lambda>w. w_chan w = n) ws)" for n
    by (simp add: write_pairs_filter assms(1))
  have chans: "map w_chan vs = map w_chan ws"
    using arg_cong [OF assms(1), of "map fst"] by (simp add: write_pairs_def comp_def)
  have keys: "keys (group_writes ws) = foldl (\<lambda>ks n. if n \<in> set ks then ks else ks @ [n]) [] (map w_chan ws)" for ws
  proof (induction ws rule: rev_induct)
    case (snoc w ws)
    have "has_key (group_writes ws) (w_chan w) \<longleftrightarrow> w_chan w \<in> set (keys (group_writes ws))"
      by (simp add: has_key_def)
    then show ?case unfolding snoc.IH
      by (simp add: group_writes_snoc dappend_def keys_dset snoc.IH del: has_key_group_writes)
  qed simp
  have k: "keys (group_writes vs) = keys (group_writes ws)" by (simp only: keys chans)
  have ok: "validate_grouped_writes P st (group_writes ws) s = Inr ()"
    using assms(2) apply_writes_cases [of P st ws s] by (auto simp: validate_writes_def)
  have "json_check P (filter (\<lambda>w. w_chan w = n) vs) = Inr () \<longleftrightarrow> json_check P (filter (\<lambda>w. w_chan w = n) ws) = Inr ()" for n
    unfolding json_check_Inr using val by (rule all_values)
  then have "validate_group P st (group_writes vs) s n = Inr () \<longleftrightarrow> validate_group P st (group_writes ws) s n = Inr ()" for n
    using chan_validate_values [OF val [of n]] by (auto simp: validate_group_Inr)
  with ok k have "validate_grouped_writes P st (group_writes vs) s = Inr ()"
    by (metis list.set_map has_key_def validate_grouped_Inr)
  moreover have "commit_groups st' (group_writes vs) ns a = commit_groups st' (group_writes ws) ns a" for st' ns a
    by (induction ns arbitrary: st' a) (auto simp: chan_commit_values [OF val] split: prod.splits sum.splits)
  ultimately show ?thesis using assms(2) ok k by (simp add: apply_writes_def Let_def)
qed

lemma write_pairs_indexed [simp]: "write_pairs (indexed_writes path ws) = ws"
  by (rule nth_equalityI) (auto simp: write_pairs_def indexed_writes_def nth_enumerate_eq split: prod.splits)

section \<open>Recovery\<close>

text \<open>A journaled superstep is found again by the run that resumes from its checkpoint.\<close>

lemma clear_committed_none:
  "\<forall>w \<in> set ws. \<not> (pw_checkpoint w = parent \<and> pw_task w = committed) \<Longrightarrow>
     clear_committed P s thread parent committed ws = Inr s"
  by (induction ws) auto

lemma journal_recovered:
  assumes wf: "wf_store P (rp_store rp)" and thread: "rp_thread rp = Some thread"
    and path: "safe_id P thread = Inr path" and parent: "rp_parent rp = Some (cr_id record)"
    and none: "tf_pending (read_thread (rp_store rp) path) = []"
    and plain: "list_all (str_keyed \<circ> snd) ws" and root: "cr_parent record \<noteq> Some (cr_id record)"
    and run: "journal P rp ws task tpath = Inr rp'"
  shows "\<exists>w. pending_after P (rp_store rp') thread record = Inr (rp_store rp', Some w) \<and>
    pw_task w = task \<and> pw_path w = tpath \<and>
    etraverse (\<lambda>(c, v). emap (Pair c) (disk_val P v)) ws = Inr (pw_writes w)"
proof -
  let ?w = "\<lparr>pw_thread = thread, pw_checkpoint = rp_parent rp, pw_task = task, pw_path = tpath, pw_writes = ws\<rparr>"
  from run thread path obtain s where j: "journal_at P path (rp_store rp) ?w = Inr s" and rp': "rp' = rp\<lparr>rp_store := s\<rparr>"
    by (auto simp: journal_def put_writes_def emap_Inr_iff)
  have "plain_pending ?w" using plain by (simp add: plain_pending_def)
  from thread_journal.put_recover [OF wf this j] none obtain w' where
    w': "disk_pending P ?w = Inr w'" "tf_pending (read_thread s path) = [w']" by auto
  have ids: "pw_checkpoint w' = Some (cr_id record)" "pw_task w' = task" "pw_path w' = tpath"
    using disk_pending_id [OF w'(1)] parent by simp_all
  have "clear_committed P s thread (cr_parent record) c [w'] = Inr s" for c
    using root ids(1) by (intro clear_committed_none) auto
  then have "pending_after P s thread record = Inr (s, Some w')"
    using path w'(2) ids(1) by (simp add: pending_after_def recover_pending_writes_def Let_def)
  moreover have "etraverse (\<lambda>(c, v). emap (Pair c) (disk_val P v)) ws = Inr (pw_writes w')"
    using w'(1) by (auto simp: disk_pending_def emap_Inr_iff)
  ultimately show ?thesis using ids by (auto simp: rp')
qed

text \<open>Values the disk keeps come back as they were.\<close>

lemma stable_pairs:
  "list_all (stable_val P \<circ> snd) ws \<Longrightarrow> etraverse (\<lambda>(c, v). emap (Pair c) (disk_val P v)) ws = Inr ws"
  by (auto simp: list_all_iff stable_val_def intro!: etraverse_id)

section \<open>Plans\<close>

lemma full_plan:
  assumes "rp_pending rp = Some w" and "pw_task w = task_id_of r s"
    and "pw_path w = node_path (map t_node tasks)"
    and "\<forall>t \<in> set tasks. 43 \<notin> set (t_node t) \<and> t_node t \<noteq> []"
    and "\<forall>(c, v) \<in> set (pw_writes w). \<not> startswith c RESUME_PREFIX"
  shows "\<exists>plan. pending_replay_plan rp tasks r s = Inr plan \<and> pl_full plan"
proof -
  have "split_resumes ws rs real = Inr (rs, real @ ws)"
    if "\<forall>(c, v) \<in> set ws. \<not> startswith c RESUME_PREFIX" for ws rs real
    using that by (induction ws arbitrary: real) auto
  from this [OF assms(5), of "[]" "[]"] have sr: "split_resumes (pw_writes w) [] [] = Inr ([], pw_writes w)" by simp
  have "path_nodes (pw_path w) = sort (map t_node tasks)"
    unfolding assms(3) by (rule mset_path_nodes) (use assms(4) in auto)
  with assms(1,2) sr show ?thesis by (simp add: pending_replay_plan_def Let_def)
qed

text \<open>A partial plan re-runs exactly the tasks of the nodes that are not recorded.\<close>

lemma partial_plan:
  assumes "pending_replay_plan rp tasks r s = Inr plan" and "\<not> pl_full plan" and "pl_live plan \<noteq> tasks"
  obtains w where "rp_pending rp = Some w"
    "pl_live plan = filter (\<lambda>t. t_node t \<notin> set (path_nodes (pw_path w))) tasks"
    "\<forall>n \<in> set (path_nodes (pw_path w)). count_list (path_nodes (pw_path w)) n = count_list (map t_node tasks) n"
    "set (pl_covered plan) = t_node ` {t \<in> set tasks. is_pull t \<and> t_node t \<in> set (path_nodes (pw_path w))}"
  using assms
  by (auto simp: pending_replay_plan_def Let_def ebind_Inr_iff list_ex_iff
      split: option.splits if_splits prod.splits)

section \<open>A journaled Send cannot be replayed\<close>

text \<open>
  The journal stores a Send as the dictionary of its fields and nothing turns it back; once
  replayed into the task channel it makes the checkpoint of that superstep raise.
\<close>

lemma disk_send_not_send: "disk_val P (PSend n a t) = Inr v \<Longrightarrow> \<exists>d. v = PDict d"
  by (auto simp: disk_val_def ebind_Inr_iff emap_Inr_iff)

lemma send_to_dict_dict: "send_to_dict (PDict d) = Inl (AttributeError (u ''to_dict''))"
  by simp

lemma etraverse_stuck: "x \<in> set xs \<Longrightarrow> f x = Inl e \<Longrightarrow> \<exists>e'. etraverse f xs = Inl e'"
proof (induction xs)
  case (Cons y ys)
  then show ?case by (cases "f y") auto
qed simp

lemma checkpoint_stuck:
  assumes "map_of (gs_channels st) TASKS_CHANNEL = Some c" and "ch_body c = TopicChannel items"
    and "PDict d \<in> set items"
  shows "\<exists>e. checkpoint_channels st = Inl e"
proof -
  obtain e where e: "etraverse send_to_dict items = Inl e" using etraverse_stuck [of "PDict d" items send_to_dict] assms(3) send_to_dict_dict by blast
  have "checkpoint_one (TASKS_CHANNEL, c) = Inl e"
    using assms(2) e by (simp add: checkpoint_one_def chan_checkpoint_def dget_def)
  moreover have "(TASKS_CHANNEL, c) \<in> set (gs_channels st)" using assms(1) by (rule map_of_SomeD)
  ultimately show ?thesis unfolding checkpoint_channels_def by (blast dest: etraverse_stuck)
qed

end
