(* ===== verification/Scheduler.thy ===== *)
theory Scheduler
  imports PersistenceRuntime
begin

text \<open>
  The run of a compiled graph (graph/scheduler.py): seeding, resuming, the superstep loop with
  its budget, the commit barrier, checkpoints and the journal. A run is a function of its
  configuration; the parts the code takes from outside are the \<open>environment\<close> of the
  executor. The checkpoint sink and the \<open>on_checkpoint\<close> callback record what they are given.
\<close>

section \<open>State of a run\<close>

record config =
  cf_graph :: compiled
  cf_env :: environment
  cf_run :: pystr
  cf_cap :: int
  cf_on_checkpoint :: bool
  cf_sink :: bool

record run_state =
  rs_state :: gstate
  rs_seen :: seen
  rs_persist :: run_persistence
  rs_events :: "run_event list"
  rs_digest :: pystr
  rs_committed :: nat
  rs_emitted :: "run_checkpoint list"
  rs_sunk :: "(nat \<times> pystr \<times> pystr) list"

datatype run_error = RunCancelled | RunError gerror

definition run_checkpoint_of ::
    "config \<Rightarrow> gstate \<Rightarrow> seen \<Rightarrow> nat \<Rightarrow> pystr \<Rightarrow> pyexc + run_checkpoint" where
  "run_checkpoint_of cf st seen step digest =
     emap (\<lambda>chans. \<lparr>cp_run = cf_run cf, cp_graph = cg_graph_id (cf_graph cf), cp_superstep = step,
        cp_digest = digest, cp_channels = chans, cp_seen = seen\<rparr>) (checkpoint_channels st)"

text \<open>\<open>_emit_checkpoint\<close>.\<close>

definition emit_checkpoint ::
    "prims \<Rightarrow> config \<Rightarrow> run_state \<Rightarrow> nat \<Rightarrow> pystr option \<Rightarrow> pyexc + run_state" where
  "emit_checkpoint P cf rs step pending_task_id =
     ebind (run_checkpoint_of cf (rs_state rs) (rs_seen rs) step (rs_digest rs)) (\<lambda>cp.
     emap (\<lambda>rp. rs\<lparr>rs_persist := rp,
                    rs_emitted := rs_emitted rs @ (if cf_on_checkpoint cf then [cp] else [])\<rparr>)
       (commit_run_checkpoint P (rs_persist rs) cp pending_task_id))"

definition events_of :: "config \<Rightarrow> nat \<Rightarrow> pystr \<Rightarrow> task_id list \<Rightarrow> run_event list" where
  "events_of cf superstep digest ids =
     map (\<lambda>(n, q). GraphRunEvent (cf_run cf) (cg_graph_id (cf_graph cf)) n superstep digest q) ids"

section \<open>One superstep\<close>

text \<open>
  The commit of a superstep whose tasks are done: validated, journaled, applied, digested,
  checkpointed. The state when it raises is what earlier calls have left outside the run.
\<close>

definition commit_superstep ::
    "prims \<Rightarrow> config \<Rightarrow> nat \<Rightarrow> run_state \<Rightarrow> channel_write list \<times> pystr list \<times> task_id list \<times> seen
      \<Rightarrow> run_state \<times> (run_error + unit)" where
  "commit_superstep P cf superstep rs = (\<lambda>(pending, executed, ids, seen).
     case validate_writes P (rs_state rs) pending superstep of
       Inl e \<Rightarrow> (rs, Inl (RunError e))
     | Inr _ \<Rightarrow>
         (let task_id = task_id_of (cf_run cf) superstep; path = node_path executed in
          case journal P (rs_persist rs) (write_pairs pending) task_id path of
            Inl e \<Rightarrow> (rs, Inl (RunError (PyError e)))
          | Inr rp \<Rightarrow>
              (let rs1 = rs\<lparr>rs_persist := rp, rs_seen := seen\<rparr> in
               case apply_writes P (rs_state rs) pending superstep of
                 (st, Inl e) \<Rightarrow> (rs1\<lparr>rs_state := st\<rparr>, Inl (RunError e))
               | (st, Inr _) \<Rightarrow>
                   (let rs2 = rs1\<lparr>rs_state := st\<rparr> in
                    case gs_digest P st of
                      Inl e \<Rightarrow> (rs2, Inl (RunError (PyError e)))
                    | Inr digest \<Rightarrow>
                        (let rs3 = rs2\<lparr>rs_digest := digest,
                               rs_events := rs_events rs @ events_of cf superstep digest ids,
                               rs_sunk := rs_sunk rs @ (if cf_sink cf then [(superstep, path, digest)] else []),
                               rs_committed := superstep\<rparr> in
                         case emit_checkpoint P cf rs3 superstep (Some task_id) of
                           Inl e \<Rightarrow> (rs3, Inl (RunError (PyError e)))
                         | Inr rs4 \<Rightarrow> (rs4, Inr ()))))))"

text \<open>A failed superstep keeps the state and persists the surviving work.\<close>

definition fail_superstep ::
    "prims \<Rightarrow> config \<Rightarrow> nat \<Rightarrow> run_state \<Rightarrow> versions \<Rightarrow> step_error \<Rightarrow> run_state \<times> run_error" where
  "fail_superstep P cf superstep rs start_versions err =
     (case err of
        StepCancelled \<Rightarrow> (rs, RunCancelled)
      | StepRaised e \<Rightarrow> (rs, RunError e)
      | StepFailed f \<Rightarrow>
          (case persist_failure_remains P (cf_graph cf) (cf_on_checkpoint cf) f (rs_state rs) (rs_seen rs)
                  start_versions (rs_persist rs) (cf_run cf) superstep (rs_committed rs) of
             (rp, Inl e) \<Rightarrow> (rs\<lparr>rs_persist := rp\<rparr>, RunError e)
           | (rp, Inr cps) \<Rightarrow>
               (rs\<lparr>rs_persist := rp, rs_emitted := rs_emitted rs @ cps\<rparr>, RunError (fl_error f))))"

text \<open>\<open>Inr False\<close>: no task is ready and the run is complete.\<close>

definition superstep_once ::
    "prims \<Rightarrow> config \<Rightarrow> nat \<Rightarrow> nat \<Rightarrow> run_state \<Rightarrow> run_state \<times> (run_error + bool)" where
  "superstep_once P cf base superstep rs =
     (let start_versions = gs_versions (rs_state rs);
          used = int superstep - int base in
      case prepare_tasks (cf_graph cf) (rs_state rs) start_versions (rs_seen rs) of
        (st, Inl e) \<Rightarrow> (rs\<lparr>rs_state := st\<rparr>, Inl (RunError e))
      | (st, Inr tasks) \<Rightarrow>
          (let rs1 = rs\<lparr>rs_state := st\<rparr> in
           if tasks = [] then (rs1, Inr False)
           else if used > cf_cap cf then (rs1, Inl (RunError (SuperstepLimitError (cf_run cf) superstep)))
           else
             case run_tasks P (cf_graph cf) (cf_env cf) tasks st (rs_seen rs) start_versions (cf_run cf)
                    superstep (cf_cap cf - used) [] of
               Inl err \<Rightarrow> (case fail_superstep P cf superstep rs1 start_versions err of (rs2, e) \<Rightarrow> (rs2, Inl e))
             | Inr done \<Rightarrow>
                 (case commit_superstep P cf superstep rs1 done of
                    (rs2, Inl e) \<Rightarrow> (rs2, Inl e)
                  | (rs2, Inr _) \<Rightarrow> (rs2, Inr True))))"

lemma superstep_once_cap:
  "superstep_once P cf base superstep rs = (rs', Inr True) \<Longrightarrow> int superstep - int base \<le> cf_cap cf"
  by (auto simp: superstep_once_def Let_def split: prod.splits sum.splits if_splits)

section \<open>The loop\<close>

text \<open>Every committed superstep uses up budget, so the loop ends whatever the nodes do.\<close>

function run_loop :: "prims \<Rightarrow> config \<Rightarrow> nat \<Rightarrow> nat \<Rightarrow> run_state \<Rightarrow> run_state \<times> (run_error + unit)" where
  "run_loop P cf base superstep rs =
     (case superstep_once P cf base (superstep + 1) rs of
        (rs', Inl e) \<Rightarrow> (rs', Inl e)
      | (rs', Inr True) \<Rightarrow> run_loop P cf base (superstep + 1) rs'
      | (rs', Inr False) \<Rightarrow> (rs', Inr ()))"
  by pat_completeness auto
termination
proof (relation "measure (\<lambda>(P, cf, base, superstep, rs). nat (cf_cap cf + int base - int superstep))", goal_cases)
  case (2 P cf base superstep rs rs' b x)
  then have "int (superstep + 1) - int base \<le> cf_cap cf"
    using superstep_once_cap [of P cf base "superstep + 1" rs rs'] by simp
  then show ?case by simp
qed simp

declare run_loop.simps [simp del]

definition run_result_of :: "config \<Rightarrow> run_state \<Rightarrow> run_result" where
  "run_result_of cf rs =
     \<lparr>rr_run = cf_run cf, rr_graph = cg_graph_id (cf_graph cf), rr_state = snapshot (rs_state rs),
      rr_digest = rs_digest rs, rr_supersteps = rs_committed rs, rr_events = rs_events rs\<rparr>"

section \<open>Seeding\<close>

fun validated_seed :: "(pyval \<times> pyval) list \<Rightarrow> pystr \<Rightarrow> gerror + (pystr, pyval) dict" where
  "validated_seed [] run_id = Inr []"
| "validated_seed ((key, v) # input) run_id =
     (case key of
        PStr k \<Rightarrow>
          (if is_reserved k then Inl (UnknownChannelError k START Reserved)
           else emap ((#) (k, v)) (validated_seed input run_id))
      | _ \<Rightarrow> Inl (NodeResultError run_id 0 START))"

definition applied :: "gstate \<times> (gerror + 'a) \<Rightarrow> gerror + gstate" where
  "applied r = (case snd r of Inl e \<Rightarrow> Inl e | Inr _ \<Rightarrow> Inr (fst r))"

lemma applied_Inr: "applied r = Inr st \<longleftrightarrow> (\<exists>x. r = (st, Inr x))"
  by (cases r) (auto simp: applied_def split: sum.splits)

definition seed_state ::
    "prims \<Rightarrow> config \<Rightarrow> (pyval \<times> pyval) list \<Rightarrow> gerror + gstate" where
  "seed_state P cf input =
     (let cg = cf_graph cf; st = GraphState (cg_factories cg) in
      ebind (validated_seed input (cf_run cf)) (\<lambda>seed.
      let seed_writes = map (\<lambda>(n, v). ChannelWrite START n v 0) (sort_key fst seed);
          routing = trigger_writes cg START 0 in
      case map_of (cg_branches cg) START of
        None \<Rightarrow> applied (apply_writes P st (seed_writes @ routing) 0)
      | Some spec \<Rightarrow>
          ebind (applied (apply_writes P st seed_writes 0)) (\<lambda>st'.
          ebind (branch_writes cg START 0 spec (snapshot st')) (\<lambda>branch.
            applied (apply_writes P st' (routing @ branch) 0)))))"

definition initial_seen :: "compiled \<Rightarrow> seen" where
  "initial_seen cg = map (\<lambda>n. (n, [])) (keys (cg_nodes cg))"

definition start_run ::
    "prims \<Rightarrow> config \<Rightarrow> run_persistence \<Rightarrow> (pyval \<times> pyval) list \<Rightarrow> gerror + run_state" where
  "start_run P cf rp input =
     ebind (seed_state P cf input) (\<lambda>st.
     ebind (lift_py (gs_digest P st)) (\<lambda>digest.
     lift_py (emit_checkpoint P cf
       \<lparr>rs_state = st, rs_seen = initial_seen (cf_graph cf), rs_persist = rp,
        rs_events = events_of cf 0 digest [(START, 0)], rs_digest = digest, rs_committed = 0,
        rs_emitted = [], rs_sunk = (if cf_sink cf then [(0, START, digest)] else [])\<rparr> 0 None)))"

section \<open>Resuming\<close>

definition resume_run ::
    "prims \<Rightarrow> config \<Rightarrow> run_persistence \<Rightarrow> run_checkpoint \<Rightarrow> gerror + run_state" where
  "resume_run P cf rp cp =
     ebind (restore_channels P (GraphState (cg_factories (cf_graph cf))) (cp_channels cp)) (\<lambda>st.
     ebind (lift_py (gs_digest P st)) (\<lambda>digest.
       if digest \<noteq> cp_digest cp then Inl (PyError (ValueError (u ''resume integrity check failed'')))
       else Inr \<lparr>rs_state = st,
                 rs_seen = map (\<lambda>n. (n, dget (cp_seen cp) n [])) (keys (cg_nodes (cf_graph cf))),
                 rs_persist = rp, rs_events = [], rs_digest = digest, rs_committed = cp_superstep cp,
                 rs_emitted = [], rs_sunk = []\<rparr>))"

text \<open>The resume value goes to the one interrupted task of the plan.\<close>

definition give_resume ::
    "command option \<Rightarrow> replay_plan \<Rightarrow> pystr \<Rightarrow> gerror + replay_plan" where
  "give_resume cmd plan run_id =
     (case cmd of
        None \<Rightarrow> Inr plan
      | Some c \<Rightarrow>
          (case (pl_resumes plan, cmd_resume c) of
             ([(k, vs)], Some v) \<Rightarrow> Inr (plan\<lparr>pl_resumes := [(k, vs @ [v])]\<rparr>)
           | _ \<Rightarrow> Inl (GraphRuntimeError run_id)))"

definition reinterrupt_writes :: "replay_plan \<Rightarrow> failure \<Rightarrow> pyval list \<Rightarrow> (pystr \<times> pyval) list" where
  "reinterrupt_writes plan f consumed =
     write_pairs (pl_writes plan) @ write_pairs (fl_writes f) @
     [(resume_channel (fl_node f) (fl_seq f), PList consumed)]"

definition merged_path :: "pystr \<Rightarrow> failure \<Rightarrow> pystr" where
  "merged_path prior f = node_path (filter (\<lambda>p. p \<noteq> []) (split_on 43 prior) @ map fst (fl_succeeded f))"

text \<open>The first superstep after a resume when a pending record follows the checkpoint.\<close>

definition replay_superstep ::
    "prims \<Rightarrow> config \<Rightarrow> nat \<Rightarrow> run_state \<Rightarrow> command option \<Rightarrow> run_state \<times> (run_error + unit)" where
  "replay_superstep P cf superstep rs cmd =
     (let cg = cf_graph cf; start_versions = gs_versions (rs_state rs); rp = rs_persist rs in
      case prepare_tasks cg (rs_state rs) start_versions (rs_seen rs) of
        (st, Inl e) \<Rightarrow> (rs\<lparr>rs_state := st\<rparr>, Inl (RunError e))
      | (st, Inr tasks) \<Rightarrow>
          (let rs1 = rs\<lparr>rs_state := st\<rparr>;
               finish = (\<lambda>st' seen ids task_id.
                 (case gs_digest P st' of
                    Inl e \<Rightarrow> (rs1, Inl (RunError (PyError e)))
                  | Inr digest \<Rightarrow>
                      (let rs2 = rs1\<lparr>rs_state := st', rs_seen := seen, rs_digest := digest,
                             rs_committed := superstep,
                             rs_events := rs_events rs @ events_of cf superstep digest ids\<rparr> in
                       case emit_checkpoint P cf rs2 superstep (Some task_id) of
                         Inl e \<Rightarrow> (rs2, Inl (RunError (PyError e)))
                       | Inr rs3 \<Rightarrow> (rs3, Inr ())))) in
           case ebind (lift_py (pending_replay_plan rp tasks (cf_run cf) superstep))
                  (\<lambda>plan. give_resume cmd plan (cf_run cf)) of
             Inl e \<Rightarrow> (rs1, Inl (RunError e))
           | Inr plan \<Rightarrow>
               (if pl_full plan then
                  (case replay_pending P cg rp st (rs_seen rs) tasks (cf_run cf) superstep of
                     Inl e \<Rightarrow> (rs1, Inl (RunError e))
                   | Inr (st', seen) \<Rightarrow> finish st' seen (map identity tasks) (pl_task plan))
                else
                  (let seen = foldl (\<lambda>s n. mark_seen cg start_versions n s) (rs_seen rs) (pl_covered plan) in
                   case run_tasks P cg (cf_env cf) (pl_live plan) st seen start_versions (cf_run cf) superstep
                          (cf_cap cf - 1) (pl_resumes plan) of
                     Inl StepCancelled \<Rightarrow> (rs1, Inl RunCancelled)
                   | Inl (StepRaised e) \<Rightarrow> (rs1, Inl (RunError e))
                   | Inl (StepFailed f) \<Rightarrow>
                       (case fl_error f of
                          GraphInterrupt v i consumed \<Rightarrow>
                            (let prior = (case rp_pending rp of None \<Rightarrow> [] | Some w \<Rightarrow> pw_path w) in
                             case journal_replace P rp (reinterrupt_writes plan f consumed) (pl_task plan)
                                    (merged_path prior f) of
                               (rp', Inl e) \<Rightarrow> (rs1\<lparr>rs_persist := rp'\<rparr>, Inl (RunError (PyError e)))
                             | (rp', Inr _) \<Rightarrow> (rs1\<lparr>rs_persist := rp'\<rparr>, Inl (RunError (fl_error f))))
                        | e \<Rightarrow> (rs1, Inl (RunError e)))
                   | Inr (live_pending, _, live_ids, seen') \<Rightarrow>
                       (case apply_writes P st (pl_writes plan @ live_pending) superstep of
                          (st', Inl e) \<Rightarrow> (rs1, Inl (RunError e))
                        | (st', Inr _) \<Rightarrow>
                            finish st' seen'
                              (map identity (filter (\<lambda>t. identity t \<notin> identity ` set (pl_live plan)) tasks) @ live_ids)
                              (pl_task plan))))))"

section \<open>Invoke\<close>

datatype run_input = NoInput | MapInput "(pyval \<times> pyval) list" | CommandInput command

record invocation =
  iv_input :: run_input
  iv_run_id :: "pystr option"
  iv_sink_run :: "pystr option"
  iv_cap :: "int option"
  iv_resume_from :: "run_checkpoint option"
  iv_on_checkpoint :: bool
  iv_kernel :: bool
  iv_thread :: "pystr option"
  iv_checkpoint :: "pystr option"

text \<open>\<open>minted\<close> is the run id drawn from \<open>effects.random()\<close> when none is given.\<close>

definition invoke_config ::
    "compiled \<Rightarrow> environment \<Rightarrow> pystr \<Rightarrow> invocation \<Rightarrow> run_checkpoint option \<Rightarrow> gerror + config" where
  "invoke_config cg env minted iv resume_from =
     (let run_id = (case iv_run_id iv of Some r \<Rightarrow> r
                    | None \<Rightarrow> (case resume_from of Some cp \<Rightarrow> cp_run cp
                    | None \<Rightarrow> (case iv_sink_run iv of Some r \<Rightarrow> r | None \<Rightarrow> minted))) in
      if iv_sink_run iv \<noteq> None \<and> iv_sink_run iv \<noteq> Some run_id
      then Inl (PyError (ValueError (u ''run_id does not match'')))
      else if cg_allow_cycles cg \<and> iv_cap iv = None
      then Inl (PyError (ValueError (u ''requires an explicit superstep_cap'')))
      else Inr \<lparr>cf_graph = cg, cf_env = env, cf_run = run_id,
                cf_cap = (case iv_cap iv of Some c \<Rightarrow> c | None \<Rightarrow> int (length (cg_nodes cg)) + 2),
                cf_on_checkpoint = iv_on_checkpoint iv, cf_sink = (iv_sink_run iv \<noteq> None)\<rparr>)"

definition invoke ::
    "prims \<Rightarrow> compiled \<Rightarrow> environment \<Rightarrow> pystr \<Rightarrow> store \<Rightarrow> invocation
      \<Rightarrow> run_state option \<times> (run_error + run_result)" where
  "invoke P cg env minted store iv =
     (let fail = (\<lambda>e. (None, Inl (RunError e)));
          cmd = (case iv_input iv of CommandInput c \<Rightarrow> Some c | _ \<Rightarrow> None);
          no_input = (case iv_input iv of MapInput _ \<Rightarrow> False | _ \<Rightarrow> True);
          rid = (case iv_run_id iv of Some r \<Rightarrow> r | None \<Rightarrow> []) in
      if (case cmd of Some c \<Rightarrow> cmd_resume c = None | None \<Rightarrow> False) then fail (GraphRuntimeError rid)
      else if cmd \<noteq> None \<and> (\<not> iv_kernel iv \<or> iv_thread iv = None) then fail (GraphRuntimeError rid)
      else case resolve_persistence P store (iv_kernel iv) (iv_thread iv) (iv_checkpoint iv) no_input
                  (iv_resume_from iv) of
        Inl e \<Rightarrow> fail (PyError e)
      | Inr (rp, resume_from) \<Rightarrow>
          (if cmd \<noteq> None \<and> rp_pending rp = None then fail (GraphRuntimeError rid)
           else case invoke_config cg env minted iv resume_from of
             Inl e \<Rightarrow> fail e
           | Inr cf \<Rightarrow>
               (case (case resume_from of
                        Some cp \<Rightarrow> resume_run P cf rp cp
                      | None \<Rightarrow> start_run P cf rp (case iv_input iv of MapInput m \<Rightarrow> m | _ \<Rightarrow> [])) of
                  Inl e \<Rightarrow> fail e
                | Inr rs \<Rightarrow>
                    (let base = rs_committed rs;
                         replayed = (if rp_pending (rs_persist rs) = None then (rs, Inr ())
                                     else replay_superstep P cf (base + 1) rs cmd) in
                     case replayed of
                       (rs1, Inl e) \<Rightarrow> (Some rs1, Inl e)
                     | (rs1, Inr _) \<Rightarrow>
                         (case run_loop P cf base (rs_committed rs1) rs1 of
                            (rs2, Inl e) \<Rightarrow> (Some rs2, Inl e)
                          | (rs2, Inr _) \<Rightarrow> (Some rs2, Inr (run_result_of cf rs2)))))))"

section \<open>The shape of a run's state\<close>

text \<open>The channels of the factories in order, then the trigger channels registered on demand.\<close>

definition shaped_state :: "(pystr, chan_body) dict \<Rightarrow> gstate \<Rightarrow> bool" where
  "shaped_state fs st \<longleftrightarrow>
     map fresh_entry (take (length fs) (gs_channels st)) = fs \<and>
     list_all (is_trigger \<circ> fst) (drop (length fs) (gs_channels st))"

lemma built_from_shaped: "built_from fs st \<longleftrightarrow> wf_state st \<and> shaped_state fs st"
  by (simp add: built_from_def shaped_state_def)

lemma dset_append:
  "dset k v (xs @ ys) = (if k \<in> fst ` set xs then dset k v xs @ ys else xs @ dset k v ys)"
  by (induction xs) auto

lemma length_dset_hit: "k \<in> fst ` set xs \<Longrightarrow> length (dset k v xs) = length xs"
  by (induction xs) auto

lemma map_fresh_dset:
  assumes "map_of xs k = Some c" and "fresh_body (ch_body d) = fresh_body (ch_body c)"
  shows "map fresh_entry (dset k d xs) = map fresh_entry xs"
  using assms(1)
proof (induction xs)
  case (Cons x xs)
  then show ?case using assms(2) by (cases x) (auto simp: fresh_entry_def split: if_splits)
qed simp

lemma list_all_dset: "Q n \<Longrightarrow> list_all (Q \<circ> fst) ys \<Longrightarrow> list_all (Q \<circ> fst) (dset n d ys)"
  by (induction ys) auto

text \<open>Replacing a channel by one of its class, or adding a trigger, keeps the shape.\<close>

lemma shaped_put:
  assumes "shaped_state fs st"
    and "(\<exists>c. map_of (gs_channels st) n = Some c \<and> fresh_body (ch_body d) = fresh_body (ch_body c)) \<or>
         (map_of (gs_channels st) n = None \<and> is_trigger n)"
  shows "shaped_state fs (put_channel st n d)"
proof -
  let ?xs = "take (length fs) (gs_channels st)" and ?ys = "drop (length fs) (gs_channels st)"
  have all: "gs_channels st = ?xs @ ?ys" by simp
  from assms(1) have fs: "map fresh_entry ?xs = fs" and tr: "list_all (is_trigger \<circ> fst) ?ys"
    by (simp_all add: shaped_state_def)
  then have len: "length ?xs = length fs" by (metis length_map)
  show ?thesis
  proof (cases "n \<in> fst ` set ?xs")
    case True
    have map: "map_of (gs_channels st) n = map_of ?xs n"
      using True by (subst all, subst map_of_append) (auto simp: map_add_def map_of_eq_None_iff split: option.splits)
    then obtain c where c: "map_of ?xs n = Some c"
      using True by (metis map_of_eq_None_iff not_None_eq)
    have "gs_channels (put_channel st n d) = dset n d ?xs @ ?ys"
      using True by (simp add: put_channel_def) (metis all dset_append)
    moreover have "map fresh_entry (dset n d ?xs) = fs"
      using map_fresh_dset [OF c] assms(2) map c fs by auto
    moreover have "length (dset n d ?xs) = length fs" using length_dset_hit [OF True] len by simp
    ultimately show ?thesis using tr by (simp add: shaped_state_def)
  next
    case False
    then have g: "gs_channels (put_channel st n d) = ?xs @ dset n d ?ys"
      by (simp add: put_channel_def) (metis all dset_append)
    have "is_trigger n"
    proof (cases "n \<in> fst ` set ?ys")
      case True
      then show ?thesis using tr by (auto simp: list_all_iff)
    next
      case no: False
      have "n \<notin> fst ` set (?xs @ ?ys)" using no False by (simp only: set_append image_Un Un_iff) simp
      then have "map_of (gs_channels st) n = None" by (simp add: map_of_eq_None_iff)
      with assms(2) show ?thesis by simp
    qed
    then have "list_all (is_trigger \<circ> fst) (dset n d ?ys)" using tr by (intro list_all_dset)
    with g fs len show ?thesis by (simp add: shaped_state_def)
  qed
qed

lemma shaped_get:
  assumes "shaped_state fs st" and "get_channel st n = (st', Inr c)"
  shows "shaped_state fs st' \<and> map_of (gs_channels st') n = Some c"
proof (cases "map_of (gs_channels st) n")
  case None
  with assms(2) have "is_trigger n" "st' = put_channel st n c"
    by (auto simp: get_channel_def Let_def split: if_splits)
  with None shaped_put [OF assms(1), of n c] show ?thesis by simp
next
  case (Some d)
  with assms show ?thesis by (auto simp: get_channel_def split: if_splits)
qed

lemma shaped_commit_groups:
  "shaped_state fs st \<Longrightarrow> commit_groups st g names adv = (st', Inr adv') \<Longrightarrow> shaped_state fs st'"
proof (induction names arbitrary: st adv)
  case (Cons n names)
  from Cons.prems(2) obtain st1 c where get: "get_channel st n = (st1, Inr c)"
    by (auto split: prod.splits sum.splits)
  from Cons.prems(2) get obtain c' b where com: "chan_commit c (dget g n []) = (c', Inr b)"
    and rest: "commit_groups (put_channel st1 n c') g names (if b then insert (ch_name c') adv else adv) = (st', Inr adv')"
    by (auto split: prod.splits sum.splits)
  from shaped_get [OF Cons.prems(1) get] have s1: "shaped_state fs st1" "map_of (gs_channels st1) n = Some c" by auto
  have "fresh_body (ch_body c') = fresh_body (ch_body c)"
    using chan_commit_class [of c "dget g n []"] com by simp
  with s1 have "shaped_state fs (put_channel st1 n c')" by (intro shaped_put) auto
  from Cons.IH [OF this rest] show ?case .
qed simp

lemma built_from_apply:
  assumes "built_from fs st" and "sends_only ws" and "apply_writes P st ws s = (st', Inr adv)"
  shows "built_from fs st'"
proof -
  have "commit_groups st (group_writes ws) (sort (keys (group_writes ws))) {} = (st', Inr adv)"
    using assms(3) by (auto simp: apply_writes_def Let_def split: sum.splits)
  with assms show ?thesis
    unfolding built_from_shaped using apply_writes_wf shaped_commit_groups by blast
qed

lemma dict_eqI:
  assumes "keys d = keys d'" and "wf_dict d" and "map_of d = map_of d'"
  shows "d = d'"
proof (rule nth_equalityI)
  show len: "length d = length d'" using assms(1) by (metis length_map)
  fix i
  assume i: "i < length d"
  have k: "fst (d ! i) = fst (d' ! i)" using arg_cong [OF assms(1), of "\<lambda>xs. xs ! i"] i len by simp
  have "wf_dict d'" using assms(1,2) by (simp add: wf_dict_def)
  then have "map_of d' (fst (d' ! i)) = Some (snd (d' ! i))"
    using i len by (simp add: wf_dict_map_of [symmetric])
  moreover have "map_of d (fst (d ! i)) = Some (snd (d ! i))"
    using i assms(2) by (simp add: wf_dict_map_of [symmetric])
  ultimately show "d ! i = d' ! i" using k assms(3) by (simp add: prod_eq_iff)
qed

text \<open>The snapshot is determined by the user channels.\<close>

lemma snapshot_cong:
  assumes "wf_state st" and "wf_state st'"
    and "\<And>n. \<not> is_reserved n \<Longrightarrow> map_of (gs_channels st) n = map_of (gs_channels st') n"
  shows "snapshot st = snapshot st'"
proof (rule dict_eqI)
  have set: "set (snapshot st) = set (snapshot st')"
    using snapshot_iff [OF assms(1)] snapshot_iff [OF assms(2)] assms(3) by (auto simp: set_eq_iff)
  then have "set (keys (snapshot st)) = set (keys (snapshot st'))" by simp
  with keys_snapshot_sorted [OF assms(1)] keys_snapshot_sorted [OF assms(2)]
  show "keys (snapshot st) = keys (snapshot st')" by (intro strict_sorted_equal) auto
  show "wf_dict (snapshot st)" using assms(1) by simp
  show "map_of (snapshot st) = map_of (snapshot st')"
    using set assms(1,2) by (intro map_of_inject_set [THEN iffD2]) (simp_all add: wf_dict_def [symmetric])
qed

lemma built_from_tasks:
  assumes "built_from fs st" and "map_of fs TASKS_CHANNEL = Some b"
  obtains c items where "map_of (gs_channels st) TASKS_CHANNEL = Some c" "ch_body c = TopicChannel items"
proof -
  let ?xs = "take (length fs) (gs_channels st)"
  have "TASKS_CHANNEL \<in> fst ` set fs" using assms(2) by (metis domI domIff dom_map_of_conv_image_fst)
  then have "TASKS_CHANNEL \<in> fst ` set (map fresh_entry ?xs)" using assms(1) by (simp add: built_from_def)
  then have "TASKS_CHANNEL \<in> fst ` set (gs_channels st)"
    by (auto simp: fresh_entry_def dest!: in_set_takeD) force
  then obtain c where c: "map_of (gs_channels st) TASKS_CHANNEL = Some c"
    by (metis map_of_eq_None_iff not_None_eq)
  moreover have "wf_entry (TASKS_CHANNEL, c)"
    using assms(1) c by (auto simp: built_from_def intro: wf_state_map_of)
  ultimately show ?thesis using that by (auto simp: wf_entry_def)
qed

text \<open>Planning drains the task channel and changes nothing else.\<close>

lemma prepare_tasks_state:
  assumes "built_from fs st" and "map_of fs TASKS_CHANNEL = Some b"
    and "prepare_tasks cg st sv seen = (st', r)"
  shows "built_from fs st' \<and> snapshot st' = snapshot st"
proof -
  from assms(1,2) obtain c items where c: "map_of (gs_channels st) TASKS_CHANNEL = Some c"
    and b: "ch_body c = TopicChannel items" by (rule built_from_tasks)
  let ?c = "c\<lparr>ch_body := TopicChannel []\<rparr>"
  have "get_channel st TASKS_CHANNEL = (st, Inr c)" using c by (simp add: get_channel_def)
  with assms(3) b have st': "st' = put_channel st TASKS_CHANNEL ?c"
    by (auto simp: prepare_tasks_def Let_def chan_drain_def)
  have wf: "wf_state st" using assms(1) by (simp add: built_from_def)
  have "wf_entry (TASKS_CHANNEL, c)" using wf c by (rule wf_state_map_of)
  then have "wf_entry (TASKS_CHANNEL, ?c)" by (auto simp: wf_entry_def wf_channel_def wf_body_def)
  with wf have wf': "wf_state st'" unfolding st' by (rule wf_state_put)
  moreover have "shaped_state fs st'" unfolding st'
    using assms(1) c b by (intro shaped_put) (auto simp: built_from_shaped)
  moreover have "snapshot st' = snapshot st"
    using wf' wf by (rule snapshot_cong) (auto simp: st')
  ultimately show ?thesis by (simp add: built_from_shaped)
qed

text \<open>The writes of a superstep only send to the task channel what the routing made Sends.\<close>

lemma routed_send: "routed_write n q known w \<Longrightarrow> w_chan w = TASKS_CHANNEL \<Longrightarrow> is_send (w_value w)"
  by (auto simp: routed_write_def is_send_def dest: trigger_neq(1) [THEN notE] sym)

lemma trigger_writes_sends:
  assumes "wf_compiled cg"
  shows "sends_only (trigger_writes cg n q)"
proof -
  have "nm \<noteq> TASKS_CHANNEL" if "(nm, m) \<in> set (dget (cg_join_writes cg) n [])" for nm m
  proof -
    from assms that obtain names where "map_of (cg_factories cg) nm = Some (BarrierChannel names {})"
      unfolding wf_compiled_def by blast
    moreover have "map_of (cg_factories cg) TASKS_CHANNEL = Some (TopicChannel [])"
      using assms unfolding wf_compiled_def by blast
    ultimately show ?thesis by auto
  qed
  then show ?thesis unfolding sends_only_def trigger_writes_def by auto
qed

lemma sends_only_append [simp]: "sends_only (xs @ ys) \<longleftrightarrow> sends_only xs \<and> sends_only ys"
  by (auto simp: sends_only_def)

lemma branch_writes_sends:
  assumes "branch_writes cg n q spec view = Inr ws"
  shows "sends_only ws"
proof -
  from assms obtain ds gs where g: "etraverse (branch_write cg n q) ds = Inr gs" "ws = concat gs"
    by (auto simp: branch_writes_def ebind_Inr_iff emap_Inr_iff)
  have "is_send (w_value w)" if "w \<in> set ws" "w_chan w = TASKS_CHANNEL" for w
  proof -
    from that(1) g obtain d x where "branch_write cg n q d = Inr x" "w \<in> set x"
      by (auto simp: etraverse_Inr_iff) (metis image_iff list.set_map)
    with that(2) show ?thesis
      by (auto simp: branch_write_def is_send_def emap_Inr_iff send_write_Inr
          split: pyval.splits if_splits)
  qed
  then show ?thesis by (simp add: sends_only_def)
qed

lemma bundle_sends:
  assumes "wf_compiled cg" and "bundle_of P cg st t res r s = Inr ws"
  shows "sends_only ws"
proof -
  from assms(2) obtain tw bw where
    tw: "interpret_result P (t_node t) res r s (t_seq t) (keys (cg_nodes cg)) = Inr tw" and
    bw: "bw = [] \<or> (\<exists>spec view. branch_writes cg (t_node t) (t_seq t) spec view = Inr bw)" and
    ws: "ws = tw @ trigger_writes cg (t_node t) (t_seq t) @ bw"
    by (auto simp: bundle_of_def ebind_Inr_iff split: option.splits) blast
  have "sends_only tw" using interpret_result_routed [OF tw] routed_send
    unfolding sends_only_def by blast
  moreover have "sends_only bw" using bw branch_writes_sends by (auto simp: sends_only_def)
  ultimately show ?thesis using trigger_writes_sends [OF assms(1)] by (simp add: ws)
qed

lemma run_tasks_sends:
  assumes "wf_compiled cg" and "run_tasks P cg env ts st seen sv r s rem rs = Inr (ws, ns, ids, seen')"
  shows "sends_only ws"
proof -
  from assms(2) obtain xs where
    ws: "ws = sort_writes (concat (map (\<lambda>t. done_writes (run_one P cg st (env_expires env s) t r s rem rs)) xs))"
    by (auto simp: run_tasks_def Let_def finish_tasks_Inr split: sum.splits)
  have "sends_only (done_writes (run_one P cg st ex t r s rem rs))" for ex t
    using bundle_sends [OF assms(1)]
    by (auto simp: run_one_def Let_def sends_only_def split: prog_end.splits sum.splits if_splits)
  then show ?thesis unfolding ws sends_only_def by auto
qed

section \<open>Invariant of a run\<close>

definition run_inv :: "config \<Rightarrow> run_state \<Rightarrow> bool" where
  "run_inv cf rs \<longleftrightarrow> built_from (cg_factories (cf_graph cf)) (rs_state rs) \<and>
     wf_dict (rs_seen rs) \<and> keys (rs_seen rs) = keys (cg_nodes (cf_graph cf))"

lemma mark_seen_keys: "has_key seen n \<Longrightarrow> keys (mark_seen cg sv n seen) = keys seen"
  by (simp add: mark_seen_def keys_dset)

lemma mark_tasks_keys:
  "\<forall>t \<in> set ts. is_pull t \<longrightarrow> t_node t \<in> set (keys seen) \<Longrightarrow> keys (mark_tasks cg sv ts seen) = keys seen"
proof (induction ts arbitrary: seen)
  case (Cons t ts)
  let ?s = "if is_pull t then mark_seen cg sv (t_node t) seen else seen"
  have k: "keys ?s = keys seen"
  proof (cases "is_pull t")
    case True
    with Cons.prems have "has_key seen (t_node t)" by (simp add: has_key_def)
    with True show ?thesis by (simp add: mark_seen_keys)
  qed simp
  have "\<forall>t \<in> set ts. is_pull t \<longrightarrow> t_node t \<in> set (keys ?s)" unfolding k using Cons.prems by simp
  from Cons.IH [OF this] k show ?case by (simp add: mark_tasks_def)
qed (simp add: mark_tasks_def)

lemma dispatch_set:
  assumes "validated_dispatch_order env ts r s = Inr xs" and "distinct (map identity ts)"
  shows "set xs = set ts"
  using dispatch_perm [OF assms] by (metis set_mset_mset)

lemma run_tasks_seen:
  assumes "run_tasks P cg env ts st seen sv r s rem rs = Inr (ws, ns, ids, seen')"
    and "distinct (map identity ts)" and "\<forall>t \<in> set ts. is_pull t \<longrightarrow> t_node t \<in> set (keys seen)"
  shows "keys seen' = keys seen"
proof -
  from assms(1) obtain xs where xs: "validated_dispatch_order env ts r s = Inr xs"
    and seen': "seen' = mark_tasks cg sv xs seen"
    by (auto simp: run_tasks_def Let_def finish_tasks_Inr split: sum.splits)
  show ?thesis unfolding seen' using assms(3) dispatch_set [OF xs assms(2)] by (intro mark_tasks_keys) simp
qed

text \<open>What a committed superstep did.\<close>

lemma commit_superstep_Inr:
  assumes "commit_superstep P cf s rs (ws, ns, ids, seen) = (rs', Inr ())"
  obtains st adv rp digest cp rp' where
    "validate_writes P (rs_state rs) ws s = Inr ()"
    "journal P (rs_persist rs) (write_pairs ws) (task_id_of (cf_run cf) s) (node_path ns) = Inr rp"
    "apply_writes P (rs_state rs) ws s = (st, Inr adv)" "gs_digest P st = Inr digest"
    "run_checkpoint_of cf st seen s digest = Inr cp"
    "commit_run_checkpoint P rp cp (Some (task_id_of (cf_run cf) s)) = Inr rp'"
    "rs' = \<lparr>rs_state = st, rs_seen = seen, rs_persist = rp',
       rs_events = rs_events rs @ events_of cf s digest ids, rs_digest = digest, rs_committed = s,
       rs_emitted = rs_emitted rs @ (if cf_on_checkpoint cf then [cp] else []),
       rs_sunk = rs_sunk rs @ (if cf_sink cf then [(s, node_path ns, digest)] else [])\<rparr>"
  using assms
  by (auto simp: commit_superstep_def Let_def emit_checkpoint_def ebind_Inr_iff emap_Inr_iff
      split: sum.splits prod.splits)

lemma superstep_once_True:
  assumes "superstep_once P cf base s rs = (rs', Inr True)"
  obtains st tasks ws ns ids seen where
    "prepare_tasks (cf_graph cf) (rs_state rs) (gs_versions (rs_state rs)) (rs_seen rs) = (st, Inr tasks)"
    "tasks \<noteq> []" "int s - int base \<le> cf_cap cf"
    "run_tasks P (cf_graph cf) (cf_env cf) tasks st (rs_seen rs) (gs_versions (rs_state rs)) (cf_run cf) s
       (cf_cap cf - (int s - int base)) [] = Inr (ws, ns, ids, seen)"
    "commit_superstep P cf s (rs\<lparr>rs_state := st\<rparr>) (ws, ns, ids, seen) = (rs', Inr ())"
  using assms
  by (auto simp: superstep_once_def Let_def split: prod.splits sum.splits if_splits)

lemma superstep_inv:
  assumes wfc: "wf_compiled (cf_graph cf)" and inv: "run_inv cf rs"
    and run: "superstep_once P cf base s rs = (rs', Inr True)"
  shows "run_inv cf rs'"
proof -
  let ?cg = "cf_graph cf"
  from run obtain st tasks ws ns ids seen where
    prep: "prepare_tasks ?cg (rs_state rs) (gs_versions (rs_state rs)) (rs_seen rs) = (st, Inr tasks)" and
    tasks: "run_tasks P ?cg (cf_env cf) tasks st (rs_seen rs) (gs_versions (rs_state rs)) (cf_run cf) s
       (cf_cap cf - (int s - int base)) [] = Inr (ws, ns, ids, seen)" and
    com: "commit_superstep P cf s (rs\<lparr>rs_state := st\<rparr>) (ws, ns, ids, seen) = (rs', Inr ())"
    by (rule superstep_once_True)
  from com obtain st' adv rp digest cp rp' where
    app: "apply_writes P st ws s = (st', Inr adv)" and rs': "rs_state rs' = st'" "rs_seen rs' = seen"
    by (rule commit_superstep_Inr) auto
  have fact: "map_of (cg_factories ?cg) TASKS_CHANNEL = Some (TopicChannel [])"
    using wfc by (simp add: wf_compiled_def)
  have st: "built_from (cg_factories ?cg) st"
    using prepare_tasks_state [OF _ fact prep] inv by (simp add: run_inv_def)
  have "built_from (cg_factories ?cg) st'"
    using st run_tasks_sends [OF wfc tasks] app by (rule built_from_apply)
  moreover have "keys seen = keys (rs_seen rs)"
  proof (rule run_tasks_seen [OF tasks])
    show "distinct (map identity tasks)"
      using prepare_distinct [OF prep] wfc by (simp add: wf_compiled_def)
    have "set (cg_order ?cg) = set (keys (rs_seen rs))"
      using wfc inv by (simp add: wf_compiled_def run_inv_def)
    then show "\<forall>t \<in> set tasks. is_pull t \<longrightarrow> t_node t \<in> set (keys (rs_seen rs))"
      using prepare_pulls [OF prep] by blast
  qed
  moreover have "keys (rs_seen rs) = keys (cg_nodes ?cg)" using inv unfolding run_inv_def by blast
  moreover have "wf_dict (cg_nodes ?cg)" using wfc unfolding wf_compiled_def by blast
  ultimately show ?thesis by (simp add: run_inv_def rs' wf_dict_def)
qed

section \<open>Runs that agree\<close>

text \<open>Two run states that differ only in what they have recorded of the run.\<close>

definition agree :: "run_state \<Rightarrow> run_state \<Rightarrow> bool" where
  "agree a b \<longleftrightarrow> rs_state a = rs_state b \<and> rs_seen a = rs_seen b \<and> rs_persist a = rs_persist b \<and>
     rs_digest a = rs_digest b \<and> rs_committed a = rs_committed b"

definition reordered :: "environment \<Rightarrow> environment \<Rightarrow> bool" where
  "reordered env env' \<longleftrightarrow> env_expires env' = env_expires env \<and>
     (\<forall>s ids. mset (env_order env' s ids) = mset ids)"

text \<open>The budget a node can see, when the graph declares a managed field for it.\<close>

lemma run_one_budget:
  "cg_managed_remaining cg = None \<Longrightarrow> run_one P cg st ex t r s rem rs = run_one P cg st ex t r s rem' rs"
  by (simp add: run_one_def node_input_def)

lemma run_tasks_budget:
  "cg_managed_remaining cg = None \<Longrightarrow>
     run_tasks P cg env ts st seen sv r s rem rs = run_tasks P cg env ts st seen sv r s rem' rs"
proof -
  assume "cg_managed_remaining cg = None"
  then have "run_one P cg st ex t r s rem rs = run_one P cg st ex t r s rem' rs" for ex t
    by (rule run_one_budget)
  then show ?thesis unfolding run_tasks_def by (simp only:)
qed

lemma run_tasks_agree:
  assumes "distinct (map identity tasks)" and pulls: "\<forall>t \<in> set tasks. is_pull t \<longrightarrow> t_node t \<in> set (keys seen)"
    and wf: "wf_dict seen"
    and run: "run_tasks P cg env tasks st seen sv r s rem rs = Inr (ws, ns, ids, seen1)"
    and re: "reordered env env'"
  shows "\<exists>ns' ids'. run_tasks P cg env' tasks st seen sv r s rem rs = Inr (ws, ns', ids', seen1) \<and>
    mset ns' = mset ns \<and> mset ids' = mset ids"
proof -
  from run_tasks_order [OF assms(1) run] re obtain ns' ids' seen2 where
    run': "run_tasks P cg env' tasks st seen sv r s rem rs = Inr (ws, ns', ids', seen2)"
    and m: "mset ns' = mset ns" "mset ids' = mset ids" and eq: "\<forall>n. dget seen2 n [] = dget seen1 n []"
    unfolding reordered_def by blast
  have k: "keys seen1 = keys seen" "keys seen2 = keys seen"
    using run_tasks_seen [OF run assms(1) pulls] run_tasks_seen [OF run' assms(1) pulls] by simp_all
  have "seen2 = seen1"
  proof (rule dict_eqI)
    show "keys seen2 = keys seen1" using k by simp
    show "wf_dict seen2" using k(2) wf by (simp add: wf_dict_def)
    show "map_of seen2 = map_of seen1"
    proof
      fix n
      have "map_of d n = (if n \<in> set (keys d) then Some (dget d n []) else None)" for d :: seen
        by (auto simp: dget_def map_of_eq_None_iff split: option.splits)
      moreover have "set (keys seen2) = set (keys seen1)" using k by simp
      ultimately show "map_of seen2 n = map_of seen1 n" using eq by metis
    qed
  qed
  with run' m show ?thesis by blast
qed

lemma node_path_mset: "mset ns = mset ns' \<Longrightarrow> node_path ns = node_path ns'"
  unfolding node_path_def by (metis properties_for_sort mset_sort sorted_sort)

lemma commit_superstep_agree:
  assumes "commit_superstep P cf s rs (ws, ns, ids, seen) = (rs1, Inr ())" and "agree rs rs'"
    and "mset ns' = mset ns" and "cf' = cf\<lparr>cf_env := env', cf_cap := cap'\<rparr>"
  shows "\<exists>rs2. commit_superstep P cf' s rs' (ws, ns', ids', seen) = (rs2, Inr ()) \<and> agree rs1 rs2"
proof -
  have path: "node_path ns' = node_path ns" using assms(3) by (rule node_path_mset)
  from assms(1) show ?thesis
  proof (rule commit_superstep_Inr)
    fix st adv rp digest cp rp'
    assume a: "validate_writes P (rs_state rs) ws s = Inr ()"
      "journal P (rs_persist rs) (write_pairs ws) (task_id_of (cf_run cf) s) (node_path ns) = Inr rp"
      "apply_writes P (rs_state rs) ws s = (st, Inr adv)" "gs_digest P st = Inr digest"
      "run_checkpoint_of cf st seen s digest = Inr cp"
      "commit_run_checkpoint P rp cp (Some (task_id_of (cf_run cf) s)) = Inr rp'"
      "rs1 = \<lparr>rs_state = st, rs_seen = seen, rs_persist = rp',
         rs_events = rs_events rs @ events_of cf s digest ids, rs_digest = digest, rs_committed = s,
         rs_emitted = rs_emitted rs @ (if cf_on_checkpoint cf then [cp] else []),
         rs_sunk = rs_sunk rs @ (if cf_sink cf then [(s, node_path ns, digest)] else [])\<rparr>"
    have cp: "run_checkpoint_of cf' st seen s digest = Inr cp"
      using a(5) by (simp add: run_checkpoint_of_def assms(4))
    have ag: "rs_state rs' = rs_state rs" "rs_persist rs' = rs_persist rs" using assms(2) by (simp_all add: agree_def)
    have run: "cf_run cf' = cf_run cf" by (simp add: assms(4))
    show ?thesis
      by (simp add: commit_superstep_def Let_def ag run path a(1-4) emit_checkpoint_def cp a(6))
        (simp add: agree_def a(7))
  qed
qed

lemma superstep_once_agree:
  assumes wfc: "wf_compiled (cf_graph cf)" and inv: "run_inv cf rs"
    and managed: "cg_managed_remaining (cf_graph cf) = None"
    and run: "superstep_once P cf base s rs = (rs1, Inr b)" and ag: "agree rs rs'"
    and re: "reordered (cf_env cf) env'" and cap: "cf_cap cf + int base \<le> cap' + int base'"
    and cf': "cf' = cf\<lparr>cf_env := env', cf_cap := cap'\<rparr>"
  shows "\<exists>rs2. superstep_once P cf' base' s rs' = (rs2, Inr b) \<and> agree rs1 rs2"
proof -
  let ?cg = "cf_graph cf" and ?sv = "gs_versions (rs_state rs)"
  have e: "rs_state rs' = rs_state rs" "rs_seen rs' = rs_seen rs" using ag by (simp_all add: agree_def)
  obtain st r where prep: "prepare_tasks ?cg (rs_state rs) ?sv (rs_seen rs) = (st, r)" by fastforce
  with run obtain tasks where r: "r = Inr tasks"
    by (cases r) (auto simp: superstep_once_def Let_def)
  have ag1: "agree (rs\<lparr>rs_state := st\<rparr>) (rs'\<lparr>rs_state := st\<rparr>)" using ag by (simp add: agree_def)
  have cg': "cf_graph cf' = ?cg" "cf_run cf' = cf_run cf" "cf_env cf' = env'" "cf_cap cf' = cap'"
    by (simp_all add: cf')
  show ?thesis
  proof (cases b)
    case False
    with run prep r have "tasks = []" "rs1 = rs\<lparr>rs_state := st\<rparr>"
      by (auto simp: superstep_once_def Let_def split: if_splits sum.splits prod.splits)
    with False ag1 prep r show ?thesis by (simp add: superstep_once_def Let_def e cg')
  next
    case True
    with run have "superstep_once P cf base s rs = (rs1, Inr True)" by simp
    then obtain st0 tasks0 ws ns ids seen where
      p0: "prepare_tasks ?cg (rs_state rs) ?sv (rs_seen rs) = (st0, Inr tasks0)" and
      ne: "tasks0 \<noteq> []" and le: "int s - int base \<le> cf_cap cf" and
      tasks: "run_tasks P ?cg (cf_env cf) tasks0 st0 (rs_seen rs) ?sv (cf_run cf) s
        (cf_cap cf - (int s - int base)) [] = Inr (ws, ns, ids, seen)" and
      com: "commit_superstep P cf s (rs\<lparr>rs_state := st0\<rparr>) (ws, ns, ids, seen) = (rs1, Inr ())"
      by (rule superstep_once_True)
    have st: "st0 = st" "tasks0 = tasks" using p0 prep r by simp_all
    have d: "distinct (map identity tasks)"
      using prepare_distinct prep r wfc by (simp add: wf_compiled_def)
    have "set (cg_order ?cg) = set (keys (rs_seen rs))"
      using wfc inv by (simp add: wf_compiled_def run_inv_def)
    then have pulls: "\<forall>t \<in> set tasks. is_pull t \<longrightarrow> t_node t \<in> set (keys (rs_seen rs))"
      using prepare_pulls [OF p0] unfolding st by blast
    have wfs: "wf_dict (rs_seen rs)" using inv by (simp add: run_inv_def)
    from run_tasks_agree [OF d pulls wfs tasks [unfolded st] re] obtain ns' ids' where
      "run_tasks P ?cg env' tasks st (rs_seen rs) ?sv (cf_run cf) s (cf_cap cf - (int s - int base)) [] =
        Inr (ws, ns', ids', seen)" and m: "mset ns' = mset ns" by blast
    then have tasks': "run_tasks P ?cg env' tasks st (rs_seen rs) ?sv (cf_run cf) s
        (cap' - (int s - int base')) [] = Inr (ws, ns', ids', seen)"
      using run_tasks_budget [OF managed] by metis
    from commit_superstep_agree [OF com [unfolded st] ag1 m cf'] obtain rs2 where
      "commit_superstep P cf' s (rs'\<lparr>rs_state := st\<rparr>) (ws, ns', ids', seen) = (rs2, Inr ())" "agree rs1 rs2"
      by blast
    moreover have "\<not> int s - int base' > cap'" using le cap by simp
    ultimately show ?thesis using ne tasks' prep r True
      by (simp add: superstep_once_def Let_def e cg' st)
  qed
qed

lemma run_loop_agree:
  assumes "wf_compiled (cf_graph cf)" and "cg_managed_remaining (cf_graph cf) = None"
    and "reordered (cf_env cf) env'" and "cf_cap cf + int base \<le> cap' + int base'"
    and "cf' = cf\<lparr>cf_env := env', cf_cap := cap'\<rparr>"
  shows "run_inv cf rs \<Longrightarrow> agree rs rs' \<Longrightarrow> run_loop P cf base s rs = (rs1, Inr ()) \<Longrightarrow>
    \<exists>rs2. run_loop P cf' base' s rs' = (rs2, Inr ()) \<and> agree rs1 rs2"
  using assms
proof (induction P cf base s rs arbitrary: rs' rule: run_loop.induct)
  case (1 P cf base s rs)
  from 1(4) obtain ra b where once: "superstep_once P cf base (s + 1) rs = (ra, Inr b)"
    by (subst (asm) run_loop.simps) (auto split: prod.splits sum.splits)
  from superstep_once_agree [OF 1(5) 1(2) 1(6) once 1(3) 1(7,8,9)] obtain rb where
    rb: "superstep_once P cf' base' (s + 1) rs' = (rb, Inr b)" "agree ra rb" by blast
  show ?case
  proof (cases b)
    case True
    with once have t: "superstep_once P cf base (s + 1) rs = (ra, Inr True)" by simp
    have inv: "run_inv cf ra" using superstep_inv [OF 1(5) 1(2) t] .
    have rest: "run_loop P cf base (s + 1) ra = (rs1, Inr ())"
      using 1(4) t by (subst (asm) run_loop.simps) simp
    from 1(1) [OF t [symmetric] refl refl inv rb(2) rest 1(5-9)] rb(1) True show ?thesis
      by (subst run_loop.simps) simp
  next
    case False
    with 1(4) once rb show ?thesis
      by (subst run_loop.simps) (subst (asm) run_loop.simps, auto)
  qed
qed

section \<open>Resuming continues\<close>

definition run_ok :: "prims \<Rightarrow> config \<Rightarrow> run_state \<Rightarrow> bool" where
  "run_ok P cf rs \<longleftrightarrow> run_inv cf rs \<and> gs_digest P (rs_state rs) = Inr (rs_digest rs)"

lemma superstep_ok:
  assumes "wf_compiled (cf_graph cf)" and "run_inv cf rs"
    and "superstep_once P cf base s rs = (rs', Inr True)"
  shows "run_ok P cf rs' \<and> rs_committed rs' = s \<and>
    (\<exists>cp. run_checkpoint_of cf (rs_state rs') (rs_seen rs') s (rs_digest rs') = Inr cp \<and>
       (cf_on_checkpoint cf \<longrightarrow> rs_emitted rs' = rs_emitted rs @ [cp]))"
proof -
  have inv: "run_inv cf rs'" using assms by (rule superstep_inv)
  from assms(3) obtain st tasks ws ns ids seen where
    com: "commit_superstep P cf s (rs\<lparr>rs_state := st\<rparr>) (ws, ns, ids, seen) = (rs', Inr ())"
    by (rule superstep_once_True)
  from com obtain st' adv rp digest cp rp' where "gs_digest P st' = Inr digest"
    "run_checkpoint_of cf st' seen s digest = Inr cp"
    "rs' = \<lparr>rs_state = st', rs_seen = seen, rs_persist = rp',
       rs_events = rs_events rs @ events_of cf s digest ids, rs_digest = digest, rs_committed = s,
       rs_emitted = rs_emitted rs @ (if cf_on_checkpoint cf then [cp] else []),
       rs_sunk = rs_sunk rs @ (if cf_sink cf then [(s, node_path ns, digest)] else [])\<rparr>"
    by (rule commit_superstep_Inr) auto
  with inv show ?thesis by (simp add: run_ok_def)
qed

lemma resume_agree:
  assumes ok: "run_ok P cf rs"
    and cp: "run_checkpoint_of cf (rs_state rs) (rs_seen rs) (rs_committed rs) (rs_digest rs) = Inr cp"
  shows "\<exists>rs'. resume_run P cf (rs_persist rs) cp = Inr rs' \<and> agree rs rs'"
proof -
  let ?cg = "cf_graph cf"
  from cp obtain chans where chans: "checkpoint_channels (rs_state rs) = Inr chans"
    and e: "cp_channels cp = chans" "cp_digest cp = rs_digest rs" "cp_seen cp = rs_seen rs"
      "cp_superstep cp = rs_committed rs"
    by (auto simp: run_checkpoint_of_def emap_Inr_iff)
  have built: "built_from (cg_factories ?cg) (rs_state rs)" using ok by (simp add: run_ok_def run_inv_def)
  have restore: "restore_channels P (GraphState (cg_factories ?cg)) chans = Inr (rs_state rs)"
    using built chans by (rule restore_checkpoint_channels)
  have k: "keys (cg_nodes ?cg) = keys (rs_seen rs)" and wf: "wf_dict (rs_seen rs)"
    using ok by (simp_all add: run_ok_def run_inv_def)
  have seen: "map (\<lambda>n. (n, dget (rs_seen rs) n [])) (keys (cg_nodes ?cg)) = rs_seen rs"
    unfolding k map_map
    by (rule map_idI) (use wf in \<open>auto simp: dget_def wf_dict_map_of\<close>)
  show ?thesis using ok restore seen
    by (auto simp: resume_run_def e lift_py_def run_ok_def agree_def)
qed

section \<open>Budget, quiescence and failure\<close>

lemma commit_superstep_committed:
  "commit_superstep P cf s rs d = (rs', r) \<Longrightarrow> rs_committed rs' = rs_committed rs \<or> rs_committed rs' = s"
  by (cases d) (auto simp: commit_superstep_def Let_def emit_checkpoint_def ebind_Inr_iff emap_Inr_iff
      split: sum.splits prod.splits)

lemma fail_superstep_keeps:
  "fail_superstep P cf s rs sv err = (rs', e) \<Longrightarrow>
     rs_state rs' = rs_state rs \<and> rs_seen rs' = rs_seen rs \<and> rs_committed rs' = rs_committed rs \<and>
     rs_digest rs' = rs_digest rs \<and> rs_events rs' = rs_events rs \<and> rs_sunk rs' = rs_sunk rs"
  by (auto simp: fail_superstep_def split: step_error.splits prod.splits sum.splits)

lemma superstep_once_committed:
  assumes "superstep_once P cf base s rs = (rs', r)"
  shows "rs_committed rs' = rs_committed rs \<or> (rs_committed rs' = s \<and> int s - int base \<le> cf_cap cf)"
  using assms
  by (auto simp: superstep_once_def Let_def split: prod.splits sum.splits if_splits
      dest!: commit_superstep_committed fail_superstep_keeps)

lemma run_loop_budget:
  "run_loop P cf base s rs = (rs', r) \<Longrightarrow> rs_committed rs = s \<Longrightarrow> base \<le> s \<Longrightarrow>
     int s - int base \<le> max 0 (cf_cap cf) \<Longrightarrow>
     s \<le> rs_committed rs' \<and> int (rs_committed rs') - int base \<le> max 0 (cf_cap cf)"
proof (induction P cf base s rs rule: run_loop.induct)
  case (1 P cf base s rs)
  obtain ra q where once: "superstep_once P cf base (s + 1) rs = (ra, q)" by fastforce
  note c = superstep_once_committed [OF once]
  show ?case
  proof (cases "q = Inr True")
    case True
    with once have t: "superstep_once P cf base (s + 1) rs = (ra, Inr True)" by simp
    have rest: "run_loop P cf base (s + 1) ra = (rs', r)"
      using 1(2) t by (subst (asm) run_loop.simps) simp
    have le: "int (s + 1) - int base \<le> cf_cap cf" using t by (rule superstep_once_cap)
    from t have "rs_committed ra = s + 1"
    proof (rule superstep_once_True)
      fix st tasks ws ns ids seen
      assume "commit_superstep P cf (s + 1) (rs\<lparr>rs_state := st\<rparr>) (ws, ns, ids, seen) = (ra, Inr ())"
      then show ?thesis by (rule commit_superstep_Inr) simp
    qed
    from 1(1) [OF t [symmetric] refl refl rest this] 1(4) le show ?thesis by simp
  next
    case False
    with 1(2) once have "rs' = ra"
      by (subst (asm) run_loop.simps) (auto split: sum.splits bool.splits)
    with c 1(3-5) show ?thesis by auto
  qed
qed

lemma gs_versions_put:
  "map_of (gs_channels st) n = Some c \<Longrightarrow> ch_version d = ch_version c \<Longrightarrow>
     gs_versions (put_channel st n d) = gs_versions st"
proof -
  have "map_of xs n = Some c \<Longrightarrow> ch_version d = ch_version c \<Longrightarrow>
      map (\<lambda>(n, c). (n, ch_version c)) (dset n d xs) = map (\<lambda>(n, c). (n, ch_version c)) xs" for xs
    by (induction xs) (auto split: if_splits)
  then show "map_of (gs_channels st) n = Some c \<Longrightarrow> ch_version d = ch_version c \<Longrightarrow> ?thesis"
    by (simp add: gs_versions_def put_channel_def)
qed

lemma prepare_none:
  assumes "built_from fs st" and "map_of fs TASKS_CHANNEL = Some b"
    and "prepare_tasks cg st (gs_versions st) seen = (st', Inr [])"
  shows "gs_versions st' = gs_versions st \<and> (\<forall>n \<in> set (cg_order cg). \<not> node_ready cg (gs_versions st') seen n) \<and>
    (\<exists>c. map_of (gs_channels st') TASKS_CHANNEL = Some c \<and> ch_body c = TopicChannel [])"
proof -
  from assms(1,2) obtain c items where c: "map_of (gs_channels st) TASKS_CHANNEL = Some c"
    and b: "ch_body c = TopicChannel items" by (rule built_from_tasks)
  have get: "get_channel st TASKS_CHANNEL = (st, Inr c)" using c by (simp add: get_channel_def)
  have st': "st' = put_channel st TASKS_CHANNEL (c\<lparr>ch_body := TopicChannel []\<rparr>)"
    using assms(3) b get by (auto simp: prepare_tasks_def Let_def chan_drain_def)
  have v: "gs_versions st' = gs_versions st" unfolding st' using c by (rule gs_versions_put) simp
  from assms(3) obtain push where
    "[] = map (\<lambda>n. Task n 0 PNone PNone) (filter (node_ready cg (gs_versions st) seen) (cg_order cg)) @ push"
    by (rule prepare_tasks_Inr)
  then have "\<forall>n \<in> set (cg_order cg). \<not> node_ready cg (gs_versions st) seen n"
    by (simp add: filter_empty_conv)
  with v st' show ?thesis by simp
qed

lemma run_loop_quiescent:
  "run_loop P cf base s rs = (rs', Inr ()) \<Longrightarrow> run_inv cf rs \<Longrightarrow> wf_compiled (cf_graph cf) \<Longrightarrow>
     (\<forall>n \<in> set (cg_order (cf_graph cf)). \<not> node_ready (cf_graph cf) (gs_versions (rs_state rs')) (rs_seen rs') n) \<and>
     (\<exists>c. map_of (gs_channels (rs_state rs')) TASKS_CHANNEL = Some c \<and> ch_body c = TopicChannel [])"
proof (induction P cf base s rs rule: run_loop.induct)
  case (1 P cf base s rs)
  from 1(2) obtain ra b where once: "superstep_once P cf base (s + 1) rs = (ra, Inr b)"
    by (subst (asm) run_loop.simps) (auto split: prod.splits sum.splits)
  show ?case
  proof (cases b)
    case True
    with once have t: "superstep_once P cf base (s + 1) rs = (ra, Inr True)" by simp
    have "run_loop P cf base (s + 1) ra = (rs', Inr ())"
      using 1(2) t by (subst (asm) run_loop.simps) simp
    from 1(1) [OF t [symmetric] refl refl this superstep_inv [OF 1(4,3) t] 1(4)] show ?thesis .
  next
    case False
    from once False obtain st where
      prep: "prepare_tasks (cf_graph cf) (rs_state rs) (gs_versions (rs_state rs)) (rs_seen rs) = (st, Inr [])"
      and ra: "ra = rs\<lparr>rs_state := st\<rparr>"
      by (auto simp: superstep_once_def Let_def split: prod.splits sum.splits if_splits)
    have rs': "rs' = rs\<lparr>rs_state := st\<rparr>"
      using 1(2) once False ra by (subst (asm) run_loop.simps) simp
    have built: "built_from (cg_factories (cf_graph cf)) (rs_state rs)" using 1(3) by (simp add: run_inv_def)
    have fact: "map_of (cg_factories (cf_graph cf)) TASKS_CHANNEL = Some (TopicChannel [])"
      using 1(4) by (simp add: wf_compiled_def)
    from prepare_none [OF built fact prep] show ?thesis by (auto simp: rs')
  qed
qed

section \<open>The start of a run\<close>

lemma lift_py_Inr: "lift_py r = Inr x \<longleftrightarrow> r = Inr x"
  by (auto simp: lift_py_def split: sum.splits)

lemma built_from_GraphState:
  assumes "fresh_factories fs"
  shows "built_from fs (GraphState fs)"
proof -
  let ?base = "map (\<lambda>(n, b). (n, new_channel n b)) fs"
  have d: "distinct (keys ?base)"
    using assms by (simp add: fresh_factories_def wf_dict_def comp_def case_prod_unfold)
  have e: "map fresh_entry ?base = fs"
    using assms unfolding map_map
    by (intro map_idI) (auto simp: fresh_factories_def list_all_iff fresh_factory_def fresh_entry_def)
  have f: "map fresh_channel ?base = ?base"
    using assms by (auto simp: fresh_factories_def list_all_iff fresh_factory_def fresh_channel_def)
  from GraphState_fresh [OF d] have g: "gs_channels (GraphState fs) = ?base" by (simp only: e f)
  have "list_all wf_entry ?base"
    using assms by (auto simp: fresh_factories_def list_all_iff fresh_factory_def wf_entry_def wf_channel_def)
  moreover have "wf_dict ?base" using d by (simp only: wf_dict_def)
  ultimately have "wf_state (GraphState fs)" by (simp only: wf_state_def g)
  moreover have "shaped_state fs (GraphState fs)" using e by (simp add: shaped_state_def g)
  ultimately show ?thesis by (simp add: built_from_shaped)
qed

lemma validated_seed_spec:
  "validated_seed input r = Inr seed \<Longrightarrow>
     (\<forall>(k, v) \<in> set seed. \<not> is_reserved k) \<and> input = map (\<lambda>(k, v). (PStr k, v)) seed"
proof (induction input arbitrary: seed)
  case (Cons kv input)
  obtain key v where kv: "kv = (key, v)" by (cases kv)
  with Cons.prems obtain k rest where "key = PStr k" "\<not> is_reserved k" "validated_seed input r = Inr rest"
    "seed = (k, v) # rest" by (auto simp: emap_Inr_iff split: pyval.splits if_splits)
  with Cons.IH kv show ?case by auto
qed simp

lemma seed_state_built:
  assumes wfc: "wf_compiled (cf_graph cf)" and fresh: "fresh_factories (cg_factories (cf_graph cf))"
    and run: "seed_state P cf input = Inr st"
  shows "built_from (cg_factories (cf_graph cf)) st"
proof -
  let ?cg = "cf_graph cf" and ?fs = "cg_factories (cf_graph cf)"
  let ?seed = "\<lambda>seed. map (\<lambda>(n, v). ChannelWrite START n v 0) (sort_key fst seed)"
  have g: "built_from ?fs (GraphState ?fs)" using fresh by (rule built_from_GraphState)
  from run obtain seed where v: "validated_seed input (cf_run cf) = Inr seed"
    by (auto simp: seed_state_def Let_def ebind_Inr_iff)
  have "w_chan w \<noteq> TASKS_CHANNEL" if "w \<in> set (?seed seed)" for w
    using that validated_seed_spec [OF v] reserved_constants(3) by fastforce
  then have s: "sends_only (?seed seed)" unfolding sends_only_def by blast
  have t: "sends_only (trigger_writes ?cg START 0)" using wfc by (rule trigger_writes_sends)
  show ?thesis
  proof (cases "map_of (cg_branches ?cg) START")
    case None
    with run v obtain adv where "apply_writes P (GraphState ?fs) (?seed seed @ trigger_writes ?cg START 0) 0 = (st, Inr adv)"
      by (auto simp: seed_state_def Let_def applied_Inr)
    with s t show ?thesis by (intro built_from_apply [OF g]) simp_all
  next
    case (Some spec)
    with run v obtain st1 adv1 branch adv where
      1: "apply_writes P (GraphState ?fs) (?seed seed) 0 = (st1, Inr adv1)" and
      b: "branch_writes ?cg START 0 spec (snapshot st1) = Inr branch" and
      2: "apply_writes P st1 (trigger_writes ?cg START 0 @ branch) 0 = (st, Inr adv)"
      by (auto simp: seed_state_def Let_def ebind_Inr_iff applied_Inr)
    have "built_from ?fs st1" using g s 1 by (rule built_from_apply)
    then show ?thesis using t branch_writes_sends [OF b] 2 by (intro built_from_apply [OF _ _ 2]) simp_all
  qed
qed

lemma start_run_ok:
  assumes "wf_compiled (cf_graph cf)" and "fresh_factories (cg_factories (cf_graph cf))"
    and "start_run P cf rp input = Inr rs"
  shows "run_ok P cf rs \<and> rs_committed rs = 0"
proof -
  from assms(3) obtain st digest where st: "seed_state P cf input = Inr st" and d: "gs_digest P st = Inr digest"
    and e: "rs_state rs = st" "rs_digest rs = digest" "rs_seen rs = initial_seen (cf_graph cf)" "rs_committed rs = 0"
    unfolding start_run_def ebind_Inr_iff lift_py_Inr
    by (auto simp: emit_checkpoint_def ebind_Inr_iff emap_Inr_iff)
  have "keys (initial_seen (cf_graph cf)) = keys (cg_nodes (cf_graph cf))"
    by (simp add: initial_seen_def comp_def)
  moreover have "wf_dict (cg_nodes (cf_graph cf))" using assms(1) unfolding wf_compiled_def by blast
  ultimately show ?thesis using seed_state_built [OF assms(1,2) st] d
    by (simp add: run_ok_def run_inv_def e wf_dict_def)
qed

end
