(* ===== verification/Samples.thy ===== *)
theory Samples
  imports Scheduler
begin

text \<open>
  A small graph and its run, evaluated step by step: two nodes \<open>a\<close> and \<open>b\<close> triggered by the
  start, each appending to the channel \<open>l\<close>. The concrete inputs of the witnesses.
\<close>

section \<open>The graph\<close>

definition demo_hex :: pystr where
  "demo_hex = u ''sha256:'' @ hex (replicate 32 0)"

definition node_a :: node_fn where
  "node_a i = NRet (RValue (PDict [(PStr [108], PInt 1)]))"

definition node_b :: node_fn where
  "node_b i = NRet (RValue (PDict [(PStr [108], PInt 2)]))"

definition builder_of :: "node_fn \<Rightarrow> node_fn \<Rightarrow> builder" where
  "builder_of f g = add_edge (Inl [98]) END (add_edge (Inl [97]) END (add_edge (Inl START) [98]
     (add_edge (Inl START) [97] (add_node [98] g (add_node [97] f
       (add_channel [108] (AppendChannel []) (GraphBuilder [103])))))))"

definition graph_of :: "node_fn \<Rightarrow> node_fn \<Rightarrow> compiled" where
  "graph_of f g = \<lparr>cg_graph_id = [103], cg_nodes = [([97], f), ([98], g)], cg_order = [[97], [98]],
     cg_successors = [(START, [[97], [98]]), ([97], [END]), ([98], [END])],
     cg_triggers = [([97], [trigger_channel [97]]), ([98], [trigger_channel [98]])],
     cg_factories = [([108], AppendChannel []), (TASKS_CHANNEL, TopicChannel [])],
     cg_allow_orphans = False, cg_allow_cycles = False, cg_branches = [], cg_join_writes = [],
     cg_managed_remaining = None\<rparr>"

definition demo_builder :: builder where
  "demo_builder = builder_of node_a node_b"

definition demo_graph :: compiled where
  "demo_graph = graph_of node_a node_b"

text \<open>Two dispatch orders: as given, and reversed.\<close>

definition demo_env :: environment where
  "demo_env = \<lparr>env_order = (\<lambda>_ ids. ids), env_expires = (\<lambda>_ _. False), env_done = (\<lambda>_ _. True)\<rparr>"

definition demo_env_rev :: environment where
  "demo_env_rev = demo_env\<lparr>env_order := (\<lambda>_ ids. rev ids)\<rparr>"

definition demo_config :: config where
  "demo_config = \<lparr>cf_graph = demo_graph, cf_env = demo_env, cf_run = [114], cf_cap = 4,
     cf_on_checkpoint = True, cf_sink = False\<rparr>"

definition demo_persist :: run_persistence where
  "demo_persist = \<lparr>rp_store = [], rp_thread = None, rp_parent = None, rp_pending = None\<rparr>"

section \<open>Evaluation\<close>

lemmas name_eval = name_defs trigger_channel_def is_reserved_def startswith_def is_trigger_def

lemmas graph_eval = demo_builder_def builder_of_def GraphBuilder_def add_node_def add_channel_def check_channels.simps
  has_key_def bad_node_id_def known_endpoint_def guard_def dependency_edges_def topological_order_def
  kahn_order_def in_degrees_def internal_edges_def successor_lists_def dappend_def dget_def
  check_fan_in_def fan_in_sources_def walk_edges_def
  assemble_def join_tables_def ebind_def

lemmas run_eval = run_tasks_def validated_dispatch_order_def identity_def Task_def is_pull_def
  run_one_def execute_node_def InterruptFrame_def node_input_def bundle_of_def interpret_result_def
  trigger_writes_def dget_def finish_tasks_def sort_writes_def write_key_def mark_tasks_def
  mark_seen_def demo_graph_def graph_of_def node_a_def node_b_def ebind_def emap_def

lemmas commit_eval = apply_writes_def validate_writes_def group_writes_def dappend_def dget_def
  validate_grouped_writes_def validate_group_def validation_channel_def get_channel_def
  put_channel_def new_channel_def chan_commit_defs chan_validate_defs has_key_def extend_items_def bump_def
  Let_def ebind_def emap_def

lemma letter_names [simp]:
  "[c] \<noteq> START" "[c] \<noteq> END" "START \<noteq> [c]" "END \<noteq> [c]" "[c] \<noteq> TASKS_CHANNEL" "TASKS_CHANNEL \<noteq> [c]"
  "\<not> is_reserved [c]" "\<not> is_trigger [c]" "[c] \<noteq> trigger_channel n" "trigger_channel n \<noteq> [c]"
  by (simp_all add: name_eval)

lemma demo_reach: "reachable_nodes [(START, [97]), (START, [98]), ([97], END), ([98], END)] [] = [END, [98], [97]]"
  unfolding reachable_nodes_def walk_edges_def successor_lists_def
  apply (simp add: dappend_def dget_def)
  apply (subst reach_loop.simps, simp add: dget_def)+
  done

lemma demo_order: "topological_order [[97], [98]] [(START, [97]), (START, [98]), ([97], END), ([98], END)] False = Inr [[97], [98]]"
  by (simp add: graph_eval Let_def)

lemma graph_of_compiles: "compile (builder_of f g) False False = Inr (graph_of f g)"
proof -
  have "b_nodes (builder_of f g) = [([97], f), ([98], g)]"
    "b_channels (builder_of f g) = [([108], AppendChannel [])]"
    "b_edges (builder_of f g) = [(START, [97]), (START, [98]), ([97], END), ([98], END)]"
    "b_join_edges (builder_of f g) = []" "b_branches (builder_of f g) = []" "b_graph_id (builder_of f g) = [103]"
    by (simp_all add: builder_of_def add_node_def add_channel_def GraphBuilder_def)
  moreover have "check_edges [[97], [98]] [] [(START, [97]), (START, [98]), ([97], END), ([98], END)] =
      Inr [(START, [97]), (START, [98]), ([97], END), ([98], END)]"
    by (simp add: known_endpoint_def)
  moreover have "check_channels [] [([108], AppendChannel [])] = Inr [([108], AppendChannel [])]"
    by (simp add: has_key_def)
  moreover have "check_node_ids [([97], f), ([98], g)] = Inr ()"
    by (simp add: bad_node_id_def)
  moreover have "check_fan_in [(START, [97]), (START, [98]), ([97], END), ([98], END)] = Inr ()"
    by (simp add: check_fan_in_def fan_in_sources_def dappend_def dget_def)
  moreover have "b_graph_id (builder_of f g) = [103] \<Longrightarrow> assemble (builder_of f g) False False [([108], AppendChannel [])] [([97], f), ([98], g)]
     [(START, [97]), (START, [98]), ([97], END), ([98], END)] [] [] [[97], [98]] = graph_of f g"
    by (simp add: assemble_def join_tables_def successor_lists_def dappend_def dget_def
       graph_of_def)
  ultimately show ?thesis
    by (simp add: compile_def dependency_edges_def guard_def demo_order demo_reach Let_def has_key_def
       del: check_edges.simps check_channels.simps check_node_ids.simps)
qed

lemma demo_compiles: "compile demo_builder False False = Inr demo_graph"
  by (simp add: demo_builder_def demo_graph_def graph_of_compiles)

lemma demo_channels: "\<forall>(n, h) \<in> set (b_channels (builder_of f g)). fresh_body h = h \<and> wf_body h"
  by (simp add: builder_of_def add_node_def add_channel_def GraphBuilder_def wf_body_def)

text \<open>The state after the seed, after the first superstep, and the writes between them.\<close>

definition demo_state :: "int \<Rightarrow> pyval list \<Rightarrow> gstate" where
  "demo_state v items = \<lparr>gs_channels =
     [([108], \<lparr>ch_version = v, ch_name = [108], ch_body = AppendChannel items\<rparr>),
      (TASKS_CHANNEL, \<lparr>ch_version = 0, ch_name = TASKS_CHANNEL, ch_body = TopicChannel []\<rparr>),
      (trigger_channel [97], \<lparr>ch_version = 1, ch_name = trigger_channel [97], ch_body = TriggerChannel\<rparr>),
      (trigger_channel [98], \<lparr>ch_version = 1, ch_name = trigger_channel [98], ch_body = TriggerChannel\<rparr>)]\<rparr>"

definition demo_tasks :: "task list" where
  "demo_tasks = [Task [97] 0 PNone PNone, Task [98] 0 PNone PNone]"

definition demo_writes :: "channel_write list" where
  "demo_writes = [ChannelWrite [97] [108] (PInt 1) 0, ChannelWrite [98] [108] (PInt 2) 0]"

definition demo_seen :: seen where
  "demo_seen = [([97], [(trigger_channel [97], 1)]), ([98], [(trigger_channel [98], 1)])]"

lemma demo_seed: "seed_state demo_prims demo_config [] = Inr (demo_state 0 [])"
  by (simp add: seed_state_def demo_config_def demo_graph_def graph_of_def trigger_writes_def applied_def
      commit_eval name_eval GraphState_def demo_state_def)

lemma demo_prepare:
  "prepare_tasks demo_graph (demo_state 0 []) (gs_versions (demo_state 0 [])) [([97], []), ([98], [])] =
     (demo_state 0 [], Inr demo_tasks)"
  "prepare_tasks demo_graph (demo_state 1 [PInt 1, PInt 2]) (gs_versions (demo_state 1 [PInt 1, PInt 2])) demo_seen =
     (demo_state 1 [PInt 1, PInt 2], Inr [])"
  by (simp_all add: demo_graph_def graph_of_def demo_state_def demo_tasks_def demo_seen_def prepare_tasks_def gs_versions_def
      get_channel_def chan_drain_def node_ready_def dget_def put_channel_def name_eval)

lemma demo_run_tasks:
  "run_tasks demo_prims demo_graph demo_env demo_tasks (demo_state 0 []) [([97], []), ([98], [])]
     (gs_versions (demo_state 0 [])) r 1 m [] =
     Inr (demo_writes, [[97], [98]], [([97], 0), ([98], 0)], demo_seen)"
  by (simp add: run_eval demo_env_def demo_tasks_def demo_state_def demo_writes_def demo_seen_def
     gs_versions_def name_eval)

lemma demo_apply:
  "apply_writes demo_prims (demo_state 0 []) demo_writes 1 = (demo_state 1 [PInt 1, PInt 2], Inr {[108]})"
  by (simp add: commit_eval demo_state_def demo_writes_def name_eval)

lemma demo_digest:
  "gs_digest demo_prims (demo_state 0 []) = Inr (demo_hex)"
  "gs_digest demo_prims (demo_state 1 [PInt 1, PInt 2]) = Inr (demo_hex)"
  by (simp_all add: gs_digest_def demo_state_def state_digest_def snapshot_def chan_is_empty_def chan_value_def
      json_dict_def sort_items_def json_string_def escape_char_def int_str_def nat_str.simps comma_sep_def
      encode_utf8_def utf8_cp_def demo_hex_def name_eval)

definition demo_snaps :: "int \<Rightarrow> pyval list \<Rightarrow> (pystr, snap) dict" where
  "demo_snaps v items =
     [([108], [(VERSION, PInt v), (ITEMS, PList items)]),
      (TASKS_CHANNEL, [(VERSION, PInt 0), (ITEMS, PList [])]),
      (trigger_channel [97], [(VERSION, PInt 1)]), (trigger_channel [98], [(VERSION, PInt 1)])]"

lemma demo_checkpoint: "checkpoint_channels (demo_state v items) = Inr (demo_snaps v items)"
  by (simp add: checkpoint_channels_def checkpoint_one_def demo_state_def chan_checkpoint_def demo_snaps_def
      Let_def has_key_def dget_def name_eval VERSION_def ITEMS_def)

section \<open>The run\<close>

definition demo_checkpoint_at :: "nat \<Rightarrow> int \<Rightarrow> pyval list \<Rightarrow> seen \<Rightarrow> run_checkpoint" where
  "demo_checkpoint_at n v items sn = \<lparr>cp_run = [114], cp_graph = [103], cp_superstep = n,
     cp_digest = demo_hex, cp_channels = demo_snaps v items, cp_seen = sn\<rparr>"

definition demo_start :: run_state where
  "demo_start = \<lparr>rs_state = demo_state 0 [], rs_seen = [([97], []), ([98], [])], rs_persist = demo_persist,
     rs_events = [GraphRunEvent [114] [103] START 0 (demo_hex) 0], rs_digest = demo_hex,
     rs_committed = 0, rs_emitted = [demo_checkpoint_at 0 0 [] [([97], []), ([98], [])]], rs_sunk = []\<rparr>"

definition demo_final :: run_state where
  "demo_final = \<lparr>rs_state = demo_state 1 [PInt 1, PInt 2], rs_seen = demo_seen, rs_persist = demo_persist,
     rs_events = [GraphRunEvent [114] [103] START 0 (demo_hex) 0,
       GraphRunEvent [114] [103] [97] 1 (demo_hex) 0, GraphRunEvent [114] [103] [98] 1 (demo_hex) 0],
     rs_digest = demo_hex, rs_committed = 1,
     rs_emitted = [demo_checkpoint_at 0 0 [] [([97], []), ([98], [])],
       demo_checkpoint_at 1 1 [PInt 1, PInt 2] demo_seen], rs_sunk = []\<rparr>"

lemma demo_config_simps [simp]:
  "cf_graph demo_config = demo_graph" "cf_env demo_config = demo_env" "cf_run demo_config = [114]"
  "cf_cap demo_config = 4" "cf_on_checkpoint demo_config" "\<not> cf_sink demo_config"
  by (simp_all add: demo_config_def)

lemma demo_graph_id [simp]: "cg_graph_id demo_graph = [103]"
  by (simp add: demo_graph_def graph_of_def)

lemma demo_emit:
  "commit_run_checkpoint demo_prims demo_persist cp t = Inr demo_persist"
  by (simp add: commit_run_checkpoint_def demo_persist_def)

lemma demo_starts: "start_run demo_prims demo_config demo_persist [] = Inr demo_start"
  by (simp add: start_run_def demo_seed lift_py_def demo_digest emit_checkpoint_def run_checkpoint_of_def
      demo_checkpoint demo_emit demo_start_def demo_checkpoint_at_def events_of_def initial_seen_def)
    (simp add: demo_graph_def graph_of_def)

lemma demo_validate: "validate_writes demo_prims (demo_state 0 []) demo_writes 1 = Inr ()"
  using apply_writes_cases [of demo_prims "demo_state 0 []" demo_writes 1] demo_apply by auto

lemma demo_commit:
  "commit_superstep demo_prims demo_config 1 demo_start (demo_writes, [[97], [98]], [([97], 0), ([98], 0)], demo_seen) =
     (demo_final, Inr ())"
proof -
  have "journal demo_prims demo_persist w t p = Inr demo_persist" for w t p
    by (simp add: journal_def demo_persist_def)
  then show ?thesis
    by (simp add: commit_superstep_def demo_start_def demo_validate demo_apply Let_def demo_digest
        emit_checkpoint_def run_checkpoint_of_def demo_checkpoint demo_emit demo_final_def
        demo_checkpoint_at_def events_of_def del: One_nat_def)
qed

lemma demo_superstep: "superstep_once demo_prims demo_config 0 1 demo_start = (demo_final, Inr True)"
proof -
  have st: "rs_state demo_start = demo_state 0 []" "rs_seen demo_start = [([97], []), ([98], [])]"
    "demo_start\<lparr>rs_state := demo_state 0 []\<rparr> = demo_start" "demo_tasks \<noteq> []"
    by (simp_all add: demo_start_def demo_tasks_def)
  show ?thesis by (simp add: superstep_once_def st demo_prepare demo_run_tasks demo_commit Let_def del: One_nat_def)
qed

lemma demo_quiet: "superstep_once demo_prims demo_config 0 2 demo_final = (demo_final, Inr False)"
  by (simp add: superstep_once_def demo_final_def demo_prepare Let_def)

lemma demo_runs: "run_loop demo_prims demo_config 0 0 demo_start = (demo_final, Inr ())"
proof -
  have "run_loop demo_prims demo_config 0 1 demo_final = (demo_final, Inr ())"
    using demo_quiet by (subst run_loop.simps) (simp add: numeral_2_eq_2)
  then show ?thesis by (subst run_loop.simps) (simp add: demo_superstep del: One_nat_def)
qed

end
