(* ===== verification/Runs.thy ===== *)
theory Runs
  imports Scheduler
begin

text \<open>
  The states a run can reach: it starts from a seed, commits supersteps one after the other,
  and may at any point be resumed from the checkpoint of its last commit. What is true of all
  of them is shown by rule induction.
\<close>

section \<open>Reachable states\<close>

text \<open>A run of a graph that the compiler made from declared channels.\<close>

definition compiled_from :: "builder \<Rightarrow> config \<Rightarrow> bool" where
  "compiled_from b cf \<longleftrightarrow> (\<exists>ao ac. compile b ao ac = Inr (cf_graph cf)) \<and>
     (\<forall>(n, f) \<in> set (b_channels b). fresh_body f = f \<and> wf_body f)"

lemma compiled_fromD:
  assumes "compiled_from b cf"
  shows "wf_compiled (cf_graph cf)" "fresh_factories (cg_factories (cf_graph cf))"
    "cg_managed_remaining (cf_graph cf) = None"
proof -
  from assms obtain ao ac where c: "compile b ao ac = Inr (cf_graph cf)"
    and f: "\<forall>(n, f) \<in> set (b_channels b). fresh_body f = f \<and> wf_body f" by (auto simp: compiled_from_def)
  show "wf_compiled (cf_graph cf)" using c by (rule compile_wf_compiled)
  show "fresh_factories (cg_factories (cf_graph cf))" using c f by (rule compile_fresh)
  show "cg_managed_remaining (cf_graph cf) = None" using c by (rule compile_managed)
qed

inductive reachable :: "prims \<Rightarrow> config \<Rightarrow> nat \<Rightarrow> run_state \<Rightarrow> bool" for P :: prims and cf :: config where
  reach_start: "start_run P cf rp input = Inr rs \<Longrightarrow> reachable P cf 0 rs"
| reach_step: "reachable P cf s rs \<Longrightarrow> superstep_once P cf base (s + 1) rs = (rs', Inr True) \<Longrightarrow>
    reachable P cf (s + 1) rs'"
| reach_resume: "reachable P cf s rs \<Longrightarrow>
    run_checkpoint_of cf (rs_state rs) (rs_seen rs) s (rs_digest rs) = Inr cp \<Longrightarrow>
    resume_run P cf rp cp = Inr rs' \<Longrightarrow> reachable P cf s rs'"

inductive_cases reachable_zeroE: "reachable P cf 0 rs"

text \<open>The start runs no node, so the environment does not matter to it.\<close>

lemma start_run_env: "start_run P (cf\<lparr>cf_env := env'\<rparr>) rp input = start_run P cf rp input"
proof -
  have "seed_state P (cf\<lparr>cf_env := env'\<rparr>) input = seed_state P cf input"
    by (simp add: seed_state_def Let_def)
  moreover have "emit_checkpoint P (cf\<lparr>cf_env := env'\<rparr>) rs s t = emit_checkpoint P cf rs s t" for rs s t
    by (simp add: emit_checkpoint_def run_checkpoint_of_def)
  ultimately show ?thesis by (simp add: start_run_def events_of_def)
qed

lemma start_run_parts:
  assumes "start_run P cf rp input = Inr rs"
  obtains st digest cp where "seed_state P cf input = Inr st" "gs_digest P st = Inr digest"
    "run_checkpoint_of cf st (initial_seen (cf_graph cf)) 0 digest = Inr cp"
    "rs_state rs = st" "rs_seen rs = initial_seen (cf_graph cf)" "rs_digest rs = digest" "rs_committed rs = 0"
    "rs_events rs = events_of cf 0 digest [(START, 0)]"
    "rs_emitted rs = (if cf_on_checkpoint cf then [cp] else [])"
  using assms unfolding start_run_def ebind_Inr_iff lift_py_Inr
  by (auto simp: emit_checkpoint_def ebind_Inr_iff emap_Inr_iff)

lemma resume_ok:
  assumes ok: "run_ok P cf rs" and com: "rs_committed rs = s"
    and cp: "run_checkpoint_of cf (rs_state rs) (rs_seen rs) s (rs_digest rs) = Inr cp"
    and res: "resume_run P cf rp cp = Inr rs'"
  shows "run_ok P cf rs' \<and> rs_committed rs' = s \<and> rs_state rs' = rs_state rs \<and> rs_seen rs' = rs_seen rs \<and>
    rs_digest rs' = rs_digest rs \<and> rs_emitted rs' = []"
proof -
  have "run_ok P cf (rs\<lparr>rs_persist := rp\<rparr>)" using ok by (simp add: run_ok_def run_inv_def)
  from resume_agree [OF this] cp com obtain rs2 where
    "resume_run P cf rp cp = Inr rs2" "agree (rs\<lparr>rs_persist := rp\<rparr>) rs2" by auto
  with res have ag: "agree (rs\<lparr>rs_persist := rp\<rparr>) rs'" by simp
  have "rs_emitted rs' = []"
    using res unfolding resume_run_def ebind_Inr_iff by (auto split: if_splits)
  with ag ok com show ?thesis by (simp add: agree_def run_ok_def run_inv_def)
qed

text \<open>What the checkpoints given out so far say: consecutive supersteps, the last one the current.\<close>

definition emitted_ok :: "config \<Rightarrow> nat \<Rightarrow> run_state \<Rightarrow> bool" where
  "emitted_ok cf s rs \<longleftrightarrow>
     (\<exists>k \<le> s + 1. map cp_superstep (rs_emitted rs) = [k..<s + 1]) \<and>
     (rs_emitted rs \<noteq> [] \<longrightarrow>
        run_checkpoint_of cf (rs_state rs) (rs_seen rs) s (rs_digest rs) = Inr (last (rs_emitted rs)))"

lemma reachable_ok:
  assumes "reachable P cf s rs" and wfc: "wf_compiled (cf_graph cf)"
    and fresh: "fresh_factories (cg_factories (cf_graph cf))"
  shows "run_ok P cf rs \<and> rs_committed rs = s"
  using assms(1)
proof induction
  case (reach_start rp input rs)
  with start_run_ok [OF wfc fresh] show ?case by blast
next
  case (reach_step s rs base rs')
  then have "run_inv cf rs" by (simp add: run_ok_def)
  from superstep_ok [OF wfc this reach_step(2)] show ?case by blast
next
  case (reach_resume s rs cp rp rs')
  with resume_ok [of P cf rs s cp rp rs'] show ?case by blast
qed

lemma cp_superstep_of: "run_checkpoint_of cf st sn s d = Inr cp \<Longrightarrow> cp_superstep cp = s"
  by (auto simp: run_checkpoint_of_def emap_Inr_iff)

lemma reachable_emitted:
  assumes "reachable P cf s rs" and wfc: "wf_compiled (cf_graph cf)"
    and fresh: "fresh_factories (cg_factories (cf_graph cf))" and on: "cf_on_checkpoint cf"
  shows "emitted_ok cf s rs"
  using assms(1)
proof induction
  case (reach_start rp input rs)
  then obtain cp where "run_checkpoint_of cf (rs_state rs) (rs_seen rs) 0 (rs_digest rs) = Inr cp"
    "rs_emitted rs = [cp]" using on by (elim start_run_parts) auto
  then show ?case using cp_superstep_of by (auto simp: emitted_ok_def)
next
  case (reach_step s rs base rs')
  have "run_inv cf rs" using reachable_ok [OF reach_step(1) wfc fresh] by (simp add: run_ok_def)
  from superstep_ok [OF wfc this reach_step(2)] on obtain cp where
    cp: "run_checkpoint_of cf (rs_state rs') (rs_seen rs') (s + 1) (rs_digest rs') = Inr cp"
    and em: "rs_emitted rs' = rs_emitted rs @ [cp]" by auto
  from reach_step(3) obtain k where k: "k \<le> s + 1" "map cp_superstep (rs_emitted rs) = [k..<s + 1]"
    by (auto simp: emitted_ok_def)
  then have "map cp_superstep (rs_emitted rs') = [k..<s + 1 + 1]"
    using cp_superstep_of [OF cp] by (simp add: em)
  with k(1) cp show ?case unfolding emitted_ok_def by (auto simp: em intro!: exI [of _ k])
next
  case (reach_resume s rs cp rp rs')
  have "rs_emitted rs' = []"
    using resume_ok [OF _ _ reach_resume(2,3)] reachable_ok [OF reach_resume(1) wfc fresh] by blast
  then show ?case by (auto simp: emitted_ok_def intro!: exI [of _ "s + 1"])
qed

text \<open>A successful loop is a sequence of committed supersteps.\<close>

lemma run_loop_reachable:
  "run_loop P cf base s rs = (rs', Inr ()) \<Longrightarrow> reachable P cf s rs \<Longrightarrow>
     \<exists>rs1. reachable P cf (rs_committed rs1) rs1 \<and> s \<le> rs_committed rs1 \<and>
       superstep_once P cf base (rs_committed rs1 + 1) rs1 = (rs', Inr False)"
  if wfc: "wf_compiled (cf_graph cf)" and fresh: "fresh_factories (cg_factories (cf_graph cf))"
  using that
proof (induction P cf base s rs rule: run_loop.induct)
  case (1 P cf base s rs)
  from 1(2) obtain ra b where once: "superstep_once P cf base (s + 1) rs = (ra, Inr b)"
    by (subst (asm) run_loop.simps) (auto split: prod.splits sum.splits)
  show ?case
  proof (cases b)
    case True
    with once have t: "superstep_once P cf base (s + 1) rs = (ra, Inr True)" by simp
    have "run_loop P cf base (s + 1) ra = (rs', Inr ())"
      using 1(2) t by (subst (asm) run_loop.simps) simp
    from 1(1) [OF t [symmetric] refl refl this reach_step [OF 1(3) t] 1(4,5)] show ?thesis
      by (meson le_add1 order_trans)
  next
    case False
    from once False have "rs' = ra" using 1(2) by (subst (asm) run_loop.simps) simp
    moreover have "rs_committed rs = s" using reachable_ok [OF 1(3-5)] by blast
    ultimately show ?thesis using once False 1(3) by auto
  qed
qed

section \<open>A superstep that raises\<close>

lemma commit_superstep_Inl:
  assumes "commit_superstep P cf s rs d = (rs', Inl e)"
  shows "(rs_state rs' = rs_state rs \<and> rs_seen rs' = rs_seen rs \<and> rs_committed rs' = rs_committed rs \<and>
      rs_digest rs' = rs_digest rs \<and> rs_events rs' = rs_events rs \<and> rs_emitted rs' = rs_emitted rs) \<or>
    \<not> is_ok (gs_digest P (rs_state rs')) \<or>
    (rs_committed rs' = s \<and> \<not> is_ok (emit_checkpoint P cf rs' s (Some (task_id_of (cf_run cf) s))))"
proof -
  obtain ws ns ids seen where d: "d = (ws, ns, ids, seen)" by (cases d)
  show ?thesis
  proof (cases "validate_writes P (rs_state rs) ws s")
    case (Inl x)
    with assms d show ?thesis by (auto simp: commit_superstep_def)
  next
    case (Inr x)
    then have "validate_writes P (rs_state rs) ws s = Inr ()" by simp
    then obtain st adv where "apply_writes P (rs_state rs) ws s = (st, Inr adv)"
      using apply_writes_cases [of P "rs_state rs" ws s] by auto
    with assms d Inr show ?thesis
      by (auto simp: commit_superstep_def Let_def is_ok_def split: sum.splits)
  qed
qed

lemma superstep_error:
  assumes wfc: "wf_compiled (cf_graph cf)" and inv: "run_inv cf rs"
    and run: "superstep_once P cf base s rs = (rs', Inl e)"
  shows "(snapshot (rs_state rs') = snapshot (rs_state rs) \<and> rs_seen rs' = rs_seen rs \<and>
      rs_committed rs' = rs_committed rs \<and> rs_digest rs' = rs_digest rs \<and> rs_events rs' = rs_events rs) \<or>
    \<not> is_ok (gs_digest P (rs_state rs')) \<or>
    (rs_committed rs' = s \<and> \<not> is_ok (emit_checkpoint P cf rs' s (Some (task_id_of (cf_run cf) s))))"
proof -
  let ?cg = "cf_graph cf"
  obtain st r where prep: "prepare_tasks ?cg (rs_state rs) (gs_versions (rs_state rs)) (rs_seen rs) = (st, r)"
    by fastforce
  have fact: "map_of (cg_factories ?cg) TASKS_CHANNEL = Some (TopicChannel [])"
    using wfc by (simp add: wf_compiled_def)
  have snap: "snapshot st = snapshot (rs_state rs)"
    using prepare_tasks_state [OF _ fact prep] inv by (simp add: run_inv_def)
  let ?rs = "rs\<lparr>rs_state := st\<rparr>"
  consider "rs' = ?rs"
    | err e' where "fail_superstep P cf s ?rs (gs_versions (rs_state rs)) err = (rs', e')"
    | d where "commit_superstep P cf s ?rs d = (rs', Inl e)"
    using run prep by (auto simp: superstep_once_def Let_def split: sum.splits if_splits prod.splits)
  then show ?thesis
  proof cases
    case 1
    with snap show ?thesis by simp
  next
    case (2 err e')
    from fail_superstep_keeps [OF this] snap show ?thesis by simp
  next
    case (3 d)
    from commit_superstep_Inl [OF this] snap show ?thesis by auto
  qed
qed

end
