(* ===== verification/Recovery.thy ===== *)
theory Recovery
  imports Runs
begin

text \<open>
  A crash between the journal and the commit of a superstep: the next invocation recovers the
  journaled writes and replays them into the state the lost commit would have produced,
  without running a node again.
\<close>

section \<open>What an executed superstep is\<close>

definition in_order :: "environment \<Rightarrow> environment" where
  "in_order env = env\<lparr>env_order := (\<lambda>_ ids. ids)\<rparr>"

lemma reordered_in_order: "reordered env (in_order env)"
  by (simp add: reordered_def in_order_def)

lemma dispatch_in_order:
  assumes "distinct (map identity ts)"
  shows "validated_dispatch_order (in_order env) ts r s = Inr ts"
proof -
  have "map (\<lambda>t. the (map_of (rev (map (\<lambda>t. (identity t, t)) ts)) (identity t))) ts = ts"
    by (rule map_idI) (simp add: map_of_identity assms)
  then show ?thesis by (simp add: validated_dispatch_order_def in_order_def comp_def)
qed

lemma run_tasks_done:
  assumes "distinct (map identity tasks)" and "\<forall>t \<in> set tasks. is_pull t \<longrightarrow> t_node t \<in> set (keys seen)"
    and "wf_dict seen" and "run_tasks P cg env tasks st seen sv r s rem rs = Inr (ws, ns, ids, seen1)"
  shows "seen1 = mark_tasks cg sv tasks seen \<and> mset ns = mset (map t_node tasks) \<and>
    (\<forall>t \<in> set tasks. t_node t \<in> fst ` set (cg_nodes cg))"
proof -
  from run_tasks_agree [OF assms reordered_in_order] obtain ns' ids' where
    run: "run_tasks P cg (in_order env) tasks st seen sv r s rem rs = Inr (ws, ns', ids', seen1)"
    and m: "mset ns' = mset ns" by blast
  let ?out = "\<lambda>t. run_one P cg st (env_expires (in_order env) s) t r s rem rs"
  have fin: "seen1 = mark_tasks cg sv tasks seen" "ns' = map t_node tasks" "\<forall>t \<in> set tasks. \<not> is_fail (?out t)"
    using run dispatch_in_order [OF assms(1)] by (auto simp: run_tasks_def Let_def finish_tasks_Inr)
  have "t_node t \<in> fst ` set (cg_nodes cg)" if "t \<in> set tasks" for t
  proof (rule ccontr)
    assume "t_node t \<notin> fst ` set (cg_nodes cg)"
    then have "map_of (cg_nodes cg) (t_node t) = None" by (simp add: map_of_eq_None_iff)
    then have "is_fail (?out t)" by (simp add: run_one_def execute_node_def)
    with fin(3) that show False by blast
  qed
  with fin m show ?thesis by simp
qed

lemma prepare_versions:
  assumes "built_from fs st" and "map_of fs TASKS_CHANNEL = Some b" and "prepare_tasks cg st sv seen = (st', r)"
  shows "gs_versions st' = gs_versions st"
proof -
  from assms(1,2) obtain c items where c: "map_of (gs_channels st) TASKS_CHANNEL = Some c"
    and b: "ch_body c = TopicChannel items" by (rule built_from_tasks)
  then have "st' = put_channel st TASKS_CHANNEL (c\<lparr>ch_body := TopicChannel []\<rparr>)"
    using assms(3) by (auto simp: prepare_tasks_def Let_def chan_drain_def get_channel_def)
  with c show ?thesis by (simp add: gs_versions_put)
qed

text \<open>Writes the journal gives back as they were: no Send among them, and JSON values.\<close>

definition journalable :: "prims \<Rightarrow> channel_write list \<Rightarrow> bool" where
  "journalable P ws \<longleftrightarrow>
     list_all (\<lambda>w. stable_val P (w_value w) \<and> str_keyed (w_value w) \<and> \<not> startswith (w_chan w) RESUME_PREFIX) ws"

lemma journalable_pairs:
  assumes "journalable P ws"
  shows "list_all (stable_val P \<circ> snd) (write_pairs ws)" "list_all (str_keyed \<circ> snd) (write_pairs ws)"
    and "\<forall>(c, v) \<in> set (write_pairs ws). \<not> startswith c RESUME_PREFIX"
  using assms by (auto simp: journalable_def write_pairs_def list_all_iff)

lemma commit_checkpoint_pending:
  "commit_run_checkpoint P (rp\<lparr>rp_pending := w\<rparr>) cp t =
     emap (\<lambda>rp'. rp'\<lparr>rp_pending := w\<rparr>) (commit_run_checkpoint P rp cp t)"
  by (auto simp: commit_run_checkpoint_def ebind_def emap_def Let_def split: option.splits sum.splits prod.splits)

section \<open>Replay after a crash\<close>

lemma replay_commits:
  assumes wfc: "wf_compiled (cf_graph cf)" and inv: "run_inv cf rs"
    and prep: "prepare_tasks (cf_graph cf) (rs_state rs) (gs_versions (rs_state rs)) (rs_seen rs) = (st, Inr tasks)"
    and tasks: "run_tasks P (cf_graph cf) (cf_env cf) tasks st (rs_seen rs) (gs_versions (rs_state rs)) (cf_run cf)
      s m [] = Inr (ws, ns, ids, seen)"
    and com: "commit_superstep P cf s (rs\<lparr>rs_state := st\<rparr>) (ws, ns, ids, seen) = (rs', Inr ())"
    and jour: "journal P (rs_persist rs) (write_pairs ws) (task_id_of (cf_run cf) s) (node_path ns) = Inr rp"
    and ok: "journalable P ws"
    and w: "pw_task w = task_id_of (cf_run cf) s" "pw_path w = node_path ns" "pw_writes w = write_pairs ws"
  shows "\<exists>rs2. replay_superstep P cf s (rs\<lparr>rs_persist := rp\<lparr>rp_pending := Some w\<rparr>\<rparr>) None = (rs2, Inr ()) \<and>
    rs_state rs2 = rs_state rs' \<and> rs_seen rs2 = rs_seen rs' \<and> rs_digest rs2 = rs_digest rs' \<and>
    rs_committed rs2 = rs_committed rs' \<and> rs_persist rs2 = rs_persist rs'\<lparr>rp_pending := Some w\<rparr> \<and>
    rs_emitted rs2 = rs_emitted rs'"
proof -
  let ?cg = "cf_graph cf" and ?rp = "rp\<lparr>rp_pending := Some w\<rparr>" and ?sv = "gs_versions (rs_state rs)"
  have d: "distinct (map identity tasks)"
    using prepare_distinct [OF prep] wfc by (simp add: wf_compiled_def)
  have "set (cg_order ?cg) = set (keys (rs_seen rs))"
    using wfc inv by (simp add: wf_compiled_def run_inv_def)
  then have pulls: "\<forall>t \<in> set tasks. is_pull t \<longrightarrow> t_node t \<in> set (keys (rs_seen rs))"
    using prepare_pulls [OF prep] by blast
  have "wf_dict (rs_seen rs)" using inv by (simp add: run_inv_def)
  from run_tasks_done [OF d pulls this tasks] have finished: "seen = mark_tasks ?cg ?sv tasks (rs_seen rs) \<and> mset ns = mset (map t_node tasks) \<and>
      (\<forall>t \<in> set tasks. t_node t \<in> fst ` set (cg_nodes ?cg))" .
  then have seen: "seen = mark_tasks ?cg ?sv tasks (rs_seen rs)" and path: "node_path ns = node_path (map t_node tasks)"
    by (auto intro: node_path_mset)
  have names: "\<forall>t \<in> set tasks. 43 \<notin> set (t_node t) \<and> t_node t \<noteq> []"
    using finished wfc by (fastforce simp: wf_compiled_def list_all_iff bad_node_id_def)
  have fact: "map_of (cg_factories ?cg) TASKS_CHANNEL = Some (TopicChannel [])"
    using wfc by (simp add: wf_compiled_def)
  have sv: "gs_versions st = ?sv" using prepare_versions [OF _ fact prep] inv by (simp add: run_inv_def)
  from com obtain st1 adv digest cp rp1 rp' where
    j: "journal P (rs_persist rs) (write_pairs ws) (task_id_of (cf_run cf) s) (node_path ns) = Inr rp1" and
    app: "apply_writes P st ws s = (st1, Inr adv)" and dig: "gs_digest P st1 = Inr digest" and
    cp: "run_checkpoint_of cf st1 seen s digest = Inr cp" and
    commit: "commit_run_checkpoint P rp1 cp (Some (task_id_of (cf_run cf) s)) = Inr rp'" and
    rs': "rs' = \<lparr>rs_state = st1, rs_seen = seen, rs_persist = rp',
       rs_events = rs_events rs @ events_of cf s digest ids, rs_digest = digest, rs_committed = s,
       rs_emitted = rs_emitted rs @ (if cf_on_checkpoint cf then [cp] else []),
       rs_sunk = rs_sunk rs @ (if cf_sink cf then [(s, node_path ns, digest)] else [])\<rparr>"
    by (rule commit_superstep_Inr) simp
  have "rp1 = rp" using j jour by simp
  with commit have commit': "commit_run_checkpoint P ?rp cp (Some (task_id_of (cf_run cf) s)) = Inr (rp'\<lparr>rp_pending := Some w\<rparr>)"
    by (simp add: commit_checkpoint_pending)
  have "pw_path w = node_path (map t_node tasks)" using w(2) path by simp
  from full_plan [of ?rp w "cf_run cf" s tasks, OF _ w(1) this names] journalable_pairs(3) [OF ok] w(3) obtain plan where
    plan: "pending_replay_plan ?rp tasks (cf_run cf) s = Inr plan" "pl_full plan" by auto
  have tsk: "pl_task plan = task_id_of (cf_run cf) s"
    using plan w(1) by (auto simp: pending_replay_plan_def ebind_Inr_iff Let_def split: if_splits prod.splits)
  have "apply_writes P st (indexed_writes (pw_path w) (pw_writes w)) s = (st1, Inr adv)"
    using app by (rule apply_writes_values [rotated]) (simp add: w(3))
  then have rep: "replay_pending P ?cg ?rp st (rs_seen rs) tasks (cf_run cf) s = Inr (st1, seen)"
    using w(1,2) path by (simp add: replay_pending_def sv seen)
  show ?thesis
    using prep plan rep dig cp commit'
    by (simp add: replay_superstep_def Let_def lift_py_def give_resume_def emit_checkpoint_def tsk rs')
qed

text \<open>The journaled record, and what the resuming run makes of it.\<close>

lemma crash_recovery:
  assumes wfc: "wf_compiled (cf_graph cf)" and inv: "run_inv cf rs"
    and prep: "prepare_tasks (cf_graph cf) (rs_state rs) (gs_versions (rs_state rs)) (rs_seen rs) = (st, Inr tasks)"
    and tasks: "run_tasks P (cf_graph cf) (cf_env cf) tasks st (rs_seen rs) (gs_versions (rs_state rs)) (cf_run cf)
      s m [] = Inr (ws, ns, ids, seen)"
    and com: "commit_superstep P cf s (rs\<lparr>rs_state := st\<rparr>) (ws, ns, ids, seen) = (rs', Inr ())"
    and jour: "journal P (rs_persist rs) (write_pairs ws) (task_id_of (cf_run cf) s) (node_path ns) = Inr rp"
    and ok: "journalable P ws"
    and thread: "rp_thread (rs_persist rs) = Some thread" "safe_id P thread = Inr path"
    and disk: "wf_store P (rp_store (rs_persist rs))" "tf_pending (read_thread (rp_store (rs_persist rs)) path) = []"
    and rec: "rp_parent (rs_persist rs) = Some (cr_id record)" "cr_parent record \<noteq> Some (cr_id record)"
  shows "\<exists>w rs2. pending_after P (rp_store rp) thread record = Inr (rp_store rp, Some w) \<and>
    replay_superstep P cf s (rs\<lparr>rs_persist := rp\<lparr>rp_pending := Some w\<rparr>\<rparr>) None = (rs2, Inr ()) \<and>
    rs_state rs2 = rs_state rs' \<and> rs_seen rs2 = rs_seen rs' \<and> rs_digest rs2 = rs_digest rs' \<and>
    rs_committed rs2 = rs_committed rs' \<and> rs_emitted rs2 = rs_emitted rs' \<and>
    rp_store (rs_persist rs2) = rp_store (rs_persist rs')"
proof -
  from journal_recovered [OF disk(1) thread rec(1) disk(2) journalable_pairs(2) [OF ok] rec(2) jour] obtain w where
    p: "pending_after P (rp_store rp) thread record = Inr (rp_store rp, Some w)" and
    w: "pw_task w = task_id_of (cf_run cf) s" "pw_path w = node_path ns"
       "etraverse (\<lambda>(c, v). emap (Pair c) (disk_val P v)) (write_pairs ws) = Inr (pw_writes w)" by blast
  have "pw_writes w = write_pairs ws" using w(3) stable_pairs [OF journalable_pairs(1) [OF ok]] by simp
  from replay_commits [OF wfc inv prep tasks com jour ok w(1,2) this] p show ?thesis by fastforce
qed

end
