(* ===== verification/Samples2.thy ===== *)
theory Samples2
  imports Samples Recovery
begin

text \<open>
  Two further concrete runs: a superstep in which one of the two nodes raises, and a superstep
  whose writes are journaled in a thread file before it commits.
\<close>

section \<open>A node that raises\<close>

definition node_raise :: node_fn where
  "node_raise i = NRaise (ValueError [])"

definition fail_config :: config where
  "fail_config = demo_config\<lparr>cf_graph := graph_of node_raise node_b, cf_on_checkpoint := False\<rparr>"

lemma start_of: "start_run demo_prims (demo_config\<lparr>cf_graph := graph_of f g, cf_on_checkpoint := False\<rparr>) demo_persist [] =
    Inr (demo_start\<lparr>rs_emitted := []\<rparr>)"
proof -
  have "seed_state demo_prims (demo_config\<lparr>cf_graph := graph_of f g, cf_on_checkpoint := c\<rparr>) [] = Inr (demo_state 0 [])" for c
    by (simp add: seed_state_def demo_config_def graph_of_def trigger_writes_def applied_def
      commit_eval name_eval GraphState_def demo_state_def)
  then show ?thesis
  by (simp add: start_run_def lift_py_def demo_digest emit_checkpoint_def run_checkpoint_of_def
      demo_checkpoint demo_emit demo_start_def demo_checkpoint_at_def events_of_def initial_seen_def)
    (simp add: graph_of_def)
qed

text \<open>The failure: \<open>b\<close> succeeded, \<open>a\<close> raised.\<close>

definition fail_of :: failure where
  "fail_of = \<lparr>fl_error = NodeExecutionError [114] (Suc 0) [97], fl_node = [97],
              fl_seq = 0, fl_succeeded = [([98], 0)],
              fl_writes = [ChannelWrite [98] [108] (PInt 2) 0],
              fl_pulls = [[98]], fl_sends = []\<rparr>"
lemma fail_tasks: "run_tasks demo_prims (graph_of node_raise node_b) demo_env demo_tasks (demo_state 0 []) [([97], []), ([98], [])]
     (gs_versions (demo_state 0 [])) [114] 1 m [] = Inl (StepFailed fail_of)"
  by (simp add: run_eval demo_env_def demo_tasks_def demo_state_def demo_writes_def demo_seen_def
     gs_versions_def name_eval node_raise_def graph_of_def step_failure_def fail_of_def)

lemma prepare_of: "prepare_tasks (graph_of f g) (demo_state 0 []) (gs_versions (demo_state 0 [])) [([97], []), ([98], [])] =
     (demo_state 0 [], Inr demo_tasks)"
  by (simp add: graph_of_def demo_state_def demo_tasks_def demo_seen_def prepare_tasks_def gs_versions_def
      get_channel_def chan_drain_def node_ready_def dget_def put_channel_def name_eval)

lemma fail_superstep_once: "superstep_once demo_prims fail_config 0 1 (demo_start\<lparr>rs_emitted := []\<rparr>) = 
   (demo_start\<lparr>rs_emitted := []\<rparr>, Inl (RunError (NodeExecutionError [114] (Suc 0) [97])))"
proof -
  have st: "rs_state demo_start = demo_state 0 []" "rs_seen demo_start = [([97], []), ([98], [])]"
    "demo_start\<lparr>rs_state := demo_state 0 []\<rparr> = demo_start" "demo_tasks \<noteq> []" "rs_persist demo_start = demo_persist"
    by (simp_all add: demo_start_def demo_tasks_def)
  have "journal demo_prims demo_persist w t p = Inr demo_persist" for w t p
    by (simp add: journal_def demo_persist_def)
  then have f [unfolded fail_config_def]: "fail_superstep demo_prims fail_config 1 (demo_start\<lparr>rs_emitted := []\<rparr>) sv (StepFailed fail_of) = (demo_start\<lparr>rs_emitted := []\<rparr>, RunError (NodeExecutionError [114] (Suc 0) [97]))" for sv
    by (simp add: fail_superstep_def persist_failure_remains_def fail_config_def Let_def st fail_of_def demo_start_def demo_persist_def
       del: One_nat_def)
  have r: "demo_start\<lparr>rs_emitted := [], rs_state := demo_state 0 []\<rparr> = demo_start\<lparr>rs_emitted := []\<rparr>"
    by (simp add: demo_start_def)
  show ?thesis using f by (simp add: superstep_once_def st r prepare_of fail_tasks Let_def fail_config_def del: One_nat_def)
qed

section \<open>A run with a thread file\<close>

definition durable_persist :: run_persistence where
  "durable_persist = \<lparr>rp_store = [], rp_thread = Some [116], rp_parent = Some [112], rp_pending = None\<rparr>"

definition durable_start :: run_state where
  "durable_start = demo_start\<lparr>rs_persist := durable_persist\<rparr>"

definition durable_path :: pystr where
  "durable_path = [116, 45] @ replicate 16 48"

definition durable_record :: pending_write where
  "durable_record = \<lparr>pw_thread = [116], pw_checkpoint = Some [112], pw_task = task_id_of [114] 1,
     pw_path = [97, 43, 98], pw_writes = [([108], PInt 1), ([108], PInt 2)]\<rparr>"

definition durable_journaled :: run_persistence where
  "durable_journaled = durable_persist\<lparr>rp_store := [(durable_path, \<lparr>tf_checkpoints = [], tf_pending = [durable_record]\<rparr>)]\<rparr>"

lemma demo_alnum [simp]: "alnum demo_prims c" by (simp add: demo_prims_def)

lemma hex_zeros: "hex (replicate n 0) = replicate (2 * n) 48"
  by (induction n) (simp_all add: hex_def hex_byte_def hex_digit_def)

lemma durable_safe: "safe_id demo_prims [116] = Inr durable_path"
  by (simp add: safe_id_def encode_utf8_def utf8_cp_def durable_path_def hex_zeros)

lemma durable_journal:
  "journal demo_prims durable_persist (write_pairs demo_writes) (task_id_of [114] 1) (node_path [[97], [98]]) = Inr durable_journaled"
  by (simp add: journal_def durable_persist_def put_writes_def durable_safe journal_at_def read_thread_def
      empty_thread_def write_thread_def serialize_thread_def disk_pending_def disk_val_def durable_record_def write_pairs_def demo_writes_def
      enc_pending_def enc_str_def utf8_cp_def enc_opt_def task_id_of_def durable_journaled_def node_path_def nat_str.simps)

definition demo_stored :: run_checkpoint where
  "demo_stored = (demo_checkpoint_at 1 1 [PInt 1, PInt 2] demo_seen)\<lparr>cp_channels :=
     [(TASKS_CHANNEL, [(ITEMS, PList []), (VERSION, PInt 0)]), (trigger_channel [97], [(VERSION, PInt 1)]),
      (trigger_channel [98], [(VERSION, PInt 1)]), ([108], [(ITEMS, PList [PInt 1, PInt 2]), (VERSION, PInt 1)])]\<rparr>"
lemma demo_disk_checkpoint:
  "disk_checkpoint demo_prims (demo_checkpoint_at 1 1 [PInt 1, PInt 2] demo_seen) = Inr demo_stored"
  "disk_checkpoint demo_prims demo_stored = Inr demo_stored"
  by (simp_all add: disk_checkpoint_def demo_checkpoint_at_def demo_snaps_def demo_seen_def disk_dict_def disk_val_def
      name_eval snap_keys demo_stored_def)

lemma disk_pending_durable: "disk_pending demo_prims durable_record = Inr durable_record"
  by (simp add: disk_pending_def durable_record_def disk_val_def)
lemma enc_durable: "enc_pending durable_record"
  by (simp add: enc_pending_def durable_record_def enc_str_def utf8_cp_def enc_opt_def task_id_of_def nat_str.simps)
lemma demo_next_id: "next_checkpoint_id (demo_checkpoint_at 1 v items sn) [] = [48,48,48,48,48,49,45] @ replicate 12 48"
proof -
  have "split_on 58 demo_hex = [u ''sha256'', replicate 64 48]"
    using split_on_append [of 58 "u ''sha256''" "replicate 64 48"] by (simp add: demo_hex_def hex_zeros split_on_no_sep u_def)
  moreover have "replicate 5 48 = [48, 48, 48, 48, 48 :: nat]" by (simp add: eval_nat_numeral)
  ultimately show ?thesis
  by (simp add: next_checkpoint_id_def demo_checkpoint_at_def pad6_def nat_str.simps)
qed
definition demo_row :: "run_checkpoint \<Rightarrow> ckpt_record" where
  "demo_row cp = \<lparr>cr_thread = [116], cr_id = [48, 48, 48, 48, 48, 49, 45] @ replicate 12 48, cr_parent = Some [112],
     cr_checkpoint = cp, cr_metadata = [(u ''graph_id'', PStr [103]), (u ''graph_run_id'', PStr [114])]\<rparr>"

lemma stored_record:
  "disk_record demo_prims (demo_row (demo_checkpoint_at 1 1 [PInt 1, PInt 2] demo_seen)) = Inr (demo_row demo_stored)"
  "disk_record demo_prims (demo_row demo_stored) = Inr (demo_row demo_stored)"
  by (simp_all add: demo_row_def disk_record_def demo_disk_checkpoint disk_dict_def disk_val_def u_def del: One_nat_def)

lemma utf8_zeros: "utf8 (replicate n 48) = Some (replicate n 48)"
  by (induction n) (simp_all add: utf8_cp_def)
lemma stored_enc: "enc_record (demo_row demo_stored)"
  by (simp add: demo_row_def enc_record_def enc_str_def enc_opt_def enc_dict_def demo_stored_def demo_checkpoint_at_def
      demo_hex_def hex_zeros utf8_zeros utf8_cp_def name_eval snap_keys demo_seen_def)

lemma durable_commit:
  "\<exists>rp. commit_run_checkpoint demo_prims durable_journaled (demo_checkpoint_at 1 1 [PInt 1, PInt 2] demo_seen)
     (Some (task_id_of [114] 1)) = Inr rp"
proof -
  let ?cp = "demo_checkpoint_at 1 1 [PInt 1, PInt 2] demo_seen"
  have keys: "cp_graph (demo_checkpoint_at n v i sn) = [103]" "cp_run (demo_checkpoint_at n v i sn) = [114]" for n v i sn
    by (simp_all add: demo_checkpoint_at_def)
  have "put_run_checkpoint demo_prims (rp_store durable_journaled) [116] ?cp None (Some [112])
      [(u ''graph_id'', PStr [103]), (u ''graph_run_id'', PStr [114])] =
    Inr ([(durable_path, \<lparr>tf_checkpoints = [demo_row demo_stored], tf_pending = [durable_record]\<rparr>)], demo_row ?cp)"
    using stored_record [unfolded demo_row_def] stored_enc [unfolded demo_row_def]
    by (simp add: durable_journaled_def put_run_checkpoint_def durable_safe append_run_checkpoint_def Let_def
        read_thread_def find_record_def write_thread_def serialize_thread_def dget_def demo_next_id demo_row_def
        disk_pending_durable enc_durable del: One_nat_def)
  moreover have "\<exists>s. clear_pending_writes demo_prims
      [(durable_path, \<lparr>tf_checkpoints = [demo_row demo_stored], tf_pending = [durable_record]\<rparr>)] [116]
      (Some (task_id_of [114] 1)) = Inr s"
    by (simp add: clear_pending_writes_def durable_safe clear_at_def Let_def read_thread_def dget_def write_thread_def
        serialize_thread_def stored_record stored_enc durable_record_def del: One_nat_def)
  ultimately show ?thesis
    by (auto simp: commit_run_checkpoint_def durable_journaled_def durable_persist_def keys demo_row_def Let_def)
qed

lemma durable_superstep:
  "\<exists>rs'. commit_superstep demo_prims demo_config 1 durable_start (demo_writes, [[97], [98]], [([97], 0), ([98], 0)], demo_seen) =
     (rs', Inr ())"
proof -
  obtain rp where "commit_run_checkpoint demo_prims durable_journaled (demo_checkpoint_at 1 1 [PInt 1, PInt 2] demo_seen)
     (Some (task_id_of [114] 1)) = Inr rp" using durable_commit by blast
  then show ?thesis
    by (simp add: commit_superstep_def durable_start_def demo_start_def demo_validate demo_apply Let_def demo_digest
        emit_checkpoint_def run_checkpoint_of_def demo_checkpoint durable_journal demo_checkpoint_at_def events_of_def
        del: One_nat_def)
qed

lemma durable_simps [simp]:
  "rs_state durable_start = demo_state 0 []" "rs_seen durable_start = [([97], []), ([98], [])]"
  "rs_persist durable_start = durable_persist" "durable_start\<lparr>rs_state := demo_state 0 []\<rparr> = durable_start"
  "rp_store durable_persist = []" "rp_thread durable_persist = Some [116]" "rp_parent durable_persist = Some [112]"
  by (simp_all add: durable_start_def demo_start_def durable_persist_def)

lemma demo_compiled: "compiled_from (builder_of f g) (cf\<lparr>cf_graph := graph_of f g\<rparr>)"
  using graph_of_compiles [of f g] demo_channels [of f g] by (auto simp: compiled_from_def)

lemma demo_config_graph: "demo_config\<lparr>cf_graph := graph_of node_a node_b\<rparr> = demo_config"
  by (simp add: demo_config_def demo_graph_def)

lemma demo_config_compiled: "compiled_from demo_builder demo_config"
  using demo_compiled [of node_a node_b demo_config] by (simp add: demo_config_graph demo_builder_def)

lemma durable_inv: "run_inv demo_config durable_start"
  using start_run_ok [OF compiled_fromD(1,2) [OF demo_config_compiled] demo_starts]
  by (simp add: run_ok_def run_inv_def durable_start_def)

lemma durable_facts:
  "journalable demo_prims demo_writes" "wf_store demo_prims []" "tf_pending (read_thread [] durable_path) = []"
  by (simp_all add: journalable_def demo_writes_def stable_val_def disk_val_def RESUME_PREFIX_def startswith_def u_def
      wf_store_def read_thread_def empty_thread_def)

lemma demo_reachable: "reachable demo_prims demo_config 0 demo_start" "reachable demo_prims demo_config 1 demo_final"
proof -
  show start: "reachable demo_prims demo_config 0 demo_start" using demo_starts by (rule reach_start)
  from reach_step [OF start] demo_superstep show "reachable demo_prims demo_config 1 demo_final" by simp
qed

end
