(* ===== verification/CompilerSpec.thy ===== *)
theory CompilerSpec
  imports Samples2
begin

text \<open>
  Which graphs \<open>compile\<close> accepts, said of the builder's declarations alone: the sequence of checks
  in the code is equivalent to the declarative \<open>valid_graph\<close>. And what a compiled graph then is.
\<close>

section \<open>Valid graphs\<close>

definition node_ids :: "builder \<Rightarrow> pystr set" where
  "node_ids b = fst ` set (b_nodes b)"

text \<open>What a target depends on, and the walk from the start, which also follows a branch to the end.\<close>

definition graph_deps :: "builder \<Rightarrow> (pystr \<times> pystr) set" where
  "graph_deps b = set (b_edges b) \<union> {(s, t). \<exists>ss. (ss, t) \<in> set (b_join_edges b) \<and> s \<in> set ss} \<union>
     {(br_source br, d) | br d. br \<in> set (b_branches b) \<and> d \<in> snd ` set (br_map br) \<and> d \<noteq> END}"

definition graph_walk :: "builder \<Rightarrow> (pystr \<times> pystr) set" where
  "graph_walk b = graph_deps b \<union> {(br_source br, END) | br. br \<in> set (b_branches b) \<and> END \<in> snd ` set (br_map br)}"

definition valid_names :: "builder \<Rightarrow> bool" where
  "valid_names b \<longleftrightarrow> distinct (map fst (b_channels b)) \<and> distinct (map fst (b_nodes b)) \<and>
     (\<forall>n \<in> fst ` set (b_channels b). n \<noteq> [] \<and> \<not> is_reserved n) \<and> (\<forall>n \<in> node_ids b. \<not> bad_node_id n)"

definition valid_edge :: "pystr set \<Rightarrow> pystr \<times> pystr \<Rightarrow> bool" where
  "valid_edge ns = (\<lambda>(s, t). s \<in> insert START ns \<and> t \<in> insert END ns \<and> (s, t) \<noteq> (START, END))"

definition valid_join :: "pystr set \<Rightarrow> pystr list \<times> pystr \<Rightarrow> bool" where
  "valid_join ns = (\<lambda>(ss, t). 2 \<le> length ss \<and> distinct ss \<and> set ss \<subseteq> ns \<and> t \<in> ns)"

definition valid_branch :: "pystr set \<Rightarrow> branch_spec \<Rightarrow> bool" where
  "valid_branch ns br \<longleftrightarrow> br_source br \<in> insert START ns \<and> snd ` set (br_map br) \<subseteq> insert END ns"

definition valid_graph :: "builder \<Rightarrow> bool \<Rightarrow> bool \<Rightarrow> bool" where
  "valid_graph b allow_orphans allow_cycles \<longleftrightarrow> valid_names b \<and>
     (\<forall>e \<in> set (b_edges b). valid_edge (node_ids b) e) \<and>
     (\<forall>j \<in> set (b_join_edges b). valid_join (node_ids b) j) \<and>
     (\<forall>br \<in> set (b_branches b). valid_branch (node_ids b) br) \<and> distinct (map br_source (b_branches b)) \<and>
     (START \<in> fst ` set (b_edges b) \<or> START \<in> br_source ` set (b_branches b)) \<and>
     (allow_cycles \<or> acyclic (graph_deps b \<inter> node_ids b \<times> node_ids b)) \<and>
     (\<forall>s s' t. (s, t) \<in> set (b_edges b) \<and> (s', t) \<in> set (b_edges b) \<and> t \<noteq> END \<longrightarrow> s = s') \<and>
     (allow_orphans \<or> node_ids b \<subseteq> (graph_walk b)\<^sup>+ `` {START}) \<and>
     (allow_cycles \<or> (START, END) \<in> (graph_walk b)\<^sup>+)"

section \<open>Each check\<close>

lemma check_channels_iff:
  "check_channels d cs = Inr d' \<longleftrightarrow> d' = d @ cs \<and> distinct (map fst cs) \<and>
     (\<forall>n \<in> fst ` set cs. n \<noteq> [] \<and> \<not> is_reserved n \<and> \<not> has_key d n)"
proof (induction d cs rule: check_channels.induct)
  case (2 d n f cs)
  have "\<not> has_key d n \<Longrightarrow> dset n f d = d @ [(n, f)]" by (induction d) (auto simp: has_key_def)
  then show ?case using 2 by (auto simp: has_key_def)
qed auto

lemma collect_nodes_iff:
  "collect_nodes d ns = Inr d' \<longleftrightarrow> d' = d @ ns \<and> distinct (map fst ns) \<and> (\<forall>n \<in> fst ` set ns. \<not> has_key d n)"
proof (induction d ns rule: collect_nodes.induct)
  case (2 d n f ns)
  have "\<not> has_key d n \<Longrightarrow> dset n f d = d @ [(n, f)]" by (induction d) (auto simp: has_key_def)
  then show ?case using 2 by (auto simp: has_key_def)
qed auto

lemma check_edges_iff:
  "(\<exists>es'. check_edges nodes acc es = Inr es') \<longleftrightarrow>
     (\<forall>(s, t) \<in> set es. s \<noteq> END \<and> t \<noteq> START \<and> (s, t) \<noteq> (START, END) \<and>
        known_endpoint nodes s \<and> known_endpoint nodes t)"
  by (induction nodes acc es rule: check_edges.induct) auto

lemma check_joins_iff:
  "(\<exists>js'. check_joins nodes js = Inr js') \<longleftrightarrow>
     (\<forall>(ss, t) \<in> set js. 2 \<le> length ss \<and> distinct ss \<and> set ss \<subseteq> set nodes \<and> t \<in> set nodes \<and>
        t \<noteq> START \<and> t \<noteq> END)"
proof (induction nodes js rule: check_joins.induct)
  case (2 nodes ss t js)
  have f: "first_unknown nodes (ss @ [t]) = None \<longleftrightarrow> set ss \<subseteq> set nodes \<and> t \<in> set nodes"
    by (auto simp: first_unknown_def find_None_iff2)
  show ?case using 2 f by (cases "first_unknown nodes (ss @ [t])") (auto simp: emap_Inr_iff)
qed simp

lemma check_branches_iff:
  "check_branches nodes acc bs = Inr acc' \<longleftrightarrow> acc' = acc @ map (\<lambda>b. (br_source b, b)) bs \<and>
     distinct (map br_source bs) \<and>
     (\<forall>b \<in> set bs. (br_source b = START \<or> br_source b \<in> set nodes) \<and> \<not> has_key acc (br_source b) \<and>
        (\<forall>d \<in> snd ` set (br_map b). d = END \<or> d \<in> set nodes))"
proof (induction nodes acc bs rule: check_branches.induct)
  case (2 nodes acc b bs)
  have f: "List.find (\<lambda>d. d \<noteq> END \<and> d \<notin> set nodes) (map snd (br_map b)) = None \<longleftrightarrow>
      (\<forall>d \<in> snd ` set (br_map b). d = END \<or> d \<in> set nodes)"
    by (auto simp: find_None_iff2)
  have d: "\<not> has_key acc (br_source b) \<Longrightarrow> dset (br_source b) b acc = acc @ [(br_source b, b)]"
    by (induction acc) (auto simp: has_key_def)
  show ?case
  proof (cases "(br_source b = START \<or> br_source b \<in> set nodes) \<and> \<not> has_key acc (br_source b) \<and>
      (\<forall>d \<in> snd ` set (br_map b). d = END \<or> d \<in> set nodes)")
    case True
    with f have none: "List.find (\<lambda>d. d \<noteq> END \<and> d \<notin> set nodes) (map snd (br_map b)) = None" by blast
    from True have p: "\<not> (br_source b \<noteq> START \<and> br_source b \<notin> set nodes)" "\<not> has_key acc (br_source b)" by blast+
    have "check_branches nodes acc (b # bs) = check_branches nodes (acc @ [(br_source b, b)]) bs"
      unfolding check_branches.simps d [OF p(2)] none using p by (simp only: if_False option.case)
    moreover note 2 [OF p none, unfolded d [OF p(2)]]
    moreover have "has_key (acc @ [(br_source b, b)]) n \<longleftrightarrow> has_key acc n \<or> n = br_source b" for n
      by (auto simp: has_key_def)
    moreover have "(\<forall>x \<in> set (b # bs). Q x) \<longleftrightarrow> Q b \<and> (\<forall>x \<in> set bs. Q x)" for Q by simp
    moreover have "distinct (map br_source (b # bs)) \<longleftrightarrow>
        distinct (map br_source bs) \<and> (\<forall>c \<in> set bs. br_source c \<noteq> br_source b)" by (auto simp: image_iff)
    ultimately show ?thesis using True unfolding list.map append_assoc append.simps by (simp only:) blast
  next
    case False
    then have "\<not> (\<exists>x. check_branches nodes acc (b # bs) = Inr x)"
      using f by (cases "List.find (\<lambda>d. d \<noteq> END \<and> d \<notin> set nodes) (map snd (br_map b))") auto
    then have "check_branches nodes acc (b # bs) \<noteq> Inr acc'" by blast
    with False show ?thesis unfolding list.set ball_simps by blast
  qed
qed auto

lemma topological_order_iff:
  "distinct nodes \<Longrightarrow> (\<exists>order. topological_order nodes edges c = Inr order) \<longleftrightarrow>
     c \<or> acyclic (set (internal_edges nodes edges))"
  using kahn_order_spec(4) [of nodes edges] by (auto simp: topological_order_def Let_def)

lemma fan_in_distinct:
  assumes "distinct es"
  shows "length (filter (\<lambda>e. snd e = t) es) \<le> 1 \<longleftrightarrow> (\<forall>s s'. (s, t) \<in> set es \<and> (s', t) \<in> set es \<longrightarrow> s = s')"
proof -
  have d: "distinct (filter (\<lambda>e. snd e = t) es)" using assms by simp
  have "length (filter (\<lambda>e. snd e = t) es) \<le> 1 \<longleftrightarrow> (\<forall>x \<in> set (filter (\<lambda>e. snd e = t) es). \<forall>y \<in> set (filter (\<lambda>e. snd e = t) es). x = y)"
    unfolding distinct_card [OF d, symmetric] by (simp only: One_nat_def card_le_Suc0_iff_eq [OF finite_set])
  then show ?thesis by auto
qed

lemma check_fan_in_iff:
  assumes "distinct edges"
  shows "check_fan_in edges = Inr () \<longleftrightarrow>
    (\<forall>s s' t. (s, t) \<in> set edges \<and> (s', t) \<in> set edges \<and> t \<noteq> END \<longrightarrow> s = s')"
  unfolding check_fan_in_Inr fan_in_distinct [OF assms] by blast

section \<open>The declarations and the compiler's tables\<close>

lemma set_dependency_edges:
  assumes "set edges = set (b_edges b)"
  shows "set (dependency_edges edges (map (\<lambda>(ss, t). (sort ss, t)) (b_join_edges b))
    (map (\<lambda>b. (br_source b, b)) (b_branches b))) = graph_deps b"
  by (auto simp: dependency_edges_def graph_deps_def assms destinations_def split: prod.splits) force+

lemma set_walk_edges:
  assumes "set deps = graph_deps b"
  shows "set (walk_edges deps (map (\<lambda>b. (br_source b, b)) (b_branches b))) = graph_walk b"
  by (auto simp: walk_edges_def graph_walk_def assms)

lemma walk_never_from_end:
  assumes "\<forall>e \<in> set (b_edges b). valid_edge (node_ids b) e" and "\<forall>j \<in> set (b_join_edges b). valid_join (node_ids b) j"
    and "\<forall>br \<in> set (b_branches b). valid_branch (node_ids b) br" and "valid_names b"
  shows "(END, t) \<notin> graph_walk b"
proof -
  have "END \<notin> node_ids b" using assms(4) by (auto simp: valid_names_def bad_node_id_def)
  with assms(1-3) START_neq_END show ?thesis
    by (fastforce simp: graph_walk_def graph_deps_def valid_edge_def valid_join_def valid_branch_def)
qed

section \<open>Acceptance\<close>

text \<open>The checks of single declarations, and the tables they build.\<close>

definition valid_parts :: "builder \<Rightarrow> bool" where
  "valid_parts b \<longleftrightarrow> valid_names b \<and> (\<forall>e \<in> set (b_edges b). valid_edge (node_ids b) e) \<and>
     (\<forall>j \<in> set (b_join_edges b). valid_join (node_ids b) j) \<and>
     (\<forall>br \<in> set (b_branches b). valid_branch (node_ids b) br) \<and> distinct (map br_source (b_branches b))"

definition part_tables ::
    "builder \<Rightarrow> (pystr, chan_body) dict \<Rightarrow> (pystr, node_fn) dict \<Rightarrow> (pystr \<times> pystr) list
      \<Rightarrow> (pystr list \<times> pystr) list \<Rightarrow> (pystr, branch_spec) dict \<Rightarrow> bool" where
  "part_tables b declared nodes edges joins branches \<longleftrightarrow>
     check_channels [] (b_channels b) = Inr declared \<and> check_node_ids (b_nodes b) = Inr () \<and>
     collect_nodes [] (b_nodes b) = Inr nodes \<and> check_edges (keys nodes) [] (b_edges b) = Inr edges \<and>
     check_joins (keys nodes) (b_join_edges b) = Inr joins \<and>
     check_branches (keys nodes) [] (b_branches b) = Inr branches"

lemma bad_ids: "bad_node_id START" "bad_node_id END"
  by (simp_all add: bad_node_id_def)

lemma part_tables_iff:
  "(\<exists>declared nodes edges joins branches. part_tables b declared nodes edges joins branches) \<longleftrightarrow> valid_parts b"
proof -
  let ?ns = "map fst (b_nodes b)"
  have ns: "set ?ns = node_ids b" by (simp add: node_ids_def)
  have nodes: "(\<exists>nodes. collect_nodes [] (b_nodes b) = Inr nodes \<and> Q nodes) \<longleftrightarrow> distinct ?ns \<and> Q (b_nodes b)" for Q
    by (auto simp: collect_nodes_iff)
  have "(\<exists>declared nodes edges joins branches. part_tables b declared nodes edges joins branches) \<longleftrightarrow>
      (\<exists>declared. check_channels [] (b_channels b) = Inr declared) \<and> check_node_ids (b_nodes b) = Inr () \<and>
      distinct ?ns \<and> (\<exists>edges. check_edges ?ns [] (b_edges b) = Inr edges) \<and>
      (\<exists>joins. check_joins ?ns (b_join_edges b) = Inr joins) \<and>
      (\<exists>branches. check_branches ?ns [] (b_branches b) = Inr branches)"
    unfolding part_tables_def using nodes by (auto simp: collect_nodes_iff)
  also have "\<dots> \<longleftrightarrow> valid_parts b"
  proof (cases "\<forall>n \<in> node_ids b. \<not> bad_node_id n")
    case True
    then have "START \<notin> node_ids b" "END \<notin> node_ids b" using bad_ids by blast+
    then have edge: "(s \<noteq> END \<and> t \<noteq> START \<and> (s, t) \<noteq> (START, END) \<and> known_endpoint ?ns s \<and> known_endpoint ?ns t) \<longleftrightarrow>
        valid_edge (node_ids b) (s, t)" and
      join: "(2 \<le> length ss \<and> distinct ss \<and> set ss \<subseteq> set ?ns \<and> t \<in> set ?ns \<and> t \<noteq> START \<and> t \<noteq> END) \<longleftrightarrow>
        valid_join (node_ids b) (ss, t)" and
      branch: "((br_source br = START \<or> br_source br \<in> set ?ns) \<and> \<not> has_key [] (br_source br) \<and>
        (\<forall>d \<in> snd ` set (br_map br). d = END \<or> d \<in> set ?ns)) \<longleftrightarrow> valid_branch (node_ids b) br" for s t ss br
      unfolding valid_edge_def known_endpoint_def valid_join_def valid_branch_def ns by (auto simp: has_key_def)
    have ids: "(\<forall>(n, f) \<in> set (b_nodes b). \<not> bad_node_id n) \<longleftrightarrow> (\<forall>n \<in> node_ids b. \<not> bad_node_id n)"
      by (auto simp: node_ids_def)
    have chans: "(\<forall>n \<in> fst ` set (b_channels b). n \<noteq> [] \<and> \<not> is_reserved n \<and> \<not> has_key [] n) \<longleftrightarrow>
        (\<forall>n \<in> fst ` set (b_channels b). n \<noteq> [] \<and> \<not> is_reserved n)" by (simp add: has_key_def)
    show ?thesis
      unfolding check_channels_iff check_edges_iff check_joins_iff check_branches_iff check_node_ids_Inr edge join
        branch ids chans valid_parts_def valid_names_def by auto
  next
    case False
    then show ?thesis by (auto simp: check_node_ids_Inr valid_parts_def valid_names_def node_ids_def)
  qed
  finally show ?thesis .
qed

lemma checked_tables:
  "checked b ao ac declared nodes edges joins branches order \<Longrightarrow> part_tables b declared nodes edges joins branches"
  by (simp add: checked_def part_tables_def)

lemma part_tables_valid: "part_tables b declared nodes edges joins branches \<Longrightarrow> valid_parts b"
  by (rule iffD1 [OF part_tables_iff]) (intro exI)

lemma part_tables_are:
  assumes "part_tables b declared nodes edges joins branches"
  shows "nodes = b_nodes b" "distinct (keys nodes)" "set edges = set (b_edges b)" "distinct edges"
    "joins = map (\<lambda>(ss, t). (sort ss, t)) (b_join_edges b)" "branches = map (\<lambda>b. (br_source b, b)) (b_branches b)"
  using assms check_edges_spec [of "keys nodes" "[]" "b_edges b" edges]
    check_joins_spec [of "keys nodes" "b_join_edges b" joins]
  unfolding part_tables_def collect_nodes_iff check_branches_iff by auto

lemma checked_iff:
  assumes tables: "part_tables b declared nodes edges joins branches" and parts: "valid_parts b"
  shows "(\<exists>order. checked b ao ac declared nodes edges joins branches order) \<longleftrightarrow> valid_graph b ao ac"
proof -
  note t = part_tables_are [OF tables]
  let ?deps = "dependency_edges edges joins branches"
  have deps: "set ?deps = graph_deps b" using set_dependency_edges [OF t(3)] by (simp only: t(5,6))
  have walk: "set (walk_edges ?deps branches) = graph_walk b" using set_walk_edges [OF deps] by (simp only: t(6))
  have "(END, x) \<notin> graph_walk b" for x
    by (rule walk_never_from_end) (use parts in \<open>simp_all add: valid_parts_def\<close>)
  then have live: "live_edges (walk_edges ?deps branches) = graph_walk b"
    unfolding live_edges_def walk by auto
  have ids: "set (keys nodes) = node_ids b" by (simp add: t(1) node_ids_def)
  have internal: "set (internal_edges (keys nodes) ?deps) = graph_deps b \<inter> node_ids b \<times> node_ids b"
    unfolding internal_edges_def ids set_filter deps by auto
  have entry: "has_key branches START \<longleftrightarrow> START \<in> br_source ` set (b_branches b)"
    by (simp add: t(6) has_key_def image_image)
  have names: "fst ` set nodes = node_ids b" using ids by simp
  have "(\<exists>order. checked b ao ac declared nodes edges joins branches order) \<longleftrightarrow>
      (START \<in> fst ` set edges \<or> has_key branches START) \<and>
      (\<exists>order. topological_order (keys nodes) ?deps ac = Inr order) \<and> check_fan_in edges = Inr () \<and>
      (fst ` set nodes \<subseteq> set (reachable_nodes ?deps branches) \<or> ao) \<and> (END \<in> set (reachable_nodes ?deps branches) \<or> ac)"
    using tables unfolding checked_def part_tables_def by blast
  also have "\<dots> \<longleftrightarrow> valid_graph b ao ac"
    using parts
    unfolding entry topological_order_iff [OF t(2)] internal check_fan_in_iff [OF t(4)] t(3) reachable_nodes_spec
      live names valid_graph_def valid_parts_def Image_singleton_iff by blast
  finally show ?thesis .
qed


text \<open>
  C30: The execution order of a compiled graph without cycles lists every node once, each one after
  all the nodes it depends on by an edge, a join or a branch.
\<close>

theorem compiled_order_topological:
  assumes "compile b allow_orphans False = Inr cg"
  shows "distinct (cg_order cg) \<and> set (cg_order cg) = node_ids b \<and>
    (\<forall>(s, t) \<in> graph_deps b. s \<in> node_ids b \<and> t \<in> node_ids b \<longrightarrow> before (cg_order cg) s t)"
proof -
  from assms obtain declared nodes edges joins branches order where
    c: "checked b allow_orphans False declared nodes edges joins branches order" and
    cg: "cg = assemble b allow_orphans False declared nodes edges joins branches order"
    unfolding compile_Inr by blast
  then have tables: "part_tables b declared nodes edges joins branches"
    and topo: "topological_order (keys nodes) (dependency_edges edges joins branches) False = Inr order"
    by (simp_all add: part_tables_def checked_def)
  note t = part_tables_are [OF tables]
  let ?deps = "dependency_edges edges joins branches"
  have deps: "set ?deps = graph_deps b" using set_dependency_edges [OF t(3)] by (simp only: t(5,6))
  have ids: "set (keys nodes) = node_ids b" by (simp add: t(1) node_ids_def)
  have order: "order = kahn_order (keys nodes) ?deps"
    using topo by (auto simp: topological_order_def Let_def split: if_splits)
  have full: "distinct order" "set order = node_ids b" using topological_order_ok [OF topo t(2)] ids by auto
  have "before order s t" if "(s, t) \<in> graph_deps b" "s \<in> node_ids b" "t \<in> node_ids b" for s t
  proof -
    have "(s, t) \<in> set (internal_edges (keys nodes) ?deps)"
      unfolding internal_edges_def ids set_filter deps using that by simp
    from kahn_order_spec(3) [OF t(2) this] full(2) that(3) show ?thesis by (simp add: order)
  qed
  with full show ?thesis by (auto simp: cg assemble_fields)
qed

lemma compiled_order_topological_witness:
  "distinct (cg_order demo_graph) \<and> set (cg_order demo_graph) = node_ids demo_builder"
  using compiled_order_topological [OF demo_compiles] by blast

section \<open>Two joins in one channel\<close>

text \<open>
  The name of a join's channel does not determine the join. The join of \<open>a\<close> and \<open>b\<close> into
  \<open>c:d\<close> and the join of \<open>a\<close> and \<open>b:c\<close> into \<open>d\<close> get one channel: the second overwrites the barrier of
  the first, \<open>b\<close> still writes to it, and that write is refused, so a run in which \<open>b\<close> finishes
  raises.
\<close>

theorem joins_collide:
  assumes "a < b" and "a < b @ [58] @ c" and "c \<noteq> []"
    and "join_tables nodes [([a, b], c @ [58] @ d), ([a, b @ [58] @ c], d)] factories = (fs, triggers, writes)"
  shows "map_of fs (join_channel [a, b] (c @ [58] @ d)) = Some (BarrierChannel {a, b @ [58] @ c} {}) \<and>
    (join_channel [a, b] (c @ [58] @ d), b) \<in> set (dget writes b []) \<and>
    chan_validate P (new_channel nm (BarrierChannel {a, b @ [58] @ c} {})) [ChannelWrite b nm (PStr b) q] s =
      Inl (BarrierMemberError nm s (PStr b) {a, b @ [58] @ c})"
proof -
  have same: "join_channel [a, b @ [58] @ c] d = join_channel [a, b] (c @ [58] @ d)"
    using assms(1,2) [THEN less_imp_le] by (simp add: join_channel_def)
  have "b \<noteq> a" "b \<noteq> b @ [58] @ c" using assms(1) by auto
  then show ?thesis using assms(4)
    by (auto simp: join_tables_def same [simplified] Let_def chan_validate_defs new_channel_def)
qed

lemma joins_collide_witness:
  "\<exists>fs triggers writes. join_tables [] [([[97], [98]], [99, 58, 100]), ([[97], [98, 58, 99]], [100])] [] = (fs, triggers, writes) \<and>
     map_of fs (join_channel [[97], [98]] [99, 58, 100]) = Some (BarrierChannel {[97], [98, 58, 99]} {})"
proof -
  obtain fs triggers writes where
    t: "join_tables [] [([[97], [98]], [99, 58, 100]), ([[97], [98, 58, 99]], [100])] [] = (fs, triggers, writes)"
    by (cases "join_tables [] [([[97], [98]], [99, 58, 100]), ([[97], [98, 58, 99]], [100])] []") auto
  with joins_collide [of "[97]" "[98]" "[99]" "[]" "[100]" "[]" fs triggers writes] show ?thesis by simp
qed

end
