(* ===== verification/EngineSpec.thy ===== *)
theory EngineSpec
  imports Samples2
begin

text \<open>
  What the parts of the engine promise to one another: channels, the state of a superstep's
  writes, interrupted nodes, tasks, and the thread files.
\<close>

section \<open>Channels\<close>


definition demo_barrier :: channel where
  "demo_barrier = new_channel [106] (BarrierChannel {[97], [98]} {})"


text \<open>
  C33: A validated group commits. When a well-formed channel accepts a group of writes, committing
  it does not raise, leaves the channel well formed, and advances its version by one or not at
  all; restoring the snapshot of the result into a new channel of its class gives it back.
\<close>

theorem validated_commit_total:
  assumes "wf_channel c" and "chan_validate P c ws s = Inr ()"
  shows "\<exists>c' advanced. chan_commit c ws = (c', Inr advanced) \<and> wf_channel c' \<and>
    ch_version c' = ch_version c + (if advanced then 1 else 0) \<and>
    chan_restore (new_channel (ch_name c) (fresh_body (ch_body c'))) (chan_checkpoint c') = Inr c'"
proof -
  obtain b where b: "snd (chan_commit c ws) = Inr b" using graph_channel.commit_total [OF assms] by blast
  have wf: "wf_channel (fst (chan_commit c ws))" using graph_channel.commit_wf [OF assms] .
  have f: "fresh_body (fresh_body x) = fresh_body x" for x by (cases x) simp_all
  have "chan_restore (new_channel (ch_name c) (fresh_body (ch_body (fst (chan_commit c ws)))))
      (chan_checkpoint (fst (chan_commit c ws))) = Inr (fst (chan_commit c ws))"
    by (rule chan_roundtrip [OF wf]) (simp_all add: f)
  with wf b graph_channel.commit_bump [OF b] show ?thesis
    by (intro exI [of _ "fst (chan_commit c ws)"] exI [of _ b]) (simp add: prod_eq_iff)
qed

lemma validated_commit_total_witness:
  "\<exists>c' advanced. chan_commit (new_channel [108] (LastValueChannel PNone)) [ChannelWrite [97] [108] (PInt 5) 0] = (c', Inr advanced)"
proof -
  have "wf_channel (new_channel [108] (LastValueChannel PNone))" by (simp add: wf_channel_def wf_body_def new_channel_def)
  moreover have "chan_validate demo_prims (new_channel [108] (LastValueChannel PNone)) [ChannelWrite [97] [108] (PInt 5) 0] 1 = Inr ()"
    by (simp add: chan_validate_defs new_channel_def)
  ultimately show ?thesis using validated_commit_total by blast
qed

section \<open>The writes of a superstep\<close>

text \<open>
  C26: The writes of a superstep take effect together or not at all. If \<open>apply_writes\<close> raises, the
  state is unchanged; if it returns, every channel written to is the commit of exactly its own
  writes, and every other channel is unchanged.
\<close>

theorem apply_writes_atomic:
  "(\<exists>e. apply_writes P st ws s = (st, Inl e)) \<or>
   (\<exists>st' advanced. apply_writes P st ws s = (st', Inr advanced) \<and>
      (\<forall>n. map_of (gs_channels st') n =
         (if n \<in> w_chan ` set ws
          then Some (fst (chan_commit (the (resolve st n)) (filter (\<lambda>w. w_chan w = n) ws)))
          else map_of (gs_channels st) n)))"
proof (cases "validate_writes P st ws s = Inr ()")
  case True
  show ?thesis by (rule apply_writes_ok [OF True]) (intro disjI2 exI conjI allI, assumption+)
next
  case False
  with apply_writes_cases [of P st ws s] show ?thesis by auto
qed

text \<open>
  Writes to different channels commute. Two sequences of writes that agree on the writes to
  each channel, in order, have the same effect: the same state, the same advanced channels or the
  same exception.
\<close>

theorem writes_commute_across_channels:
  assumes "\<forall>n. filter (\<lambda>w. w_chan w = n) ws = filter (\<lambda>w. w_chan w = n) vs"
  shows "apply_writes P st ws s = apply_writes P st vs s"
  using assms by (intro apply_writes_cong) blast

lemma writes_commute_across_channels_witness:
  "apply_writes demo_prims (demo_state 0 []) [ChannelWrite [97] [108] (PInt 1) 0, ChannelWrite [98] [109] (PInt 2) 0] 1 =
     apply_writes demo_prims (demo_state 0 []) [ChannelWrite [98] [109] (PInt 2) 0, ChannelWrite [97] [108] (PInt 1) 0] 1"
  by (rule writes_commute_across_channels) simp

text \<open>
  What a state shows and what it saves. For a state of a compiled graph, the snapshot lists
  the user channels that have been written, by name and once each, with their values; and the
  saved channels, restored into a new state of the same graph, give back the state itself.
\<close>

theorem saved_state_restores:
  assumes "built_from factories st" and "checkpoint_channels st = Inr snaps"
  shows "restore_channels P (GraphState factories) snaps = Inr st \<and> sorted_wrt (<) (keys (snapshot st)) \<and>
    (\<forall>n v. (n, v) \<in> set (snapshot st) \<longleftrightarrow>
       (\<exists>c. map_of (gs_channels st) n = Some c \<and> \<not> is_reserved n \<and> ch_version c \<noteq> 0 \<and> v = chan_value c))"
proof -
  have "wf_state st" using assms(1) by (simp add: built_from_def)
  with restore_checkpoint_channels [OF assms] keys_snapshot_sorted snapshot_iff show ?thesis by blast
qed

lemma saved_state_restores_witness:
  "restore_channels demo_prims (GraphState (cg_factories demo_graph)) (demo_snaps 0 []) = Inr (demo_state 0 [])"
proof -
  have "built_from (cg_factories demo_graph) (demo_state 0 [])" using durable_inv by (simp add: run_inv_def)
  with saved_state_restores [OF _ demo_checkpoint [of 0 "[]"]] show ?thesis by blast
qed

section \<open>Interrupted nodes and their tasks\<close>

text \<open>
  C32: An interrupted node is replayed with its earlier answers. A node executed with the answers
  recorded so far gets them in the order it asks; if they suffice it ends as the node would with
  those answers, and otherwise it raises the interrupt of the first question without an answer.
\<close>

theorem interrupt_replays_answers:
  assumes "interrupt_id P (InterruptFrame r n q answers) = Inr i" and "map_of (cg_nodes cg) n = Some fn"
  shows "execute_node P cg n input (InterruptFrame r n q answers) r s =
    (if length (asks (fn input) answers) \<le> length answers
     then (case answer (fn input) answers of Raised e \<Rightarrow> Raised (NodeExecutionError r s n) | x \<Rightarrow> x)
     else Raised (GraphInterrupt (last (asks (fn input) answers)) i answers))"
proof -
  have "fr_counter (InterruptFrame r n q answers) = 0" "fr_resumes (InterruptFrame r n q answers) = answers"
    by (simp_all add: InterruptFrame_def)
  with run_prog_asks [OF assms(1), of "fn input"]
  have run: "run_prog P (fn input) (InterruptFrame r n q answers) =
      (if length (asks (fn input) answers) \<le> length answers then answer (fn input) answers
       else Raised (GraphInterrupt (last (asks (fn input) answers)) i answers))" by simp
  have "answer p xs \<noteq> Raised (GraphInterrupt v j c)" for p xs v j c
    by (induction p arbitrary: xs) simp_all
  then show ?thesis by (auto simp: execute_node_def assms(2) run split: prog_end.split gerror.split)
qed

text \<open>A node that asks twice and returns nothing, with one answer recorded.\<close>

definition asking :: node_fn where
  "asking i = NInterrupt (PInt 1) (\<lambda>x. NInterrupt (PInt 2) (\<lambda>y. NRet RNone))"

lemma interrupt_replays_answers_witness:
  "\<exists>i. execute_node demo_prims (graph_of asking asking) [97] PNone (InterruptFrame [114] [97] 0 [PBool True]) [114] 1 =
     Raised (GraphInterrupt (PInt 2) i [PBool True])"
proof -
  obtain i where i: "interrupt_id demo_prims (InterruptFrame [114] [97] 0 [PBool True]) = Inr i"
    by (simp add: interrupt_id_def InterruptFrame_def encode_utf8_def utf8_cp_def nat_str.simps)
  have "map_of (cg_nodes (graph_of asking asking)) [97] = Some asking" by (simp add: graph_of_def)
  from interrupt_replays_answers [OF i this] show ?thesis by (simp add: asking_def)
qed

text \<open>
  The tasks of a superstep are told apart by node and sequence number, each pull task is of a
  node whose trigger it has not seen, and every write of a finished task carries its own node and
  number, so that the order of the writes of a superstep is settled.
\<close>

theorem tasks_are_distinct:
  assumes "prepare_tasks cg st versions seen = (st', Inr tasks)" and "distinct (cg_order cg)"
  shows "distinct (map identity tasks) \<and>
    (\<forall>t \<in> set tasks. is_pull t \<longrightarrow> t_node t \<in> set (cg_order cg) \<and> node_ready cg versions seen (t_node t)) \<and>
    (\<forall>t \<in> set tasks. \<forall>w \<in> set (done_writes (run_one P cg st' expires t r s remaining resumes)).
       w_node w = t_node t \<and> w_seq w = t_seq t)"
  using prepare_distinct [OF assms] prepare_pulls [OF assms(1)] run_one_owned [of _ P cg st']
  by (auto simp: owned_def identity_def)

lemma tasks_are_distinct_witness: "distinct (map identity demo_tasks)"
  using tasks_are_distinct [OF demo_prepare(1)] by (simp add: demo_graph_def graph_of_def)

section \<open>Thread files\<close>

text \<open>
  Saving a checkpoint appends it to its thread. On a directory of well-formed files,
  \<open>put_run_checkpoint\<close> without an id appends one record under an id no record of the thread has,
  touches no other thread, keeps the directory well formed, and what it stored is what the latest
  checkpoint read back is: the same run, graph, superstep and digest.
\<close>

theorem put_checkpoint_appends:
  assumes "wf_store P store" and "safe_id P thread = Inr path"
    and "put_run_checkpoint P store thread cp None parent meta = Inr (store', rec)"
    and "list_all (plain_dict \<circ> snd) (cp_channels cp)" and "plain_dict meta"
  shows "wf_store P store' \<and> (\<forall>q. q \<noteq> path \<longrightarrow> map_of store' q = map_of store q) \<and>
    cr_id rec \<notin> cr_id ` set (tf_checkpoints (read_thread store path)) \<and>
    (\<exists>stored. disk_checkpoint P cp = Inr (cr_checkpoint stored) \<and> cr_id stored = cr_id rec \<and>
       tf_checkpoints (read_thread store' path) = tf_checkpoints (read_thread store path) @ [stored] \<and>
       get_run_checkpoint P store' thread None = Inr (Some (cr_checkpoint stored)) \<and>
       cp_superstep (cr_checkpoint stored) = cp_superstep cp \<and> cp_digest (cr_checkpoint stored) = cp_digest cp)"
proof -
  let ?tf = "read_thread store path"
  note spec = put_run_checkpoint_spec [OF assms]
  have run: "append_run_checkpoint P store path thread cp ?tf None parent meta = Inr (store', rec)"
    using assms(2,3) by (simp add: put_run_checkpoint_def)
  have none: "find_record (tf_checkpoints ?tf) (next_checkpoint_id cp (tf_checkpoints ?tf)) = None"
    using next_checkpoint_id_fresh by (simp add: find_record_None)
  then have id: "cr_id rec = next_checkpoint_id cp (tf_checkpoints ?tf)"
    using run by (auto simp: append_run_checkpoint_def Let_def emap_Inr_iff)
  then have fresh: "cr_id rec \<notin> cr_id ` set (tf_checkpoints ?tf)" using next_checkpoint_id_fresh by simp
  with spec obtain stored where st: "disk_record P rec = Inr stored" "cr_checkpoint rec = cp"
    "tf_checkpoints (read_thread store' path) = tf_checkpoints ?tf @ [stored]" by blast
  then have cp: "disk_checkpoint P cp = Inr (cr_checkpoint stored)"
    by (auto simp: disk_record_def ebind_Inr_iff emap_Inr_iff)
  have "get_run_checkpoint P store' thread None = Inr (Some (cr_checkpoint stored))"
    using assms(2) st(3)
    by (simp add: get_run_checkpoint_def get_checkpoint_record_def get_state_history_def select_record_def)
  with spec fresh st(3) cp disk_record_id [OF st(1)] show ?thesis
    by (auto simp: disk_checkpoint_def emap_Inr_iff)
qed

lemma put_checkpoint_appends_witness:
  "\<exists>store' rec. put_run_checkpoint demo_prims [] [116] (demo_checkpoint_at 1 1 [PInt 1, PInt 2] demo_seen) None (Some [112])
     [(u ''graph_id'', PStr [103]), (u ''graph_run_id'', PStr [114])] = Inr (store', rec) \<and>
     get_run_checkpoint demo_prims store' [116] None = Inr (Some demo_stored)"
proof -
  let ?cp = "demo_checkpoint_at 1 1 [PInt 1, PInt 2] demo_seen"
    and ?meta = "[(u ''graph_id'', PStr [103]), (u ''graph_run_id'', PStr [114])]"
  obtain store' rec where put: "put_run_checkpoint demo_prims [] [116] ?cp None (Some [112]) ?meta = Inr (store', rec)"
    using stored_record [unfolded demo_row_def] stored_enc [unfolded demo_row_def]
    by (simp add: put_run_checkpoint_def durable_safe append_run_checkpoint_def Let_def
        read_thread_def find_record_def write_thread_def serialize_thread_def dget_def demo_next_id demo_row_def
        empty_thread_def del: One_nat_def)
  have plain: "list_all (plain_dict \<circ> snd) (cp_channels ?cp)" "plain_dict ?meta"
    by (simp_all add: plain_dict_def demo_checkpoint_at_def demo_snaps_def)
  from put_checkpoint_appends [OF durable_facts(2) durable_safe put plain] demo_disk_checkpoint put show ?thesis
    by (auto simp del: One_nat_def)
qed

text \<open>
  A task's journaled record is replaced by one record. After clearing the pending writes of a
  task and journaling new ones, the thread file is well formed, holds exactly one record of that
  task, the new one as it is written to disk, and the records of the other tasks as they were.
\<close>

theorem journal_replaces_one:
  assumes "wf_store P s" and "plain_pending w" and "clear_at P path s (Some (pw_task w)) = Inr s1"
    and "journal_at P path s1 w = Inr s2"
  shows "wf_store P s2 \<and>
    (\<exists>w'. disk_pending P w = Inr w' \<and>
       filter (\<lambda>x. pw_task x = pw_task w) (tf_pending (read_thread s2 path)) = [w']) \<and>
    filter (\<lambda>x. pw_task x \<noteq> pw_task w) (tf_pending (read_thread s2 path)) =
      filter (\<lambda>x. pw_task x \<noteq> pw_task w) (tf_pending (read_thread s path))"
  by (rule thread_journal.replace_single [OF assms])

lemma journal_replaces_one_witness:
  "\<exists>s1 s2. clear_at demo_prims durable_path (rp_store durable_journaled) (Some (pw_task durable_record)) = Inr s1 \<and>
     journal_at demo_prims durable_path s1 durable_record = Inr s2 \<and>
     filter (\<lambda>x. pw_task x = pw_task durable_record) (tf_pending (read_thread s2 durable_path)) = [durable_record]"
proof -
  let ?s = "rp_store durable_journaled"
  have fl: "?s = [(durable_path, \<lparr>tf_checkpoints = [], tf_pending = [durable_record]\<rparr>)]"
    by (simp add: durable_journaled_def)
  have "stable_pending demo_prims durable_record"
    using disk_pending_durable enc_durable by (simp add: stable_pending_def)
  then have wf: "wf_store demo_prims ?s" by (simp add: fl wf_store_def wf_file_def)
  have plain: "plain_pending durable_record" by (simp add: plain_pending_def durable_record_def)
  have s1: "clear_at demo_prims durable_path ?s (Some (pw_task durable_record)) =
      Inr [(durable_path, \<lparr>tf_checkpoints = [], tf_pending = []\<rparr>)]"
    by (simp add: clear_at_def fl read_thread_def dget_def write_thread_def serialize_thread_def)
  have s2: "journal_at demo_prims durable_path [(durable_path, \<lparr>tf_checkpoints = [], tf_pending = []\<rparr>)] durable_record =
      Inr ?s"
    by (simp add: journal_at_def fl read_thread_def dget_def write_thread_def serialize_thread_def
        disk_pending_durable enc_durable)
  from journal_replaces_one [OF wf plain s1 s2] s1 s2 disk_pending_durable show ?thesis by auto
qed



end
