(* ===== verification/KResult.thy ===== *)
theory KResult
  imports PyVal
begin

text \<open>
  The success/failure type of telos_kernel/result.py: \<open>Ok\<close> or \<open>Err\<close>, its methods, the error
  codes and the structured error. A function that may also raise returns \<open>pyexc + result\<close>; the
  message of an error is English text and not modelled.
\<close>

datatype ('a, 'e) result = Ok 'a | Err 'e

fun is_err :: "('a, 'e) result \<Rightarrow> bool" where
  "is_err (Ok _) = False"
| "is_err (Err _) = True"

fun unwrap :: "('a, 'e) result \<Rightarrow> pyexc + 'a" where
  "unwrap (Ok x) = Inr x"
| "unwrap (Err _) = Inl (ValueError (u ''Err.unwrap()''))"

fun unwrap_or :: "('a, 'e) result \<Rightarrow> 'a \<Rightarrow> 'a" where
  "unwrap_or (Ok x) d = x"
| "unwrap_or (Err _) d = d"

fun map_ok :: "('a \<Rightarrow> 'b) \<Rightarrow> ('a, 'e) result \<Rightarrow> ('b, 'e) result" where
  "map_ok f (Ok x) = Ok (f x)"
| "map_ok f (Err e) = Err e"

fun and_then :: "('a, 'e) result \<Rightarrow> ('a \<Rightarrow> ('b, 'e) result) \<Rightarrow> ('b, 'e) result" where
  "and_then (Ok x) f = f x"
| "and_then (Err e) f = Err e"

definition ERR_INVALID_SIGNATURE :: pystr where "ERR_INVALID_SIGNATURE = u ''invalid_signature''"
definition ERR_MALFORMED_HEX :: pystr where "ERR_MALFORMED_HEX = u ''malformed_hex''"
definition ERR_UNKNOWN_SIGNER :: pystr where "ERR_UNKNOWN_SIGNER = u ''unknown_signer''"
definition ERR_QUORUM_NOT_MET :: pystr where "ERR_QUORUM_NOT_MET = u ''quorum_not_met''"
definition ERR_STUB_SIGNERS :: pystr where "ERR_STUB_SIGNERS = u ''stub_signers_present''"
definition ERR_CHAIN_BROKEN :: pystr where "ERR_CHAIN_BROKEN = u ''chain_broken''"
definition ERR_CAVEAT_FAILED :: pystr where "ERR_CAVEAT_FAILED = u ''caveat_failed''"
definition ERR_TIMESTAMP_INVALID :: pystr where "ERR_TIMESTAMP_INVALID = u ''timestamp_invalid''"
definition ERR_UNCANONICALIZABLE :: pystr where "ERR_UNCANONICALIZABLE = u ''uncanonicalizable_value''"
definition ERR_IO :: pystr where "ERR_IO = u ''io_error''"
definition ERR_GIT_UNAVAILABLE :: pystr where "ERR_GIT_UNAVAILABLE = u ''git_unavailable''"

text \<open>
  The detail of an error: nothing, the index of a broken leaf, a rejected predicate, or the valid
  signatures, the threshold and the unknown signers of a failed quorum.
\<close>

datatype error_detail = NoDetail | BrokenIndex nat | Predicate pystr | QuorumDetail nat int "pystr list"

record kernel_error =
  ke_code :: pystr
  ke_detail :: error_detail

definition KernelError :: "pystr \<Rightarrow> error_detail \<Rightarrow> kernel_error" where
  "KernelError c d = \<lparr>ke_code = c, ke_detail = d\<rparr>"

lemma and_then_assoc: "and_then (and_then r f) g = and_then r (\<lambda>x. and_then (f x) g)"
  by (cases r) simp_all

lemma map_ok_and_then: "map_ok f r = and_then r (\<lambda>x. Ok (f x))"
  by (cases r) simp_all

lemma is_err_iff: "is_err r \<longleftrightarrow> (\<exists>e. r = Err e)" "\<not> is_err r \<longleftrightarrow> (\<exists>x. r = Ok x)"
  by (cases r; simp)+

end
