(* ===== verification/Canonical.thy ===== *)
theory Canonical
  imports PyVal
begin

text \<open>
  The canonical JSON of telos_kernel/canonical.py (RFC 8785): the encoder with its depth bound
  and its rejections, and that its text determines the value. The repr of a float is the
  parameter \<open>float_repr\<close>.
\<close>

section \<open>Floats\<close>

definition MAX_DEPTH :: nat where "MAX_DEPTH = 64"

definition rstrip :: "nat \<Rightarrow> pystr \<Rightarrow> pystr" where
  "rstrip c s = rev (dropWhile (\<lambda>x. x = c) (rev s))"

text \<open>\<open>int(s)\<close> of a decimal exponent.\<close>

definition exponent :: "pystr \<Rightarrow> int" where
  "exponent s =
     (case s of
        c # cs \<Rightarrow> if c = 45 then - int (str_nat cs 0) else if c = 43 then int (str_nat cs 0) else int (str_nat s 0)
      | [] \<Rightarrow> 0)"

definition drop_zeros :: "pystr \<Rightarrow> pystr" where
  "drop_zeros s = (if 46 \<in> set s then rstrip 46 (rstrip 48 s) else s)"

text \<open>\<open>_expand_exponent_decimal\<close>: 101 is the letter e, 46 the point, 48 the digit zero.\<close>

definition expand_exponent_decimal :: "pystr \<Rightarrow> pystr" where
  "expand_exponent_decimal value =
     (let sign = (if startswith value [45] then [45] else []);
          v = (if startswith value [45] then tl value else value);
          parts = split_on 101 v;
          mantissa = hd parts; expo = exponent (last parts);
          halves = split_on 46 mantissa;
          int_part = hd halves; frac_part = (if 46 \<in> set mantissa then last halves else []);
          digits = int_part @ frac_part;
          point = int (length int_part) + expo;
          body = (if point \<le> 0 then [48, 46] @ replicate (nat (- point)) 48 @ digits
                  else if int (length digits) \<le> point then digits @ replicate (nat (point - int (length digits))) 48
                  else take (nat point) digits @ [46] @ drop (nat point) digits)
      in sign @ drop_zeros body)"

definition scientific :: "pystr \<Rightarrow> pystr" where
  "scientific s =
     (if 101 \<in> set s then
        (let parts = split_on 101 s; mantissa = drop_zeros (hd parts); e = exponent (last parts) in
         mantissa @ [101] @ (if 0 \<le> e then [43] else [45]) @ nat_str (nat \<bar>e\<bar>))
      else s)"

fun encode_float :: "prims \<Rightarrow> pyfloat \<Rightarrow> pyexc + pystr" where
  "encode_float P (FFin r) =
     (if r = 0 then Inr [48]
      else if of_int \<lfloor>r\<rfloor> = r \<and> \<bar>r\<bar> < 10 ^ 21 then Inr (int_str \<lfloor>r\<rfloor>)
      else (let s = float_repr P r in
        if 1 / 10 ^ 6 \<le> \<bar>r\<bar> \<and> \<bar>r\<bar> < 10 ^ 21
        then Inr (if 101 \<in> set s then expand_exponent_decimal s else s)
        else Inr (scientific s)))"
| "encode_float P FNegZero = Inr [48]"
| "encode_float P _ = Inl (ValueError (u ''JCS forbids NaN and Infinity''))"

section \<open>Strings and values\<close>

definition encode_string :: "pystr \<Rightarrow> pystr" where
  "encode_string s = [34] @ concat (map escape_char s) @ [34]"

definition bmp :: "pyval \<Rightarrow> bool" where
  "bmp k \<longleftrightarrow> list_all (\<lambda>c. c \<le> 65535) (key_str k)"

fun encode :: "prims \<Rightarrow> nat \<Rightarrow> pyval \<Rightarrow> pyexc + pystr" where
  "encode P d PNone = (if d > MAX_DEPTH then Inl (RecursionError []) else Inr (u ''null''))"
| "encode P d (PBool b) =
     (if d > MAX_DEPTH then Inl (RecursionError []) else Inr (if b then u ''true'' else u ''false''))"
| "encode P d (PInt i) = (if d > MAX_DEPTH then Inl (RecursionError []) else Inr (int_str i))"
| "encode P d (PFloat f) = (if d > MAX_DEPTH then Inl (RecursionError []) else encode_float P f)"
| "encode P d (PStr s) = (if d > MAX_DEPTH then Inl (RecursionError []) else Inr (encode_string s))"
| "encode P d (PList xs) =
     (if d > MAX_DEPTH then Inl (RecursionError [])
      else emap (\<lambda>ss. [91] @ comma_sep ss @ [93]) (esequence (map (encode P (d + 1)) xs)))"
| "encode P d (PTuple xs) =
     (if d > MAX_DEPTH then Inl (RecursionError [])
      else emap (\<lambda>ss. [91] @ comma_sep ss @ [93]) (esequence (map (encode P (d + 1)) xs)))"
| "encode P d (PDict kvs) =
     (if d > MAX_DEPTH then Inl (RecursionError [])
      else if \<not> list_all (is_str \<circ> fst) kvs then Inl (ValueError (u ''JCS object keys must be strings''))
      else if \<not> list_all (bmp \<circ> fst) kvs then Inl (ValueError (u ''JCS keys with non-BMP codepoints''))
      else emap (\<lambda>ss. [123] @ comma_sep ss @ [125])
        (etraverse (\<lambda>(k, r). emap (\<lambda>t. encode_string (key_str k) @ [58] @ t) r)
          (sort_key (key_str \<circ> fst) (map (\<lambda>(k, v). (k, encode P (d + 1) v)) kvs))))"
| "encode P d (PSend _ _ _) =
     (if d > MAX_DEPTH then Inl (RecursionError []) else Inl (ValueError (u ''JCS cannot canonicalize'')))"
| "encode P d (PObj _) =
     (if d > MAX_DEPTH then Inl (RecursionError []) else Inl (ValueError (u ''JCS cannot canonicalize'')))"

definition canonicalize :: "prims \<Rightarrow> pyval \<Rightarrow> pyexc + bytes" where
  "canonicalize P v = ebind (encode P 0 v) encode_utf8"

section \<open>The text of numbers and strings determines them\<close>

text \<open>The reading of one escaped code point.\<close>

definition unhex :: "nat \<Rightarrow> nat" where
  "unhex h = (if h < 58 then h - 48 else h - 87)"

definition unescape :: "nat \<Rightarrow> nat" where
  "unescape l = (if l = 98 then 8 else if l = 116 then 9 else if l = 110 then 10
     else if l = 102 then 12 else if l = 114 then 13 else l)"

fun read_char :: "pystr \<Rightarrow> nat \<times> pystr" where
  "read_char [] = (0, [])"
| "read_char (c # r) =
     (if c \<noteq> 92 then (c, r)
      else if hd r = 117 then (16 * unhex (r ! 3) + unhex (r ! 4), drop 5 r)
      else (unescape (hd r), tl r))"

lemma unhex_hex_digit: "n < 16 \<Longrightarrow> unhex (hex_digit n) = n"
  by (simp add: unhex_def hex_digit_def)

lemma read_escape_char: "read_char (escape_char c @ x) = (c, x)"
proof (cases "c < 32 \<and> c \<notin> {8, 9, 10, 12, 13}")
  case True
  then have "escape_char c = [92, 117, 48, 48, hex_digit (c div 16), hex_digit (c mod 16)]"
    by (simp add: escape_char_def)
  moreover have "c div 16 < 16" using True by auto
  then have "unhex (hex_digit (c div 16)) = c div 16" by (rule unhex_hex_digit)
  moreover have "unhex (hex_digit (c mod 16)) = c mod 16" by (intro unhex_hex_digit) simp
  ultimately show ?thesis by simp
next
  case False
  then show ?thesis by (auto simp: escape_char_def unescape_def)
qed

lemma escape_unique: "escape_char c @ x = escape_char d @ y \<Longrightarrow> c = d \<and> x = y"
  by (drule arg_cong [of _ _ read_char]) (simp only: read_escape_char prod.inject)

lemma escape_not_quote: "escape_char c @ x \<noteq> 34 # y"
  by (simp add: escape_char_def)

lemma escape_nonempty [simp]: "escape_char c \<noteq> []"
  by (simp add: escape_char_def)

lemma escapes_unique:
  "concat (map escape_char s) @ 34 # x = concat (map escape_char t) @ 34 # y \<Longrightarrow> s = t \<and> x = y"
proof (induction s arbitrary: t)
  case Nil
  then show ?case using escape_not_quote by (cases t) (auto dest: sym)
next
  case (Cons c s)
  show ?case
  proof (cases t)
    case Nil
    with Cons.prems escape_not_quote show ?thesis by auto
  next
    case (Cons d t')
    with Cons.prems have "escape_char c @ concat (map escape_char s) @ 34 # x =
      escape_char d @ concat (map escape_char t') @ 34 # y" by simp
    from escape_unique [OF this] Cons.IH [of t'] Cons show ?thesis by blast
  qed
qed

lemma encode_string_unique: "encode_string s @ x = encode_string t @ y \<Longrightarrow> s = t \<and> x = y"
  using escapes_unique [of s x t y] by (simp add: encode_string_def)

text \<open>A text is followed by nothing, a comma or a closing bracket.\<close>

definition closes :: "pystr \<Rightarrow> bool" where
  "closes r \<longleftrightarrow> (case r of [] \<Rightarrow> True | c # _ \<Rightarrow> c \<in> {44, 93, 125})"

lemma closes_simps [simp]: "closes []" "closes (c # r) \<longleftrightarrow> c \<in> {44, 93, 125}"
  by (simp_all add: closes_def)

lemma nat_str_unique:
  assumes "nat_str a @ x = nat_str b @ y" and "closes x" and "closes y"
  shows "a = b \<and> x = y"
proof -
  let ?d = "\<lambda>c. 48 \<le> c \<and> c < (58::nat)"
  have "takeWhile ?d (nat_str n @ z) = nat_str n" if "closes z" for n z
  proof -
    have "\<forall>c \<in> set (nat_str n). ?d c" by (rule nat_str_digits)
    then have "takeWhile ?d (nat_str n @ z) = nat_str n @ takeWhile ?d z"
      by (intro takeWhile_append2) blast
    with that show ?thesis by (cases z) auto
  qed
  with assms have "nat_str a = nat_str b" by metis
  with assms(1) show ?thesis by simp
qed

lemma nat_str_head: "\<exists>c cs. nat_str n = c # cs \<and> 48 \<le> c \<and> c < 58"
proof -
  obtain c cs where "nat_str n = c # cs" by (cases "nat_str n") auto
  with nat_str_digits [of n] show ?thesis by auto
qed

lemma int_str_unique:
  assumes "int_str i @ x = int_str j @ y" and "closes x" and "closes y"
  shows "i = j \<and> x = y"
proof -
  have sgn: "nat_str a @ x \<noteq> 45 # z" for a x z using nat_str_head [of a] by auto
  show ?thesis
  proof (cases "i < 0")
    case True
    with assms(1) sgn have j: "j < 0" by (auto simp: int_str_def split: if_splits dest: sym)
    with True assms(1) have "nat_str (nat (- i)) @ x = nat_str (nat (- j)) @ y" by (simp add: int_str_def)
    from nat_str_unique [OF this assms(2,3)] True j show ?thesis by auto
  next
    case False
    with assms(1) sgn have j: "\<not> j < 0" by (auto simp: int_str_def split: if_splits)
    with False assms(1) have "nat_str (nat i) @ x = nat_str (nat j) @ y" by (simp add: int_str_def)
    from nat_str_unique [OF this assms(2,3)] False j show ?thesis by auto
  qed
qed

section \<open>UTF-8 is injective\<close>

text \<open>The bytes of a code point as numbers, and the reading of the patterns.\<close>

definition cp_units :: "nat \<Rightarrow> nat list" where
  "cp_units c =
     (if c < 128 then [c]
      else if c < 2048 then [192 + c div 64, 128 + c mod 64]
      else if c < 65536 then [224 + c div 4096, 128 + c div 64 mod 64, 128 + c mod 64]
      else [240 + c div 262144, 128 + c div 4096 mod 64, 128 + c div 64 mod 64, 128 + c mod 64])"

fun read_units :: "nat list \<Rightarrow> nat \<times> nat list" where
  "read_units [] = (0, [])"
| "read_units (a # bs) =
     (if a < 128 then (a, bs)
      else if a < 224 then ((a - 192) * 64 + (bs ! 0 - 128), drop 1 bs)
      else if a < 240 then (((a - 224) * 64 + (bs ! 0 - 128)) * 64 + (bs ! 1 - 128), drop 2 bs)
      else ((((a - 240) * 64 + (bs ! 0 - 128)) * 64 + (bs ! 1 - 128)) * 64 + (bs ! 2 - 128), drop 3 bs))"

lemma div_64: "(c::nat) div 4096 = c div 64 div 64" "c div 262144 = c div 64 div 64 div 64"
  by (simp_all add: div_mult2_eq [symmetric])

lemma read_cp_units:
  assumes "c < 1114112"
  shows "read_units (cp_units c @ r) = (c, r)"
proof -
  have h: "k div 64 * 64 + k mod 64 = k" for k :: nat by (rule div_mult_mod_eq)
  consider "c < 128" | "128 \<le> c" "c < 2048" | "2048 \<le> c" "c < 65536" | "65536 \<le> c" by linarith
  then show ?thesis
  proof cases
    case 2
    then have "192 + c div 64 < 224" "\<not> 192 + c div 64 < 128" by (simp_all add: div_less_iff_less_mult)
    with 2 h [of c] show ?thesis by (simp add: cp_units_def)
  next
    case 3
    then have "224 + c div 4096 < 240" by (simp add: div_less_iff_less_mult)
    with 3 h [of c] h [of "c div 64"] show ?thesis by (simp add: cp_units_def div_64)
  next
    case 4
    with h [of c] h [of "c div 64"] h [of "c div 64 div 64"] show ?thesis by (simp add: cp_units_def div_64)
  qed (simp add: cp_units_def)
qed

lemma cp_units_bytes: "c < 1114112 \<Longrightarrow> \<forall>n \<in> set (cp_units c). n < 256"
proof -
  assume "c < 1114112"
  then have "c div 262144 < 16" by (simp add: div_less_iff_less_mult)
  moreover have "k mod 64 < 64" for k :: nat by simp
  moreover have "c < 65536 \<Longrightarrow> c div 4096 < 16" "c < 2048 \<Longrightarrow> c div 64 < 32"
    by (simp_all add: div_less_iff_less_mult)
  ultimately show ?thesis by (auto simp: cp_units_def intro: less_trans [of _ "64 + 128"])
qed

lemma utf8_cp_units: "utf8_cp c = Some b \<Longrightarrow> b = map of_nat (cp_units c)"
  by (auto simp: utf8_cp_def cp_units_def split: if_splits)

text \<open>Python strings hold code points.\<close>

definition codepoints :: "pystr \<Rightarrow> bool" where
  "codepoints s \<longleftrightarrow> list_all (\<lambda>c. c < 1114112) s"

lemma utf8_units: "utf8 s = Some b \<Longrightarrow> b = map of_nat (concat (map cp_units s))"
  by (induction s arbitrary: b) (auto split: option.splits dest: utf8_cp_units)

lemma units_unique: "codepoints s \<Longrightarrow> codepoints t \<Longrightarrow>
    concat (map cp_units s) = concat (map cp_units t) \<Longrightarrow> s = t"
proof (induction s arbitrary: t)
  case Nil
  have "cp_units c \<noteq> []" for c by (simp add: cp_units_def)
  with Nil show ?case by (cases t) auto
next
  case (Cons c s)
  have ne: "cp_units c \<noteq> []" for c by (simp add: cp_units_def)
  obtain d t' where t: "t = d # t'" using Cons.prems(3) ne by (cases t) auto
  with Cons.prems have "read_units (cp_units c @ concat (map cp_units s)) = read_units (cp_units d @ concat (map cp_units t'))"
    by simp
  moreover have "c < 1114112" "d < 1114112" using Cons.prems t by (simp_all add: codepoints_def)
  ultimately have "c = d \<and> concat (map cp_units s) = concat (map cp_units t')"
    by (simp only: read_cp_units prod.inject)
  with Cons t show ?case by (simp add: codepoints_def)
qed

lemma of_nat_bytes_inject:
  "\<forall>n \<in> set xs. n < 256 \<Longrightarrow> \<forall>n \<in> set ys. n < 256 \<Longrightarrow>
     map (of_nat :: nat \<Rightarrow> byte) xs = map of_nat ys \<Longrightarrow> xs = ys"
proof (rule map_inj_on)
  assume a: "\<forall>n \<in> set xs. n < 256" "\<forall>n \<in> set ys. n < 256"
  have "unat (of_nat n :: byte) = n" if "n < 256" for n using that by (simp add: unat_of_nat)
  then show "inj_on (of_nat :: nat \<Rightarrow> byte) (set xs \<union> set ys)"
    using a by (intro inj_on_inverseI [where g = unat]) auto
qed

lemma encode_utf8_inject:
  assumes "codepoints s" and "codepoints t" and "encode_utf8 s = Inr b" and "encode_utf8 t = Inr b"
  shows "s = t"
proof -
  have "map of_nat (concat (map cp_units s)) = (map of_nat (concat (map cp_units t)) :: bytes)"
    using assms(3,4) utf8_units by (auto simp: encode_utf8_def split: option.splits)
  moreover have "\<forall>n \<in> set (concat (map cp_units s)). n < 256" if "codepoints s" for s
    using that cp_units_bytes by (auto simp: codepoints_def list_all_iff)
  ultimately have "concat (map cp_units s) = concat (map cp_units t)"
    using assms(1,2) by (intro of_nat_bytes_inject) blast+
  with assms(1,2) show ?thesis by (rule units_unique)
qed

section \<open>The text determines the value\<close>

text \<open>
  Values up to what the encoding forgets: a tuple is a list, a dictionary is its entries in key
  order. \<open>plain\<close> values hold no float and their strings are code points.
\<close>

fun jcs_norm :: "pyval \<Rightarrow> pyval" where
  "jcs_norm (PList xs) = PList (map jcs_norm xs)"
| "jcs_norm (PTuple xs) = PList (map jcs_norm xs)"
| "jcs_norm (PDict kvs) = PDict (sort_key (key_str \<circ> fst) (map (\<lambda>(k, v). (k, jcs_norm v)) kvs))"
| "jcs_norm v = v"

fun plain :: "pyval \<Rightarrow> bool" where
  "plain (PStr s) = codepoints s"
| "plain (PList xs) = list_all plain xs"
| "plain (PTuple xs) = list_all plain xs"
| "plain (PDict kvs) = list_all (\<lambda>(k, b). codepoints (key_str k) \<and> b) (map (\<lambda>(k, v). (k, plain v)) kvs)"
| "plain (PFloat _) = False"
| "plain _ = True"

definition encode_entry :: "prims \<Rightarrow> nat \<Rightarrow> pyval \<times> pyval \<Rightarrow> pyexc + pystr" where
  "encode_entry P d = (\<lambda>(k, v). emap (\<lambda>t. encode_string (key_str k) @ [58] @ t) (encode P d v))"

lemma encode_list:
  "encode P d (PList xs) = Inr s \<longleftrightarrow> d \<le> MAX_DEPTH \<and>
     (\<exists>ss. etraverse (encode P (d + 1)) xs = Inr ss \<and> s = [91] @ comma_sep ss @ [93])"
  "encode P d (PTuple xs) = Inr s \<longleftrightarrow> d \<le> MAX_DEPTH \<and>
     (\<exists>ss. etraverse (encode P (d + 1)) xs = Inr ss \<and> s = [91] @ comma_sep ss @ [93])"
  by (auto simp: etraverse_eq emap_Inr_iff)

lemma encode_dict:
  "encode P d (PDict kvs) = Inr s \<longleftrightarrow> d \<le> MAX_DEPTH \<and> list_all (is_str \<circ> fst) kvs \<and>
     list_all (bmp \<circ> fst) kvs \<and>
     (\<exists>ss. etraverse (encode_entry P (d + 1)) (sort_key (key_str \<circ> fst) kvs) = Inr ss \<and>
        s = [123] @ comma_sep ss @ [125])"
proof -
  have "sort_key (key_str \<circ> fst) (map (\<lambda>(k, v). (k, encode P (d + 1) v)) kvs) =
      map (\<lambda>(k, v). (k, encode P (d + 1) v)) (sort_key (key_str \<circ> fst) kvs)"
    by (simp add: sort_key_map comp_def case_prod_unfold)
  moreover have "etraverse h (map g xs) = etraverse (h \<circ> g) xs" for h :: "pyval \<times> (pyexc + pystr) \<Rightarrow> pyexc + pystr"
      and g :: "pyval \<times> pyval \<Rightarrow> pyval \<times> (pyexc + pystr)" and xs
    by (simp add: etraverse_eq)
  ultimately have "etraverse (\<lambda>(k, r). emap (\<lambda>t. encode_string (key_str k) @ [58] @ t) r)
      (sort_key (key_str \<circ> fst) (map (\<lambda>(k, v). (k, encode P (d + 1) v)) kvs)) =
      etraverse (encode_entry P (d + 1)) (sort_key (key_str \<circ> fst) kvs)"
    by (simp add: encode_entry_def comp_def case_prod_unfold)
  then show ?thesis by (auto simp: emap_Inr_iff simp del: append.simps)
qed

text \<open>The first character tells which kind of value follows.\<close>

fun kind :: "pyval \<Rightarrow> nat" where
  "kind PNone = 110"
| "kind (PBool b) = (if b then 116 else 102)"
| "kind (PStr _) = 34"
| "kind (PList _) = 91"
| "kind (PTuple _) = 91"
| "kind (PDict _) = 123"
| "kind _ = 45"

lemma encode_head:
  assumes "encode P d v = Inr s" and "plain v"
  shows "s \<noteq> [] \<and> (if hd s \<in> {110, 116, 102, 34, 91, 123} then hd s else 45) = kind v \<and> \<not> closes s"
proof (cases v)
  case (PInt i)
  obtain c cs where "int_str i = c # cs" "c = 45 \<or> (48 \<le> c \<and> c < 58)"
    using nat_str_head [of "nat i"] by (cases "i < 0") (auto simp: int_str_def)
  moreover have "s = int_str i" using PInt assms(1) by (simp split: if_splits)
  ultimately show ?thesis using PInt by auto
next
  case (PList xs)
  show ?thesis using assms(1) unfolding PList encode_list by auto
next
  case (PTuple xs)
  show ?thesis using assms(1) unfolding PTuple encode_list by auto
next
  case (PDict kvs)
  show ?thesis using assms(1) unfolding PDict encode_dict by auto
qed (use assms in \<open>auto simp: u_def encode_string_def split: if_splits\<close>)

lemma comma_sep_Cons: "comma_sep (s # ss) = s @ concat (map ((#) 44) ss)"
  by (induction ss arbitrary: s) (auto simp: comma_sep_def)

lemma items_unique:
  assumes one: "\<And>x y s t r r'. x \<in> set xs \<Longrightarrow> y \<in> set ys \<Longrightarrow> f x = Inr s \<Longrightarrow> g y = Inr t \<Longrightarrow>
      s @ r = t @ r' \<Longrightarrow> closes r \<Longrightarrow> closes r' \<Longrightarrow> N x = N y \<and> r = r'"
    and "etraverse f xs = Inr ss" and "etraverse g ys = Inr ts" and c: "c = 93 \<or> c = 125"
    and "concat (map ((#) 44) ss) @ c # r = concat (map ((#) 44) ts) @ c # r'"
  shows "map N xs = map N ys \<and> r = r'"
  using assms(1-3,5)
proof (induction xs arbitrary: ys ss ts)
  case Nil
  then show ?case using c by (cases ys) (auto split: sum.splits)
next
  case (Cons x xs)
  from Cons.prems(2) obtain s ss' where s: "f x = Inr s" "etraverse f xs = Inr ss'" "ss = s # ss'"
    by (auto split: sum.splits)
  obtain y ys' where ys: "ys = y # ys'" using Cons.prems(3,4) s(3) c by (cases ys) auto
  from Cons.prems(3) obtain t ts' where t: "g y = Inr t" "etraverse g ys' = Inr ts'" "ts = t # ts'"
    by (auto simp: ys split: sum.splits)
  have cl: "closes (concat (map ((#) 44) us) @ c # z)" for us z using c by (cases us) auto
  have eq: "s @ (concat (map ((#) 44) ss') @ c # r) = t @ (concat (map ((#) 44) ts') @ c # r')"
    using Cons.prems(4) s(3) t(3) by simp
  have "N x = N y \<and> concat (map ((#) 44) ss') @ c # r = concat (map ((#) 44) ts') @ c # r'"
    using Cons.prems(1) [OF _ _ s(1) t(1) eq cl cl] ys by simp
  moreover have "map N xs = map N ys' \<and> r = r'"
  proof (rule Cons.IH [OF _ s(2) t(2)])
    show "concat (map ((#) 44) ss') @ c # r = concat (map ((#) 44) ts') @ c # r'" using calculation ..
  next
    fix a b p q u v
    assume "a \<in> set xs" "b \<in> set ys'" "f a = Inr p" "g b = Inr q" "p @ u = q @ v" "closes u" "closes v"
    with Cons.prems(1) [of a b p q u v] ys show "N a = N b \<and> u = v" by simp
  qed
  ultimately show ?case by (simp add: ys)
qed

text \<open>The bracketed lists: an element never starts with a closing bracket.\<close>

lemma bracketed_unique:
  assumes one: "\<And>x y s t r r'. x \<in> set xs \<Longrightarrow> y \<in> set ys \<Longrightarrow> f x = Inr s \<Longrightarrow> g y = Inr t \<Longrightarrow>
      s @ r = t @ r' \<Longrightarrow> closes r \<Longrightarrow> closes r' \<Longrightarrow> N x = N y \<and> r = r'"
    and f: "etraverse f xs = Inr ss" and g: "etraverse g ys = Inr ts" and c: "c = 93 \<or> c = 125"
    and open_f: "\<And>x s. x \<in> set xs \<Longrightarrow> f x = Inr s \<Longrightarrow> \<not> closes s"
    and open_g: "\<And>y t. y \<in> set ys \<Longrightarrow> g y = Inr t \<Longrightarrow> \<not> closes t"
    and eq: "comma_sep ss @ c # r = comma_sep ts @ c # r'"
  shows "map N xs = map N ys \<and> r = r'"
proof -
  have no: "t @ z \<noteq> c # y" if "\<not> closes t" for t z y using that c by (cases t) auto
  show ?thesis
  proof (cases xs)
    case Nil
    then have "c # r = comma_sep ts @ c # r'" using f eq by (simp add: comma_sep_def)
    moreover have "ys = []"
    proof (rule ccontr)
      assume "ys \<noteq> []"
      then obtain y ys' t ts' where "ys = y # ys'" "g y = Inr t" "ts = t # ts'"
        using g by (cases ys) (auto split: sum.splits)
      with calculation open_g no show False by (metis append.assoc comma_sep_Cons list.set_intros(1))
    qed
    ultimately show ?thesis using Nil g by (simp add: comma_sep_def)
  next
    case (Cons x xs')
    with f obtain s ss' where s: "f x = Inr s" "etraverse f xs' = Inr ss'" "ss = s # ss'"
      by (auto split: sum.splits)
    have "ys \<noteq> []"
    proof
      assume "ys = []"
      then have "comma_sep ss @ c # r = c # r'" using g eq by (simp add: comma_sep_def)
      then show False using open_f [of x s] Cons s no [of s] by (simp add: comma_sep_Cons)
    qed
    then obtain y ys' where ys: "ys = y # ys'" by (cases ys) auto
    with g obtain t ts' where t: "g y = Inr t" "etraverse g ys' = Inr ts'" "ts = t # ts'"
      by (auto split: sum.splits)
    have "concat (map ((#) 44) ss) @ c # r = concat (map ((#) 44) ts) @ c # r'"
      using eq s(3) t(3) by (simp add: comma_sep_Cons)
    from items_unique [OF one f g c this] show ?thesis .
  qed
qed

lemma entries_norm:
  "map (\<lambda>(k, v). (key_str k, jcs_norm v)) (sort_key (key_str \<circ> fst) kvs) =
     map (\<lambda>(k, v). (key_str k, v)) (sort_key (key_str \<circ> fst) (map (\<lambda>(k, v). (k, jcs_norm v)) kvs))"
  by (simp add: sort_key_map comp_def case_prod_unfold)

lemma same_kind:
  assumes "encode P d v = Inr s" and "encode P d' w = Inr t" and "plain v" and "plain w" and "s @ r = t @ r'"
  shows "kind v = kind w"
proof -
  note v = encode_head [OF assms(1,3)] and w = encode_head [OF assms(2,4)]
  have "hd s = hd t" using v w arg_cong [OF assms(5), of hd] by simp
  with v w show ?thesis by metis
qed

text \<open>The two bracketed cases, from the uniqueness of the elements.\<close>

definition unique_at :: "prims \<Rightarrow> pyval \<Rightarrow> bool" where
  "unique_at P v \<longleftrightarrow> (\<forall>d s w d' t r r'. encode P d v = Inr s \<longrightarrow> encode P d' w = Inr t \<longrightarrow> plain v \<longrightarrow> plain w \<longrightarrow>
     s @ r = t @ r' \<longrightarrow> closes r \<longrightarrow> closes r' \<longrightarrow> jcs_norm v = jcs_norm w \<and> r = r')"

lemma unique_atD:
  "unique_at P v \<Longrightarrow> encode P d v = Inr s \<Longrightarrow> encode P d' w = Inr t \<Longrightarrow> plain v \<Longrightarrow> plain w \<Longrightarrow>
     s @ r = t @ r' \<Longrightarrow> closes r \<Longrightarrow> closes r' \<Longrightarrow> jcs_norm v = jcs_norm w \<and> r = r'"
  unfolding unique_at_def by blast

lemma unique_list:
  assumes ih: "\<And>x. x \<in> set xs \<Longrightarrow> unique_at P x" and "list_all plain xs" and "list_all plain ys"
    and s: "etraverse (encode P d) xs = Inr ss" "etraverse (encode P d') ys = Inr ts"
    and eq: "comma_sep ss @ 93 # r = comma_sep ts @ 93 # r'"
  shows "map jcs_norm xs = map jcs_norm ys \<and> r = r'"
proof (rule bracketed_unique [OF _ s _ _ _ eq])
  fix x y a b u v
  assume x: "x \<in> set xs" and y: "y \<in> set ys" and enc: "encode P d x = Inr a" "encode P d' y = Inr b"
    and ab: "a @ u = b @ v" and cl: "closes u" "closes v"
  have "plain x" "plain y" using assms(2,3) x y by (auto simp: list_all_iff)
  from unique_atD [OF ih [OF x] enc this ab cl] show "jcs_norm x = jcs_norm y \<and> u = v" .
next
  fix x a assume x: "x \<in> set xs" and e: "encode P d x = Inr a"
  have "plain x" using assms(2) x by (auto simp: list_all_iff)
  from encode_head [OF e this] show "\<not> closes a" by blast
next
  fix y b assume y: "y \<in> set ys" and e: "encode P d' y = Inr b"
  have "plain y" using assms(3) y by (auto simp: list_all_iff)
  from encode_head [OF e this] show "\<not> closes b" by blast
qed simp

lemma unique_entries:
  assumes ih: "\<And>k v. (k, v) \<in> set xs \<Longrightarrow> unique_at P v \<and> plain v \<and> is_str k"
    and pl: "\<And>k v. (k, v) \<in> set ys \<Longrightarrow> plain v \<and> is_str k"
    and s: "etraverse (encode_entry P d) xs = Inr ss" "etraverse (encode_entry P d') ys = Inr ts"
    and eq: "comma_sep ss @ 125 # r = comma_sep ts @ 125 # r'"
  shows "map (\<lambda>(k, v). (k, jcs_norm v)) xs = map (\<lambda>(k, v). (k, jcs_norm v)) ys \<and> r = r'"
proof (rule bracketed_unique [OF _ s _ _ _ eq])
  fix x y a b u v
  assume in_xs: "x \<in> set xs" and in_ys: "y \<in> set ys" and enc: "encode_entry P d x = Inr a" "encode_entry P d' y = Inr b"
    and ab: "a @ u = b @ v" and cl: "closes u" "closes v"
  obtain k v1 l v2 where xy: "x = (k, v1)" "y = (l, v2)" by fastforce
  from enc obtain p q where p: "encode P d v1 = Inr p" "a = encode_string (key_str k) @ [58] @ p"
    and q: "encode P d' v2 = Inr q" "b = encode_string (key_str l) @ [58] @ q"
    by (auto simp: xy encode_entry_def emap_Inr_iff)
  from ab have "encode_string (key_str k) @ (58 # p @ u) = encode_string (key_str l) @ (58 # q @ v)"
    by (simp add: p(2) q(2))
  from encode_string_unique [OF this] have key: "key_str k = key_str l" and pq: "p @ u = q @ v" by simp_all
  have facts: "unique_at P v1" "plain v1" "plain v2" "is_str k" "is_str l" using ih in_xs pl in_ys xy by blast+
  from unique_atD [OF facts(1) p(1) q(1) facts(2,3) pq cl] have "jcs_norm v1 = jcs_norm v2 \<and> u = v" .
  moreover have "k = l" using key facts(4,5) by (cases k; cases l) (auto simp: is_str_def)
  ultimately show "(case x of (k, v) \<Rightarrow> (k, jcs_norm v)) = (case y of (k, v) \<Rightarrow> (k, jcs_norm v)) \<and> u = v"
    by (simp add: xy)
qed (auto simp: encode_entry_def emap_Inr_iff encode_string_def)

lemma norm_sorted:
  "jcs_norm (PDict kvs) = PDict (map (\<lambda>(k, v). (k, jcs_norm v)) (sort_key (key_str \<circ> fst) kvs))"
  by (simp add: sort_key_map comp_def case_prod_unfold)

lemma unique_at_all: "unique_at P v"
proof (induction v)
  case (PInt i)
  show ?case unfolding unique_at_def
  proof (intro allI impI)
    fix d s w d' t r r'
    assume a: "encode P d (PInt i) = Inr s" "encode P d' w = Inr t" "plain (PInt i)" "plain w" "s @ r = t @ r'" "closes r" "closes r'"
    from same_kind [OF a(1-5)] a(2,4) obtain j where w: "w = PInt j" by (cases w) (auto split: if_splits)
    with a have "int_str i @ r = int_str j @ r'" by (auto split: if_splits)
    from int_str_unique [OF this a(6,7)] w show "jcs_norm (PInt i) = jcs_norm w \<and> r = r'" by simp
  qed
next
  case (PStr x)
  show ?case unfolding unique_at_def
  proof (intro allI impI)
    fix d s w d' t r r'
    assume a: "encode P d (PStr x) = Inr s" "encode P d' w = Inr t" "plain (PStr x)" "plain w" "s @ r = t @ r'"
    from same_kind [OF a] obtain y where w: "w = PStr y" by (cases w) (auto split: if_splits)
    with a have "encode_string x @ r = encode_string y @ r'" by (auto split: if_splits)
    from encode_string_unique [OF this] w show "jcs_norm (PStr x) = jcs_norm w \<and> r = r'" by simp
  qed
next
  case (PList xs)
  show ?case unfolding unique_at_def
  proof (intro allI impI)
    fix d s w d' t r r'
    assume a: "encode P d (PList xs) = Inr s" "encode P d' w = Inr t" "plain (PList xs)" "plain w" "s @ r = t @ r'"
    from same_kind [OF a] obtain ys where w: "w = PList ys \<or> w = PTuple ys" by (cases w) (auto split: if_splits)
    from a(1) obtain ss where ss: "etraverse (encode P (d + 1)) xs = Inr ss" "s = [91] @ comma_sep ss @ [93]"
      unfolding encode_list by blast
    from a(2) w obtain ts where ts: "etraverse (encode P (d' + 1)) ys = Inr ts" "t = [91] @ comma_sep ts @ [93]"
      using encode_list by blast
    have "comma_sep ss @ 93 # r = comma_sep ts @ 93 # r'" using a(5) ss(2) ts(2) by simp
    from unique_list [OF PList _ _ ss(1) ts(1) this] a(3,4) w show "jcs_norm (PList xs) = jcs_norm w \<and> r = r'"
      by auto
  qed
next
  case (PTuple xs)
  show ?case unfolding unique_at_def
  proof (intro allI impI)
    fix d s w d' t r r'
    assume a: "encode P d (PTuple xs) = Inr s" "encode P d' w = Inr t" "plain (PTuple xs)" "plain w" "s @ r = t @ r'"
    from same_kind [OF a] obtain ys where w: "w = PList ys \<or> w = PTuple ys" by (cases w) (auto split: if_splits)
    from a(1) obtain ss where ss: "etraverse (encode P (d + 1)) xs = Inr ss" "s = [91] @ comma_sep ss @ [93]"
      unfolding encode_list by blast
    from a(2) w obtain ts where ts: "etraverse (encode P (d' + 1)) ys = Inr ts" "t = [91] @ comma_sep ts @ [93]"
      using encode_list by blast
    have "comma_sep ss @ 93 # r = comma_sep ts @ 93 # r'" using a(5) ss(2) ts(2) by simp
    from unique_list [OF PTuple _ _ ss(1) ts(1) this] a(3,4) w show "jcs_norm (PTuple xs) = jcs_norm w \<and> r = r'"
      by auto
  qed
next
  case (PDict kvs)
  show ?case unfolding unique_at_def
  proof (intro allI impI)
    fix d s w d' t r r'
    assume a: "encode P d (PDict kvs) = Inr s" "encode P d' w = Inr t" "plain (PDict kvs)" "plain w" "s @ r = t @ r'"
    from same_kind [OF a] obtain lws where w: "w = PDict lws" by (cases w) (auto split: if_splits)
    from a(1) obtain ss where ss: "etraverse (encode_entry P (d + 1)) (sort_key (key_str \<circ> fst) kvs) = Inr ss"
      "s = [123] @ comma_sep ss @ [125]" "list_all (is_str \<circ> fst) kvs" unfolding encode_dict by blast
    from a(2) w obtain ts where ts: "etraverse (encode_entry P (d' + 1)) (sort_key (key_str \<circ> fst) lws) = Inr ts"
      "t = [123] @ comma_sep ts @ [125]" "list_all (is_str \<circ> fst) lws" using encode_dict by blast
    have "comma_sep ss @ 125 # r = comma_sep ts @ 125 # r'" using a(5) ss(2) ts(2) by simp
    moreover have "unique_at P v \<and> plain v \<and> is_str k" if "(k, v) \<in> set (sort_key (key_str \<circ> fst) kvs)" for k v
      using that a(3) ss(3) PDict [of "(k, v)" v] by (auto simp: list_all_iff)
    moreover have "plain v \<and> is_str k" if "(k, v) \<in> set (sort_key (key_str \<circ> fst) lws)" for k v
      using that a(4) ts(3) w by (auto simp: list_all_iff)
    ultimately show "jcs_norm (PDict kvs) = jcs_norm w \<and> r = r'"
      using unique_entries [OF _ _ ss(1) ts(1)] unfolding w norm_sorted by blast
  qed
next
  case PNone
  show ?case unfolding unique_at_def
  proof (intro allI impI)
    fix d s w d' t r r'
    assume a: "encode P d PNone = Inr s" "encode P d' w = Inr t" "plain PNone" "plain w" "s @ r = t @ r'"
    from same_kind [OF a] have "w = PNone" by (cases w) (auto split: if_splits)
    with a show "jcs_norm PNone = jcs_norm w \<and> r = r'" by (auto split: if_splits)
  qed
next
  case (PBool b)
  show ?case unfolding unique_at_def
  proof (intro allI impI)
    fix d s w d' t r r'
    assume a: "encode P d (PBool b) = Inr s" "encode P d' w = Inr t" "plain (PBool b)" "plain w" "s @ r = t @ r'"
    from same_kind [OF a] have "w = PBool b" by (cases w) (auto split: if_splits)
    with a show "jcs_norm (PBool b) = jcs_norm w \<and> r = r'" by (auto split: if_splits)
  qed
qed (auto simp: unique_at_def split: if_splits)

section \<open>Canonical bytes and values\<close>

lemma codepoints_append [simp]: "codepoints (s @ t) \<longleftrightarrow> codepoints s \<and> codepoints t"
  by (simp add: codepoints_def)

lemma codepoints_Cons [simp]: "codepoints (c # s) \<longleftrightarrow> c < 1114112 \<and> codepoints s"
  by (simp add: codepoints_def)

lemma codepoints_Nil [simp]: "codepoints []"
  by (simp add: codepoints_def)

text \<open>A property of the characters of the strings passes to the text, if all of ASCII has it.\<close>

fun strings_in :: "(nat \<Rightarrow> bool) \<Rightarrow> pyval \<Rightarrow> bool" where
  "strings_in C (PStr s) = list_all C s"
| "strings_in C (PList xs) = list_all (strings_in C) xs"
| "strings_in C (PTuple xs) = list_all (strings_in C) xs"
| "strings_in C (PDict kvs) = list_all (\<lambda>(k, b). list_all C (key_str k) \<and> b) (map (\<lambda>(k, v). (k, strings_in C v)) kvs)"
| "strings_in C (PFloat _) = False"
| "strings_in C _ = True"

lemma plain_strings: "plain v \<longleftrightarrow> strings_in (\<lambda>c. c < 1114112) v"
proof (induction v)
  case (PDict kvs)
  then show ?case by (auto simp: list_all_iff codepoints_def)
qed (auto simp: list_all_iff codepoints_def)

lemma all_comma: "C 44 \<Longrightarrow> \<forall>s \<in> set ss. list_all C s \<Longrightarrow> list_all C (comma_sep ss)"
  by (cases ss) (auto simp: comma_sep_Cons comma_sep_def [of "[]"] list_all_iff)

lemma all_escape:
  assumes "\<forall>c < 128. C c" and "list_all C s"
  shows "list_all C (encode_string s)"
proof -
  have "list_all C (escape_char c)" if "C c" for c
    using that assms(1) by (auto simp: escape_char_def hex_digit_def)
  with assms show ?thesis by (auto simp: encode_string_def list_all_iff)
qed

lemma all_int: "\<forall>c < 128. C c \<Longrightarrow> list_all C (int_str i)"
proof -
  assume "\<forall>c < 128. C c"
  moreover have "d < 128" if "d \<in> set (nat_str n)" for d n using nat_str_digits [of n] that by auto
  ultimately show ?thesis by (auto simp: int_str_def list_all_iff)
qed

lemma etraverse_each: "etraverse f xs = Inr ys \<Longrightarrow> y \<in> set ys \<Longrightarrow> \<exists>x \<in> set xs. f x = Inr y"
  by (induction xs arbitrary: ys) (auto split: sum.splits)

lemma encode_chars: "\<forall>c < 128. C c \<Longrightarrow> encode P d v = Inr s \<Longrightarrow> strings_in C v \<Longrightarrow> list_all C s"
proof (induction v arbitrary: d s)
  case (PList xs)
  from PList(3) obtain ss where ss: "etraverse (encode P (d + 1)) xs = Inr ss" "s = [91] @ comma_sep ss @ [93]"
    unfolding encode_list by blast
  have "list_all C t" if "t \<in> set ss" for t
    using etraverse_each [OF ss(1) that] PList(1,2,4) by (auto simp: list_all_iff)
  with PList(2) show ?case by (simp add: ss(2) all_comma)
next
  case (PTuple xs)
  from PTuple(3) obtain ss where ss: "etraverse (encode P (d + 1)) xs = Inr ss" "s = [91] @ comma_sep ss @ [93]"
    unfolding encode_list by blast
  have "list_all C t" if "t \<in> set ss" for t
    using etraverse_each [OF ss(1) that] PTuple(1,2,4) by (auto simp: list_all_iff)
  with PTuple(2) show ?case by (simp add: ss(2) all_comma)
next
  case (PDict kvs)
  from PDict(4) obtain ss where ss: "etraverse (encode_entry P (d + 1)) (sort_key (key_str \<circ> fst) kvs) = Inr ss"
    "s = [123] @ comma_sep ss @ [125]" unfolding encode_dict by blast
  have "list_all C t" if "t \<in> set ss" for t
  proof -
    from etraverse_each [OF ss(1) that] obtain k v where kv: "(k, v) \<in> set kvs"
      and e: "encode_entry P (d + 1) (k, v) = Inr t" by auto
    from e obtain p where p: "encode P (d + 1) v = Inr p" "t = encode_string (key_str k) @ [58] @ p"
      by (auto simp: encode_entry_def emap_Inr_iff)
    have "strings_in C v" "list_all C (key_str k)" using PDict(5) kv by (auto simp: list_all_iff)
    with PDict(2) [OF kv _ PDict(3) p(1)] p(2) PDict(3) show ?thesis by (simp add: all_escape)
  qed
  with PDict(3) show ?case by (simp add: ss(2) all_comma)
qed (auto simp: u_def all_int all_escape split: if_splits)

lemma encode_codepoints: "encode P d v = Inr s \<Longrightarrow> plain v \<Longrightarrow> codepoints s"
  using encode_chars [of "\<lambda>c. c < 1114112" P d v s] by (simp add: plain_strings codepoints_def)

text \<open>The code points that UTF-8 encodes: not the surrogates.\<close>

definition scalar :: "nat \<Rightarrow> bool" where
  "scalar c \<longleftrightarrow> c < 55296 \<or> (57343 < c \<and> c < 1114112)"

lemma encode_utf8_scalar: "list_all scalar s \<Longrightarrow> \<exists>b. encode_utf8 s = Inr b"
proof -
  have "\<exists>b. utf8 s = Some b" if "list_all scalar s" for s
    using that by (induction s) (auto simp: utf8_cp_def scalar_def)
  moreover assume "list_all scalar s"
  ultimately obtain b where "utf8 s = Some b" by blast
  then show ?thesis by (simp add: encode_utf8_def)
qed

lemma canonicalize_inject:
  assumes "canonicalize P v = Inr b" and "canonicalize P w = Inr b" and "plain v" and "plain w"
  shows "jcs_norm v = jcs_norm w"
proof -
  from assms(1,2) obtain s t where s: "encode P 0 v = Inr s" "encode_utf8 s = Inr b"
    and t: "encode P 0 w = Inr t" "encode_utf8 t = Inr b" by (auto simp: canonicalize_def ebind_Inr_iff)
  have "codepoints s" "codepoints t"
    using encode_codepoints [OF s(1) assms(3)] encode_codepoints [OF t(1) assms(4)] .
  with s(2) t(2) have "s = t" using encode_utf8_inject by blast
  with unique_atD [OF unique_at_all s(1) t(1) assms(3,4), of "[]" "[]"] show ?thesis by simp
qed

text \<open>The encoder sees a value only up to its norm, for every value.\<close>

lemma sort_key_idem: "sort_key f (sort_key f xs) = sort_key f xs"
  by (rule sort_key_eqI) (simp_all add: sort_key_stable)

lemma encode_norm: "encode P d (jcs_norm v) = encode P d v"
proof (induction v arbitrary: d)
  case (PList xs)
  then have m: "map (encode P (d + 1)) (map jcs_norm xs) = map (encode P (d + 1)) xs" by simp
  show ?case unfolding jcs_norm.simps encode.simps m ..
next
  case (PTuple xs)
  then have m: "map (encode P (d + 1)) (map jcs_norm xs) = map (encode P (d + 1)) xs" by simp
  show ?case unfolding jcs_norm.simps encode.simps m ..
next
  case (PDict kvs)
  let ?n = "\<lambda>(k, v). (k, jcs_norm v)" and ?e = "\<lambda>(k, v). (k, encode P (d + 1) v)"
  have "map (?e \<circ> ?n) kvs = map ?e kvs"
    using PDict by (intro map_cong) auto
  then have e: "map ?e (map ?n kvs) = map ?e kvs" by simp
  have "sort_key (key_str \<circ> fst) (map ?e (sort_key (key_str \<circ> fst) (map ?n kvs))) =
      sort_key (key_str \<circ> fst) (sort_key (key_str \<circ> fst) (map ?e (map ?n kvs)))"
    by (simp add: sort_key_map comp_def case_prod_unfold)
  also have "\<dots> = sort_key (key_str \<circ> fst) (map ?e kvs)" unfolding e
    by (rule sort_key_idem)
  finally have s: "sort_key (key_str \<circ> fst) (map ?e (sort_key (key_str \<circ> fst) (map ?n kvs))) =
      sort_key (key_str \<circ> fst) (map ?e kvs)" .
  have k: "list_all (Q \<circ> fst) (sort_key (key_str \<circ> fst) (map ?n kvs)) \<longleftrightarrow> list_all (Q \<circ> fst) kvs" for Q
    by (auto simp: list_all_iff)
  show ?case unfolding jcs_norm.simps encode.simps k s ..
qed auto

section \<open>What is accepted\<close>

text \<open>The nesting of a value, and the values the encoder has no reason but the depth to refuse.\<close>

fun nesting :: "pyval \<Rightarrow> nat" where
  "nesting (PList xs) = foldr max (map (\<lambda>x. nesting x + 1) xs) 0"
| "nesting (PTuple xs) = foldr max (map (\<lambda>x. nesting x + 1) xs) 0"
| "nesting (PDict kvs) = foldr max (map snd (map (\<lambda>(k, v). (k, nesting v + 1)) kvs)) 0"
| "nesting _ = 0"

fun jcs_value :: "pyval \<Rightarrow> bool" where
  "jcs_value (PList xs) = list_all jcs_value xs"
| "jcs_value (PTuple xs) = list_all jcs_value xs"
| "jcs_value (PDict kvs) = list_all (\<lambda>(k, b). is_str k \<and> bmp k \<and> b) (map (\<lambda>(k, v). (k, jcs_value v)) kvs)"
| "jcs_value (PFloat f) = (f \<notin> {FNan, FPosInf, FNegInf})"
| "jcs_value (PSend _ _ _) = False"
| "jcs_value (PObj _) = False"
| "jcs_value _ = True"

lemma foldr_max_le: "foldr max (map f xs) (0::nat) \<le> n \<longleftrightarrow> (\<forall>x \<in> set xs. f x \<le> n)"
  by (induction xs) auto

lemma etraverse_ok: "is_ok (etraverse f xs) \<longleftrightarrow> (\<forall>x \<in> set xs. is_ok (f x))"
  by (induction xs) (auto simp: is_ok_def split: sum.splits)

lemma encode_ok: "is_ok (encode P d v) \<longleftrightarrow> jcs_value v \<and> d + nesting v \<le> MAX_DEPTH"
proof (induction v arbitrary: d)
  case (PList xs)
  have "is_ok (encode P d (PList xs)) \<longleftrightarrow> d \<le> MAX_DEPTH \<and> is_ok (etraverse (encode P (d + 1)) xs)"
    unfolding is_ok_iff encode_list by blast
  also have "\<dots> \<longleftrightarrow> d \<le> MAX_DEPTH \<and> (\<forall>x \<in> set xs. jcs_value x \<and> d + 1 + nesting x \<le> MAX_DEPTH)"
    unfolding etraverse_ok using PList by blast
  also have "\<dots> \<longleftrightarrow> jcs_value (PList xs) \<and> d + nesting (PList xs) \<le> MAX_DEPTH"
    using foldr_max_le [of "\<lambda>x. nesting x + 1" xs "MAX_DEPTH - d"] by (auto simp: list_all_iff)
  finally show ?case .
next
  case (PTuple xs)
  have "is_ok (encode P d (PTuple xs)) \<longleftrightarrow> d \<le> MAX_DEPTH \<and> is_ok (etraverse (encode P (d + 1)) xs)"
    unfolding is_ok_iff encode_list by blast
  also have "\<dots> \<longleftrightarrow> d \<le> MAX_DEPTH \<and> (\<forall>x \<in> set xs. jcs_value x \<and> d + 1 + nesting x \<le> MAX_DEPTH)"
    unfolding etraverse_ok using PTuple by blast
  also have "\<dots> \<longleftrightarrow> jcs_value (PTuple xs) \<and> d + nesting (PTuple xs) \<le> MAX_DEPTH"
    using foldr_max_le [of "\<lambda>x. nesting x + 1" xs "MAX_DEPTH - d"] by (auto simp: list_all_iff)
  finally show ?case .
next
  case (PDict kvs)
  have entry: "is_ok (encode_entry P d (k, v)) \<longleftrightarrow> is_ok (encode P d v)" for d k v
    by (auto simp: encode_entry_def is_ok_iff emap_Inr_iff)
  have "is_ok (encode P d (PDict kvs)) \<longleftrightarrow> d \<le> MAX_DEPTH \<and> list_all (is_str \<circ> fst) kvs \<and>
      list_all (bmp \<circ> fst) kvs \<and> is_ok (etraverse (encode_entry P (d + 1)) (sort_key (key_str \<circ> fst) kvs))"
    unfolding is_ok_iff encode_dict by blast
  also have "\<dots> \<longleftrightarrow> d \<le> MAX_DEPTH \<and> (\<forall>(k, v) \<in> set kvs. is_str k \<and> bmp k \<and> jcs_value v \<and> d + 1 + nesting v \<le> MAX_DEPTH)"
    unfolding etraverse_ok using PDict(2) entry by (fastforce simp: list_all_iff)
  also have "\<dots> \<longleftrightarrow> jcs_value (PDict kvs) \<and> d + nesting (PDict kvs) \<le> MAX_DEPTH"
    using foldr_max_le [of "\<lambda>(k, v). nesting v + 1" kvs "MAX_DEPTH - d"]
    by (auto simp: list_all_iff comp_def case_prod_unfold)
  finally show ?case .
next
  case (PFloat f)
  then show ?case by (cases f) (auto simp: is_ok_def Let_def)
qed (auto simp: is_ok_def)

text \<open>A JSON value is refused for its depth alone.\<close>

lemma jcs_value_error: "jcs_value v \<Longrightarrow> encode P d v = Inl e \<Longrightarrow> e = RecursionError []"
proof (induction v arbitrary: d)
  case (PList xs)
  then have "d \<le> MAX_DEPTH \<Longrightarrow> etraverse (encode P (d + 1)) xs = Inl e"
    by (auto simp: etraverse_eq emap_def split: sum.splits)
  with etraverse_Inl PList show ?case by (cases "d \<le> MAX_DEPTH") (fastforce simp: list_all_iff)+
next
  case (PTuple xs)
  then have "d \<le> MAX_DEPTH \<Longrightarrow> etraverse (encode P (d + 1)) xs = Inl e"
    by (auto simp: etraverse_eq emap_def split: sum.splits)
  with etraverse_Inl PTuple show ?case by (cases "d \<le> MAX_DEPTH") (fastforce simp: list_all_iff)+
next
  case (PDict kvs)
  show ?case
  proof (cases "d \<le> MAX_DEPTH")
    case True
    have "list_all (is_str \<circ> fst) kvs" "list_all (bmp \<circ> fst) kvs"
      using PDict(3) by (auto simp: list_all_iff)
    with PDict(4) True have "etraverse (\<lambda>(k, r). emap (\<lambda>t. encode_string (key_str k) @ [58] @ t) r)
        (sort_key (key_str \<circ> fst) (map (\<lambda>(k, v). (k, encode P (d + 1) v)) kvs)) = Inl e"
      by (simp add: emap_Inl_iff)
    from etraverse_Inl [OF this]
    have "\<exists>(k, v) \<in> set kvs. encode P (d + 1) v = Inl e" by (simp add: case_prod_unfold)
    then obtain k v where kv: "(k, v) \<in> set kvs" "encode P (d + 1) v = Inl e" by blast
    then have "jcs_value v" using PDict(3) by (auto simp: list_all_iff)
    from PDict(2) [OF kv(1) _ this kv(2)] show ?thesis by simp
  qed (use PDict(4) in simp)
next
  case (PFloat f)
  then show ?case by (cases f) (auto simp: Let_def split: if_splits)
qed (auto split: if_splits)

lemma canonicalize_deep:
  assumes "jcs_value v" and "64 < nesting v"
  shows "canonicalize P v = Inl (RecursionError [])"
proof -
  have "\<not> is_ok (encode P 0 v)" using assms(2) by (simp add: encode_ok MAX_DEPTH_def)
  then obtain e where "encode P 0 v = Inl e" by (auto simp: is_ok_def split: sum.splits)
  with jcs_value_error [OF assms(1) this] show ?thesis by (simp add: canonicalize_def)
qed

lemma canonicalize_total:
  assumes "jcs_value v" and "nesting v \<le> 64" and "strings_in scalar v"
  shows "\<exists>b. canonicalize P v = Inr b"
proof -
  from assms(1,2) obtain s where s: "encode P 0 v = Inr s"
    using encode_ok [of P 0 v] by (auto simp: is_ok_iff MAX_DEPTH_def)
  with encode_chars [of scalar] assms(3) have "list_all scalar s" by (auto simp: scalar_def)
  with encode_utf8_scalar s show ?thesis by (auto simp: canonicalize_def)
qed



text \<open>
  The encoder accepts a value exactly when it is built from JSON values with finite floats
  and string keys inside the basic multilingual plane, and it is nested at most 64 deep; any
  other value raises, and no value makes it loop.
\<close>

theorem encode_accepts:
  "(\<exists>s. encode P 0 v = Inr s) \<longleftrightarrow> jcs_value v \<and> nesting v \<le> 64"
  using encode_ok [of P 0 v] by (simp add: is_ok_iff MAX_DEPTH_def)

end
