(* ===== verification/HashChain.thy ===== *)
theory HashChain
  imports Main
begin

text \<open>
  What a chain of digests commits to. The Merkle log chains SHA-256 over the previous hash and a
  payload, a macaroon chains HMAC under the previous signature; both are instances of the locale.
\<close>

section \<open>Hash chains\<close>

text \<open>The messages hashed along a chain, each the previous digest with a block.\<close>

fun chain_messages :: "('h \<times> 'b \<Rightarrow> 'h) \<Rightarrow> 'h \<Rightarrow> 'b list \<Rightarrow> ('h \<times> 'b) list" where
  "chain_messages link h [] = []"
| "chain_messages link h (b # bs) = (h, b) # chain_messages link (link (h, b)) bs"

lemma length_chain_messages [simp]: "length (chain_messages link h bs) = length bs"
  by (induction bs arbitrary: h) auto

lemma chain_messages_snoc:
  "chain_messages link h (bs @ [b]) = chain_messages link h bs @ [(foldl (\<lambda>h b. link (h, b)) h bs, b)]"
  by (induction bs arbitrary: h) auto

text \<open>
  What a chain needs of its digest: a digest is a hash, and a hash with a block is
  written down in one way only. Then two chains of one length that end in the same hash carry
  the same blocks, unless two different messages hashed along them have the same digest.
\<close>

locale hash_chain =
  fixes digest :: "'m \<Rightarrow> 'h" and message :: "'h \<Rightarrow> 'b \<Rightarrow> 'm" and hash :: "'h \<Rightarrow> bool"
  assumes digest_hash: "hash (digest m)"
    and message_inject: "hash h \<Longrightarrow> hash h' \<Longrightarrow> message h b = message h' b' \<Longrightarrow> h = h' \<and> b = b'"
begin

lemma fold_hash: "hash h \<Longrightarrow> hash (foldl (\<lambda>h b. digest (message h b)) h bs)"
  by (induction bs arbitrary: h) (auto simp: digest_hash)

lemma root_binds:
  assumes "length bs = length cs" and "hash h"
    and "foldl (\<lambda>h b. digest (message h b)) h bs = foldl (\<lambda>h b. digest (message h b)) h cs"
  shows "bs = cs \<or> (\<exists>p \<in> set (chain_messages (\<lambda>(h, b). digest (message h b)) h bs).
    \<exists>q \<in> set (chain_messages (\<lambda>(h, b). digest (message h b)) h cs).
      message (fst p) (snd p) \<noteq> message (fst q) (snd q) \<and>
      digest (message (fst p) (snd p)) = digest (message (fst q) (snd q)))"
  using assms
proof (induction bs arbitrary: cs rule: rev_induct)
  case (snoc b bs)
  then obtain ds d where cs: "cs = ds @ [d]" "length bs = length ds" by (cases cs rule: rev_cases) auto
  let ?f = "\<lambda>h b. digest (message h b)"
  let ?h = "foldl ?f h bs" and ?k = "foldl ?f h ds"
  have eq: "digest (message ?h b) = digest (message ?k d)" using snoc.prems(3) cs(1) by simp
  have last: "(?h, b) \<in> set (chain_messages (\<lambda>(h, b). ?f h b) h (bs @ [b]))"
    "(?k, d) \<in> set (chain_messages (\<lambda>(h, b). ?f h b) h cs)" by (simp_all add: chain_messages_snoc cs(1))
  show ?case
  proof (cases "message ?h b = message ?k d")
    case True
    then have "?h = ?k \<and> b = d" using fold_hash [OF snoc.prems(2)] by (intro message_inject) auto
    with snoc.IH [OF cs(2) snoc.prems(2)] show ?thesis
      by (auto simp: cs(1) chain_messages_snoc)
  next
    case False
    with eq last show ?thesis by (intro disjI2 bexI [OF _ last(1)] bexI [OF _ last(2)]) simp
  qed
qed simp

end

end
