(* ===== verification/Capabilities.thy ===== *)
theory Capabilities
  imports KResult Canonical HashChain
begin

text \<open>
  The capability tokens of telos_kernel/capabilities.py: minting, attenuation by appending a
  caveat, verification, and the default language of caveats. HMAC is RFC 2104 over the parameter
  SHA-256. A violated contract raises \<open>AssertionError\<close>; drawing a random root key is not modelled.
\<close>

section \<open>Tokens\<close>

datatype caveat = Caveat (predicate: pystr)

record macaroon =
  mc_identifier :: pystr
  mc_location :: pystr
  mc_caveats :: "caveat list"
  mc_signature :: pystr

definition MIN_KEY_BYTES :: nat where "MIN_KEY_BYTES = 32"

text \<open>A string of 64 characters that \<open>bytes.fromhex\<close> accepts; with blanks it has fewer bytes.\<close>

definition is_hex_digest :: "pystr \<Rightarrow> bool" where
  "is_hex_digest s \<longleftrightarrow> length s = 64 \<and> fromhex s \<noteq> None"

definition mint :: "prims \<Rightarrow> bytes \<Rightarrow> pystr \<Rightarrow> pystr \<Rightarrow> pyexc + macaroon" where
  "mint P root_key identifier location =
     (if length root_key < MIN_KEY_BYTES then Inl AssertionError
      else emap (\<lambda>b. \<lparr>mc_identifier = identifier, mc_location = location, mc_caveats = [],
                     mc_signature = hex (hmac P root_key b)\<rparr>) (encode_utf8 identifier))"

definition from_hex :: "pystr \<Rightarrow> pyexc + bytes" where
  "from_hex s = (case fromhex s of None \<Rightarrow> Inl (ValueError (u ''non-hexadecimal number'')) | Some b \<Rightarrow> Inr b)"

definition add_first_party_caveat :: "prims \<Rightarrow> macaroon \<Rightarrow> pystr \<Rightarrow> pyexc + macaroon" where
  "add_first_party_caveat P m p =
     (if \<not> is_hex_digest (mc_signature m) then Inl AssertionError
      else
        ebind (from_hex (mc_signature m)) (\<lambda>k.
        emap (\<lambda>b. m\<lparr>mc_caveats := mc_caveats m @ [Caveat p], mc_signature := hex (hmac P k b)\<rparr>)
          (encode_utf8 p)))"

section \<open>Verification\<close>

fun recompute_chain :: "prims \<Rightarrow> pystr \<Rightarrow> caveat list \<Rightarrow> pyexc + pystr" where
  "recompute_chain P sig [] = Inr sig"
| "recompute_chain P sig (c # cs) =
     ebind (from_hex sig) (\<lambda>k.
     ebind (encode_utf8 (predicate c)) (\<lambda>b. recompute_chain P (hex (hmac P k b)) cs))"

definition recompute_signature :: "prims \<Rightarrow> bytes \<Rightarrow> macaroon \<Rightarrow> pyexc + pystr" where
  "recompute_signature P root_key m =
     ebind (encode_utf8 (mc_identifier m)) (\<lambda>b. recompute_chain P (hex (hmac P root_key b)) (mc_caveats m))"

text \<open>\<open>hmac.compare_digest\<close> on strings refuses characters outside ASCII.\<close>

definition compare_digest :: "pystr \<Rightarrow> pystr \<Rightarrow> pyexc + bool" where
  "compare_digest a b =
     (if list_all (\<lambda>c. c < 128) a \<and> list_all (\<lambda>c. c < 128) b then Inr (a = b)
      else Inl (TypeError (u ''comparing strings with non-ASCII characters is not supported'')))"

type_synonym cap_context = "(pystr, pyval) dict"
type_synonym checker = "pystr \<Rightarrow> cap_context \<Rightarrow> pyexc + bool"

text \<open>\<open>str.strip()\<close>: the code points \<open>str.isspace\<close> holds of.\<close>

definition py_space :: "nat \<Rightarrow> bool" where
  "py_space c \<longleftrightarrow> c \<in> {9..13} \<union> {28..32} \<union> {133, 160, 5760} \<union> {8192..8202} \<union> {8232, 8233, 8239, 8287, 12288}"

definition strip :: "pystr \<Rightarrow> pystr" where
  "strip s = rev (dropWhile py_space (rev (dropWhile py_space s)))"

definition tier_order :: "(pystr, nat) dict" where
  "tier_order = [(u ''A'', 0), (u ''B'', 1), (u ''C'', 2)]"

text \<open>Looking a value up among the tiers hashes it.\<close>

definition tier_rank :: "pyval \<Rightarrow> pyexc + nat option" where
  "tier_rank v =
     (if \<not> py_hashable v then Inl (TypeError (u ''unhashable type''))
      else Inr (case v of PStr s \<Rightarrow> map_of tier_order s | _ \<Rightarrow> None))"

definition default_checker :: checker where
  "default_checker raw ctx =
     (let p = strip raw in
      if startswith p (u ''gate == '') then
        Inr (py_eq (dget ctx (u ''gate'') PNone) (PStr (strip (removeprefix p (u ''gate == '')))))
      else if startswith p (u ''proposal_id == '') then
        Inr (py_eq (dget ctx (u ''proposal_id'') PNone) (PStr (strip (removeprefix p (u ''proposal_id == '')))))
      else if startswith p (u ''tier <= '') then
        (let expected = strip (removeprefix p (u ''tier <= '')) in
         case map_of tier_order expected of
           None \<Rightarrow> Inr False
         | Some limit \<Rightarrow>
             emap (\<lambda>r. case r of None \<Rightarrow> False | Some rank \<Rightarrow> rank \<le> limit)
               (tier_rank (dget ctx (u ''tier'') PNone)))
      else Inr False)"

text \<open>The loop over the caveats stops at the first one that is not satisfied.\<close>

fun check_caveats :: "checker \<Rightarrow> cap_context \<Rightarrow> caveat list \<Rightarrow> pyexc + (bool, kernel_error) result" where
  "check_caveats ck ctx [] = Inr (Ok True)"
| "check_caveats ck ctx (c # cs) =
     (case ck (predicate c) ctx of
        Inl e \<Rightarrow> Inl e
      | Inr False \<Rightarrow> Inr (Err (KernelError ERR_CAVEAT_FAILED (Predicate (predicate c))))
      | Inr True \<Rightarrow> check_caveats ck ctx cs)"

definition verify_result ::
    "prims \<Rightarrow> macaroon \<Rightarrow> bytes \<Rightarrow> cap_context \<Rightarrow> checker option \<Rightarrow> pyexc + (bool, kernel_error) result" where
  "verify_result P m root_key ctx checker =
     (if length root_key < MIN_KEY_BYTES then Inl AssertionError
      else case recompute_signature P root_key m of
        Inl e \<Rightarrow>
          (if is_type_error e \<or> is_value_error e then Inr (Err (KernelError ERR_MALFORMED_HEX NoDetail)) else Inl e)
      | Inr expected \<Rightarrow>
          ebind (compare_digest expected (mc_signature m)) (\<lambda>same.
            if \<not> same then Inr (Err (KernelError ERR_INVALID_SIGNATURE NoDetail))
            else check_caveats (case checker of None \<Rightarrow> default_checker | Some ck \<Rightarrow> ck) ctx (mc_caveats m)))"

definition verify :: "prims \<Rightarrow> macaroon \<Rightarrow> bytes \<Rightarrow> cap_context \<Rightarrow> checker option \<Rightarrow> pyexc + bool" where
  "verify P m root_key ctx checker = emap (\<lambda>r. \<not> is_err r) (verify_result P m root_key ctx checker)"

section \<open>Hexadecimal digests\<close>

lemma length_hmac [simp]: "length (hmac P k m) = 32"
  by (simp add: hmac_def)

lemma unhex_hex: "n < 16 \<Longrightarrow> unhex_digit (hex_digit n) = Some n" "\<not> ascii_space (hex_digit n)"
  by (auto simp: unhex_digit_def hex_digit_def ascii_space_def)

lemma fromhex_hex [simp]: "fromhex (hex bs) = Some bs"
proof (induction bs)
  case (Cons b bs)
  have "unat b < 2 ^ 8" using unsigned_less [of b, where 'a = nat] by simp
  then have "unat b div 16 < 16" by simp
  moreover have "of_nat (16 * (unat b div 16) + unat b mod 16) = b" by simp
  ultimately show ?case using Cons by (simp add: hex_def hex_byte_def unhex_hex)
qed (simp add: hex_def)

lemma from_hex_hex [simp]: "from_hex (hex bs) = Inr bs"
  by (simp add: from_hex_def)

lemma length_hex [simp]: "length (hex bs) = 2 * length bs"
  by (induction bs) (simp_all add: hex_def hex_byte_def)

lemma hex_ascii [simp]: "list_all (\<lambda>c. c < 128) (hex bs)"
proof (induction bs)
  case (Cons b bs)
  have "unat b < 2 ^ 8" using unsigned_less [of b, where 'a = nat] by simp
  then have "hex_digit (unat b div 16) < 128" "hex_digit (unat b mod 16) < 128" by (auto simp: hex_digit_def)
  with Cons show ?case by (simp add: hex_def hex_byte_def)
qed (simp add: hex_def)

lemma hex_inject [simp]: "hex a = hex b \<longleftrightarrow> a = b"
  by (metis fromhex_hex option.inject)

lemma hex_digest_hmac [simp]: "is_hex_digest (hex (hmac P k m))"
  by (simp add: is_hex_digest_def)

section \<open>Tokens that were issued\<close>

text \<open>Minted under a root key, and attenuated any number of times.\<close>

inductive issued :: "prims \<Rightarrow> bytes \<Rightarrow> macaroon \<Rightarrow> bool" for P :: prims and root_key :: bytes where
  issued_mint: "mint P root_key i l = Inr m \<Longrightarrow> issued P root_key m"
| issued_caveat: "issued P root_key m \<Longrightarrow> add_first_party_caveat P m p = Inr m' \<Longrightarrow> issued P root_key m'"

definition authentic :: "prims \<Rightarrow> bytes \<Rightarrow> macaroon \<Rightarrow> bool" where
  "authentic P root_key m \<longleftrightarrow> recompute_signature P root_key m = Inr (mc_signature m) \<and>
     (\<exists>d. length d = 32 \<and> mc_signature m = hex d)"

lemma recompute_snoc:
  "recompute_chain P sig (cs @ [Caveat p]) =
     ebind (recompute_chain P sig cs) (\<lambda>s. ebind (from_hex s) (\<lambda>k. emap (\<lambda>b. hex (hmac P k b)) (encode_utf8 p)))"
  by (induction cs arbitrary: sig) (auto simp: ebind_def emap_def split: sum.splits)

lemma mint_authentic: "mint P root_key i l = Inr m \<Longrightarrow> authentic P root_key m"
  by (auto simp: mint_def authentic_def recompute_signature_def emap_Inr_iff split: if_splits)

lemma caveat_authentic:
  assumes "authentic P root_key m" and "add_first_party_caveat P m p = Inr m'"
  shows "authentic P root_key m' \<and> mc_caveats m' = mc_caveats m @ [Caveat p]"
proof -
  from assms(1) obtain d where d: "length d = 32" "mc_signature m = hex d"
    and r: "recompute_signature P root_key m = Inr (hex d)" by (auto simp: authentic_def)
  from assms(2) d obtain b where b: "encode_utf8 p = Inr b"
    and m': "m' = m\<lparr>mc_caveats := mc_caveats m @ [Caveat p], mc_signature := hex (hmac P d b)\<rparr>"
    by (auto simp: add_first_party_caveat_def emap_Inr_iff split: if_splits)
  have "recompute_signature P root_key m' = Inr (hex (hmac P d b))"
    using r b by (auto simp: recompute_signature_def m' recompute_snoc ebind_Inr_iff)
  then show ?thesis by (auto simp: authentic_def m')
qed

lemma issued_authentic: "issued P root_key m \<Longrightarrow> authentic P root_key m"
  by (induction rule: issued.induct) (auto intro: mint_authentic dest: caveat_authentic)

lemma verify_authentic:
  assumes "authentic P root_key m" and "MIN_KEY_BYTES \<le> length root_key"
  shows "verify_result P m root_key ctx ck =
    check_caveats (case ck of None \<Rightarrow> default_checker | Some c \<Rightarrow> c) ctx (mc_caveats m)"
proof -
  from assms(1) obtain d where "mc_signature m = hex d" "recompute_signature P root_key m = Inr (hex d)"
    by (auto simp: authentic_def)
  then show ?thesis using assms(2) by (simp add: verify_result_def compare_digest_def)
qed

lemma check_caveats_snoc:
  "check_caveats ck ctx (cs @ [c]) = Inr (Ok True) \<longleftrightarrow>
     check_caveats ck ctx cs = Inr (Ok True) \<and> ck (predicate c) ctx = Inr True"
  by (induction cs) (auto split: sum.splits bool.splits)

text \<open>Attenuating an authentic token succeeds for any predicate that has an encoding.\<close>

lemma attenuate_total:
  assumes "authentic P root_key m" and "encode_utf8 p = Inr b"
  shows "\<exists>m'. add_first_party_caveat P m p = Inr m'"
proof -
  from assms(1) obtain d where "length d = 32" "mc_signature m = hex d" by (auto simp: authentic_def)
  with assms(2) show ?thesis by (simp add: add_first_party_caveat_def is_hex_digest_def)
qed

text \<open>
  C35: A capability is exactly its caveats. A token that was minted under a root key and attenuated
  any number of times verifies, under that key, as its caveats are satisfied in order; and a
  caveat appended to it never widens it: the attenuated token is accepted exactly in the contexts
  that satisfy the new caveat and in which the token itself is accepted.
\<close>

theorem capability_attenuates:
  assumes "issued P root_key m" and "MIN_KEY_BYTES \<le> length root_key"
    and "add_first_party_caveat P m p = Inr m'"
  shows "verify_result P m root_key ctx (Some ck) = check_caveats ck ctx (mc_caveats m) \<and>
    (verify P m' root_key ctx (Some ck) = Inr True \<longleftrightarrow>
       verify P m root_key ctx (Some ck) = Inr True \<and> ck p ctx = Inr True)"
proof -
  have a: "authentic P root_key m" using assms(1) by (rule issued_authentic)
  note a' = caveat_authentic [OF a assms(3)]
  have ok: "check_caveats ck ctx cs = Inr r \<Longrightarrow> \<not> is_err r \<Longrightarrow> r = Ok True" for cs r
    by (induction cs) (auto split: sum.splits bool.splits)
  have v: "verify P n root_key ctx (Some ck) = Inr True \<longleftrightarrow> check_caveats ck ctx (mc_caveats n) = Inr (Ok True)"
    if "authentic P root_key n" for n
    using ok [of "mc_caveats n"] verify_authentic [OF that assms(2)] by (auto simp: verify_def emap_Inr_iff)
  show ?thesis
    using v [OF a] v [of m'] a' verify_authentic [OF a assms(2)] by (simp add: check_caveats_snoc)
qed

definition demo_token :: macaroon where
  "demo_token = \<lparr>mc_identifier = [105], mc_location = [108], mc_caveats = [], mc_signature = hex (replicate 32 0)\<rparr>"

lemma demo_hmac [simp]: "hmac demo_prims k m = replicate 32 0"
  by (simp add: hmac_def)

lemma demo_mint: "mint demo_prims (replicate 32 0) [105] [108] = Inr demo_token"
  by (simp add: mint_def MIN_KEY_BYTES_def encode_utf8_def utf8_cp_def demo_token_def)

lemma capability_attenuates_witness:
  "\<exists>m'. add_first_party_caveat demo_prims demo_token (u ''tier <= B'') = Inr m' \<and>
     verify demo_prims m' (replicate 32 0) [(u ''tier'', PStr (u ''A''))] (Some default_checker) = Inr True"
proof -
  have i: "issued demo_prims (replicate 32 0) demo_token" using demo_mint by (rule issued_mint)
  have "encode_utf8 (u ''tier <= B'') = Inr [116, 105, 101, 114, 32, 60, 61, 32, 66]"
    by (simp add: encode_utf8_def utf8_cp_def u_def)
  from attenuate_total [OF issued_authentic [OF i] this] obtain m' where
    m': "add_first_party_caveat demo_prims demo_token (u ''tier <= B'') = Inr m'" by blast
  have "verify demo_prims demo_token (replicate 32 0) [(u ''tier'', PStr (u ''A''))] (Some default_checker) = Inr True"
    using verify_authentic [OF issued_authentic [OF i]]
    by (simp add: verify_def MIN_KEY_BYTES_def demo_token_def)
  moreover have "default_checker (u ''tier <= B'') [(u ''tier'', PStr (u ''A''))] = Inr True"
    by (simp add: default_checker_def strip_def py_space_def u_def startswith_def removeprefix_def tier_order_def
        tier_rank_def dget_def)
  ultimately show ?thesis
    using capability_attenuates [OF i _ m', of "[(u ''tier'', PStr (u ''A''))]" default_checker] m'
    by (simp add: MIN_KEY_BYTES_def)
qed

section \<open>What a signature binds\<close>

interpretation token_chain: hash_chain "\<lambda>(k, m). hmac P k m" Pair "\<lambda>_. True" for P :: prims
  by unfold_locales auto

definition token_bytes :: "macaroon \<Rightarrow> pyexc + bytes list" where
  "token_bytes m = etraverse encode_utf8 (mc_identifier m # map predicate (mc_caveats m))"

text \<open>The key and message pairs of the HMACs that verifying a token computes.\<close>

definition token_macs :: "prims \<Rightarrow> bytes \<Rightarrow> macaroon \<Rightarrow> (bytes \<times> bytes) set" where
  "token_macs P root_key m =
     (case token_bytes m of Inl _ \<Rightarrow> {} | Inr bs \<Rightarrow> set (chain_messages (\<lambda>(k, b). hmac P k b) root_key bs))"

lemma recompute_chain_hex:
  "recompute_chain P (hex k) cs = Inr s \<longleftrightarrow>
     (\<exists>bs. etraverse encode_utf8 (map predicate cs) = Inr bs \<and> s = hex (foldl (hmac P) k bs))"
proof (induction cs arbitrary: k)
  case (Cons c cs)
  then show ?case
    by (cases "encode_utf8 (predicate c)") (auto simp: split: sum.split)
qed auto

lemma recompute_signature_bytes:
  "recompute_signature P root_key m = Inr s \<longleftrightarrow>
     (\<exists>bs. token_bytes m = Inr bs \<and> s = hex (foldl (hmac P) root_key bs))"
proof (cases "encode_utf8 (mc_identifier m)")
  case (Inr b)
  then show ?thesis
    by (auto simp: recompute_signature_def recompute_chain_hex token_bytes_def split: sum.split)
qed (simp add: recompute_signature_def token_bytes_def)

lemma verified_signature:
  assumes "verify_result P m root_key ctx ck = Inr (Ok v)"
  shows "recompute_signature P root_key m = Inr (mc_signature m)"
  using assms
  by (auto simp: verify_result_def ebind_Inr_iff compare_digest_def split: if_splits sum.splits)

lemma encode_list_inject:
  assumes "etraverse encode_utf8 ss = Inr bs" and "etraverse encode_utf8 ts = Inr bs"
    and "list_all codepoints ss" and "list_all codepoints ts"
  shows "ss = ts"
  using assms
proof (induction ss arbitrary: ts bs)
  case Nil
  then show ?case by (cases ts) (auto split: sum.splits)
next
  case (Cons s ss)
  from Cons.prems(1) obtain b bs' where b: "encode_utf8 s = Inr b" "etraverse encode_utf8 ss = Inr bs'" "bs = b # bs'"
    by (auto split: sum.splits)
  with Cons.prems(2) obtain t ts' where t: "ts = t # ts'" "encode_utf8 t = Inr b" "etraverse encode_utf8 ts' = Inr bs'"
    by (cases ts) (auto split: sum.splits)
  show ?case
    using encode_utf8_inject [of s t b] Cons.IH [OF b(2) t(3)] Cons.prems(3,4) b t by simp
qed



text \<open>
  Verification can raise. Under a long enough root key and for a token whose texts have an
  encoding, \<open>verify_result\<close> raises \<open>TypeError\<close> whenever the signature presented has a character
  outside ASCII, instead of returning an error.
\<close>

theorem verify_raises_on_non_ascii:
  assumes "MIN_KEY_BYTES \<le> length root_key" and "token_bytes m = Inr bs"
    and "c \<in> set (mc_signature m)" and "128 \<le> c"
  shows "\<exists>t. verify_result P m root_key ctx None = Inl (TypeError t)"
proof -
  have "\<not> list_all (\<lambda>c. c < 128) (mc_signature m)" using assms(3,4) by (fastforce simp: list_all_iff not_less)
  moreover have "recompute_signature P root_key m = Inr (hex (foldl (hmac P) root_key bs))"
    using assms(2) by (simp add: recompute_signature_bytes)
  ultimately show ?thesis
    using assms(1) by (simp add: verify_result_def compare_digest_def)
qed

lemma verify_raises_on_non_ascii_witness:
  "\<exists>t. verify_result demo_prims (demo_token\<lparr>mc_signature := [233]\<rparr>) (replicate 32 0) [] None = Inl (TypeError t)"
  using verify_raises_on_non_ascii [of "replicate 32 0" "demo_token\<lparr>mc_signature := [233]\<rparr>" "[[105]]" 233 demo_prims "[]"]
  by (simp add: MIN_KEY_BYTES_def token_bytes_def demo_token_def encode_utf8_def utf8_cp_def)

end
