(* ===== verification/Receipt.thy ===== *)
theory Receipt
  imports Capabilities
begin

text \<open>
  The signed receipt of telos_kernel/receipt.py: its projection to JSON, the bytes that are signed,
  signing and verification. The Ed25519 operations are parameters (a signing function and a
  verifying one, the exception InvalidSignature being the answer False); the clock and the random ids are not
  modelled.
\<close>

section \<open>Leaves\<close>

datatype tier = TierA | TierB | TierC
datatype verdict = ALLOW | WARN | REVIEW | BLOCK
datatype signature_status = STUB | REAL | ABSENT

fun tier_value :: "tier \<Rightarrow> pystr" where
  "tier_value TierA = u ''A''"
| "tier_value TierB = u ''B''"
| "tier_value TierC = u ''C''"

fun verdict_value :: "verdict \<Rightarrow> pystr" where
  "verdict_value ALLOW = u ''ALLOW''"
| "verdict_value WARN = u ''WARN''"
| "verdict_value REVIEW = u ''REVIEW''"
| "verdict_value BLOCK = u ''BLOCK''"

fun status_value :: "signature_status \<Rightarrow> pystr" where
  "status_value STUB = u ''STUB''"
| "status_value REAL = u ''REAL''"
| "status_value ABSENT = u ''ABSENT''"

text \<open>\<open>measure\<close> and \<open>threshold\<close> are the entries of dictionaries.\<close>

record leaf =
  lf_gate :: pystr
  lf_tier :: tier
  lf_proposal_id :: pystr
  lf_prev_merkle_root :: pystr
  lf_measure :: "(pyval \<times> pyval) list"
  lf_threshold :: "(pyval \<times> pyval) list"
  lf_verdict :: verdict
  lf_signature_status :: signature_status
  lf_capability_signature :: pystr
  lf_signer_key_id :: pystr
  lf_timestamp :: pystr

text \<open>
  The field validators that run when a leaf is built. \<open>uuid.UUID\<close> drops prefixes, braces and
  hyphens and reads what is left with \<open>int(s, 16)\<close>, which allows blanks, a sign, the prefix 0x and
  single underscores; digits outside ASCII and the validator of the time stamp are not modelled.
\<close>

fun remove_all :: "pystr \<Rightarrow> nat \<Rightarrow> pystr \<Rightarrow> pystr" where
  "remove_all p n [] = []"
| "remove_all p n (c # cs) =
     (if 0 < n then remove_all p (n - 1) cs
      else if p \<noteq> [] \<and> startswith (c # cs) p then remove_all p (length p - 1) cs
      else c # remove_all p 0 cs)"

definition strip_braces :: "pystr \<Rightarrow> pystr" where
  "strip_braces s = (let brace = (\<lambda>c. c = 123 \<or> c = 125) in rev (dropWhile brace (rev (dropWhile brace s))))"

fun digits_value :: "nat \<Rightarrow> nat list \<Rightarrow> nat" where
  "digits_value acc [] = acc"
| "digits_value acc (d # ds) = digits_value (16 * acc + d) ds"

definition int_digits :: "pystr \<Rightarrow> nat option" where
  "int_digits s =
     (if list_all (\<lambda>part. part \<noteq> [] \<and> list_all (\<lambda>c. unhex_digit c \<noteq> None) part) (split_on 95 s)
      then Some (digits_value 0 (map (\<lambda>c. the (unhex_digit c)) (concat (split_on 95 s)))) else None)"

definition unprefix :: "pystr \<Rightarrow> pystr" where
  "unprefix s =
     (if startswith s [48, 120] \<or> startswith s [48, 88]
      then (if startswith (drop 2 s) [95] then drop 3 s else drop 2 s) else s)"

definition int_base_16 :: "pystr \<Rightarrow> int option" where
  "int_base_16 s =
     (let t = strip s; signed = (startswith t [45] \<or> startswith t [43]) in
      case int_digits (unprefix (if signed then tl t else t)) of
        None \<Rightarrow> None
      | Some n \<Rightarrow> Some (if startswith t [45] then - int n else int n))"

text \<open>\<open>'%032x' % n\<close> with the hyphens of a UUID.\<close>

fun hex_digits :: "nat \<Rightarrow> nat \<Rightarrow> pystr" where
  "hex_digits 0 n = []"
| "hex_digits (Suc k) n = hex_digits k (n div 16) @ [hex_digit (n mod 16)]"

definition uuid_str :: "nat \<Rightarrow> pystr" where
  "uuid_str n =
     (let h = hex_digits 32 n in
      take 8 h @ [45] @ take 4 (drop 8 h) @ [45] @ take 4 (drop 12 h) @ [45] @ take 4 (drop 16 h) @ [45] @ drop 20 h)"

definition validate_uuid :: "pystr \<Rightarrow> pyexc + pystr" where
  "validate_uuid v =
     (let h = remove_all [45] 0 (strip_braces (remove_all (u ''uuid:'') 0 (remove_all (u ''urn:'') 0 v))) in
      if length h \<noteq> 32 then Inl (ValueError (u ''badly formed hexadecimal UUID string''))
      else case int_base_16 h of
        None \<Rightarrow> Inl (ValueError (u ''invalid literal for int() with base 16''))
      | Some n \<Rightarrow> if n < 0 then Inl (ValueError (u ''int is out of range (need a 128-bit value)''))
          else Inr (uuid_str (nat n)))"

definition gate_pattern :: "pystr \<Rightarrow> bool" where
  "gate_pattern g \<longleftrightarrow> g = u ''boot'' \<or> g = u ''migration'' \<or>
     list_ex (\<lambda>n. let p = u ''U'' @ nat_str n @ [95] in
       startswith g p \<and> drop (length p) g \<noteq> [] \<and>
       list_all (\<lambda>c. (97 \<le> c \<and> c \<le> 122) \<or> c = 95) (drop (length p) g)) [0..<12]"

definition root_pattern :: "pystr \<Rightarrow> bool" where
  "root_pattern r \<longleftrightarrow> r = u ''GENESIS'' \<or>
     (length r = 64 \<and> list_all (\<lambda>c. (48 \<le> c \<and> c \<le> 57) \<or> (97 \<le> c \<and> c \<le> 102)) r)"

definition build_leaf :: "leaf \<Rightarrow> pyexc + leaf" where
  "build_leaf l =
     (if \<not> gate_pattern (lf_gate l) \<or> \<not> root_pattern (lf_prev_merkle_root l) \<or>
         \<not> list_all (\<lambda>(k, _). is_str k) (lf_measure l @ lf_threshold l)
      then Inl (ValueError (u ''validation error for Leaf''))
      else emap (\<lambda>i. l\<lparr>lf_proposal_id := i\<rparr>) (validate_uuid (lf_proposal_id l)))"

definition SCHEMA_VERSION :: pystr where "SCHEMA_VERSION = u ''v3.0''"

section \<open>Projection and signing\<close>

fun coerce_json :: "pyval \<Rightarrow> pyexc + pyval" where
  "coerce_json (PList xs) = emap PList (esequence (map coerce_json xs))"
| "coerce_json (PTuple xs) = emap PList (esequence (map coerce_json xs))"
| "coerce_json (PDict kvs) =
     emap PDict (etraverse (\<lambda>(k, r). if is_str k then emap (Pair k) r
        else Inl (ValueError (u ''canonical dict keys must be str''))) (map (\<lambda>(k, v). (k, coerce_json v)) kvs))"
| "coerce_json (PSend _ _ _) = Inl (ValueError (u ''cannot coerce to JSONValue''))"
| "coerce_json (PObj _) = Inl (ValueError (u ''cannot coerce to JSONValue''))"
| "coerce_json v = Inr v"

definition leaf_fields :: "leaf \<Rightarrow> pyval \<Rightarrow> pyval \<Rightarrow> (pyval \<times> pyval) list" where
  "leaf_fields l m t =
     [(PStr (u ''schema_version''), PStr SCHEMA_VERSION),
      (PStr (u ''gate''), PStr (lf_gate l)),
      (PStr (u ''tier''), PStr (tier_value (lf_tier l))),
      (PStr (u ''proposal_id''), PStr (lf_proposal_id l)),
      (PStr (u ''prev_merkle_root''), PStr (lf_prev_merkle_root l)),
      (PStr (u ''measure''), m),
      (PStr (u ''threshold''), t),
      (PStr (u ''verdict''), PStr (verdict_value (lf_verdict l))),
      (PStr (u ''signature_status''), PStr (status_value (lf_signature_status l))),
      (PStr (u ''capability_signature''), PStr (lf_capability_signature l)),
      (PStr (u ''signer_key_id''), PStr (lf_signer_key_id l)),
      (PStr (u ''timestamp''), PStr (lf_timestamp l))]"

definition to_canonical_dict :: "leaf \<Rightarrow> pyexc + (pyval \<times> pyval) list" where
  "to_canonical_dict l =
     ebind (coerce_json (PDict (lf_measure l))) (\<lambda>m.
     emap (leaf_fields l m) (coerce_json (PDict (lf_threshold l))))"

text \<open>The payload with its signature blanked, which keeps the place of the entry.\<close>

definition signed_fields :: "leaf \<Rightarrow> pyval \<Rightarrow> pyval \<Rightarrow> (pyval \<times> pyval) list" where
  "signed_fields l m t = dset (PStr (u ''capability_signature'')) (PStr []) (leaf_fields l m t)"

definition signing_bytes :: "prims \<Rightarrow> leaf \<Rightarrow> pyexc + bytes" where
  "signing_bytes P l =
     ebind (to_canonical_dict l) (\<lambda>payload.
       canonicalize P (PDict (dset (PStr (u ''capability_signature'')) (PStr []) payload)))"

definition sign :: "prims \<Rightarrow> (bytes \<Rightarrow> bytes) \<Rightarrow> leaf \<Rightarrow> pystr \<Rightarrow> pyexc + leaf" where
  "sign P sk_sign l key_id =
     (if lf_signature_status l = ABSENT then Inr l
      else
        (let with_key = l\<lparr>lf_signer_key_id := key_id\<rparr> in
         emap (\<lambda>b. with_key\<lparr>lf_capability_signature := hex (sk_sign b)\<rparr>) (signing_bytes P with_key)))"

definition leaf_verify_result ::
    "prims \<Rightarrow> (bytes \<Rightarrow> bytes \<Rightarrow> bool) \<Rightarrow> leaf \<Rightarrow> pyexc + (bool, kernel_error) result" where
  "leaf_verify_result P pk_verify l =
     (if lf_signature_status l = ABSENT then
        Inr (if lf_capability_signature l = [] then Ok True else Err (KernelError ERR_INVALID_SIGNATURE NoDetail))
      else case fromhex (lf_capability_signature l) of
        None \<Rightarrow> Inr (Err (KernelError ERR_MALFORMED_HEX NoDetail))
      | Some sig_bytes \<Rightarrow>
          emap (\<lambda>b. if pk_verify sig_bytes b then Ok True else Err (KernelError ERR_INVALID_SIGNATURE NoDetail))
            (signing_bytes P l))"

definition leaf_verify :: "prims \<Rightarrow> (bytes \<Rightarrow> bytes \<Rightarrow> bool) \<Rightarrow> leaf \<Rightarrow> pyexc + bool" where
  "leaf_verify P pk_verify l = emap (\<lambda>r. \<not> is_err r) (leaf_verify_result P pk_verify l)"

section \<open>The signed bytes\<close>

lemma signing_bytes_signature [simp]:
  "signing_bytes P (l\<lparr>lf_capability_signature := s\<rparr>) = signing_bytes P l"
proof -
  have "dset (PStr (u ''capability_signature'')) (PStr []) (leaf_fields (l\<lparr>lf_capability_signature := s\<rparr>) m t) =
    dset (PStr (u ''capability_signature'')) (PStr []) (leaf_fields l m t)" for m t
    by (simp add: leaf_fields_def u_def)
  then show ?thesis by (simp add: signing_bytes_def to_canonical_dict_def ebind_def emap_def split: sum.split)
qed

lemma coerce_norm_list:
  assumes "\<And>x w. x \<in> set xs \<Longrightarrow> coerce_json x = Inr w \<Longrightarrow> jcs_norm w = jcs_norm x \<and> (plain x \<longrightarrow> plain w)"
    and "esequence (map coerce_json xs) = Inr ys"
  shows "map jcs_norm ys = map jcs_norm xs \<and> (list_all plain xs \<longrightarrow> list_all plain ys)"
proof -
  have eq: "map coerce_json xs = map Inr ys" using assms(2) by (simp add: esequence_Inr_iff)
  then have len: "length ys = length xs" by (metis length_map)
  have at: "coerce_json (xs ! i) = Inr (ys ! i)" if "i < length xs" for i
    using arg_cong [OF eq, of "\<lambda>l. l ! i"] that len by simp
  show ?thesis
    using assms(1) [OF nth_mem at] len by (auto simp: list_eq_iff_nth_eq list_all_length)
qed

lemma coerce_norm: "coerce_json v = Inr w \<Longrightarrow> jcs_norm w = jcs_norm v \<and> (plain v \<longrightarrow> plain w)"
proof (induction v arbitrary: w)
  case (PList xs)
  then obtain ys where "esequence (map coerce_json xs) = Inr ys" "w = PList ys" by (auto simp: emap_Inr_iff)
  with coerce_norm_list [OF PList.IH] show ?case by simp
next
  case (PTuple xs)
  then obtain ys where "esequence (map coerce_json xs) = Inr ys" "w = PList ys" by (auto simp: emap_Inr_iff)
  with coerce_norm_list [OF PTuple.IH] show ?case by simp
next
  case (PDict kvs)
  let ?f = "\<lambda>(k, r). if is_str k then emap (Pair k) r else Inl (ValueError (u ''canonical dict keys must be str''))"
  from PDict.prems obtain es where es: "etraverse ?f (map (\<lambda>(k, v). (k, coerce_json v)) kvs) = Inr es" "w = PDict es"
    by (auto simp: emap_Inr_iff)
  have ih: "jcs_norm w = jcs_norm v \<and> (plain v \<longrightarrow> plain w)" if "(k, v) \<in> set kvs" "coerce_json v = Inr w" for k v w
    using PDict.IH(2) [OF that(1) _ that(2)] by simp
  have "map (\<lambda>(k, v). (k, jcs_norm v)) es = map (\<lambda>(k, v). (k, jcs_norm v)) kvs \<and>
      (plain (PDict kvs) \<longrightarrow> plain (PDict es))"
    using es(1) ih
  proof (induction kvs arbitrary: es)
    case (Cons e kvs)
    obtain k v where e: "e = (k, v)" by (cases e)
    from Cons.prems(1) e obtain v' es' where v': "coerce_json v = Inr v'" "es = (k, v') # es'"
      and rest: "etraverse ?f (map (\<lambda>(k, v). (k, coerce_json v)) kvs) = Inr es'"
      by (auto simp: emap_Inr_iff split: sum.splits if_splits)
    have "jcs_norm v' = jcs_norm v \<and> (plain v \<longrightarrow> plain v')"
      using Cons.prems(2) [of k v v'] v'(1) e by simp
    moreover have "map (\<lambda>(k, v). (k, jcs_norm v)) es' = map (\<lambda>(k, v). (k, jcs_norm v)) kvs \<and>
        (plain (PDict kvs) \<longrightarrow> plain (PDict es'))"
    proof (rule Cons.IH [OF rest])
      fix k v w assume "(k, v) \<in> set kvs" "coerce_json v = Inr w"
      then show "jcs_norm w = jcs_norm v \<and> (plain v \<longrightarrow> plain w)" by (intro Cons.prems(2) [of k]) auto
    qed
    ultimately show ?case using e v'(2) by simp
  qed simp
  with es(2) show ?case by simp
qed auto

text \<open>What the receipt says, but for its signature: \<open>measure\<close> and \<open>threshold\<close> as JSON values.\<close>

definition same_content :: "leaf \<Rightarrow> leaf \<Rightarrow> bool" where
  "same_content l k \<longleftrightarrow> lf_gate l = lf_gate k \<and> lf_tier l = lf_tier k \<and> lf_proposal_id l = lf_proposal_id k \<and>
     lf_prev_merkle_root l = lf_prev_merkle_root k \<and>
     jcs_norm (PDict (lf_measure l)) = jcs_norm (PDict (lf_measure k)) \<and>
     jcs_norm (PDict (lf_threshold l)) = jcs_norm (PDict (lf_threshold k)) \<and> lf_verdict l = lf_verdict k \<and>
     lf_signature_status l = lf_signature_status k \<and> lf_signer_key_id l = lf_signer_key_id k \<and>
     lf_timestamp l = lf_timestamp k"

definition plain_leaf :: "leaf \<Rightarrow> bool" where
  "plain_leaf l \<longleftrightarrow> codepoints (lf_gate l) \<and> codepoints (lf_proposal_id l) \<and> codepoints (lf_prev_merkle_root l) \<and>
     codepoints (lf_signer_key_id l) \<and> codepoints (lf_timestamp l) \<and>
     plain (PDict (lf_measure l)) \<and> plain (PDict (lf_threshold l))"

lemma tier_value_inject [simp]: "tier_value a = tier_value b \<longleftrightarrow> a = b"
  by (cases a; cases b) (simp_all add: u_def)

lemma verdict_value_inject [simp]: "verdict_value a = verdict_value b \<longleftrightarrow> a = b"
  by (cases a; cases b) (simp_all add: u_def)

lemma status_value_inject [simp]: "status_value a = status_value b \<longleftrightarrow> a = b"
  by (cases a; cases b) (simp_all add: u_def)

lemma codepoints_ascii: "list_all (\<lambda>c. c < 128) s \<Longrightarrow> codepoints s"
  by (auto simp: codepoints_def list_all_iff)

lemma value_codepoints [simp]:
  "codepoints (tier_value a)" "codepoints (verdict_value b)" "codepoints (status_value c)"
proof -
  show "codepoints (tier_value a)" by (cases a) (simp_all add: u_def codepoints_def)
  show "codepoints (verdict_value b)" by (cases b) (simp_all add: u_def codepoints_def)
  show "codepoints (status_value c)" by (cases c) (simp_all add: u_def codepoints_def)
qed

lemma signed_fields_norm:
  assumes "jcs_norm (PDict (signed_fields l m t)) = jcs_norm (PDict (signed_fields l' m' t'))"
  shows "lf_gate l = lf_gate l' \<and> lf_tier l = lf_tier l' \<and> lf_proposal_id l = lf_proposal_id l' \<and>
    lf_prev_merkle_root l = lf_prev_merkle_root l' \<and> jcs_norm m = jcs_norm m' \<and> jcs_norm t = jcs_norm t' \<and>
    lf_verdict l = lf_verdict l' \<and> lf_signature_status l = lf_signature_status l' \<and>
    lf_signer_key_id l = lf_signer_key_id l' \<and> lf_timestamp l = lf_timestamp l'"
  using assms by (simp add: signed_fields_def leaf_fields_def u_def)

lemma plain_signed:
  "plain_leaf l \<Longrightarrow> plain m \<Longrightarrow> plain t \<Longrightarrow> plain (PDict (signed_fields l m t))"
  by (simp add: signed_fields_def leaf_fields_def u_def codepoints_ascii plain_leaf_def SCHEMA_VERSION_def)

lemma signing_bytes_Inr:
  "signing_bytes P l = Inr b \<longleftrightarrow>
     (\<exists>m t. coerce_json (PDict (lf_measure l)) = Inr m \<and> coerce_json (PDict (lf_threshold l)) = Inr t \<and>
        canonicalize P (PDict (signed_fields l m t)) = Inr b)"
  by (auto simp: signing_bytes_def to_canonical_dict_def signed_fields_def ebind_Inr_iff emap_Inr_iff)

lemma signing_bytes_binds:
  assumes "signing_bytes P l = Inr b" and "signing_bytes P k = Inr b" and "plain_leaf l" and "plain_leaf k"
  shows "same_content l k"
proof -
  from assms(1) obtain m t where l: "coerce_json (PDict (lf_measure l)) = Inr m" "coerce_json (PDict (lf_threshold l)) = Inr t"
    "canonicalize P (PDict (signed_fields l m t)) = Inr b" unfolding signing_bytes_Inr by blast
  from assms(2) obtain m' t' where k: "coerce_json (PDict (lf_measure k)) = Inr m'" "coerce_json (PDict (lf_threshold k)) = Inr t'"
    "canonicalize P (PDict (signed_fields k m' t')) = Inr b" unfolding signing_bytes_Inr by blast
  note nl = coerce_norm [OF l(1)] coerce_norm [OF l(2)] and nk = coerce_norm [OF k(1)] coerce_norm [OF k(2)]
  have "plain m" "plain t" "plain m'" "plain t'" using nl nk assms(3,4) by (simp_all add: plain_leaf_def)
  with canonicalize_inject [OF l(3) k(3)] plain_signed [OF assms(3)] plain_signed [OF assms(4)]
  have "jcs_norm (PDict (signed_fields l m t)) = jcs_norm (PDict (signed_fields k m' t'))" by blast
  from signed_fields_norm [OF this] nl nk show ?thesis unfolding same_content_def by metis
qed

section \<open>Properties\<close>

text \<open>
  What is signed verifies. If the verifying key accepts what the signing key signs, a leaf that
  is not marked ABSENT is signed into a leaf that verifies, carries the key id, and is otherwise
  the leaf; an ABSENT leaf is returned unchanged and verifies exactly when it has no signature.
\<close>

theorem signed_leaf_verifies:
  assumes "\<forall>m. pk_verify (sk_sign m) m" and "sign P sk_sign l key_id = Inr l'"
  shows "(if lf_signature_status l = ABSENT
     then l' = l \<and> (leaf_verify P pk_verify l' = Inr True \<longleftrightarrow> lf_capability_signature l = [])
     else leaf_verify P pk_verify l' = Inr True \<and> lf_signer_key_id l' = key_id \<and>
       l'\<lparr>lf_capability_signature := lf_capability_signature l, lf_signer_key_id := lf_signer_key_id l\<rparr> = l)"
proof (cases "lf_signature_status l = ABSENT")
  case True
  with assms(2) show ?thesis by (auto simp: sign_def leaf_verify_def leaf_verify_result_def)
next
  case False
  let ?k = "l\<lparr>lf_signer_key_id := key_id\<rparr>"
  from False assms(2) obtain b where b: "signing_bytes P ?k = Inr b"
    and l': "l' = ?k\<lparr>lf_capability_signature := hex (sk_sign b)\<rparr>" by (auto simp: sign_def Let_def emap_Inr_iff)
  have "signing_bytes P l' = Inr b" by (simp add: l' b)
  with False assms(1) show ?thesis by (simp add: l' leaf_verify_def leaf_verify_result_def)
qed

definition demo_leaf :: leaf where
  "demo_leaf = \<lparr>lf_gate = u ''boot'', lf_tier = TierA, lf_proposal_id = [], lf_prev_merkle_root = u ''GENESIS'',
     lf_measure = [(PStr [97], PTuple [PInt 1])], lf_threshold = [], lf_verdict = ALLOW, lf_signature_status = REAL,
     lf_capability_signature = [], lf_signer_key_id = [], lf_timestamp = []\<rparr>"

lemma demo_leaf_signs: "\<exists>b. signing_bytes demo_prims (demo_leaf\<lparr>lf_signer_key_id := [107]\<rparr>) = Inr b"
  by (simp add: signing_bytes_def to_canonical_dict_def leaf_fields_def demo_leaf_def u_def is_str_def bmp_def
      SCHEMA_VERSION_def canonicalize_def MAX_DEPTH_def encode_string_def escape_char_def int_str_def nat_str.simps
      comma_sep_def encode_utf8_def utf8_cp_def)

text \<open>A toy scheme in which a signature is the message.\<close>

lemma signed_leaf_verifies_witness:
  "\<exists>l'. sign demo_prims (\<lambda>m. m) demo_leaf [107] = Inr l' \<and> leaf_verify demo_prims (\<lambda>s m. s = m) l' = Inr True"
proof -
  from demo_leaf_signs obtain l' where l': "sign demo_prims (\<lambda>m. m) demo_leaf [107] = Inr l'"
    by (auto simp: sign_def Let_def demo_leaf_def)
  with signed_leaf_verifies [of "\<lambda>s m. s = m" "\<lambda>m. m" demo_prims demo_leaf "[107]" l'] show ?thesis
    by (simp add: demo_leaf_def)
qed



section \<open>Proposal ids\<close>

lemma remove_all_id: "p \<noteq> [] \<Longrightarrow> hd p \<notin> set s \<Longrightarrow> remove_all p 0 s = s"
  by (induction s) (auto simp: startswith_iff neq_Nil_conv)

lemma remove_all_char: "remove_all [c] 0 s = filter (\<lambda>x. x \<noteq> c) s"
  by (induction s) (auto simp: startswith_iff)

lemma length_hex_digits [simp]: "length (hex_digits k n) = k"
  by (induction k arbitrary: n) auto

lemma digits_value_append: "digits_value acc (xs @ ys) = digits_value (digits_value acc xs) ys"
  by (induction xs arbitrary: acc) auto

lemma hex_digits_chars: "c \<in> set (hex_digits k n) \<Longrightarrow> (48 \<le> c \<and> c < 58) \<or> (97 \<le> c \<and> c < 103)"
proof (induction k arbitrary: n)
  case (Suc k)
  have "n mod 16 < 16" by simp
  then have "(48 \<le> hex_digit (n mod 16) \<and> hex_digit (n mod 16) < 58) \<or> (97 \<le> hex_digit (n mod 16) \<and> hex_digit (n mod 16) < 103)"
    by (auto simp: hex_digit_def)
  with Suc show ?case by auto
qed simp

lemma hex_digits_value: "n < 16 ^ k \<Longrightarrow> digits_value 0 (map (\<lambda>c. the (unhex_digit c)) (hex_digits k n)) = n"
proof (induction k arbitrary: n)
  case (Suc k)
  then have "n div 16 < 16 ^ k" by (simp add: less_mult_imp_div_less)
  with Suc.IH show ?case by (simp add: digits_value_append unhex_hex)
qed simp

lemma dropWhile_hd: "s = [] \<or> \<not> Q (hd s) \<Longrightarrow> dropWhile Q s = s"
  by (cases s) auto

text \<open>A UUID is its own normal form, so a fresh id passes the validator unchanged.\<close>

lemma validate_uuid_str:
  assumes "n < 2 ^ 128"
  shows "validate_uuid (uuid_str n) = Inr (uuid_str n)"
proof -
  define h where "h = hex_digits 32 n"
  have len: "length h = 32" by (simp add: h_def)
  have ch: "(48 \<le> c \<and> c < 58) \<or> (97 \<le> c \<and> c < 103)" if "c \<in> set h" for c
    using hex_digits_chars that by (simp add: h_def)
  have uc: "(48 \<le> c \<and> c < 58) \<or> (97 \<le> c \<and> c < 103) \<or> c = 45" if "c \<in> set (uuid_str n)" for c
    using that ch by (auto simp: uuid_str_def Let_def h_def [symmetric] dest!: in_set_takeD in_set_dropD)
  have end_ch: "\<not> (c = 123 \<or> c = 125)" if "c \<in> set (uuid_str n)" for c using uc [OF that] by auto
  have ne: "uuid_str n \<noteq> []" by (simp add: uuid_str_def Let_def)
  have no_u: "117 \<notin> set (uuid_str n)" using uc [of 117] by auto
  have 1: "remove_all (u ''uuid:'') 0 (remove_all (u ''urn:'') 0 (uuid_str n)) = uuid_str n"
    using no_u by (simp add: u_def remove_all_id)
  have 2: "strip_braces (uuid_str n) = uuid_str n"
    using end_ch [OF hd_in_set] end_ch [OF last_in_set] ne by (simp add: strip_braces_def dropWhile_hd hd_rev)
  have no: "filter (\<lambda>x. x \<noteq> 45) xs = xs" if "set xs \<subseteq> set h" for xs
    using that ch by (force intro: filter_True)
  have step: "take 4 (drop k h) @ drop (k + 4) h = drop k h" for k
    using append_take_drop_id [of 4 "drop k h"] by (simp add: add.commute)
  have "take 8 h @ take 4 (drop 8 h) @ take 4 (drop 12 h) @ take 4 (drop 16 h) @ drop 20 h = h"
    using step [of 8] step [of 12] step [of 16] by simp
  moreover have "set (take a (drop b h)) \<subseteq> set h" "set (take a h) \<subseteq> set h" "set (drop b h) \<subseteq> set h" for a b
    by (auto dest!: in_set_takeD in_set_dropD)
  ultimately have 3: "remove_all [45] 0 (uuid_str n) = h"
    by (simp add: remove_all_char uuid_str_def Let_def h_def [symmetric] no)
  have hd: "h \<noteq> []" using len by auto
  have "py_space c = False" if "c \<in> set h" for c using ch [OF that] by (auto simp: py_space_def)
  then have "strip h = h" using hd by (simp add: strip_def dropWhile_hd hd_rev)
  moreover have "\<not> startswith h [45]" "\<not> startswith h [43]" "\<not> startswith h [48, 120]" "\<not> startswith h [48, 88]"
    using ch by (fastforce simp: startswith_iff)+
  moreover have "95 \<notin> set h" using ch by fastforce
  moreover have "list_all (\<lambda>c. unhex_digit c \<noteq> None) h" using ch by (fastforce simp: list_all_iff unhex_digit_def)
  moreover have "digits_value 0 (map (\<lambda>c. the (unhex_digit c)) h) = n"
    using assms hex_digits_value [of n 32] by (simp add: h_def)
  ultimately have "int_base_16 h = Some (int n)"
    using hd by (simp add: int_base_16_def unprefix_def int_digits_def split_on_no_sep)
  then show ?thesis by (simp add: validate_uuid_def 1 2 3 len)
qed
end
