(* ===== verification/MerkleLog.thy ===== *)
theory MerkleLog
  imports Receipt
begin

text \<open>
  The tamper-evident log of telos_kernel/merkle_log.py: append, verification and the accessors,
  over a backend that may fail to load or to save. A payload is a dictionary or a \<open>Leaf\<close>, which
  is stored as the dictionary of its projection.
\<close>

section \<open>State\<close>

text \<open>
  What the backend holds is part of the state. The hash of the module is SHA-256 over the
  previous hash followed by the canonical payload.
\<close>

record merkle_log =
  ml_hashes :: "bytes list"
  ml_payloads :: "pyval list"
  ml_corrupt :: bool
  ml_quarantined :: bool
  ml_saved :: "bytes list \<times> pyval list"

definition GENESIS_HASH :: bytes where "GENESIS_HASH = replicate 32 0"

definition compute_leaf_hash :: "prims \<Rightarrow> bytes \<Rightarrow> bytes \<Rightarrow> bytes" where
  "compute_leaf_hash P prev_hash payload_bytes = sha256 P (prev_hash @ payload_bytes)"

fun is_jcs_value :: "pyval \<Rightarrow> bool" where
  "is_jcs_value (PFloat f) = (f \<notin> {FNan, FPosInf, FNegInf})"
| "is_jcs_value (PList xs) = list_all is_jcs_value xs"
| "is_jcs_value (PTuple xs) = list_all is_jcs_value xs"
| "is_jcs_value (PDict kvs) = list_all (\<lambda>(k, b). is_str k \<and> b) (map (\<lambda>(k, v). (k, is_jcs_value v)) kvs)"
| "is_jcs_value (PSend _ _ _) = False"
| "is_jcs_value (PObj _) = False"
| "is_jcs_value _ = True"

datatype payload = DataPayload pyval | LeafPayload leaf

definition is_append_payload :: "payload \<Rightarrow> bool" where
  "is_append_payload v \<longleftrightarrow>
     (case v of LeafPayload _ \<Rightarrow> True
      | DataPayload d \<Rightarrow> (case d of PDict _ \<Rightarrow> is_jcs_value d | _ \<Rightarrow> False))"

fun payload_dict :: "payload \<Rightarrow> pyexc + pyval" where
  "payload_dict (LeafPayload l) = emap PDict (to_canonical_dict l)"
| "payload_dict (DataPayload d) = Inr d"

section \<open>Verification\<close>

text \<open>The loop of \<open>verify_chain_result\<close>: \<open>TypeError\<close> and \<open>ValueError\<close> are results, the rest is raised.\<close>

fun verify_leaves ::
    "prims \<Rightarrow> bytes \<Rightarrow> nat \<Rightarrow> (pyval \<times> bytes) list \<Rightarrow> pyexc + (unit, kernel_error) result" where
  "verify_leaves P prev i [] = Inr (Ok ())"
| "verify_leaves P prev i ((payload, stored) # rest) =
     (case canonicalize P payload of
        Inl e \<Rightarrow>
          (if is_value_error e \<or> is_type_error e
           then Inr (Err (KernelError ERR_UNCANONICALIZABLE (BrokenIndex i)))
           else Inl e)
      | Inr b \<Rightarrow>
          (let computed = compute_leaf_hash P prev b in
           if computed \<noteq> stored then Inr (Err (KernelError ERR_CHAIN_BROKEN (BrokenIndex i)))
           else verify_leaves P computed (i + 1) rest))"

definition verify_chain_result ::
    "prims \<Rightarrow> merkle_log \<Rightarrow> pyval list option \<Rightarrow> pyexc + (nat, kernel_error) result" where
  "verify_chain_result P m data_store =
     (if ml_corrupt m then Inr (Err (KernelError ERR_CHAIN_BROKEN (BrokenIndex 0)))
      else if ml_hashes m = [] then Inr (Ok 0)
      else
        (let store = (case data_store of None \<Rightarrow> ml_payloads m | Some d \<Rightarrow> d) in
         if length store \<noteq> length (ml_hashes m) then Inr (Err (KernelError ERR_CHAIN_BROKEN (BrokenIndex 0)))
         else emap (map_ok (\<lambda>_. length (ml_hashes m)))
                (verify_leaves P GENESIS_HASH 0 (zip store (ml_hashes m)))))"

definition broken_index :: "kernel_error \<Rightarrow> nat" where
  "broken_index e = (case ke_detail e of BrokenIndex i \<Rightarrow> i | _ \<Rightarrow> 0)"

definition verify_chain ::
    "prims \<Rightarrow> merkle_log \<Rightarrow> pyval list option \<Rightarrow> pyexc + (bool \<times> nat option)" where
  "verify_chain P m data_store =
     emap (\<lambda>r. case r of Ok _ \<Rightarrow> (True, None) | Err e \<Rightarrow> (False, Some (broken_index e)))
       (verify_chain_result P m data_store)"

definition verify_chain_legacy ::
    "prims \<Rightarrow> merkle_log \<Rightarrow> pyval list option \<Rightarrow> pyexc + (bool \<times> nat)" where
  "verify_chain_legacy P m data_store =
     emap (\<lambda>(ok, first_broken). if ok then (True, length (ml_hashes m))
             else (False, (case first_broken of None \<Rightarrow> 0 | Some i \<Rightarrow> i)))
       (verify_chain P m data_store)"

definition verify_with_data :: "prims \<Rightarrow> merkle_log \<Rightarrow> pyval list \<Rightarrow> pyexc + (bool \<times> nat)" where
  "verify_with_data P m data_store =
     (if length data_store \<noteq> length (ml_hashes m) then Inl (ValueError (u ''length mismatch''))
      else verify_chain_legacy P m (Some data_store))"

section \<open>Opening and appending\<close>

text \<open>
  \<open>__init__\<close> on a given backend: a load that raises \<open>ValueError\<close>, or a chain that does not
  verify, puts the log in quarantine.
\<close>

definition MerkleLog ::
    "prims \<Rightarrow> bytes list \<times> pyval list \<Rightarrow> pyexc + (bytes list \<times> pyval list) \<Rightarrow> pyexc + merkle_log" where
  "MerkleLog P saved loaded =
     (case loaded of
        Inl e \<Rightarrow>
          (if is_value_error e
           then Inr \<lparr>ml_hashes = [], ml_payloads = [], ml_corrupt = True, ml_quarantined = True, ml_saved = saved\<rparr>
           else Inl e)
      | Inr (hs, ps) \<Rightarrow>
          (let m = \<lparr>ml_hashes = hs, ml_payloads = ps, ml_corrupt = False, ml_quarantined = False,
                    ml_saved = saved\<rparr> in
           emap (\<lambda>(ok, idx). if ok then m else m\<lparr>ml_corrupt := True, ml_quarantined := True\<rparr>)
             (verify_chain P m None)))"

definition head_bytes :: "merkle_log \<Rightarrow> bytes" where
  "head_bytes m = (if ml_hashes m \<noteq> [] then last (ml_hashes m) else GENESIS_HASH)"

text \<open>
  \<open>append\<close>, under its contract on the payload; \<open>save\<close> is what the backend's \<open>save\<close> does
  (\<open>Inl\<close>: it raises, and the leaf stays in memory). The state is returned also when it raises.
\<close>

definition append_leaf ::
    "prims \<Rightarrow> pyexc + unit \<Rightarrow> payload \<Rightarrow> merkle_log \<Rightarrow> merkle_log \<times> (pyexc + pystr)" where
  "append_leaf P save data m =
     (if \<not> is_append_payload data then (m, Inl AssertionError)
      else if ml_corrupt m \<or> ml_quarantined m then (m, Inl (ValueError (u ''cannot append to corrupt Merkle log'')))
      else
        (case ebind (payload_dict data) (\<lambda>d. emap (Pair d) (canonicalize P d)) of
           Inl e \<Rightarrow> (m, Inl e)
         | Inr (d, payload_bytes) \<Rightarrow>
             (let leaf_hash = compute_leaf_hash P (head_bytes m) payload_bytes;
                  m1 = m\<lparr>ml_hashes := ml_hashes m @ [leaf_hash], ml_payloads := ml_payloads m @ [d]\<rparr> in
              case save of
                Inl e \<Rightarrow> (m1, Inl e)
              | Inr _ \<Rightarrow> (m1\<lparr>ml_saved := (ml_hashes m1, ml_payloads m1)\<rparr>, Inr (hex leaf_hash)))))"

section \<open>Accessors\<close>

definition get_root :: "merkle_log \<Rightarrow> pystr option" where
  "get_root m = (if ml_hashes m \<noteq> [] then Some (hex (last (ml_hashes m))) else None)"

definition head_hash :: "merkle_log \<Rightarrow> pystr" where
  "head_hash m = hex (head_bytes m)"

definition get_chain_length :: "merkle_log \<Rightarrow> nat" where
  "get_chain_length m = length (ml_hashes m)"

definition leaf_at :: "merkle_log \<Rightarrow> int \<Rightarrow> pyexc + pyval" where
  "leaf_at m i =
     (let n = int (length (ml_payloads m)); j = (if i < 0 then n + i else i) in
      if 0 \<le> j \<and> j < n then Inr (ml_payloads m ! nat j) else Inl IndexError)"

definition verify_merkle_inclusion :: "pyval \<Rightarrow> int \<Rightarrow> pystr \<Rightarrow> merkle_log \<Rightarrow> bool" where
  "verify_merkle_inclusion entry_data entry_index merkle_root m =
     (if entry_index < 0 \<or> int (length (ml_hashes m)) \<le> entry_index then False
      else hex (ml_hashes m ! nat entry_index) = merkle_root)"

text \<open>The leaves are a chain in the sense of \<open>hash_chain\<close>: the previous hash has a fixed length.\<close>

interpretation leaf_chain: hash_chain "sha256 P" "(@)" "\<lambda>h. length h = 32" for P :: prims
  by unfold_locales auto

section \<open>What verification means\<close>

fun leaf_hashes :: "prims \<Rightarrow> bytes \<Rightarrow> bytes list \<Rightarrow> bytes list" where
  "leaf_hashes P prev [] = []"
| "leaf_hashes P prev (b # bs) =
     compute_leaf_hash P prev b # leaf_hashes P (compute_leaf_hash P prev b) bs"

lemma length_leaf_hashes [simp]: "length (leaf_hashes P prev bs) = length bs"
  by (induction bs arbitrary: prev) auto

definition chain_end :: "prims \<Rightarrow> bytes \<Rightarrow> bytes list \<Rightarrow> bytes" where
  "chain_end P = foldl (compute_leaf_hash P)"

lemma leaf_hashes_empty [simp]: "leaf_hashes P prev bs = [] \<longleftrightarrow> bs = []"
  by (cases bs) auto

lemma last_leaf_hashes: "bs \<noteq> [] \<Longrightarrow> last (leaf_hashes P prev bs) = chain_end P prev bs"
proof (induction bs arbitrary: prev)
  case (Cons b bs)
  then show ?case by (cases bs) (auto simp: chain_end_def)
qed simp

lemma leaf_hashes_snoc:
  "leaf_hashes P prev (bs @ [b]) = leaf_hashes P prev bs @ [compute_leaf_hash P (chain_end P prev bs) b]"
  by (induction bs arbitrary: prev) (auto simp: chain_end_def)

lemma verify_leaves_Ok:
  "length ps = length hs \<Longrightarrow> verify_leaves P prev i (zip ps hs) = Inr (Ok ()) \<longleftrightarrow>
     (\<exists>bs. etraverse (canonicalize P) ps = Inr bs \<and> hs = leaf_hashes P prev bs)"
proof (induction ps arbitrary: prev i hs)
  case (Cons p ps)
  then obtain h hs' where hs: "hs = h # hs'" "length ps = length hs'" by (cases hs) auto
  show ?case
  proof (cases "canonicalize P p")
    case (Inr b)
    then show ?thesis using Cons.IH [OF hs(2), of "compute_leaf_hash P prev b" "i + 1"] hs(1)
      by (auto simp: Let_def split: sum.splits)
  qed (simp add: hs)
qed simp

text \<open>A log whose hashes are those of its payloads.\<close>

definition sound_log :: "prims \<Rightarrow> merkle_log \<Rightarrow> bytes list \<Rightarrow> bool" where
  "sound_log P m bs \<longleftrightarrow> etraverse (canonicalize P) (ml_payloads m) = Inr bs \<and>
     ml_hashes m = leaf_hashes P GENESIS_HASH bs"

lemma verify_chain_Ok:
  assumes "length (ml_payloads m) = length (ml_hashes m)" and "\<not> ml_corrupt m"
  shows "verify_chain_result P m None = Inr (Ok n) \<longleftrightarrow> (\<exists>bs. sound_log P m bs) \<and> n = length (ml_hashes m)"
proof (cases "ml_hashes m")
  case Nil
  with assms show ?thesis by (auto simp: verify_chain_result_def sound_log_def)
next
  case (Cons h hs)
  have m: "Ok n = map_ok (\<lambda>_. k) r \<longleftrightarrow> r = Ok () \<and> n = k" for r :: "(unit, kernel_error) result" and k n :: nat
    by (cases r) auto
  have "verify_chain_result P m None = emap (map_ok (\<lambda>_. length (ml_hashes m)))
      (verify_leaves P GENESIS_HASH 0 (zip (ml_payloads m) (ml_hashes m)))"
    using Cons assms by (simp add: verify_chain_result_def)
  then show ?thesis using verify_leaves_Ok [OF assms(1), of P GENESIS_HASH 0]
    by (auto simp: emap_Inr_iff m sound_log_def)
qed

lemma verify_chain_True:
  "verify_chain P m d = Inr (True, idx) \<longleftrightarrow> idx = None \<and> (\<exists>n. verify_chain_result P m d = Inr (Ok n))"
proof (cases "verify_chain_result P m d")
  case (Inr r)
  then show ?thesis by (cases r) (auto simp: verify_chain_def)
qed (simp add: verify_chain_def)

lemma verify_chain_False:
  "verify_chain P m d = Inr (False, idx) \<longleftrightarrow>
     (\<exists>e. verify_chain_result P m d = Inr (Err e) \<and> idx = Some (broken_index e))"
proof (cases "verify_chain_result P m d")
  case (Inr r)
  then show ?thesis by (cases r) (auto simp: verify_chain_def)
qed (simp add: verify_chain_def)

lemma sound_head: "sound_log P m bs \<Longrightarrow> head_bytes m = chain_end P GENESIS_HASH bs"
  by (cases "bs = []") (simp_all add: sound_log_def head_bytes_def last_leaf_hashes, simp_all add: chain_end_def)

lemma append_sound:
  assumes "sound_log P m bs" and "append_leaf P (Inr ()) data m = (m', Inr r)"
  shows "\<exists>d b. payload_dict data = Inr d \<and> canonicalize P d = Inr b \<and> sound_log P m' (bs @ [b]) \<and> r = head_hash m' \<and>
    ml_saved m' = (ml_hashes m', ml_payloads m') \<and> \<not> ml_corrupt m' \<and> \<not> ml_quarantined m' \<and>
    ml_hashes m' = ml_hashes m @ [head_bytes m'] \<and> ml_payloads m' = ml_payloads m @ [d]"
proof -
  from assms(2) have "is_ok (ebind (payload_dict data) (\<lambda>d. emap (Pair d) (canonicalize P d)))"
    and g: "\<not> ml_corrupt m" "\<not> ml_quarantined m"
    by (auto simp: append_leaf_def is_ok_def split: if_splits sum.splits)
  then obtain d b where d: "payload_dict data = Inr d" and b: "canonicalize P d = Inr b"
    by (auto simp: is_ok_iff ebind_Inr_iff emap_Inr_iff)
  have tr: "etraverse (canonicalize P) (xs @ [x]) = Inr (ys @ [y])"
    if "etraverse (canonicalize P) xs = Inr ys" "canonicalize P x = Inr y" for xs x ys y
    using that by (induction xs arbitrary: ys) (auto split: sum.splits)
  from assms(2) d b g have m': "m' = m\<lparr>ml_hashes := ml_hashes m @ [compute_leaf_hash P (head_bytes m) b],
      ml_payloads := ml_payloads m @ [d], ml_saved := (ml_hashes m @ [compute_leaf_hash P (head_bytes m) b],
      ml_payloads m @ [d])\<rparr>" and root: "r = hex (compute_leaf_hash P (head_bytes m) b)"
    by (auto simp: append_leaf_def Let_def split: if_splits)
  have "sound_log P m' (bs @ [b])"
    using assms(1) tr [OF _ b] sound_head [OF assms(1)] by (simp add: sound_log_def m' leaf_hashes_snoc)
  then show ?thesis using d b g by (simp add: m' root head_hash_def head_bytes_def)
qed

section \<open>The first broken leaf\<close>

lemma verify_leaves_Err:
  "length ps = length hs \<Longrightarrow> verify_leaves P prev i (zip ps hs) = Inr (Err e) \<Longrightarrow>
     \<exists>k bs. broken_index e = i + k \<and> k < length ps \<and> etraverse (canonicalize P) (take k ps) = Inr bs \<and>
       take k hs = leaf_hashes P prev bs \<and>
       (\<forall>b. canonicalize P (ps ! k) = Inr b \<longrightarrow> hs ! k \<noteq> compute_leaf_hash P (chain_end P prev bs) b)"
proof (induction ps arbitrary: prev i hs)
  case (Cons p ps)
  then obtain h hs' where hs: "hs = h # hs'" "length ps = length hs'" by (cases hs) auto
  show ?case
  proof (cases "\<exists>b. canonicalize P p = Inr b \<and> compute_leaf_hash P prev b = h")
    case True
    then obtain b where b: "canonicalize P p = Inr b" "compute_leaf_hash P prev b = h" by blast
    with Cons.prems(2) hs(1) have "verify_leaves P h (i + 1) (zip ps hs') = Inr (Err e)" by simp
    from Cons.IH [OF hs(2) this] obtain k bs where k: "broken_index e = i + 1 + k" "k < length ps"
      "etraverse (canonicalize P) (take k ps) = Inr bs" "take k hs' = leaf_hashes P h bs"
      "\<forall>c. canonicalize P (ps ! k) = Inr c \<longrightarrow> hs' ! k \<noteq> compute_leaf_hash P (chain_end P h bs) c" by auto
    show ?thesis
      by (rule exI [of _ "k + 1"], rule exI [of _ "b # bs"]) (use k b hs(1) in \<open>simp add: chain_end_def\<close>)
  next
    case False
    with Cons.prems(2) hs(1) have "broken_index e = i"
      by (auto simp: broken_index_def KernelError_def Let_def split: sum.splits if_splits)
    with False hs(1) show ?thesis
      by (intro exI [of _ 0] exI [of _ "[]"]) (auto simp: chain_end_def)
  qed
qed simp

section \<open>Properties\<close>

text \<open>The byte strings hashed when a log is verified: each previous hash with the next payload.\<close>

definition hashed :: "prims \<Rightarrow> merkle_log \<Rightarrow> bytes set" where
  "hashed P m =
     (case etraverse (canonicalize P) (ml_payloads m) of
        Inl _ \<Rightarrow> {}
      | Inr bs \<Rightarrow> (\<lambda>(h, b). h @ b) ` set (chain_messages (\<lambda>(h, b). compute_leaf_hash P h b) GENESIS_HASH bs))"

lemma canonical_lists:
  assumes ps: "etraverse (canonicalize P) ps = Inr bs" and qs: "etraverse (canonicalize P) qs = Inr bs"
    and plain: "list_all plain ps" "list_all plain qs"
  shows "map jcs_norm ps = map jcs_norm qs"
proof (rule nth_equalityI)
  have "map (canonicalize P) ps = map Inr bs" "map (canonicalize P) qs = map Inr bs"
    using ps qs by (simp_all add: etraverse_Inr_iff)
  then have eq: "map (canonicalize P) ps = map (canonicalize P) qs" and len: "length ps = length bs"
    and at: "\<And>i. i < length ps \<Longrightarrow> canonicalize P (ps ! i) = Inr (bs ! i)"
    by (simp_all add: list_eq_iff_nth_eq)
  have lq: "length ps = length qs" using arg_cong [OF eq, of length] by simp
  show "length (map jcs_norm ps) = length (map jcs_norm qs)" by (simp add: lq)
  fix i assume "i < length (map jcs_norm ps)"
  then have i: "i < length ps" "i < length qs" using lq by simp_all
  have "canonicalize P (qs ! i) = Inr (bs ! i)"
    using at [OF i(1)] arg_cong [OF eq, of "\<lambda>l. l ! i"] i by simp
  from canonicalize_inject [OF at [OF i(1)] this] plain i show "map jcs_norm ps ! i = map jcs_norm qs ! i"
    by (simp add: list_all_length)
qed


definition demo_log :: "pyval list \<Rightarrow> merkle_log" where
  "demo_log ps = \<lparr>ml_hashes = map (\<lambda>_. replicate 32 0) ps, ml_payloads = ps, ml_corrupt = False,
     ml_quarantined = False, ml_saved = ([], [])\<rparr>"

lemma demo_canonical:
  "canonicalize demo_prims (PDict [(PStr [97], PInt 1)]) = Inr [123, 34, 97, 34, 58, 49, 125]"
  "canonicalize demo_prims (PDict [(PStr [97], PInt 2)]) = Inr [123, 34, 97, 34, 58, 50, 125]"
  by (simp_all add: canonicalize_def MAX_DEPTH_def is_str_def bmp_def encode_string_def escape_char_def
      int_str_def nat_str.simps comma_sep_def encode_utf8_def utf8_cp_def)

lemma demo_verifies:
  "verify_chain_result demo_prims (demo_log [PDict [(PStr [97], PInt 1)]]) None = Inr (Ok 1)"
  "verify_chain_result demo_prims (demo_log [PDict [(PStr [97], PInt 2)]]) None = Inr (Ok 1)"
  by (simp_all add: verify_chain_result_def demo_log_def demo_canonical compute_leaf_hash_def)


text \<open>
  Appending keeps a log verifiable. On a log that verifies, an append that returns adds
  exactly the payload and one hash, the log verifies at the new length, the string returned is
  the new head hash, and what the backend holds is what is in memory.
\<close>

theorem append_keeps_verifying:
  assumes "verify_chain_result P m None = Inr (Ok n)" and "length (ml_payloads m) = length (ml_hashes m)"
    and "append_leaf P save data m = (m', Inr r)"
  shows "verify_chain_result P m' None = Inr (Ok (n + 1)) \<and> r = head_hash m' \<and>
    (\<exists>d. payload_dict data = Inr d \<and> ml_payloads m' = ml_payloads m @ [d]) \<and> take n (ml_hashes m') = ml_hashes m \<and>
    ml_saved m' = (ml_hashes m', ml_payloads m')"
proof -
  have c: "\<not> ml_corrupt m" using assms(1) by (auto simp: verify_chain_result_def)
  from verify_chain_Ok [OF assms(2) c] assms(1) obtain bs where s: "sound_log P m bs" and n: "n = length (ml_hashes m)"
    by metis
  have "save = Inr ()" using assms(3) by (cases save) (auto simp: append_leaf_def Let_def split: if_splits sum.splits)
  with assms(3) have run: "append_leaf P (Inr ()) data m = (m', Inr r)" by simp
  from append_sound [OF s run] obtain d b where a: "payload_dict data = Inr d" "sound_log P m' (bs @ [b])" "r = head_hash m'"
    "ml_saved m' = (ml_hashes m', ml_payloads m')" "\<not> ml_corrupt m'"
    "ml_hashes m' = ml_hashes m @ [head_bytes m']" "ml_payloads m' = ml_payloads m @ [d]" by blast
  have "verify_chain_result P m' None = Inr (Ok (n + 1))"
    using verify_chain_Ok [of m' P "n + 1"] a n assms(2) by auto
  with a n show ?thesis by simp
qed

lemma append_keeps_verifying_witness:
  "\<exists>m' r. append_leaf demo_prims (Inr ()) (DataPayload (PDict [(PStr [97], PInt 1)])) (demo_log []) = (m', Inr r) \<and>
     verify_chain_result demo_prims m' None = Inr (Ok 1)"
proof -
  obtain m' r where run: "append_leaf demo_prims (Inr ()) (DataPayload (PDict [(PStr [97], PInt 1)])) (demo_log []) = (m', Inr r)"
    by (simp add: append_leaf_def is_append_payload_def is_str_def demo_log_def demo_canonical Let_def)
  have "verify_chain_result demo_prims (demo_log []) None = Inr (Ok 0)"
    by (simp add: verify_chain_result_def demo_log_def)
  from append_keeps_verifying [OF this _ run] run show ?thesis by (simp add: demo_log_def)
qed

text \<open>
  Verification reports the first broken leaf. When \<open>verify_chain\<close> answers \<open>(False, i)\<close> on a
  log that is not marked corrupt and has a payload for every hash, the payloads before leaf
  \<open>i\<close> are canonical and their hashes are right, and leaf \<open>i\<close> is not what its stored hash says.
\<close>

theorem verify_chain_first_broken:
  assumes "verify_chain P m None = Inr (False, idx)" and "\<not> ml_corrupt m"
    and "length (ml_payloads m) = length (ml_hashes m)"
  shows "\<exists>i bs. idx = Some i \<and> i < length (ml_hashes m) \<and>
    etraverse (canonicalize P) (take i (ml_payloads m)) = Inr bs \<and>
    take i (ml_hashes m) = leaf_hashes P GENESIS_HASH bs \<and>
    (\<forall>b. canonicalize P (ml_payloads m ! i) = Inr b \<longrightarrow>
       ml_hashes m ! i \<noteq> compute_leaf_hash P (chain_end P GENESIS_HASH bs) b)"
proof -
  from assms(1) obtain e where e: "verify_chain_result P m None = Inr (Err e)" "idx = Some (broken_index e)"
    unfolding verify_chain_False by blast
  with assms(2,3) obtain r where "verify_leaves P GENESIS_HASH 0 (zip (ml_payloads m) (ml_hashes m)) = Inr r"
    "map_ok (\<lambda>_. length (ml_hashes m)) r = Err e"
    by (auto simp: verify_chain_result_def emap_Inr_iff split: if_splits)
  then have "verify_leaves P GENESIS_HASH 0 (zip (ml_payloads m) (ml_hashes m)) = Inr (Err e)"
    by (cases r) auto
  from verify_leaves_Err [OF assms(3) this] e(2) assms(3) show ?thesis by auto
qed

lemma verify_chain_first_broken_witness:
  "\<exists>i. verify_chain demo_prims ((demo_log [PDict [(PStr [97], PInt 1)]])\<lparr>ml_hashes := [[]]\<rparr>) None = Inr (False, Some i) \<and> i < 1"
proof -
  let ?m = "(demo_log [PDict [(PStr [97], PInt 1)]])\<lparr>ml_hashes := [[]]\<rparr>"
  obtain idx where v: "verify_chain demo_prims ?m None = Inr (False, idx)"
    by (simp add: verify_chain_def verify_chain_result_def demo_log_def demo_canonical compute_leaf_hash_def)
  from verify_chain_first_broken [OF v] v show ?thesis by (auto simp: demo_log_def)
qed

text \<open>
  A log that does not verify is never appended to. Opening a stored chain that can be read
  gives a log that is in quarantine exactly when its chain does not verify, and a log in
  quarantine refuses every append and stays as it is.
\<close>

theorem open_quarantines:
  assumes "MerkleLog P saved (Inr (hs, ps)) = Inr m"
  shows "(ml_quarantined m \<longleftrightarrow> verify_chain P (m\<lparr>ml_corrupt := False\<rparr>) None \<noteq> Inr (True, None)) \<and>
    ml_hashes m = hs \<and> ml_payloads m = ps \<and>
    (ml_quarantined m \<longrightarrow> (\<forall>save data. fst (append_leaf P save data m) = m \<and> \<not> is_ok (snd (append_leaf P save data m))))"
proof -
  let ?m = "\<lparr>ml_hashes = hs, ml_payloads = ps, ml_corrupt = False, ml_quarantined = False, ml_saved = saved\<rparr>"
  from assms obtain ok idx where v: "verify_chain P ?m None = Inr (ok, idx)"
    and m: "m = (if ok then ?m else ?m\<lparr>ml_corrupt := True, ml_quarantined := True\<rparr>)"
    by (auto simp: MerkleLog_def emap_Inr_iff Let_def)
  have "ok \<longleftrightarrow> verify_chain P ?m None = Inr (True, None)"
    using v verify_chain_True [of P ?m None] by (cases ok) simp_all
  moreover have "verify_chain P (?m\<lparr>ml_quarantined := True\<rparr>) None = verify_chain P ?m None"
    by (simp add: verify_chain_def verify_chain_result_def)
  ultimately show ?thesis by (cases ok) (simp_all add: m append_leaf_def is_ok_def)
qed

lemma open_quarantines_witness:
  "\<exists>m. MerkleLog demo_prims ([], []) (Inr ([[]], [PDict [(PStr [97], PInt 1)]])) = Inr m \<and> ml_quarantined m"
proof -
  obtain m where m: "MerkleLog demo_prims ([], []) (Inr ([[]], [PDict [(PStr [97], PInt 1)]])) = Inr m"
    by (simp add: MerkleLog_def verify_chain_def verify_chain_result_def demo_canonical compute_leaf_hash_def)
  from open_quarantines [OF m] m show ?thesis
    by (auto simp: MerkleLog_def verify_chain_def verify_chain_result_def demo_canonical compute_leaf_hash_def)
qed

text \<open>
  Verification can raise. A stored payload that is a JSON value nested more than 64 deep
  makes \<open>verify_chain_result\<close> raise \<open>RecursionError\<close> instead of returning an error, and the
  constructor raise it instead of entering quarantine.
\<close>

theorem deep_payload_raises:
  assumes "jcs_value p" and "64 < nesting p"
  shows "verify_chain_result P (demo_log [p]) None = Inl (RecursionError []) \<and>
    MerkleLog P saved (Inr ([h], [p])) = Inl (RecursionError [])"
  using canonicalize_deep [OF assms, of P]
  by (simp add: verify_chain_result_def verify_chain_def MerkleLog_def demo_log_def)

text \<open>A list nested \<open>n\<close> deep.\<close>

primrec nested :: "nat \<Rightarrow> pyval" where
  "nested 0 = PList []"
| "nested (Suc n) = PList [nested n]"

lemma nested_facts: "jcs_value (nested n)" "nesting (nested n) = n"
  by (induction n) auto

lemma deep_payload_raises_witness:
  "64 < nesting (nested 65) \<and> MerkleLog demo_prims ([], []) (Inr ([[]], [nested 65])) = Inl (RecursionError [])"
  using deep_payload_raises [of "nested 65" demo_prims "([], [])" "[]"] nested_facts [of 65] by simp

text \<open>
  An inclusion check does not look at the entry. \<open>verify_merkle_inclusion\<close> answers whether the
  given string is the hash stored at the index; the answer is the same for every entry.
\<close>

lemma inclusion_ignores_entry:
  "verify_merkle_inclusion entry i r m = verify_merkle_inclusion other i r m \<and>
   (verify_merkle_inclusion entry i r m \<longleftrightarrow>
      0 \<le> i \<and> nat i < length (ml_hashes m) \<and> r = hex (ml_hashes m ! nat i))"
  by (auto simp: verify_merkle_inclusion_def)

end
