(* ===== verification/MerkleFile.thy ===== *)
theory MerkleFile
  imports MerkleLog Persistence
begin

text \<open>
  The file backend of the log in telos_kernel/_io/merkle_file_backend.py. A file is absent, holds
  no JSON text that can be read, or holds a JSON value; what \<open>save\<close> writes is read back as
  \<open>json_shape\<close> of it. The temporary file, fsync and the atomic replacement are not modelled: a
  save that raises leaves the file as it was.
\<close>

section \<open>Load and save\<close>

datatype log_file = NoFile | Unreadable | JsonFile pyval

fun hash_of_hex :: "pyval \<Rightarrow> bytes option" where
  "hash_of_hex (PStr s) = fromhex s"
| "hash_of_hex _ = None"

definition corrupt_log :: "'a \<Rightarrow> pyexc + 'b" where
  "corrupt_log _ = Inl (ValueError (u ''corrupt Merkle log''))"

definition load_payloads :: "(pyval \<times> pyval) list \<Rightarrow> bytes list \<Rightarrow> pyexc + bytes list \<times> pyval list" where
  "load_payloads raw hashes =
     (case vget raw (u ''payloads'') of
        PNone \<Rightarrow> Inr (hashes, map (\<lambda>_. PDict []) hashes)
      | PList payloads \<Rightarrow> if length payloads \<noteq> length hashes then corrupt_log () else Inr (hashes, payloads)
      | _ \<Rightarrow> corrupt_log ())"

definition load_json :: "pyval \<Rightarrow> pyexc + bytes list \<times> pyval list" where
  "load_json v =
     (case v of
        PDict raw \<Rightarrow>
          (case vget raw (u ''hashes'') of
             PList hs \<Rightarrow>
               (if \<not> list_all (\<lambda>h. hash_of_hex h \<noteq> None) hs then corrupt_log ()
                else
                  (let hashes = map (\<lambda>h. the (hash_of_hex h)) hs; stored_count = vget raw (u ''count'') in
                   if \<not> list_all (\<lambda>h. length h = 32) hashes then corrupt_log ()
                   else if stored_count \<noteq> PNone \<and> \<not> py_eq stored_count (PInt (int (length hashes)))
                     then corrupt_log ()
                   else load_payloads raw hashes))
           | _ \<Rightarrow> corrupt_log ())
      | _ \<Rightarrow> corrupt_log ())"

fun load_log :: "log_file \<Rightarrow> pyexc + bytes list \<times> pyval list" where
  "load_log NoFile = Inr ([], [])"
| "load_log Unreadable = corrupt_log ()"
| "load_log (JsonFile v) = load_json v"

definition LOG_VERSION :: int where "LOG_VERSION = 3"

definition log_data :: "bytes list \<Rightarrow> pyval list \<Rightarrow> pyval" where
  "log_data hashes payloads = PDict
     [(PStr (u ''version''), PInt LOG_VERSION),
      (PStr (u ''algorithm''), PStr (u ''sha256'')),
      (PStr (u ''canonicalization''), PStr (u ''rfc-8785-jcs'')),
      (PStr (u ''encoding''), PStr (u ''utf-8'')),
      (PStr (u ''hashes''), PList (map (\<lambda>h. PStr (hex h)) hashes)),
      (PStr (u ''count''), PInt (int (length hashes))),
      (PStr (u ''payloads''), PList payloads)]"

definition save_log :: "prims \<Rightarrow> bytes list \<Rightarrow> pyval list \<Rightarrow> log_file \<Rightarrow> log_file \<times> (pyexc + unit)" where
  "save_log P hashes payloads file =
     (case json_shape P (log_data hashes payloads) of
        Inl e \<Rightarrow> (file, Inl e)
      | Inr v \<Rightarrow> (JsonFile v, Inr ()))"

section \<open>What is read back\<close>

lemma saved_data:
  assumes "esequence (map (json_shape P) payloads) = Inr ys"
  shows "json_shape P (log_data hashes payloads) = Inr (PDict
     [(PStr (u ''algorithm''), PStr (u ''sha256'')),
      (PStr (u ''canonicalization''), PStr (u ''rfc-8785-jcs'')),
      (PStr (u ''count''), PInt (int (length hashes))),
      (PStr (u ''encoding''), PStr (u ''utf-8'')),
      (PStr (u ''hashes''), PList (map (\<lambda>h. PStr (hex h)) hashes)),
      (PStr (u ''payloads''), PList ys),
      (PStr (u ''version''), PInt LOG_VERSION)])"
proof -
  have "map (json_shape P \<circ> (\<lambda>h. PStr (hex h))) hashes = map Inr (map (\<lambda>h. PStr (hex h)) hashes)" by simp
  then have "esequence (map (json_shape P \<circ> (\<lambda>h. PStr (hex h))) hashes) = Inr (map (\<lambda>h. PStr (hex h)) hashes)"
    by (simp only: esequence_map_Inr)
  then show ?thesis
    by (simp add: log_data_def sort_items_def is_str_def assms u_def)
qed

lemma load_saved:
  assumes "list_all (\<lambda>h. length h = 32) hashes" and "esequence (map (json_shape P) payloads) = Inr ys"
    and "length payloads = length hashes"
  shows "\<exists>v. save_log P hashes payloads file = (JsonFile v, Inr ()) \<and> load_log (JsonFile v) = Inr (hashes, ys)"
proof -
  have "length ys = length hashes" using assms(2,3) by (metis esequence_Inr_iff length_map)
  moreover have "map ((\<lambda>h. the (hash_of_hex h)) \<circ> (\<lambda>h. PStr (hex h))) hashes = hashes"
    by (simp add: comp_def)
  ultimately show ?thesis using assms(1)
    by (simp add: save_log_def saved_data [OF assms(2)])
       (simp add: load_json_def load_payloads_def vget_def dget_def u_def list_all_iff comp_def)
qed

text \<open>Reading a value back changes it at most in what the canonical text forgets.\<close>

lemma shape_list:
  "(\<And>x. x \<in> set xs \<Longrightarrow> \<exists>w. json_shape P x = Inr w \<and> jcs_norm w = jcs_norm x) \<Longrightarrow>
   \<exists>ys. esequence (map (json_shape P) xs) = Inr ys \<and> map jcs_norm ys = map jcs_norm xs"
proof (induction xs)
  case (Cons x xs)
  from Cons.prems [of x] obtain w where w: "json_shape P x = Inr w" "jcs_norm w = jcs_norm x" by auto
  moreover from Cons.IH Cons.prems obtain ys where "esequence (map (json_shape P) xs) = Inr ys" "map jcs_norm ys = map jcs_norm xs"
    by auto
  ultimately show ?case by (intro exI [of _ "w # ys"]) simp
qed simp

lemma shape_entries:
  "\<forall>e \<in> set kvs. \<exists>w. json_shape P (snd e) = Inr w \<and> jcs_norm w = jcs_norm (snd e) \<Longrightarrow>
   \<exists>ps. list_all2 (shaped P) kvs ps \<and> map (\<lambda>(k, v). (k, jcs_norm v)) ps = map (\<lambda>(k, v). (k, jcs_norm v)) kvs"
proof (induction kvs)
  case (Cons e kvs)
  obtain k v where e: "e = (k, v)" by (cases e)
  with Cons.prems obtain w where w: "json_shape P v = Inr w" "jcs_norm w = jcs_norm v" by auto
  from Cons.IH Cons.prems obtain ps where "list_all2 (shaped P) kvs ps"
    "map (\<lambda>(k, v). (k, jcs_norm v)) ps = map (\<lambda>(k, v). (k, jcs_norm v)) kvs" by auto
  with w e show ?case by (intro exI [of _ "(k, w) # ps"]) (simp add: shaped_pair)
qed simp

lemma json_shape_norm:
  "jcs_value v \<Longrightarrow> str_keyed v \<Longrightarrow> \<exists>w. json_shape P v = Inr w \<and> jcs_norm w = jcs_norm v"
proof (induction v)
  case (PList xs)
  have "\<exists>ys. esequence (map (json_shape P) xs) = Inr ys \<and> map jcs_norm ys = map jcs_norm xs"
    by (rule shape_list) (use PList in \<open>auto simp: list_all_iff\<close>)
  then show ?case by auto
next
  case (PTuple xs)
  have "\<exists>ys. esequence (map (json_shape P) xs) = Inr ys \<and> map jcs_norm ys = map jcs_norm xs"
    by (rule shape_list) (use PTuple in \<open>auto simp: list_all_iff\<close>)
  then show ?case by auto
next
  case (PDict kvs)
  have keys: "list_all (is_str \<circ> fst) kvs" "distinct (map fst kvs)"
    using PDict.prems(2) by (simp_all only: str_keyed_dict)
  have ih: "\<exists>w. json_shape P v = Inr w \<and> jcs_norm w = jcs_norm v" if "(k, v) \<in> set kvs" for k v
  proof (rule PDict.IH(2) [OF that])
    show "v \<in> Basic_BNFs.snds (k, v)" by simp
    show "jcs_value v" "str_keyed v" using PDict.prems that by (auto simp: list_all_iff)
  qed
  let ?n = "\<lambda>(k, v). (k, jcs_norm v)"
  have "\<exists>ps. list_all2 (shaped P) (sort_str kvs) ps \<and> map ?n ps = map ?n (sort_str kvs)"
    by (rule shape_entries) (use ih in auto)
  then obtain ps where ps: "list_all2 (shaped P) (sort_str kvs) ps" "map ?n ps = map ?n (sort_str kvs)" by blast
  have "sort_key (key_str \<circ> fst) (map ?n ps) = sort_key (key_str \<circ> fst) (map ?n kvs)"
    unfolding ps(2) by (simp add: sort_key_map comp_def case_prod_unfold sort_key_idem)
  with ps(1) keys json_shape_dict [OF keys, of P "PDict ps"] show ?case by (intro exI [of _ "PDict ps"]) simp
qed auto

section \<open>Reopening\<close>

lemma leaf_hashes_32: "list_all (\<lambda>h. length h = 32) (leaf_hashes P prev bs)"
  by (induction bs arbitrary: prev) (simp_all add: compute_leaf_hash_def Let_def)

lemma canonicalize_norm: "jcs_norm v = jcs_norm w \<Longrightarrow> canonicalize P v = canonicalize P w"
  using encode_norm [of P 0 v] encode_norm [of P 0 w] by (simp add: canonicalize_def)

text \<open>
  C17: A saved log reopens as it was. Saving a log that verifies never raises, and opening the file
  again gives a log that is not in quarantine, has the same hashes, and whose payloads are the
  same values up to the order of dictionary entries and to tuples being lists.
\<close>

theorem saved_log_reopens:
  assumes "verify_chain_result P m None = Inr (Ok n)" and "length (ml_payloads m) = length (ml_hashes m)"
    and "list_all str_keyed (ml_payloads m)"
  shows "\<exists>file' m'. save_log P (ml_hashes m) (ml_payloads m) file = (file', Inr ()) \<and>
    MerkleLog P saved (load_log file') = Inr m' \<and> \<not> ml_quarantined m' \<and> ml_hashes m' = ml_hashes m \<and>
    map jcs_norm (ml_payloads m') = map jcs_norm (ml_payloads m)"
proof -
  have c: "\<not> ml_corrupt m" using assms(1) by (auto simp: verify_chain_result_def)
  from verify_chain_Ok [OF assms(2) c] assms(1) obtain bs where s: "sound_log P m bs" and n: "n = length (ml_hashes m)"
    by metis
  have "jcs_value v" if "v \<in> set (ml_payloads m)" for v
  proof -
    have "is_ok (canonicalize P v)" using s that etraverse_ok [of "canonicalize P" "ml_payloads m"] by (simp add: sound_log_def)
    then have "is_ok (encode P 0 v)" by (auto simp: is_ok_iff canonicalize_def ebind_Inr_iff)
    then show ?thesis by (simp add: encode_ok)
  qed
  then have "\<exists>ys. esequence (map (json_shape P) (ml_payloads m)) = Inr ys \<and> map jcs_norm ys = map jcs_norm (ml_payloads m)"
    by (intro shape_list json_shape_norm) (use assms(3) in \<open>auto simp: list_all_iff\<close>)
  then obtain ys where ys: "esequence (map (json_shape P) (ml_payloads m)) = Inr ys" "map jcs_norm ys = map jcs_norm (ml_payloads m)"
    by blast
  have "list_all (\<lambda>h. length h = 32) (ml_hashes m)" using s leaf_hashes_32 by (simp add: sound_log_def)
  from load_saved [OF this ys(1) assms(2), of "file"] obtain v where
    v: "save_log P (ml_hashes m) (ml_payloads m) file = (JsonFile v, Inr ())" "load_log (JsonFile v) = Inr (ml_hashes m, ys)"
    by blast
  let ?m = "\<lparr>ml_hashes = ml_hashes m, ml_payloads = ys, ml_corrupt = False, ml_quarantined = False, ml_saved = saved\<rparr>"
  have "map (canonicalize P) ys = map (canonicalize P) (ml_payloads m)"
    using ys(2) by (auto simp: list_eq_iff_nth_eq intro: canonicalize_norm)
  then have "etraverse (canonicalize P) ys = Inr bs" using s by (simp add: etraverse_eq sound_log_def)
  then have "sound_log P ?m bs" using s by (simp add: sound_log_def)
  moreover have "length ys = length (ml_hashes m)" using ys(2) assms(2) by (metis length_map)
  ultimately have "verify_chain_result P ?m None = Inr (Ok n)" using verify_chain_Ok [of ?m P n] n by auto
  then have "MerkleLog P saved (load_log (JsonFile v)) = Inr ?m"
    unfolding MerkleLog_def v(2) by (simp add: verify_chain_def)
  with v(1) ys(2) show ?thesis by (intro exI [of _ "JsonFile v"] exI [of _ ?m]) simp
qed

lemma saved_log_reopens_witness:
  "\<exists>m r file' m'. append_leaf demo_prims (Inr ()) (DataPayload (PDict [(PStr [97], PInt 1)])) (demo_log []) = (m, Inr r) \<and>
     save_log demo_prims (ml_hashes m) (ml_payloads m) NoFile = (file', Inr ()) \<and>
     MerkleLog demo_prims ([], []) (load_log file') = Inr m' \<and> ml_hashes m' = ml_hashes m \<and> \<not> ml_quarantined m'"
proof -
  obtain m r where run: "append_leaf demo_prims (Inr ()) (DataPayload (PDict [(PStr [97], PInt 1)])) (demo_log []) = (m, Inr r)"
    and p: "ml_payloads m = [PDict [(PStr [97], PInt 1)]]" "ml_hashes m = [replicate 32 0]" "\<not> ml_corrupt m"
    by (simp add: append_leaf_def is_append_payload_def is_str_def demo_log_def demo_canonical Let_def compute_leaf_hash_def)
  have "verify_chain_result demo_prims m None = Inr (Ok 1)"
    by (simp add: verify_chain_result_def p demo_canonical compute_leaf_hash_def)
  from saved_log_reopens [OF this, of NoFile "([], [])"] run p show ?thesis by (auto simp: is_str_def)
qed

end
