(* ===== verification/Manifest.thy ===== *)
theory Manifest
  imports Receipt
begin

text \<open>
  The signed list of invariants of telos_kernel/manifest.py: its validators, its projection to
  JSON and content hash, and the K-of-N quorum over the signers' keys. The Ed25519 operations are
  parameters: loading a public key from its bytes, which may raise, and verifying, the caught
  exceptions being the answer False.
\<close>

section \<open>Invariants and signers\<close>

definition MANIFEST_SCHEMA_VERSION :: pystr where "MANIFEST_SCHEMA_VERSION = u ''v3.0''"

datatype enforcement_status = DECLARED | ENFORCED | RETIRED

fun enforcement_value :: "enforcement_status \<Rightarrow> pystr" where
  "enforcement_value DECLARED = u ''declared''"
| "enforcement_value ENFORCED = u ''enforced''"
| "enforcement_value RETIRED = u ''retired''"

record invariant_spec =
  iv_id :: pystr
  iv_name :: pystr
  iv_predicate :: pystr
  iv_measure :: pystr
  iv_threshold :: "(pyval \<times> pyval) list"
  iv_receipt_type :: pystr
  iv_falsification_test :: pystr
  iv_tier :: pystr
  iv_citations :: "pystr list"
  iv_enforcement_status :: enforcement_status

definition at_least_one_citation :: "pystr list \<Rightarrow> pyexc + pystr list" where
  "at_least_one_citation v =
     (if v = [] then Inl (ValueError (u ''every U-invariant must have at least one citation'')) else Inr v)"

text \<open>An entry of the signers: the raw dictionary, whose flag \<open>stub\<close> may be absent.\<close>

record signer =
  sg_key_id :: pystr
  sg_public_key_hex :: pystr
  sg_role :: pystr
  sg_stub :: "pyval option"

definition lower_hex :: "nat \<Rightarrow> nat" where
  "lower_hex c = (if 65 \<le> c \<and> c \<le> 90 then c + 32 else c)"

definition hex_char :: "nat \<Rightarrow> bool" where
  "hex_char c \<longleftrightarrow> (48 \<le> c \<and> c \<le> 57) \<or> (97 \<le> c \<and> c \<le> 102)"

definition STUB_KEY :: pystr where "STUB_KEY = u ''STUB''"

definition validate_pk :: "pystr \<Rightarrow> pyexc + pystr" where
  "validate_pk v =
     (if v = STUB_KEY then Inr v
      else if length v \<noteq> 64 \<or> \<not> list_all (\<lambda>c. hex_char c) (map lower_hex v)
        then Inl (ValueError (u ''public_key_hex must be 32-byte hex''))
      else Inr (map lower_hex v))"

section \<open>The manifest\<close>

record signer_set =
  ss_k :: pyval
  ss_n :: pyval
  ss_signers :: "signer list"

record manifest =
  mf_schema_version :: pystr
  mf_version :: pystr
  mf_invariants :: "invariant_spec list"
  mf_signer_set :: signer_set

text \<open>\<open>isinstance(v, int)\<close> and \<open>int(v)\<close>: a Boolean is an integer of Python.\<close>

fun as_int :: "pyval \<Rightarrow> int option" where
  "as_int (PInt i) = Some i"
| "as_int (PBool b) = Some (if b then 1 else 0)"
| "as_int _ = None"

definition validate_signer_set :: "signer_set \<Rightarrow> pyexc + signer_set" where
  "validate_signer_set v =
     (case (as_int (ss_k v), as_int (ss_n v)) of
        (Some k, Some n) \<Rightarrow>
          if \<not> (1 \<le> k \<and> k \<le> n) then Inl (ValueError (u ''require 1 <= K <= N''))
          else if int (length (ss_signers v)) \<noteq> n
            then Inl (ValueError (u ''signer_set must contain exactly N signers''))
          else emap (\<lambda>_. v) (etraverse (\<lambda>s. validate_pk (sg_public_key_hex s)) (ss_signers v))
      | _ \<Rightarrow> Inl (ValueError (u ''signer_set.k and signer_set.n must be integers'')))"

definition threshold_k :: "manifest \<Rightarrow> int" where
  "threshold_k m = the (as_int (ss_k (mf_signer_set m)))"

definition has_stub_signers :: "manifest \<Rightarrow> bool" where
  "has_stub_signers m =
     list_ex (\<lambda>s. sg_public_key_hex s = STUB_KEY \<or> (case sg_stub s of Some b \<Rightarrow> py_truthy b | None \<Rightarrow> False))
       (ss_signers (mf_signer_set m))"

definition enforced_ids :: "manifest \<Rightarrow> pystr set" where
  "enforced_ids m = iv_id ` set (filter (\<lambda>i. iv_enforcement_status i = ENFORCED) (mf_invariants m))"

definition public_key :: "(bytes \<Rightarrow> pyexc + 'pk) \<Rightarrow> signer \<Rightarrow> pyexc + pystr \<times> 'pk" where
  "public_key load_pk s = ebind (from_hex (sg_public_key_hex s)) (\<lambda>b. emap (Pair (sg_key_id s)) (load_pk b))"

definition public_keys :: "(bytes \<Rightarrow> pyexc + 'pk) \<Rightarrow> manifest \<Rightarrow> pyexc + (pystr \<times> 'pk) list" where
  "public_keys load_pk m =
     etraverse (public_key load_pk) (filter (\<lambda>s. sg_public_key_hex s \<noteq> STUB_KEY) (ss_signers (mf_signer_set m)))"

text \<open>\<open>dict(pairs)\<close>: the last pair of a key wins.\<close>

definition dict_of :: "('k \<times> 'v) list \<Rightarrow> ('k, 'v) dict" where
  "dict_of ps = foldl (\<lambda>d (k, v). dset k v d) [] ps"

section \<open>The quorum\<close>

text \<open>The loop over the signatures, with the counter and the sets it keeps.\<close>

fun quorum_loop ::
    "int \<Rightarrow> (pystr, 'pk) dict \<Rightarrow> ('pk \<Rightarrow> 'sig \<Rightarrow> bool) \<Rightarrow> nat \<Rightarrow> pystr set \<Rightarrow> pystr list \<Rightarrow>
     (pystr \<times> 'sig) list \<Rightarrow> (nat \<times> int, kernel_error) result" where
  "quorum_loop k pk_by_id ok valid seen unknown [] =
     Err (KernelError ERR_QUORUM_NOT_MET (QuorumDetail valid k unknown))"
| "quorum_loop k pk_by_id ok valid seen unknown ((key_id, sig) # sigs) =
     (if key_id \<in> seen then quorum_loop k pk_by_id ok valid seen unknown sigs
      else case map_of pk_by_id key_id of
        None \<Rightarrow> quorum_loop k pk_by_id ok valid (insert key_id seen) (unknown @ [key_id]) sigs
      | Some pk \<Rightarrow>
          if \<not> ok pk sig then quorum_loop k pk_by_id ok valid (insert key_id seen) unknown sigs
          else if k \<le> int (valid + 1) then Ok (valid + 1, k)
          else quorum_loop k pk_by_id ok (valid + 1) (insert key_id seen) unknown sigs)"

definition verify_quorum_result ::
    "(bytes \<Rightarrow> pyexc + 'pk) \<Rightarrow> ('pk \<Rightarrow> 'sig \<Rightarrow> bytes \<Rightarrow> bool) \<Rightarrow> manifest \<Rightarrow> bytes \<Rightarrow> (pystr, 'sig) dict \<Rightarrow>
     pyexc + (nat \<times> int, kernel_error) result" where
  "verify_quorum_result load_pk pk_verify m payload signatures =
     (if has_stub_signers m then Inr (Err (KernelError ERR_STUB_SIGNERS NoDetail))
      else emap (\<lambda>pks. quorum_loop (threshold_k m) (dict_of pks) (\<lambda>pk sig. pk_verify pk sig payload) 0 {} [] signatures)
        (public_keys load_pk m))"

definition verify_quorum ::
    "(bytes \<Rightarrow> pyexc + 'pk) \<Rightarrow> ('pk \<Rightarrow> 'sig \<Rightarrow> bytes \<Rightarrow> bool) \<Rightarrow> manifest \<Rightarrow> bytes \<Rightarrow> (pystr, 'sig) dict \<Rightarrow>
     pyexc + bool" where
  "verify_quorum load_pk pk_verify m payload signatures =
     emap (\<lambda>r. \<not> is_err r) (verify_quorum_result load_pk pk_verify m payload signatures)"

section \<open>Projection and hash\<close>

text \<open>A key is converted by \<open>str\<close>, so two keys may meet; the last entry wins.\<close>

fun coerce_json_manifest :: "prims \<Rightarrow> pyval \<Rightarrow> pyexc + pyval" where
  "coerce_json_manifest P (PList xs) = emap PList (esequence (map (coerce_json_manifest P) xs))"
| "coerce_json_manifest P (PTuple xs) = emap PList (esequence (map (coerce_json_manifest P) xs))"
| "coerce_json_manifest P (PDict kvs) =
     emap (\<lambda>ps. PDict (dict_of ps))
       (etraverse (\<lambda>(k, r). emap (Pair (PStr (py_str P k))) r) (map (\<lambda>(k, v). (k, coerce_json_manifest P v)) kvs))"
| "coerce_json_manifest P (PSend _ _ _) = Inl (ValueError (u ''cannot coerce to JSONValue''))"
| "coerce_json_manifest P (PObj _) = Inl (ValueError (u ''cannot coerce to JSONValue''))"
| "coerce_json_manifest P v = Inr v"

definition invariant_fields :: "invariant_spec \<Rightarrow> pyval \<Rightarrow> pyval" where
  "invariant_fields i t = PDict
     [(PStr (u ''id''), PStr (iv_id i)),
      (PStr (u ''name''), PStr (iv_name i)),
      (PStr (u ''predicate''), PStr (iv_predicate i)),
      (PStr (u ''measure''), PStr (iv_measure i)),
      (PStr (u ''threshold''), t),
      (PStr (u ''receipt_type''), PStr (iv_receipt_type i)),
      (PStr (u ''falsification_test''), PStr (iv_falsification_test i)),
      (PStr (u ''tier''), PStr (iv_tier i)),
      (PStr (u ''citations''), PList (map PStr (iv_citations i))),
      (PStr (u ''enforcement_status''), PStr (enforcement_value (iv_enforcement_status i)))]"

definition invariant_to_dict :: "prims \<Rightarrow> invariant_spec \<Rightarrow> pyexc + pyval" where
  "invariant_to_dict P i = emap (invariant_fields i) (coerce_json_manifest P (PDict (iv_threshold i)))"

definition signer_to_dict :: "signer \<Rightarrow> pyval" where
  "signer_to_dict s = PDict
     [(PStr (u ''key_id''), PStr (sg_key_id s)),
      (PStr (u ''public_key_hex''), PStr (sg_public_key_hex s)),
      (PStr (u ''role''), PStr (sg_role s)),
      (PStr (u ''stub''), PBool (case sg_stub s of Some b \<Rightarrow> py_truthy b | None \<Rightarrow> sg_public_key_hex s = STUB_KEY))]"

definition signer_set_to_dict :: "signer_set \<Rightarrow> pyval" where
  "signer_set_to_dict v = PDict
     [(PStr (u ''k''), PInt (the (as_int (ss_k v)))),
      (PStr (u ''n''), PInt (the (as_int (ss_n v)))),
      (PStr (u ''signers''), PList (map signer_to_dict (ss_signers v)))]"

definition manifest_dict :: "manifest \<Rightarrow> pyval list \<Rightarrow> pyval" where
  "manifest_dict m is = PDict
     [(PStr (u ''schema_version''), PStr (mf_schema_version m)),
      (PStr (u ''version''), PStr (mf_version m)),
      (PStr (u ''invariants''), PList is),
      (PStr (u ''signer_set''), signer_set_to_dict (mf_signer_set m))]"

definition manifest_to_dict :: "prims \<Rightarrow> manifest \<Rightarrow> pyexc + pyval" where
  "manifest_to_dict P m = emap (manifest_dict m) (etraverse (invariant_to_dict P) (mf_invariants m))"

definition content_hash :: "prims \<Rightarrow> manifest \<Rightarrow> pyexc + pystr" where
  "content_hash P m =
     ebind (manifest_to_dict P m) (\<lambda>payload. emap (\<lambda>b. hex (sha256 P b)) (canonicalize P payload))"

section \<open>Counting the signers\<close>

lemma keys_dict_of: "set (keys (dict_of ps)) = set (map fst ps)" "length (keys (dict_of ps)) \<le> length ps"
  and wf_dict_of [simp]: "wf_dict (dict_of ps)"
  and map_of_dict_of: "map_of (dict_of ps) k = map_of (rev ps) k"
proof -
  have "set (keys (dict_of ps)) = set (map fst ps) \<and> length (keys (dict_of ps)) \<le> length ps \<and> wf_dict (dict_of ps) \<and>
      (\<forall>k. map_of (dict_of ps) k = map_of (rev ps) k)"
  proof (induction ps rule: rev_induct)
    case (snoc p ps)
    obtain k v where p: "p = (k, v)" by (cases p)
    have eq: "dict_of (ps @ [p]) = dset k v (dict_of ps)" by (simp add: dict_of_def p)
    have "keys (dset k v (dict_of ps)) = (if has_key (dict_of ps) k then keys (dict_of ps) else keys (dict_of ps) @ [k])"
      by (rule keys_dset)
    then show ?case using snoc p unfolding eq by (auto simp: has_key_def)
  qed (simp add: dict_of_def)
  then show "set (keys (dict_of ps)) = set (map fst ps)" "length (keys (dict_of ps)) \<le> length ps" "wf_dict (dict_of ps)"
    "map_of (dict_of ps) k = map_of (rev ps) k" by blast+
qed

definition approves :: "(pystr, 'pk) dict \<Rightarrow> ('pk \<Rightarrow> 'sig \<Rightarrow> bool) \<Rightarrow> pystr \<times> 'sig \<Rightarrow> bool" where
  "approves d ok = (\<lambda>(i, sig). case map_of d i of Some pk \<Rightarrow> ok pk sig | None \<Rightarrow> False)"

lemma quorum_loop_Ok:
  assumes "distinct (keys sigs)" and "seen \<inter> set (keys sigs) = {}" and "int valid < k"
  shows "is_err (quorum_loop k d ok valid seen unknown sigs) \<longleftrightarrow>
    int valid + int (length (filter (approves d ok) sigs)) < k"
  using assms
proof (induction sigs arbitrary: valid seen unknown)
  case (Cons s sigs)
  obtain i sig where s: "s = (i, sig)" by (cases s)
  have dis: "distinct (keys sigs)" "insert i seen \<inter> set (keys sigs) = {}" "i \<notin> seen"
    using Cons.prems(1,2) s by auto
  note ih = Cons.IH [OF dis(1,2)]
  show ?case
  proof (cases "approves d ok s")
    case False
    then show ?thesis using ih [OF Cons.prems(3)] dis(3) by (auto simp: s approves_def split: option.splits)
  next
    case True
    then obtain pk where pk: "map_of d i = Some pk" "ok pk sig" by (auto simp: s approves_def split: option.splits)
    show ?thesis
    proof (cases "k \<le> int (valid + 1)")
      case True
      with pk dis(3) \<open>approves d ok s\<close> show ?thesis by (simp add: s)
    next
      case False
      then have "int (valid + 1) < k" by simp
      from ih [OF this] pk dis(3) \<open>approves d ok s\<close> False show ?thesis by (simp add: s algebra_simps)
    qed
  qed
qed simp

text \<open>The signers that signed: the last entry of a key id holds its key.\<close>

definition signer_key :: "(bytes \<Rightarrow> pyexc + 'pk) \<Rightarrow> manifest \<Rightarrow> pystr \<Rightarrow> 'pk option" where
  "signer_key load_pk m i = (case public_keys load_pk m of Inr pks \<Rightarrow> map_of (rev pks) i | Inl _ \<Rightarrow> None)"

definition approvers ::
    "(bytes \<Rightarrow> pyexc + 'pk) \<Rightarrow> ('pk \<Rightarrow> 'sig \<Rightarrow> bytes \<Rightarrow> bool) \<Rightarrow> manifest \<Rightarrow> bytes \<Rightarrow> (pystr, 'sig) dict \<Rightarrow> pystr set" where
  "approvers load_pk pk_verify m payload sigs =
     {i. \<exists>pk sig. signer_key load_pk m i = Some pk \<and> (i, sig) \<in> set sigs \<and> pk_verify pk sig payload}"

lemma card_approving:
  assumes "public_keys load_pk m = Inr pks" and "wf_dict sigs"
  shows "length (filter (approves (dict_of pks) (\<lambda>pk sig. pk_verify pk sig payload)) sigs) =
    card (approvers load_pk pk_verify m payload sigs)"
proof -
  let ?xs = "filter (approves (dict_of pks) (\<lambda>pk sig. pk_verify pk sig payload)) sigs"
  have "distinct (map fst ?xs)" using assms(2) by (simp add: wf_dict_def distinct_map_filter)
  then have "length ?xs = card (fst ` set ?xs)" by (metis distinct_card length_map set_map)
  also have "fst ` set ?xs = approvers load_pk pk_verify m payload sigs"
  proof -
    have "i \<in> fst ` set ?xs \<longleftrightarrow> (\<exists>sig. (i, sig) \<in> set sigs \<and> approves (dict_of pks) (\<lambda>pk sig. pk_verify pk sig payload) (i, sig))"
      for i by force
    moreover have "(\<exists>sig. (i, sig) \<in> set sigs \<and> approves (dict_of pks) (\<lambda>pk sig. pk_verify pk sig payload) (i, sig))
        \<longleftrightarrow> i \<in> approvers load_pk pk_verify m payload sigs" for i
      using assms(1) by (auto simp: approvers_def approves_def signer_key_def map_of_dict_of split: option.splits)
    ultimately show ?thesis by (intro set_eqI) (simp only:)
  qed
  finally show ?thesis .
qed

lemma valid_signers:
  assumes "validate_signer_set v = Inr v"
  obtains k n where "as_int (ss_k v) = Some k" "as_int (ss_n v) = Some n" "1 \<le> k" "k \<le> n"
    "n = int (length (ss_signers v))" "\<forall>s \<in> set (ss_signers v). is_ok (validate_pk (sg_public_key_hex s))"
proof -
  from assms obtain k n where kn: "as_int (ss_k v) = Some k" "as_int (ss_n v) = Some n" "1 \<le> k" "k \<le> n"
    "n = int (length (ss_signers v))" "is_ok (etraverse (\<lambda>s. validate_pk (sg_public_key_hex s)) (ss_signers v))"
    by (auto simp: validate_signer_set_def emap_Inr_iff is_ok_iff split: option.splits if_splits)
  with that show ?thesis by (simp add: etraverse_ok)
qed

text \<open>A validated key that is not a stub is the hexadecimal text of 32 bytes.\<close>

lemma hex_char_digit:
  assumes "hex_char (lower_hex c)"
  obtains n where "unhex_digit c = Some n" "\<not> ascii_space c"
  using assms by (auto simp: hex_char_def lower_hex_def unhex_digit_def ascii_space_def split: if_splits)

lemma fromhex_digits:
  "list_all hex_char (map lower_hex s) \<Longrightarrow> even (length s) \<Longrightarrow> \<exists>b. fromhex s = Some b \<and> 2 * length b = length s"
proof (induction s rule: induct_list012)
  case (3 c d cs)
  then obtain x y where "unhex_digit c = Some x" "\<not> ascii_space c" "unhex_digit d = Some y"
    by (auto elim!: hex_char_digit)
  with 3 show ?case by auto
qed simp_all

lemma valid_key:
  assumes "is_ok (validate_pk v)" and "v \<noteq> STUB_KEY"
  shows "\<exists>b. fromhex v = Some b \<and> length b = 32"
proof -
  from assms have "length v = 64" "list_all hex_char (map lower_hex v)"
    by (auto simp: validate_pk_def split: if_splits)
  with fromhex_digits [of v] show ?thesis by auto
qed

lemma public_keys_total:
  assumes "validate_signer_set (mf_signer_set m) = Inr (mf_signer_set m)"
    and "\<forall>b. length b = 32 \<longrightarrow> is_ok (load_pk b)"
  shows "\<exists>pks. public_keys load_pk m = Inr pks"
proof -
  have "is_ok (public_key load_pk s)" if "s \<in> set (ss_signers (mf_signer_set m))" "sg_public_key_hex s \<noteq> STUB_KEY" for s
  proof -
    from assms(1) that(1) have "is_ok (validate_pk (sg_public_key_hex s))" by (elim valid_signers) blast
    from valid_key [OF this that(2)] obtain b where "fromhex (sg_public_key_hex s) = Some b" "length b = 32" by blast
    with assms(2) show ?thesis by (auto simp: public_key_def from_hex_def is_ok_iff)
  qed
  then have "is_ok (public_keys load_pk m)" by (simp add: public_keys_def etraverse_ok)
  then show ?thesis by (simp add: is_ok_iff)
qed

text \<open>With distinct key ids, the key of a signer is the one of its entry.\<close>

lemma signer_key_of:
  assumes "validate_signer_set (mf_signer_set m) = Inr (mf_signer_set m)" and "\<not> has_stub_signers m"
    and "\<forall>b. length b = 32 \<longrightarrow> is_ok (load_pk b)"
    and "distinct (map sg_key_id (ss_signers (mf_signer_set m)))" and s: "s \<in> set (ss_signers (mf_signer_set m))"
  shows "emap Some (ebind (from_hex (sg_public_key_hex s)) load_pk) = Inr (signer_key load_pk m (sg_key_id s))"
proof -
  let ?ss = "ss_signers (mf_signer_set m)"
  have all: "filter (\<lambda>s. sg_public_key_hex s \<noteq> STUB_KEY) ?ss = ?ss"
    using assms(2) by (auto simp: has_stub_signers_def list_ex_iff filter_id_conv)
  obtain pks where pks: "public_keys load_pk m = Inr pks" using public_keys_total [OF assms(1,3)] by blast
  then have eq: "map (public_key load_pk) ?ss = map Inr pks" by (simp add: public_keys_def all etraverse_Inr_iff)
  have id: "fst p = sg_key_id x" if "public_key load_pk x = Inr p" for x p
    using that by (auto simp: public_key_def ebind_Inr_iff emap_Inr_iff)
  have "map fst pks = map sg_key_id ?ss"
    using eq id by (auto simp: list_eq_iff_nth_eq)
  then have dis: "distinct (map fst pks)" using assms(4) by simp
  from s eq have "public_key load_pk s \<in> Inr ` set pks" by (metis image_eqI set_map)
  then obtain p where p: "public_key load_pk s = Inr p" "p \<in> set pks" by auto
  have "(sg_key_id s, snd p) \<in> set (rev pks)" using id [OF p(1)] p(2) by (cases p) simp
  moreover have "distinct (map fst (rev pks))" using dis by (simp flip: rev_map)
  ultimately have "map_of (rev pks) (sg_key_id s) = Some (snd p)" by (intro map_of_is_SomeI)
  with p(1) show ?thesis by (auto simp: signer_key_def pks public_key_def ebind_Inr_iff emap_Inr_iff)
qed

lemma public_keys_no_stub:
  "public_keys load_pk m = Inr pks \<Longrightarrow> length (keys pks) \<le> length (ss_signers (mf_signer_set m))"
  by (auto simp: public_keys_def dest!: etraverse_length intro: order_trans [OF eq_refl])

section \<open>Ballots\<close>

text \<open>
  What a threshold rule promises whoever relies on it: accepted ballots carry \<open>k\<close> members of
  a finite electorate, so with less than \<open>2k\<close> members two accepted ballots share one.
\<close>

locale threshold_votes =
  fixes members :: "'a set" and k :: int and votes :: "'b \<Rightarrow> 'a set" and accepted :: "'b \<Rightarrow> bool"
  assumes finite_members: "finite members"
    and votes_members: "votes b \<subseteq> members"
    and accepted_votes: "accepted b \<Longrightarrow> k \<le> int (card (votes b))"
begin

lemma accepted_meet:
  assumes "accepted b" and "accepted c" and "int (card members) < 2 * k"
  shows "votes b \<inter> votes c \<noteq> {}"
proof
  assume "votes b \<inter> votes c = {}"
  then have "card (votes b \<union> votes c) = card (votes b) + card (votes c)"
    using finite_subset [OF votes_members finite_members] by (intro card_Un_disjoint) auto
  moreover have "card (votes b \<union> votes c) \<le> card members"
    using votes_members finite_members by (intro card_mono) auto
  ultimately show False using accepted_votes [OF assms(1)] accepted_votes [OF assms(2)] assms(3) by linarith
qed

lemma minority_rejected:
  assumes "votes b \<subseteq> colluders" and "finite colluders" and "int (card colluders) < k"
  shows "\<not> accepted b"
  using accepted_votes [of b] card_mono [OF assms(2,1)] assms(3) by linarith

end

definition signer_ids :: "(bytes \<Rightarrow> pyexc + 'pk) \<Rightarrow> manifest \<Rightarrow> pystr set" where
  "signer_ids load_pk m = {i. signer_key load_pk m i \<noteq> None}"

lemma signer_ids_Inr:
  "public_keys load_pk m = Inr pks \<Longrightarrow> signer_ids load_pk m = set (keys pks)"
  by (simp add: signer_ids_def signer_key_def map_of_eq_None_iff)

lemma finite_signer_ids: "finite (signer_ids load_pk m)"
  and card_signer_ids: "card (signer_ids load_pk m) \<le> length (ss_signers (mf_signer_set m))"
proof -
  have "finite (signer_ids load_pk m) \<and> card (signer_ids load_pk m) \<le> length (ss_signers (mf_signer_set m))"
  proof (cases "public_keys load_pk m")
    case (Inl e)
    then show ?thesis by (simp add: signer_ids_def signer_key_def)
  next
    case (Inr pks)
    have "card (set (keys pks)) \<le> length (keys pks)" by (rule card_length)
    also have "\<dots> \<le> length (ss_signers (mf_signer_set m))" by (rule public_keys_no_stub [OF Inr])
    finally show ?thesis by (simp add: signer_ids_Inr [OF Inr])
  qed
  then show "finite (signer_ids load_pk m)" "card (signer_ids load_pk m) \<le> length (ss_signers (mf_signer_set m))" by blast+
qed

lemma quorum_votes:
  assumes "verify_quorum load_pk pk_verify m payload sigs = Inr True" and "wf_dict sigs" and "0 < threshold_k m"
  shows "threshold_k m \<le> int (card (approvers load_pk pk_verify m payload sigs))"
proof -
  from assms(1) obtain pks where pks: "public_keys load_pk m = Inr pks"
    and "\<not> is_err (quorum_loop (threshold_k m) (dict_of pks) (\<lambda>pk sig. pk_verify pk sig payload) 0 {} [] sigs)"
    by (auto simp: verify_quorum_def verify_quorum_result_def emap_Inr_iff split: if_splits)
  with quorum_loop_Ok [of sigs "{}" 0 "threshold_k m" "dict_of pks"] assms(2,3) show ?thesis
    by (simp add: wf_dict_def not_less card_approving [OF pks assms(2), symmetric])
qed

lemma approvers_member: "i \<in> approvers load_pk pk_verify m payload sigs \<Longrightarrow> i \<in> signer_ids load_pk m"
  by (auto simp: approvers_def signer_ids_def)

text \<open>A ballot is a payload with its signatures.\<close>

definition quorum_accepts ::
    "(bytes \<Rightarrow> pyexc + 'pk) \<Rightarrow> ('pk \<Rightarrow> 'sig \<Rightarrow> bytes \<Rightarrow> bool) \<Rightarrow> manifest \<Rightarrow> bytes \<times> (pystr, 'sig) dict \<Rightarrow> bool" where
  "quorum_accepts load_pk pk_verify m =
     (\<lambda>(payload, sigs). 0 < threshold_k m \<and> wf_dict sigs \<and> verify_quorum load_pk pk_verify m payload sigs = Inr True)"

interpretation signer_votes: threshold_votes "signer_ids load_pk m" "threshold_k m"
    "\<lambda>(payload, sigs). approvers load_pk pk_verify m payload sigs" "quorum_accepts load_pk pk_verify m"
  for load_pk :: "bytes \<Rightarrow> pyexc + 'pk" and pk_verify :: "'pk \<Rightarrow> 'sig \<Rightarrow> bytes \<Rightarrow> bool" and m
proof unfold_locales
  show "finite (signer_ids load_pk m)" by (rule finite_signer_ids)
qed (auto simp: quorum_accepts_def dest: quorum_votes approvers_member)

section \<open>The quorum rule\<close>

text \<open>
  C38: A quorum is counted by signers. For a validated manifest without stubs, verification never
  raises, and it accepts exactly when at least K different key ids of the manifest have a
  signature of the payload under their own key; unknown and wrong signatures and the order of the
  signatures do not matter.
\<close>

theorem quorum_counts_signers:
  assumes "validate_signer_set (mf_signer_set m) = Inr (mf_signer_set m)" and "\<not> has_stub_signers m"
    and "\<forall>b. length b = 32 \<longrightarrow> is_ok (load_pk b)" and "wf_dict sigs"
  shows "verify_quorum load_pk pk_verify m payload sigs =
    Inr (threshold_k m \<le> int (card (approvers load_pk pk_verify m payload sigs)))"
proof -
  obtain pks where pks: "public_keys load_pk m = Inr pks"
    using public_keys_total [OF assms(1,3)] by blast
  have "0 < threshold_k m" using assms(1) by (elim valid_signers) (simp add: threshold_k_def)
  with quorum_loop_Ok [of sigs "{}" 0 "threshold_k m" "dict_of pks"] assms(4) show ?thesis
    by (simp add: verify_quorum_def verify_quorum_result_def assms(2) pks wf_dict_def not_less
        card_approving [OF pks assms(4), symmetric])
qed

text \<open>A manifest with the same key twice, and keys and signatures that are their bytes.\<close>

definition demo_signer :: "nat \<Rightarrow> pystr \<Rightarrow> signer" where
  "demo_signer i key = \<lparr>sg_key_id = [i], sg_public_key_hex = key, sg_role = [], sg_stub = None\<rparr>"

definition demo_manifest :: "int \<Rightarrow> signer list \<Rightarrow> manifest" where
  "demo_manifest k ss = \<lparr>mf_schema_version = MANIFEST_SCHEMA_VERSION, mf_version = [49], mf_invariants = [],
     mf_signer_set = \<lparr>ss_k = PInt k, ss_n = PInt (int (length ss)), ss_signers = ss\<rparr>\<rparr>"

definition demo_key :: "nat \<Rightarrow> pystr" where "demo_key d = replicate 64 (48 + d)"

abbreviation demo_pair :: "nat \<Rightarrow> nat \<Rightarrow> manifest" where
  "demo_pair c d \<equiv> demo_manifest 2 [demo_signer 5 (demo_key c), demo_signer 6 (demo_key d)]"

abbreviation demo_verify :: "bytes \<Rightarrow> bytes \<Rightarrow> bytes \<Rightarrow> bool" where
  "demo_verify \<equiv> \<lambda>pk sig p. sig = pk @ p"

lemma demo_key_stub [simp]: "demo_key d \<noteq> STUB_KEY"
  by (auto simp: demo_key_def STUB_KEY_def u_def dest: arg_cong [of _ _ length])

lemma demo_pair_facts:
  assumes "c < 10" and "d < 10"
  shows "validate_signer_set (mf_signer_set (demo_pair c d)) = Inr (mf_signer_set (demo_pair c d))"
    and "\<not> has_stub_signers (demo_pair c d)" and "threshold_k (demo_pair c d) = 2"
    and "public_keys Inr (demo_pair c d) = Inr [([5], replicate 32 (of_nat (17 * c))), ([6], replicate 32 (of_nat (17 * d)))]"
proof -
  have key: "validate_pk (demo_key e) = Inr (demo_key e)" "fromhex (demo_key e) = Some (replicate 32 (of_nat (17 * e)))"
    if "e < 10" for e
  proof -
    show "validate_pk (demo_key e) = Inr (demo_key e)"
      using that by (simp add: validate_pk_def) (simp add: demo_key_def list_all_iff hex_char_def lower_hex_def)
    show "fromhex (demo_key e) = Some (replicate 32 (of_nat (17 * e)))"
      using that by (simp add: demo_key_def numeral_eq_Suc unhex_digit_def ascii_space_def)
  qed
  show "validate_signer_set (mf_signer_set (demo_pair c d)) = Inr (mf_signer_set (demo_pair c d))"
    using assms by (simp add: demo_manifest_def demo_signer_def validate_signer_set_def key)
  show "\<not> has_stub_signers (demo_pair c d)" by (simp add: has_stub_signers_def demo_manifest_def demo_signer_def)
  show "threshold_k (demo_pair c d) = 2" by (simp add: threshold_k_def demo_manifest_def)
  show "public_keys Inr (demo_pair c d) = Inr [([5], replicate 32 (of_nat (17 * c))), ([6], replicate 32 (of_nat (17 * d)))]"
    using assms by (simp add: public_keys_def demo_manifest_def demo_signer_def public_key_def from_hex_def key)
qed

lemma quorum_counts_signers_witness:
  "verify_quorum Inr demo_verify (demo_pair 3 4)
     [7] [([9], []), ([6], replicate 32 68 @ [7]), ([5], replicate 32 51 @ [7])] = Inr True"
proof -
  let ?sigs = "[([9], []), ([6], replicate 32 68 @ [7]), ([5], replicate 32 51 @ [7])] :: (pystr, bytes) dict"
  note facts = demo_pair_facts [of 3 4, simplified]
  have "approvers Inr demo_verify (demo_pair 3 4) [7] ?sigs = {[5], [6]}"
    by (auto simp: approvers_def signer_key_def facts split: if_splits)
  moreover have "wf_dict ?sigs" by (simp add: wf_dict_def)
  ultimately show ?thesis
    using quorum_counts_signers [OF facts(1,2), of Inr ?sigs demo_verify "[7]"] by (simp add: facts(3))
qed

text \<open>
  C39: Two accepted changes share a signer. When less than 2K signers are listed, as in the 3-of-5
  manifest, any two payloads that pass the quorum were both signed under the key of one and the
  same signer, so two conflicting changes need a signer that signed both.
\<close>

theorem quorums_share_signer:
  assumes "validate_signer_set (mf_signer_set m) = Inr (mf_signer_set m)"
    and "int (length (ss_signers (mf_signer_set m))) < 2 * threshold_k m"
    and "verify_quorum load_pk pk_verify m p sigs = Inr True" and "wf_dict sigs"
    and "verify_quorum load_pk pk_verify m q sigs' = Inr True" and "wf_dict sigs'"
  shows "\<exists>i pk s s'. signer_key load_pk m i = Some pk \<and> (i, s) \<in> set sigs \<and> (i, s') \<in> set sigs' \<and>
    pk_verify pk s p \<and> pk_verify pk s' q"
proof -
  have k: "0 < threshold_k m" using assms(1) by (elim valid_signers) (simp add: threshold_k_def)
  have "quorum_accepts load_pk pk_verify m (p, sigs)" "quorum_accepts load_pk pk_verify m (q, sigs')"
    using assms(3-6) k by (simp_all add: quorum_accepts_def)
  moreover have "int (card (signer_ids load_pk m)) < 2 * threshold_k m"
    using assms(2) card_signer_ids [of load_pk m] by linarith
  ultimately have "approvers load_pk pk_verify m p sigs \<inter> approvers load_pk pk_verify m q sigs' \<noteq> {}"
    by (rule signer_votes.accepted_meet [of load_pk pk_verify m "(p, sigs)" "(q, sigs')", simplified])
  then show ?thesis by (auto simp: approvers_def)
qed

lemma quorums_share_signer_witness:
  "\<exists>i. signer_key Inr (demo_pair 3 4) i = Some (replicate 32 51) \<or> signer_key Inr (demo_pair 3 4) i = Some (replicate 32 68)"
proof -
  note facts = demo_pair_facts [of 3 4, simplified]
  let ?sigs = "\<lambda>p. [([5], replicate 32 51 @ p), ([6], replicate 32 68 @ p)] :: (pystr, bytes) dict"
  have acc: "verify_quorum Inr demo_verify (demo_pair 3 4) p (?sigs p) = Inr True" for p
    by (simp add: verify_quorum_def verify_quorum_result_def facts dict_of_def)
  have wf: "wf_dict (?sigs p)" for p by (simp add: wf_dict_def)
  have n: "int (length (ss_signers (mf_signer_set (demo_pair 3 4)))) < 2 * threshold_k (demo_pair 3 4)"
    by (simp add: facts(3)) (simp add: demo_manifest_def)
  from quorums_share_signer [OF facts(1) n acc [of "[7]"] wf acc [of "[8]"] wf] show ?thesis
    by (auto simp: signer_key_def facts(4) split: if_splits)
qed

text \<open>
  The quorum counts key ids and not keys. Nothing rejects two entries of the signer set that
  hold the same public key, so the owner of that one key meets a quorum of two alone, with the
  same signature under both ids.
\<close>

theorem one_key_meets_quorum:
  assumes "validate_signer_set (mf_signer_set m) = Inr (mf_signer_set m)" and "\<not> has_stub_signers m"
    and "\<forall>b. length b = 32 \<longrightarrow> is_ok (load_pk b)" and "threshold_k m = 2"
    and "distinct (map sg_key_id (ss_signers (mf_signer_set m)))"
    and "s \<in> set (ss_signers (mf_signer_set m))" and "t \<in> set (ss_signers (mf_signer_set m))"
    and "sg_key_id s \<noteq> sg_key_id t" and "sg_public_key_hex s = sg_public_key_hex t"
    and "signer_key load_pk m (sg_key_id s) = Some pk" and "pk_verify pk sig payload"
  shows "verify_quorum load_pk pk_verify m payload [(sg_key_id s, sig), (sg_key_id t, sig)] = Inr True"
proof -
  have "signer_key load_pk m (sg_key_id t) = Some pk"
    using signer_key_of [OF assms(1-3,5,6)] signer_key_of [OF assms(1-3,5,7)] assms(9,10) by simp
  then have "approvers load_pk pk_verify m payload [(sg_key_id s, sig), (sg_key_id t, sig)] = {sg_key_id s, sg_key_id t}"
    using assms(10,11) by (auto simp: approvers_def)
  then show ?thesis
    using quorum_counts_signers [OF assms(1-3), of "[(sg_key_id s, sig), (sg_key_id t, sig)]"] assms(4,8)
    by (simp add: wf_dict_def)
qed

lemma one_key_meets_quorum_witness:
  "verify_quorum Inr demo_verify (demo_pair 3 3) [7] [([5], replicate 32 51 @ [7]), ([6], replicate 32 51 @ [7])] = Inr True"
proof -
  note facts = demo_pair_facts [of 3 3, simplified]
  from one_key_meets_quorum [OF facts(1,2) _ facts(3), of Inr "demo_signer 5 (demo_key 3)" "demo_signer 6 (demo_key 3)"
      "replicate 32 51" demo_verify "replicate 32 51 @ [7]" "[7]"]
  show ?thesis by (simp add: demo_manifest_def demo_signer_def signer_key_def facts(4) [unfolded demo_manifest_def demo_signer_def, simplified])
qed

section \<open>What the content hash covers\<close>

definition signer_view :: "signer \<Rightarrow> pystr \<times> pystr \<times> pystr \<times> bool" where
  "signer_view s = (sg_key_id s, sg_public_key_hex s, sg_role s,
     case sg_stub s of Some b \<Rightarrow> py_truthy b | None \<Rightarrow> sg_public_key_hex s = STUB_KEY)"

definition same_invariant :: "prims \<Rightarrow> invariant_spec \<Rightarrow> invariant_spec \<Rightarrow> bool" where
  "same_invariant P i j \<longleftrightarrow> iv_id i = iv_id j \<and> iv_name i = iv_name j \<and> iv_predicate i = iv_predicate j \<and>
     iv_measure i = iv_measure j \<and> iv_receipt_type i = iv_receipt_type j \<and>
     iv_falsification_test i = iv_falsification_test j \<and> iv_tier i = iv_tier j \<and> iv_citations i = iv_citations j \<and>
     iv_enforcement_status i = iv_enforcement_status j \<and>
     (\<exists>t t'. coerce_json_manifest P (PDict (iv_threshold i)) = Inr t \<and>
        coerce_json_manifest P (PDict (iv_threshold j)) = Inr t' \<and> jcs_norm t = jcs_norm t')"

lemma enforcement_value_inject [simp]: "enforcement_value a = enforcement_value b \<longleftrightarrow> a = b"
  by (cases a; cases b) (simp_all add: u_def)

lemma signer_dict_norm: "jcs_norm (signer_to_dict s) = jcs_norm (signer_to_dict t) \<Longrightarrow> signer_view s = signer_view t"
  by (simp add: signer_to_dict_def signer_view_def u_def)

lemma strings_norm: "map (jcs_norm \<circ> PStr) xs = map (jcs_norm \<circ> PStr) ys \<Longrightarrow> xs = ys"
  by (rule map_injective [of PStr]) (auto simp: comp_def inj_def)

lemma invariant_dict_norm:
  assumes "invariant_to_dict P i = Inr x" and "invariant_to_dict P j = Inr y" and "jcs_norm x = jcs_norm y"
  shows "same_invariant P i j"
proof -
  from assms(1,2) obtain t t' where t: "coerce_json_manifest P (PDict (iv_threshold i)) = Inr t" "x = invariant_fields i t"
    "coerce_json_manifest P (PDict (iv_threshold j)) = Inr t'" "y = invariant_fields j t'"
    by (auto simp: invariant_to_dict_def emap_Inr_iff)
  from assms(3) show ?thesis
    using t strings_norm [of "iv_citations i" "iv_citations j"]
    by (simp add: same_invariant_def invariant_fields_def u_def)
qed

lemma signers_norm:
  "map (jcs_norm \<circ> signer_to_dict) xs = map (jcs_norm \<circ> signer_to_dict) ys \<Longrightarrow> map signer_view xs = map signer_view ys"
  by (auto simp: list_eq_iff_nth_eq intro: signer_dict_norm)



end
