(* ===== verification/Notary.thy ===== *)
theory Notary
  imports KResult Capabilities
begin

text \<open>
  Anchoring a root outside the log (telos_kernel/notary.py and _io/notary_fs.py) and the verifier
  of self-modification certificates (checker.py). What \<open>git rev-parse HEAD\<close> does, the time and
  whether the file can be written are arguments; the file is the list of its JSON lines.
\<close>

section \<open>Anchors\<close>

record anchor_receipt =
  ar_root_hash :: pystr
  ar_anchor_ref :: pystr
  ar_anchored_at :: pystr
  ar_scheme :: pystr

text \<open>The outcome of the subprocess: it ran with a return code and an output, or raised.\<close>

datatype git_outcome = GitRan int pystr | GitRaised

datatype notary = CoreAnchor | GitAnchor git_outcome

definition core_git_head :: "(pystr, kernel_error) result" where
  "core_git_head = Err (KernelError ERR_GIT_UNAVAILABLE NoDetail)"

fun git_head_result :: "notary \<Rightarrow> (pystr, kernel_error) result" where
  "git_head_result CoreAnchor = core_git_head"
| "git_head_result (GitAnchor (GitRan code out)) =
     (if code = 0 then Ok (strip out) else Err (KernelError ERR_GIT_UNAVAILABLE NoDetail))"
| "git_head_result (GitAnchor GitRaised) = Err (KernelError ERR_GIT_UNAVAILABLE NoDetail)"

definition build_receipt :: "notary \<Rightarrow> pystr \<Rightarrow> pystr \<Rightarrow> anchor_receipt" where
  "build_receipt a now root_hash =
     (let head = unwrap_or (git_head_result a) (u ''no-git'') in
      \<lparr>ar_root_hash = root_hash, ar_anchor_ref = u ''git:'' @ head, ar_anchored_at = now, ar_scheme = u ''local-file+git''\<rparr>)"

definition receipt_line :: "anchor_receipt \<Rightarrow> pyval" where
  "receipt_line r = PDict
     [(PStr (u ''anchor_ref''), PStr (ar_anchor_ref r)),
      (PStr (u ''anchored_at''), PStr (ar_anchored_at r)),
      (PStr (u ''root_hash''), PStr (ar_root_hash r)),
      (PStr (u ''scheme''), PStr (ar_scheme r))]"

text \<open>The core anchor only builds the receipt; the file anchor also appends a line, or raises.\<close>

fun anchor :: "notary \<Rightarrow> pystr \<Rightarrow> pyexc + unit \<Rightarrow> pystr \<Rightarrow> pyval list \<Rightarrow> pyval list \<times> (pyexc + anchor_receipt)" where
  "anchor CoreAnchor now write root_hash lines = (lines, Inr (build_receipt CoreAnchor now root_hash))"
| "anchor (GitAnchor g) now write root_hash lines =
     (let r = build_receipt (GitAnchor g) now root_hash in
      case write of Inl e \<Rightarrow> (lines, Inl e) | Inr _ \<Rightarrow> (lines @ [receipt_line r], Inr r))"

lemma anchor_appends:
  "anchor a now write root_hash lines = (lines', Inr r) \<Longrightarrow>
     ar_root_hash r = root_hash \<and> (lines' = lines \<or> lines' = lines @ [receipt_line r])"
  by (cases a) (auto simp: build_receipt_def Let_def split: sum.splits)

section \<open>Certificates\<close>

record certificate =
  ct_prev_manifest_hash :: pystr
  ct_new_manifest_hash :: pystr
  ct_scheme :: pystr
  ct_transcript :: bytes

definition verify_certificate :: "certificate \<Rightarrow> pystr \<Rightarrow> bool" where
  "verify_certificate cert prev_root_hex =
     (if ct_scheme cert \<noteq> u ''phase-0-stub'' then False
      else if ct_transcript cert \<noteq> [] then False
      else ct_prev_manifest_hash cert \<noteq> [] \<and> length prev_root_hex = 64)"

lemma certificate_ignores_root:
  "length r = 64 \<Longrightarrow> length s = 64 \<Longrightarrow> verify_certificate c r = verify_certificate c s"
  by (simp add: verify_certificate_def)

end
