(* ===== verification/Kernel.thy ===== *)
theory Kernel
  imports Manifest MerkleLog Notary
begin

text \<open>
  The top level of telos_kernel/__init__.py: the boot leaf, the dispatch of a gate check and the
  verification of the log, composed of the manifest, the capabilities, the receipts, the log and
  the notary. The digest of the kernel's files, the clock, fresh ids and what saving does are
  arguments; state is returned also when an operation raises.
\<close>

section \<open>Boot\<close>

definition KERNEL_VERSION :: pystr where "KERNEL_VERSION = u ''0.1.0''"

definition boot_measure :: "manifest \<Rightarrow> pystr \<Rightarrow> pystr \<Rightarrow> (pyval \<times> pyval) list" where
  "boot_measure m manifest_hash sbom =
     [(PStr (u ''manifest_hash''), PStr manifest_hash),
      (PStr (u ''sbom_digest''), PStr sbom),
      (PStr (u ''kernel_version''), PStr KERNEL_VERSION),
      (PStr (u ''enforced_ids''), PList (map PStr (sorted_list_of_set (enforced_ids m)))),
      (PStr (u ''signer_stubs_present''), PBool (has_stub_signers m))]"

definition boot_leaf :: "manifest \<Rightarrow> pystr \<Rightarrow> pystr \<Rightarrow> pystr \<Rightarrow> pystr \<Rightarrow> pystr \<Rightarrow> leaf" where
  "boot_leaf m manifest_hash sbom head proposal_id now =
     (let stubs = has_stub_signers m in
      \<lparr>lf_gate = u ''boot'', lf_tier = TierA, lf_proposal_id = proposal_id, lf_prev_merkle_root = head,
       lf_measure = boot_measure m manifest_hash sbom,
       lf_threshold = [(PStr (u ''boot_must_have_manifest''), PBool True)],
       lf_verdict = (if stubs then WARN else ALLOW),
       lf_signature_status = (if stubs then STUB else ABSENT),
       lf_capability_signature = [], lf_signer_key_id = [], lf_timestamp = now\<rparr>)"

text \<open>Append a leaf that was built, and return it.\<close>

definition append_built ::
    "prims \<Rightarrow> pyexc + unit \<Rightarrow> pyexc + leaf \<Rightarrow> merkle_log \<Rightarrow> merkle_log \<times> (pyexc + leaf)" where
  "append_built P save built lg =
     (case built of
        Inl e \<Rightarrow> (lg, Inl e)
      | Inr l \<Rightarrow> (case append_leaf P save (LeafPayload l) lg of (lg', r) \<Rightarrow> (lg', emap (\<lambda>_. l) r)))"

definition boot ::
    "prims \<Rightarrow> pyexc + unit \<Rightarrow> pystr \<Rightarrow> pystr \<Rightarrow> pystr \<Rightarrow> manifest \<Rightarrow> (notary \<times> (pyexc + unit)) option \<Rightarrow>
     merkle_log \<Rightarrow> pyval list \<Rightarrow> merkle_log \<times> pyval list \<times> (pyexc + leaf)" where
  "boot P save sbom new_id now m anch lg lines =
     (case append_built P save
         (ebind (content_hash P m) (\<lambda>h. build_leaf (boot_leaf m h sbom (head_hash lg) new_id now))) lg of
        (lg', Inl e) \<Rightarrow> (lg', lines, Inl e)
      | (lg', Inr l) \<Rightarrow>
          (case anch of
             None \<Rightarrow> (lg', lines, Inr l)
           | Some (a, written) \<Rightarrow>
               (case anchor a now written (head_hash lg') lines of
                  (lines', r) \<Rightarrow> (lg', lines', emap (\<lambda>_. l) r))))"

section \<open>Gate checks\<close>

text \<open>The verdict after the optional capability; \<open>None\<close> of \<open>root_key\<close> is the missing argument.\<close>

definition check_verdict ::
    "prims \<Rightarrow> pystr \<Rightarrow> tier \<Rightarrow> verdict \<Rightarrow> macaroon option \<Rightarrow> bytes option \<Rightarrow> pyexc + verdict" where
  "check_verdict P g tier v capability root_key =
     (case capability of
        None \<Rightarrow> Inr v
      | Some mc \<Rightarrow>
          (case root_key of
             None \<Rightarrow> Inl (ValueError (u ''root_key required when capability is provided''))
           | Some key \<Rightarrow>
               emap (\<lambda>ok. if ok then v else BLOCK)
                 (verify P mc key [(u ''gate'', PStr g), (u ''tier'', PStr (tier_value tier))] None)))"

definition check_leaf ::
    "pystr \<Rightarrow> tier \<Rightarrow> (pyval \<times> pyval) list \<Rightarrow> (pyval \<times> pyval) list \<Rightarrow> verdict \<Rightarrow> pystr \<Rightarrow> pystr \<Rightarrow> pystr \<Rightarrow> leaf" where
  "check_leaf g tier ms th v head proposal_id now =
     \<lparr>lf_gate = g, lf_tier = tier, lf_proposal_id = proposal_id, lf_prev_merkle_root = head,
      lf_measure = ms, lf_threshold = th, lf_verdict = v, lf_signature_status = ABSENT,
      lf_capability_signature = [], lf_signer_key_id = [], lf_timestamp = now\<rparr>"

text \<open>\<open>proposal_id or new_proposal_id()\<close>: the empty id counts as absent.\<close>

definition or_new :: "pystr option \<Rightarrow> pystr \<Rightarrow> pystr" where
  "or_new proposal_id new_id = (case proposal_id of Some i \<Rightarrow> if i = [] then new_id else i | None \<Rightarrow> new_id)"

definition check ::
    "prims \<Rightarrow> pyexc + unit \<Rightarrow> pystr \<Rightarrow> pystr \<Rightarrow> pystr \<Rightarrow> tier \<Rightarrow> (pyval \<times> pyval) list \<Rightarrow> (pyval \<times> pyval) list \<Rightarrow>
     verdict \<Rightarrow> macaroon option \<Rightarrow> bytes option \<Rightarrow> pystr option \<Rightarrow> merkle_log \<Rightarrow> merkle_log \<times> (pyexc + leaf)" where
  "check P save new_id now g tier ms th v capability root_key proposal_id lg =
     append_built P save
       (ebind (check_verdict P g tier v capability root_key) (\<lambda>v'.
          build_leaf (check_leaf g tier ms th v' (head_hash lg) (or_new proposal_id new_id) now))) lg"

section \<open>The logs the kernel writes\<close>

text \<open>The log when saving fails is the log when it succeeds, but for what is stored.\<close>

lemma append_unsaved:
  "fst (append_leaf P (Inl e) data m) = (fst (append_leaf P (Inr ()) data m))\<lparr>ml_saved := ml_saved m\<rparr>"
  by (auto simp: append_leaf_def Let_def split: sum.split prod.split)

definition healthy_log :: "prims \<Rightarrow> merkle_log \<Rightarrow> bool" where
  "healthy_log P m \<longleftrightarrow> (\<exists>bs. sound_log P m bs) \<and> length (ml_payloads m) = length (ml_hashes m) \<and>
     \<not> ml_corrupt m \<and> \<not> ml_quarantined m"

lemma healthy_verifies: "healthy_log P m \<Longrightarrow> verify_chain_result P m None = Inr (Ok (length (ml_hashes m)))"
  by (auto simp: healthy_log_def verify_chain_Ok)

text \<open>An append leaves the log as it was, or adds the payload and one hash.\<close>

lemma append_healthy:
  assumes "healthy_log P m" and "append_leaf P save data m = (m', r)"
  shows "healthy_log P m' \<and>
    (m' = m \<and> \<not> is_ok r \<or>
     (\<exists>d. payload_dict data = Inr d \<and> ml_payloads m' = ml_payloads m @ [d] \<and> ml_hashes m' = ml_hashes m @ [head_bytes m'] \<and>
        (r = Inr (head_hash m') \<or> \<not> is_ok save)))"
proof -
  obtain bs where s: "sound_log P m bs" using assms(1) by (auto simp: healthy_log_def)
  obtain m1 r1 where run: "append_leaf P (Inr ()) data m = (m1, r1)" by (cases "append_leaf P (Inr ()) data m")
  have saved: "sound_log P (x\<lparr>ml_saved := y\<rparr>) cs = sound_log P x cs" "head_bytes (x\<lparr>ml_saved := y\<rparr>) = head_bytes x" for x y cs
    by (simp_all add: sound_log_def head_bytes_def)
  show ?thesis
  proof (cases r1)
    case (Inl e)
    have "m1 = m" using run Inl by (auto simp: append_leaf_def Let_def split: if_splits sum.splits)
    moreover have "m' = m \<and> \<not> is_ok r"
      using assms(2) run Inl by (cases save) (auto simp: append_leaf_def Let_def split: if_splits sum.splits)
    ultimately show ?thesis using assms(1) by simp
  next
    case (Inr h)
    from append_sound [OF s] run Inr obtain d b where a: "payload_dict data = Inr d" "sound_log P m1 (bs @ [b])" "h = head_hash m1"
      "\<not> ml_corrupt m1" "\<not> ml_quarantined m1" "ml_hashes m1 = ml_hashes m @ [head_bytes m1]" "ml_payloads m1 = ml_payloads m @ [d]"
      by blast
    show ?thesis
    proof (cases save)
      case (Inl e)
      then have "m' = m1\<lparr>ml_saved := ml_saved m\<rparr>" using append_unsaved [of P e data m] assms(2) run by simp
      with a assms(1) Inl show ?thesis by (auto simp: healthy_log_def saved head_hash_def)
    next
      case (Inr u)
      with assms run \<open>r1 = Inr h\<close> a show ?thesis by (auto simp: healthy_log_def)
    qed
  qed
qed

text \<open>Each leaf holds the hash of the leaf before it.\<close>

definition prev_root :: "pyval \<Rightarrow> pyval" where
  "prev_root d = (case d of PDict kvs \<Rightarrow> vget kvs (u ''prev_merkle_root'') | _ \<Rightarrow> PNone)"

definition root_before :: "bytes list \<Rightarrow> nat \<Rightarrow> bytes" where
  "root_before hs i = (if i = 0 then GENESIS_HASH else hs ! (i - 1))"

definition linked_log :: "merkle_log \<Rightarrow> bool" where
  "linked_log m \<longleftrightarrow> (\<forall>i < length (ml_hashes m). prev_root (ml_payloads m ! i) = PStr (hex (root_before (ml_hashes m) i)))"

lemma payload_prev_root: "payload_dict (LeafPayload l) = Inr d \<Longrightarrow> prev_root d = PStr (lf_prev_merkle_root l)"
  by (auto simp: emap_Inr_iff to_canonical_dict_def ebind_Inr_iff prev_root_def vget_def dget_def leaf_fields_def u_def)

lemma append_built_healthy:
  assumes "healthy_log P m" and "linked_log m" and "append_built P save built m = (m', r)"
    and "\<And>l. built = Inr l \<Longrightarrow> lf_prev_merkle_root l = head_hash m"
  shows "healthy_log P m' \<and> linked_log m'"
proof (cases built)
  case (Inl e)
  with assms show ?thesis by (simp add: append_built_def)
next
  case (Inr l)
  with assms(3) obtain q where run: "append_leaf P save (LeafPayload l) m = (m', q)"
    by (auto simp: append_built_def split: prod.splits)
  have h: "healthy_log P m'" using append_healthy [OF assms(1) run] by blast
  consider "m' = m" | d where "payload_dict (LeafPayload l) = Inr d" "ml_payloads m' = ml_payloads m @ [d]"
      "ml_hashes m' = ml_hashes m @ [head_bytes m']" using append_healthy [OF assms(1) run] by blast
  then show ?thesis
  proof cases
    case 1
    with assms(2) h show ?thesis by simp
  next
    case d: (2 d)
    have len: "length (ml_payloads m) = length (ml_hashes m)" using assms(1) by (simp add: healthy_log_def)
    have "root_before (ml_hashes m') (length (ml_hashes m)) = head_bytes m"
      unfolding d(3) by (auto simp: root_before_def head_bytes_def nth_append last_conv_nth)
    moreover have "prev_root d = PStr (head_hash m)" using payload_prev_root [OF d(1)] assms(4) [OF Inr] by simp
    moreover have "root_before (ml_hashes m') i = root_before (ml_hashes m) i" if "i < length (ml_hashes m)" for i
      unfolding d(3) using that by (auto simp: root_before_def nth_append)
    moreover have "length (ml_hashes m') = Suc (length (ml_hashes m))" using arg_cong [OF d(3), of length] by simp
    ultimately have "linked_log m'" using assms(2) d(2) len
      by (auto simp: linked_log_def less_Suc_eq nth_append head_hash_def)
    with h show ?thesis by simp
  qed
qed

text \<open>The logs a kernel has when it starts from an empty one.\<close>

definition empty_log :: merkle_log where
  "empty_log = \<lparr>ml_hashes = [], ml_payloads = [], ml_corrupt = False, ml_quarantined = False, ml_saved = ([], [])\<rparr>"

inductive kernel_log :: "prims \<Rightarrow> merkle_log \<Rightarrow> bool" for P where
  started: "kernel_log P empty_log"
| booted: "kernel_log P lg \<Longrightarrow> boot P save sbom new_id now m anch lg lines = (lg', lines', r) \<Longrightarrow> kernel_log P lg'"
| checked: "kernel_log P lg \<Longrightarrow>
    check P save new_id now g t ms th v capability root_key proposal_id lg = (lg', r) \<Longrightarrow> kernel_log P lg'"

lemma build_leaf_fields:
  "build_leaf l = Inr l' \<Longrightarrow> lf_prev_merkle_root l' = lf_prev_merkle_root l \<and> lf_verdict l' = lf_verdict l \<and>
     lf_gate l' = lf_gate l \<and> lf_tier l' = lf_tier l"
  by (auto simp: build_leaf_def emap_Inr_iff split: if_splits)

lemma kernel_log_healthy: "kernel_log P lg \<Longrightarrow> healthy_log P lg \<and> linked_log lg"
proof (induction rule: kernel_log.induct)
  case started
  show ?case by (simp add: healthy_log_def empty_log_def sound_log_def linked_log_def)
next
  case (booted lg save sbom new_id now m anch lines lg' lines' r)
  let ?built = "ebind (content_hash P m) (\<lambda>h. build_leaf (boot_leaf m h sbom (head_hash lg) new_id now))"
  have "\<exists>q. append_built P save ?built lg = (lg', q)"
    using booted(2) by (auto simp: boot_def split: prod.splits sum.splits option.splits)
  moreover have "lf_prev_merkle_root l = head_hash lg" if "?built = Inr l" for l
    using that by (auto simp: ebind_Inr_iff boot_leaf_def Let_def dest!: build_leaf_fields)
  ultimately show ?case using booted(3) append_built_healthy by blast
next
  case (checked lg save new_id now g t ms th v capability root_key proposal_id lg' r)
  have "lf_prev_merkle_root l = head_hash lg"
    if "ebind (check_verdict P g t v capability root_key) (\<lambda>v'. build_leaf
      (check_leaf g t ms th v' (head_hash lg) (or_new proposal_id new_id) now)) = Inr l" for l
    using that by (auto simp: ebind_Inr_iff check_leaf_def dest!: build_leaf_fields)
  with checked show ?case unfolding check_def using append_built_healthy by blast
qed

text \<open>
  C15: The kernel's log is a verified chain at every moment. After any sequence of boots and gate
  checks from an empty log, also ones that raise or whose save fails, the log verifies, is not
  in quarantine, and every leaf carries the hash of the leaf before it as its previous root.
\<close>

theorem kernel_log_verifies:
  assumes "kernel_log P lg"
  shows "verify_chain_result P lg None = Inr (Ok (length (ml_hashes lg))) \<and> \<not> ml_quarantined lg \<and>
    (\<forall>i < length (ml_hashes lg). prev_root (ml_payloads lg ! i) = PStr (hex (root_before (ml_hashes lg) i)))"
  using kernel_log_healthy [OF assms] healthy_verifies by (auto simp: healthy_log_def linked_log_def)

lemma hex_chars: "c \<in> set (hex bs) \<Longrightarrow> (48 \<le> c \<and> c \<le> 57) \<or> (97 \<le> c \<and> c \<le> 102)"
proof (induction bs)
  case (Cons b bs)
  have d: "(48 \<le> hex_digit n \<and> hex_digit n \<le> 57) \<or> (97 \<le> hex_digit n \<and> hex_digit n \<le> 102)" if "n < 16" for n
    using that by (auto simp: hex_digit_def)
  have "unat b < 2 ^ 8" using unsigned_less [of b, where 'a = nat] by simp
  then have "unat b div 16 < 16" "unat b mod 16 < 16" by auto
  with d [of "unat b div 16"] d [of "unat b mod 16"] Cons show ?case by (simp add: hex_def hex_byte_def) blast
qed (simp add: hex_def)

lemma root_pattern_hex: "length b = 32 \<Longrightarrow> root_pattern (hex b)"
  using hex_chars by (auto simp: root_pattern_def list_all_iff)

text \<open>A gate check that is recorded, under the constant hash.\<close>

definition demo_check :: "verdict \<Rightarrow> macaroon option \<Rightarrow> bytes option \<Rightarrow> merkle_log \<times> (pyexc + leaf)" where
  "demo_check v capability root_key =
     check demo_prims (Inr ()) (uuid_str 0) (u ''2026-07-03T18:40:00Z'') (u ''U5_merkle'') TierB [] [] v capability root_key None empty_log"

lemma demo_build:
  "build_leaf (check_leaf (u ''U5_merkle'') TierB [] [] v (head_hash empty_log) (uuid_str 0) now) =
     Inr (check_leaf (u ''U5_merkle'') TierB [] [] v (head_hash empty_log) (uuid_str 0) now)"
proof -
  have "gate_pattern (u ''U5_merkle'')"
    unfolding gate_pattern_def list_ex_iff
    by (intro disjI2 bexI [of _ 5]) (simp_all add: u_def startswith_def nat_str.simps)
  moreover have "root_pattern (head_hash empty_log)"
    unfolding head_hash_def by (rule root_pattern_hex) (simp add: head_bytes_def empty_log_def GENESIS_HASH_def)
  ultimately show ?thesis using validate_uuid_str [of 0] by (simp add: build_leaf_def check_leaf_def)
qed

lemma uuid_ascii: "c \<in> set (uuid_str n) \<Longrightarrow> c < 128"
proof -
  have "c < 128" if "c \<in> set (hex_digits 32 n)" for c using hex_digits_chars [OF that] by auto
  moreover assume "c \<in> set (uuid_str n)"
  ultimately show ?thesis by (auto simp: uuid_str_def Let_def dest!: in_set_takeD in_set_dropD)
qed

lemma demo_record: "\<exists>b. canonicalize demo_prims (PDict (leaf_fields
    (check_leaf (u ''U5_merkle'') TierB [] [] v (head_hash empty_log) (uuid_str 0) (u ''2026-07-03T18:40:00Z'')) (PDict []) (PDict []))) = Inr b"
proof -
  have ascii: "list_all scalar s" if "list_all (\<lambda>c. c < 128) s" for s
    using that by (auto simp: list_all_iff scalar_def)
  have "list_all (\<lambda>c. c < 128) (uuid_str 0)" using uuid_ascii by (simp add: list_all_iff)
  then have "list_all scalar (uuid_str 0)" by (rule ascii)
  moreover have "list_all scalar (head_hash empty_log)" unfolding head_hash_def by (rule ascii) (rule hex_ascii)
  moreover have "list_all scalar (verdict_value v)" by (cases v) (simp_all add: u_def scalar_def)
  ultimately show ?thesis
    by (intro canonicalize_total) (simp_all add: leaf_fields_def check_leaf_def is_str_def bmp_def u_def scalar_def SCHEMA_VERSION_def)
qed

lemma demo_check_records:
  assumes "check_verdict demo_prims (u ''U5_merkle'') TierB v capability root_key = Inr w"
  obtains lg where "demo_check v capability root_key =
    (lg, Inr (check_leaf (u ''U5_merkle'') TierB [] [] w (head_hash empty_log) (uuid_str 0) (u ''2026-07-03T18:40:00Z'')))"
    "length (ml_hashes lg) = 1"
proof -
  let ?l = "check_leaf (u ''U5_merkle'') TierB [] [] w (head_hash empty_log) (uuid_str 0) (u ''2026-07-03T18:40:00Z'')"
  obtain b where b: "canonicalize demo_prims (PDict (leaf_fields ?l (PDict []) (PDict []))) = Inr b"
    using demo_record by blast
  have "to_canonical_dict ?l = Inr (leaf_fields ?l (PDict []) (PDict []))"
    by (simp add: to_canonical_dict_def) (simp add: check_leaf_def)
  with b have "\<exists>lg h. append_leaf demo_prims (Inr ()) (LeafPayload ?l) empty_log = (lg, Inr h) \<and> length (ml_hashes lg) = 1"
    by (simp add: append_leaf_def is_append_payload_def Let_def) (simp add: empty_log_def)
  then obtain lg h where "append_leaf demo_prims (Inr ()) (LeafPayload ?l) empty_log = (lg, Inr h)" "length (ml_hashes lg) = 1"
    by blast
  then show ?thesis
    by (intro that [of lg]) (simp_all add: demo_check_def check_def assms or_new_def demo_build append_built_def)
qed

lemma kernel_log_verifies_witness:
  "\<exists>lg l. demo_check ALLOW None None = (lg, Inr l) \<and> verify_chain_result demo_prims lg None = Inr (Ok 1)"
proof -
  have "check_verdict demo_prims (u ''U5_merkle'') TierB ALLOW None None = Inr ALLOW" by (simp add: check_verdict_def)
  then obtain lg l where lg: "demo_check ALLOW None None = (lg, Inr l)" "length (ml_hashes lg) = 1"
    by (rule demo_check_records)
  then have "kernel_log demo_prims lg" unfolding demo_check_def by (blast intro: kernel_log.intros)
  from kernel_log_verifies [OF this] lg show ?thesis by simp
qed

section \<open>Refused capabilities\<close>

lemma check_caveats_Ok:
  "check_caveats ck ctx cs = Inr (Ok True) \<Longrightarrow> c \<in> set cs \<Longrightarrow> ck (predicate c) ctx = Inr True"
  by (induction cs) (auto split: sum.splits bool.splits)

lemma check_caveats_Ok_True: "check_caveats ck ctx cs = Inr (Ok x) \<Longrightarrow> x"
  by (induction cs) (auto split: sum.splits bool.splits)

lemma verified_caveats:
  assumes "verify P mc key ctx None = Inr True" and "c \<in> set (mc_caveats mc)"
  shows "default_checker (predicate c) ctx = Inr True"
proof -
  from assms(1) obtain r where "verify_result P mc key ctx None = Inr r" "\<not> is_err r"
    by (auto simp: verify_def emap_Inr_iff)
  then obtain x where "check_caveats default_checker ctx (mc_caveats mc) = Inr (Ok x)"
    by (cases r) (auto simp: verify_result_def ebind_Inr_iff split: if_splits sum.splits)
  with check_caveats_Ok_True check_caveats_Ok assms(2) show ?thesis by (metis (full_types))
qed

text \<open>
  C16: A gate check fails closed. When a check that was given a capability records a leaf whose
  verdict is not BLOCK, the verdict is the caller's, a root key was given, the capability
  verifies under it, and each of its caveats holds of the checked gate and tier; and the verdict
  that is returned is the one stored in the log.
\<close>

theorem check_fails_closed:
  assumes "check P save new_id now g t ms th v (Some mc) root_key proposal_id lg = (lg', Inr l)"
  shows "(\<exists>kvs. ml_payloads lg' = ml_payloads lg @ [PDict kvs] \<and> vget kvs (u ''verdict'') = PStr (verdict_value (lf_verdict l))) \<and>
    (lf_verdict l \<noteq> BLOCK \<longrightarrow> lf_verdict l = v \<and>
      (\<exists>key. root_key = Some key \<and> verify P mc key [(u ''gate'', PStr g), (u ''tier'', PStr (tier_value t))] None = Inr True) \<and>
      (\<forall>c \<in> set (mc_caveats mc).
         default_checker (predicate c) [(u ''gate'', PStr g), (u ''tier'', PStr (tier_value t))] = Inr True))"
proof -
  let ?ctx = "[(u ''gate'', PStr g), (u ''tier'', PStr (tier_value t))]"
  let ?built = "ebind (check_verdict P g t v (Some mc) root_key) (\<lambda>v'.
    build_leaf (check_leaf g t ms th v' (head_hash lg) (or_new proposal_id new_id) now))"
  from assms obtain h where built: "?built = Inr l" and run: "append_leaf P save (LeafPayload l) lg = (lg', Inr h)"
    by (auto simp: check_def append_built_def emap_Inr_iff split: sum.splits prod.splits)
  from run obtain fs where "to_canonical_dict l = Inr fs" "ml_payloads lg' = ml_payloads lg @ [PDict fs]"
    by (auto simp: append_leaf_def Let_def emap_Inr_iff ebind_Inr_iff split: if_splits sum.splits)
  moreover from this(1) have "vget fs (u ''verdict'') = PStr (verdict_value (lf_verdict l))"
    by (auto simp: to_canonical_dict_def ebind_Inr_iff emap_Inr_iff vget_def dget_def leaf_fields_def u_def)
  moreover from built obtain v' where v': "check_verdict P g t v (Some mc) root_key = Inr v'" "lf_verdict l = v'"
    by (auto simp: ebind_Inr_iff check_leaf_def dest!: build_leaf_fields)
  then obtain key ok where "root_key = Some key" "verify P mc key ?ctx None = Inr ok" "v' = (if ok then v else BLOCK)"
    by (auto simp: check_verdict_def emap_Inr_iff split: option.splits)
  ultimately show ?thesis using v'(2) verified_caveats [of P mc _ ?ctx] by auto
qed

lemma check_fails_closed_witness:
  "\<exists>lg l. demo_check ALLOW (Some (demo_token\<lparr>mc_signature := []\<rparr>)) (Some (replicate 32 0)) = (lg, Inr l) \<and> lf_verdict l = BLOCK \<and>
     (\<exists>kvs. ml_payloads lg = [PDict kvs] \<and> vget kvs (u ''verdict'') = PStr (u ''BLOCK''))"
proof -
  let ?t = "demo_token\<lparr>mc_signature := []\<rparr>" and ?ctx = "[(u ''gate'', PStr (u ''U5_merkle'')), (u ''tier'', PStr (tier_value TierB))]"
  have ne: "hex (replicate 32 0) \<noteq> []" by (intro notI) (drule arg_cong [of _ _ length], simp)
  have "verify demo_prims ?t (replicate 32 0) ?ctx None = Inr False"
    by (simp add: verify_def verify_result_def MIN_KEY_BYTES_def recompute_signature_def demo_token_def encode_utf8_def
        utf8_cp_def compare_digest_def ne)
  then have "check_verdict demo_prims (u ''U5_merkle'') TierB ALLOW (Some ?t) (Some (replicate 32 0)) = Inr BLOCK"
    by (simp add: check_verdict_def)
  then obtain lg l where lg: "demo_check ALLOW (Some ?t) (Some (replicate 32 0)) = (lg, Inr l)" "lf_verdict l = BLOCK"
    by (rule demo_check_records) (simp add: check_leaf_def)
  from check_fails_closed [OF lg(1) [unfolded demo_check_def]] lg show ?thesis by (auto simp: empty_log_def)
qed

end
