(* ===== verification/Reconciler.thy ===== *)
theory Reconciler
  imports Receipt
begin

text \<open>
  The reconciler of orphaned dispatches: graph/reconciler.py, the authority check of
  graph/receipt_authority.py and the board settlement of graph/reconcile_board.py, over the
  tables delegation_runs, task_claims and idempotency_records of runtime_state.py. A table is the
  list of its rows in the order they are selected; a column of JSON text is the value it parses
  to, \<open>None\<close> when it does not; errors of the database are not modelled. Times are microseconds.
\<close>

section \<open>Tables\<close>

type_synonym json_column = "pyval option"

record claim_row =
  cl_claim_id :: pystr
  cl_task_id :: pystr
  cl_agent_id :: pystr
  cl_status :: pystr
  cl_claimed_at :: pystr
  cl_acked_at :: "pystr option"
  cl_heartbeat_at :: "pystr option"
  cl_stale_after :: "pystr option"
  cl_recovered_at :: "pystr option"
  cl_retry_count :: int
  cl_metadata :: json_column

record run_row =
  rn_run_id :: pystr
  rn_task_id :: pystr
  rn_claim_id :: pystr
  rn_assigned_to :: pystr
  rn_status :: pystr
  rn_failure_code :: pystr
  rn_completed_at :: "pystr option"
  rn_quarantined_at :: "pystr option"
  rn_quarantine_reason :: "pystr option"
  rn_metadata :: json_column
  rn_receipt :: json_column

record idempotency_row =
  ir_idempotency_key :: pystr
  ir_side_effect_key :: pystr
  ir_run_id :: pystr
  ir_task_id :: pystr
  ir_status :: pystr
  ir_receipt_id :: pystr
  ir_metadata :: json_column

text \<open>The columns that the two tables have, for the older schemas the authority check allows.\<close>

record runtime_db =
  db_claims :: "claim_row list"
  db_runs :: "run_row list"
  db_records :: "idempotency_row list"
  db_claim_columns :: "pystr list"
  db_run_columns :: "pystr list"

text \<open>Parsing and printing of times, the retry limit and the default heartbeat window.\<close>

record recon_env =
  re_parse :: "pystr \<Rightarrow> int option"
  re_iso :: "int \<Rightarrow> pystr"
  re_max_retries :: int
  re_default_window :: int

definition IN_FLIGHT_STATUSES :: "pystr list" where
  "IN_FLIGHT_STATUSES = [u ''claimed'', u ''running'']"

definition TERMINAL_CLAIM_STATUSES :: "pystr list" where
  "TERMINAL_CLAIM_STATUSES = [u ''completed'', u ''failed'', u ''recovered'', u ''cancelled'']"

definition FAILURE_CODE_NEVER_STARTED :: pystr where "FAILURE_CODE_NEVER_STARTED = u ''claim_timeout''"
definition FAILURE_CODE_DIED_MID_DISPATCH :: pystr where "FAILURE_CODE_DIED_MID_DISPATCH = u ''dispatch_dropoff''"
definition QUARANTINE_REASON :: pystr where "QUARANTINE_REASON = u ''reconciler_retry_exhausted''"

definition live_row :: "run_row \<Rightarrow> bool" where
  "live_row r \<longleftrightarrow> rn_quarantined_at r = None \<or> rn_quarantined_at r = Some []"

definition in_flight :: "run_row \<Rightarrow> bool" where
  "in_flight r \<longleftrightarrow> rn_status r \<in> set IN_FLIGHT_STATUSES \<and> live_row r"

definition load_object :: "json_column \<Rightarrow> (pyval \<times> pyval) list" where
  "load_object c = (case c of Some (PDict d) \<Rightarrow> d | _ \<Rightarrow> [])"

definition set_entry :: "pystr \<Rightarrow> pyval \<Rightarrow> json_column \<Rightarrow> json_column" where
  "set_entry k v c = Some (PDict (dset (PStr k) v (load_object c)))"

text \<open>\<open>re_parse\<close> is \<open>datetime.fromisoformat\<close> with UTC for a missing zone; 90 is the letter Z.\<close>

definition utc_suffix :: "pystr \<Rightarrow> pystr" where
  "utc_suffix s = concat (map (\<lambda>c. if c = 90 then u ''+00:00'' else [c]) s)"

definition parse_ts :: "recon_env \<Rightarrow> pystr option \<Rightarrow> int option" where
  "parse_ts E v =
     (case v of None \<Rightarrow> None | Some s \<Rightarrow> if s = [] then None else re_parse E (utc_suffix (strip s)))"

section \<open>Authority of a receipt\<close>

definition FAILED_RECEIPT_STATUSES :: "pystr list" where
  "FAILED_RECEIPT_STATUSES = [u ''failed'', u ''dropped'', u ''timeout'', u ''cancelled'']"

fun authority_id :: "pyval \<Rightarrow> pystr option" where
  "authority_id (PStr s) = (if strip s = [] then None else Some s)"
| "authority_id _ = None"

definition claim_run_match :: "claim_row \<Rightarrow> run_row \<Rightarrow> bool" where
  "claim_run_match c r \<longleftrightarrow> cl_task_id c = rn_task_id r \<and> authority_id (PStr (cl_agent_id c)) \<noteq> None \<and>
     authority_id (PStr (cl_agent_id c)) = authority_id (PStr (rn_assigned_to r))"

definition record_status :: "pystr \<Rightarrow> pystr option" where
  "record_status s =
     (if s = u ''ok'' then Some (u ''completed'')
      else if s \<in> set FAILED_RECEIPT_STATUSES then Some (u ''failed'') else None)"

text \<open>\<open>str(d.get(k, ''))\<close>\<close>

definition str_entry :: "prims \<Rightarrow> (pyval \<times> pyval) list \<Rightarrow> pystr \<Rightarrow> pystr" where
  "str_entry P d k = py_str P (dget d (PStr k) (PStr []))"

definition claim_authorizes :: "runtime_db \<Rightarrow> pystr \<Rightarrow> pystr \<Rightarrow> pystr option \<Rightarrow> bool" where
  "claim_authorizes db claim_id task_id agent =
     (case filter (\<lambda>c. cl_claim_id c = claim_id) (db_claims db) of
        [c] \<Rightarrow> cl_task_id c = task_id \<and>
          (u ''agent_id'' \<in> set (db_claim_columns db) \<longrightarrow>
             authority_id (PStr (cl_agent_id c)) \<noteq> None \<and> authority_id (PStr (cl_agent_id c)) = agent)
      | _ \<Rightarrow> False)"

definition run_authorizes :: "runtime_db \<Rightarrow> pystr \<Rightarrow> pystr \<Rightarrow> pystr \<Rightarrow> pystr option \<Rightarrow> bool" where
  "run_authorizes db run_id task_id claim_id agent =
     (case filter (\<lambda>r. rn_run_id r = run_id) (db_runs db) of
        [r] \<Rightarrow> rn_task_id r = task_id \<and>
          (u ''claim_id'' \<in> set (db_run_columns db) \<longrightarrow> rn_claim_id r = claim_id) \<and>
          (u ''assigned_to'' \<in> set (db_run_columns db) \<longrightarrow>
             authority_id (PStr (rn_assigned_to r)) \<noteq> None \<and> authority_id (PStr (rn_assigned_to r)) = agent)
      | _ \<Rightarrow> False)"

definition record_confirms ::
    "runtime_db \<Rightarrow> pystr \<Rightarrow> pystr \<Rightarrow> pystr \<Rightarrow> pystr \<Rightarrow> pystr \<Rightarrow> pystr \<Rightarrow> (pyval \<times> pyval) list \<Rightarrow> bool" where
  "record_confirms db run_id task_id receipt_id status idempotency_key side_effect_key receipt =
     (case filter (\<lambda>q. ir_run_id q = run_id \<and> ir_task_id q = task_id \<and> ir_receipt_id q = receipt_id) (db_records db) of
        [q] \<Rightarrow> ir_status q = status \<and> ir_idempotency_key q = idempotency_key \<and>
          ir_side_effect_key q = side_effect_key \<and>
          py_eq (vget (load_object (ir_metadata q)) (u ''receipt'')) (PDict receipt)
      | _ \<Rightarrow> False)"

definition has_runtime_completion ::
    "prims \<Rightarrow> runtime_db \<Rightarrow> pystr \<Rightarrow> pystr \<Rightarrow> pystr \<Rightarrow> (pyval \<times> pyval) list \<Rightarrow> bool" where
  "has_runtime_completion P db run_id task_id claim_id receipt =
     (let receipt_id = str_entry P receipt (u ''receipt_id'') in
      if \<not> is_ok (validate_uuid receipt_id) then False
      else if run_id = [] \<or> task_id = [] \<or> claim_id = [] \<or> str_entry P receipt (u ''task_id'') \<noteq> task_id \<or>
        str_entry P receipt (u ''claim_id'') \<noteq> claim_id then False
      else case record_status (str_entry P receipt (u ''status'')) of
        None \<Rightarrow> False
      | Some expected \<Rightarrow>
          (case vget receipt (u ''attributes'') of
             PDict attributes \<Rightarrow>
               (let idempotency_key = str_entry P attributes (u ''idempotency_key'');
                    side_effect_key = str_entry P attributes (u ''side_effect_key'');
                    agent = authority_id (vget receipt (u ''agent_id'')) in
                if str_entry P attributes (u ''run_id'') \<noteq> run_id then False
                else if idempotency_key = [] \<or> side_effect_key = [] then False
                else if \<not> {u ''claim_id'', u ''task_id''} \<subseteq> set (db_claim_columns db) \<or>
                  \<not> {u ''run_id'', u ''task_id''} \<subseteq> set (db_run_columns db) then False
                else if (u ''agent_id'' \<in> set (db_claim_columns db) \<or> u ''assigned_to'' \<in> set (db_run_columns db)) \<and>
                  agent = None then False
                else claim_authorizes db claim_id task_id agent \<and> run_authorizes db run_id task_id claim_id agent \<and>
                  record_confirms db run_id task_id receipt_id expected idempotency_key side_effect_key receipt)
           | _ \<Rightarrow> False))"

section \<open>Settling a run\<close>

record recon_report =
  rp_requeued :: "pystr list"
  rp_quarantined :: "pystr list"
  rp_completed :: "pystr list"
  rp_recovered :: "pystr list"
  rp_errors :: "pystr list"

definition empty_report :: recon_report where
  "empty_report = \<lparr>rp_requeued = [], rp_quarantined = [], rp_completed = [], rp_recovered = [], rp_errors = []\<rparr>"

definition total_reconciled :: "recon_report \<Rightarrow> nat" where
  "total_reconciled p = length (rp_requeued p) + length (rp_quarantined p) + length (rp_completed p)"

definition update_run :: "pystr \<Rightarrow> (run_row \<Rightarrow> run_row) \<Rightarrow> runtime_db \<Rightarrow> runtime_db" where
  "update_run i f db = db\<lparr>db_runs := map (\<lambda>r. if rn_run_id r = i then f r else r) (db_runs db)\<rparr>"

definition update_claim :: "pystr \<Rightarrow> (claim_row \<Rightarrow> claim_row) \<Rightarrow> runtime_db \<Rightarrow> runtime_db" where
  "update_claim i f db = db\<lparr>db_claims := map (\<lambda>c. if cl_claim_id c = i then f c else c) (db_claims db)\<rparr>"

definition fetch_claim :: "runtime_db \<Rightarrow> pystr \<Rightarrow> claim_row option" where
  "fetch_claim db i = find (\<lambda>c. cl_claim_id c = i) (db_claims db)"

text \<open>\<open>str(receipt.get('error_source') or 'execution_error')\<close>\<close>

definition receipt_failure :: "prims \<Rightarrow> (pyval \<times> pyval) list \<Rightarrow> pystr" where
  "receipt_failure P receipt =
     (let e = vget receipt (u ''error_source'') in if py_truthy e then py_str P e else u ''execution_error'')"

definition complete_from_receipt ::
    "prims \<Rightarrow> recon_env \<Rightarrow> run_row \<Rightarrow> claim_row option \<Rightarrow> (pyval \<times> pyval) list \<Rightarrow> int \<Rightarrow> runtime_db \<Rightarrow> runtime_db" where
  "complete_from_receipt P E r cl receipt now db =
     (let ok = (str_entry P receipt (u ''status'') = u ''ok'');
          status = (if ok then u ''completed'' else u ''failed'');
          metadata = set_entry (u ''reconciled_from_receipt'') (PBool True)
            (set_entry (u ''reconciled_at'') (PStr (re_iso E now)) (rn_metadata r));
          db1 = update_run (rn_run_id r) (\<lambda>x. x\<lparr>rn_status := status,
            rn_failure_code := (if ok then [] else receipt_failure P receipt),
            rn_completed_at := Some (re_iso E now), rn_metadata := metadata\<rparr>) db in
      case cl of
        None \<Rightarrow> db1
      | Some c \<Rightarrow>
          if cl_status c \<in> set TERMINAL_CLAIM_STATUSES then db1
          else update_claim (cl_claim_id c) (\<lambda>x. x\<lparr>cl_status := status, cl_recovered_at := Some (re_iso E now),
            cl_metadata := set_entry (u ''reconciled_from_receipt'') (PBool True) (cl_metadata c)\<rparr>) db1)"

definition requeue_run :: "recon_env \<Rightarrow> run_row \<Rightarrow> int \<Rightarrow> pystr \<Rightarrow> int \<Rightarrow> runtime_db \<Rightarrow> runtime_db" where
  "requeue_run E r now code retry_count =
     update_run (rn_run_id r) (\<lambda>x. x\<lparr>rn_status := u ''failed'', rn_failure_code := code,
       rn_completed_at := Some (re_iso E now),
       rn_metadata := set_entry (u ''last_failure_source'') (PStr code) (set_entry (u ''retry_count'') (PInt retry_count)
         (set_entry (u ''reconciled_at'') (PStr (re_iso E now)) (rn_metadata r)))\<rparr>)"

definition quarantine_run :: "recon_env \<Rightarrow> run_row \<Rightarrow> int \<Rightarrow> pystr \<Rightarrow> runtime_db \<Rightarrow> runtime_db" where
  "quarantine_run E r now code =
     update_run (rn_run_id r) (\<lambda>x. x\<lparr>rn_status := u ''failed'', rn_failure_code := code,
       rn_completed_at := Some (re_iso E now), rn_quarantined_at := Some (re_iso E now),
       rn_quarantine_reason := Some QUARANTINE_REASON,
       rn_metadata := set_entry (u ''reconciled_at'') (PStr (re_iso E now)) (rn_metadata r)\<rparr>)"

definition stamp_claim_recovered :: "recon_env \<Rightarrow> pystr \<Rightarrow> int \<Rightarrow> int \<Rightarrow> pystr \<Rightarrow> runtime_db \<Rightarrow> runtime_db" where
  "stamp_claim_recovered E i now retry_count reason db =
     (case fetch_claim db i of
        None \<Rightarrow> db
      | Some c \<Rightarrow> update_claim i (\<lambda>x. x\<lparr>cl_status := u ''recovered'', cl_recovered_at := Some (re_iso E now),
          cl_retry_count := retry_count, cl_metadata := set_entry (u ''recovery_reason'') (PStr reason) (cl_metadata c)\<rparr>) db)"

text \<open>The lease of a claim: its window, or three default heartbeat windows.\<close>

definition lease :: "recon_env \<Rightarrow> claim_row \<Rightarrow> int \<Rightarrow> int" where
  "lease E c stale_after =
     (case parse_ts E (Some (cl_claimed_at c)) of
        Some claimed_at \<Rightarrow> if claimed_at < stale_after then stale_after - claimed_at else re_default_window E * 3
      | None \<Rightarrow> re_default_window E * 3)"

definition claim_is_stale :: "recon_env \<Rightarrow> claim_row option \<Rightarrow> int \<Rightarrow> bool" where
  "claim_is_stale E cl now =
     (case cl of
        None \<Rightarrow> False
      | Some c \<Rightarrow>
          (case parse_ts E (cl_stale_after c) of
             None \<Rightarrow> False
           | Some stale_after \<Rightarrow>
               if now \<le> stale_after then False
               else case parse_ts E (cl_heartbeat_at c) of
                 None \<Rightarrow> True
               | Some heartbeat_at \<Rightarrow> lease E c stale_after \<le> now - heartbeat_at))"

definition started :: "claim_row option \<Rightarrow> bool" where
  "started cl = (case cl of None \<Rightarrow> False
     | Some c \<Rightarrow> cl_acked_at c \<notin> {None, Some []} \<or> cl_heartbeat_at c \<notin> {None, Some []})"

definition failure_code :: "claim_row option \<Rightarrow> pystr" where
  "failure_code cl = (if started cl then FAILURE_CODE_DIED_MID_DISPATCH else FAILURE_CODE_NEVER_STARTED)"

definition retries :: "claim_row option \<Rightarrow> int" where
  "retries cl = (case cl of None \<Rightarrow> 0 | Some c \<Rightarrow> cl_retry_count c)"

definition claim_of_run :: "runtime_db \<Rightarrow> run_row \<Rightarrow> claim_row option" where
  "claim_of_run db r =
     (if rn_claim_id r = [] then None
      else case fetch_claim db (rn_claim_id r) of
        None \<Rightarrow> None
      | Some c \<Rightarrow> if claim_run_match c r then Some c else None)"

definition settle_orphan ::
    "recon_env \<Rightarrow> int \<Rightarrow> run_row \<Rightarrow> claim_row option \<Rightarrow> runtime_db \<times> recon_report \<Rightarrow> runtime_db \<times> recon_report" where
  "settle_orphan E now r cl = (\<lambda>(db, p).
     let code = failure_code cl; n = retries cl;
         (db1, p1) =
           (if started cl \<and> re_max_retries E \<le> n
            then (quarantine_run E r now code db, p\<lparr>rp_quarantined := rp_quarantined p @ [rn_run_id r]\<rparr>)
            else (requeue_run E r now code (n + 1) db, p\<lparr>rp_requeued := rp_requeued p @ [rn_run_id r]\<rparr>))
     in case cl of
          None \<Rightarrow> (db1, p1)
        | Some c \<Rightarrow> (stamp_claim_recovered E (rn_claim_id r) now (n + 1) code db1,
                    p1\<lparr>rp_recovered := rp_recovered p1 @ [rn_claim_id r]\<rparr>))"

definition reconcile_run ::
    "prims \<Rightarrow> recon_env \<Rightarrow> bool \<Rightarrow> int \<Rightarrow> run_row \<Rightarrow> runtime_db \<times> recon_report \<Rightarrow> runtime_db \<times> recon_report" where
  "reconcile_run P E stale_only now r = (\<lambda>(db, p).
     let cl = claim_of_run db r; receipt = load_object (rn_receipt r) in
     if receipt \<noteq> [] \<and> has_runtime_completion P db (rn_run_id r) (rn_task_id r) (rn_claim_id r) receipt
     then (complete_from_receipt P E r cl receipt now db, p\<lparr>rp_completed := rp_completed p @ [rn_run_id r]\<rparr>)
     else if stale_only \<and> \<not> claim_is_stale E cl now then (db, p)
     else settle_orphan E now r cl (db, p))"

text \<open>The second half of a pass: stale claims in flight that no run brought to recovery.\<close>

definition open_claim :: "claim_row \<Rightarrow> bool" where
  "open_claim c \<longleftrightarrow> cl_status c \<in> set IN_FLIGHT_STATUSES \<and> cl_recovered_at c = None"

definition recover_claim :: "recon_env \<Rightarrow> int \<Rightarrow> claim_row \<Rightarrow> runtime_db \<times> recon_report \<Rightarrow> runtime_db \<times> recon_report" where
  "recover_claim E now c = (\<lambda>(db, p).
     if claim_is_stale E (Some c) now
     then (stamp_claim_recovered E (cl_claim_id c) now (cl_retry_count c + 1) (u ''stale_after_expired'') db,
           p\<lparr>rp_recovered := rp_recovered p @ [cl_claim_id c]\<rparr>)
     else (db, p))"

definition recover_stale_claims :: "recon_env \<Rightarrow> int \<Rightarrow> runtime_db \<times> recon_report \<Rightarrow> runtime_db \<times> recon_report" where
  "recover_stale_claims E now s =
     foldl (\<lambda>s c. recover_claim E now c s) s
       (filter (\<lambda>c. open_claim c \<and> cl_stale_after c \<noteq> None) (db_claims (fst s)))"

text \<open>A pass over the tables; the board is settled afterwards.\<close>

definition reconcile :: "prims \<Rightarrow> recon_env \<Rightarrow> bool \<Rightarrow> int \<Rightarrow> runtime_db \<Rightarrow> runtime_db \<times> recon_report" where
  "reconcile P E stale_only now db =
     recover_stale_claims E now
       (foldl (\<lambda>s r. reconcile_run P E stale_only now r s) (db, empty_report) (filter in_flight (db_runs db)))"

section \<open>The task board\<close>

datatype settlement = Requeue | FromReceipt | Quarantine

datatype board_call = BoardRequeue pystr | BoardComplete pystr | BoardFail pystr settlement

text \<open>What a call of the board does: return, raise KeyError, or raise an exception of a type.\<close>

datatype board_result = BoardOk | NotOnBoard | BoardRaised pystr

definition settle_one :: "pystr \<Rightarrow> settlement \<Rightarrow> pystr \<Rightarrow> board_call" where
  "settle_one task_id action run_status =
     (if action = Requeue then BoardRequeue task_id
      else if action = FromReceipt \<and> run_status = u ''completed'' then BoardComplete task_id
      else BoardFail task_id action)"

definition settled_runs :: "recon_report \<Rightarrow> (pystr \<times> settlement) list" where
  "settled_runs p = map (\<lambda>i. (i, Requeue)) (rp_requeued p) @ map (\<lambda>i. (i, FromReceipt)) (rp_completed p) @
     map (\<lambda>i. (i, Quarantine)) (rp_quarantined p)"

text \<open>The calls made and the report, whose errors name the tasks the board raised on.\<close>

fun settle_runs ::
    "(board_call \<Rightarrow> board_result) \<Rightarrow> runtime_db \<Rightarrow> (pystr \<times> settlement) list \<Rightarrow> recon_report \<Rightarrow>
     board_call list \<times> recon_report" where
  "settle_runs board db [] p = ([], p)"
| "settle_runs board db ((run_id, action) # rest) p =
     (case find (\<lambda>r. rn_run_id r = run_id) (db_runs db) of
        None \<Rightarrow> settle_runs board db rest p
      | Some r \<Rightarrow>
          if rn_task_id r = [] then settle_runs board db rest p
          else
            (let call = settle_one (rn_task_id r) action (rn_status r);
                 p1 = (case board call of
                         BoardRaised t \<Rightarrow> p\<lparr>rp_errors := rp_errors p @ [u ''task:'' @ rn_task_id r @ [58] @ t]\<rparr>
                       | _ \<Rightarrow> p);
                 (calls, p2) = settle_runs board db rest p1
             in (call # calls, p2)))"

definition settle_task_board ::
    "(board_call \<Rightarrow> board_result) option \<Rightarrow> runtime_db \<Rightarrow> recon_report \<Rightarrow> board_call list \<times> recon_report" where
  "settle_task_board board db p =
     (case board of None \<Rightarrow> ([], p) | Some f \<Rightarrow> settle_runs f db (settled_runs p) p)"

section \<open>Heartbeats\<close>

text \<open>The cadence of a claim in microseconds: a third of its window, at least a second.\<close>

definition cadence :: "recon_env \<Rightarrow> claim_row \<Rightarrow> rat" where
  "cadence E c =
     (case (parse_ts E (Some (cl_claimed_at c)), parse_ts E (cl_stale_after c)) of
        (Some claimed_at, Some stale_after) \<Rightarrow> max (of_int (stale_after - claimed_at) / 3) 1000000
      | _ \<Rightarrow> of_int (re_default_window E))"

definition heartbeat_due :: "recon_env \<Rightarrow> int \<Rightarrow> claim_row \<Rightarrow> bool" where
  "heartbeat_due E now c =
     (let last = (case parse_ts E (cl_heartbeat_at c) of
                    Some t \<Rightarrow> Some t
                  | None \<Rightarrow> parse_ts E (Some (cl_claimed_at c))) in
      case last of None \<Rightarrow> True | Some t \<Rightarrow> cadence E c \<le> of_int (now - t))"

text \<open>\<open>heartbeat_claim_sync\<close> stamps its own reading of the clock.\<close>

definition heartbeat_claim :: "recon_env \<Rightarrow> int \<Rightarrow> pystr \<Rightarrow> runtime_db \<Rightarrow> runtime_db" where
  "heartbeat_claim E clock i = update_claim i (\<lambda>c. c\<lparr>cl_heartbeat_at := Some (re_iso E clock)\<rparr>)"

definition heartbeat_live_claims :: "recon_env \<Rightarrow> int \<Rightarrow> int \<Rightarrow> runtime_db \<Rightarrow> runtime_db \<times> nat" where
  "heartbeat_live_claims E now clock db =
     (let due = filter (heartbeat_due E now) (filter open_claim (db_claims db)) in
      (foldl (\<lambda>db c. heartbeat_claim E clock (cl_claim_id c) db) db due, length due))"

end
