(* ===== verification/ReconcilerSpec.thy ===== *)
theory ReconcilerSpec
  imports Reconciler
begin

text \<open>
  What a pass of the reconciler promises: every orphaned run is settled once and nothing else is
  touched, a run completes from a receipt only with the full authority of the tables, retries are
  counted and limited, and a claim that is kept beating is not taken for stale.
\<close>

section \<open>What a pass changes\<close>

text \<open>A pass changes rows in place; \<open>settles R f\<close>: the runs in R leave the flight, the others stay.\<close>

definition settles :: "pystr set \<Rightarrow> (run_row \<Rightarrow> run_row) \<Rightarrow> bool" where
  "settles I f \<longleftrightarrow> (\<forall>x. rn_run_id (f x) = rn_run_id x \<and> rn_task_id (f x) = rn_task_id x \<and>
     rn_claim_id (f x) = rn_claim_id x \<and> rn_assigned_to (f x) = rn_assigned_to x \<and>
     (rn_run_id x \<in> I \<longrightarrow> \<not> in_flight (f x)) \<and> (rn_run_id x \<notin> I \<longrightarrow> f x = x))"

definition settled_ids :: "recon_report \<Rightarrow> pystr multiset" where
  "settled_ids p = mset (rp_requeued p @ rp_quarantined p @ rp_completed p)"

lemma settles_compose: "settles I f \<Longrightarrow> settles J g \<Longrightarrow> settles (I \<union> J) (g \<circ> f)"
proof -
  assume f: "settles I f" and g: "settles J g"
  have "\<not> in_flight (g (f x))" if "rn_run_id x \<in> I \<or> rn_run_id x \<in> J" for x
    using f g that by (cases "rn_run_id x \<in> J") (auto simp: settles_def)
  with f g show ?thesis by (auto simp: settles_def)
qed

lemma settles_id: "settles {} (\<lambda>x. x)"
  by (simp add: settles_def)

lemma settles_update:
  assumes "\<And>x. rn_run_id (f x) = rn_run_id x \<and> rn_task_id (f x) = rn_task_id x \<and>
    rn_claim_id (f x) = rn_claim_id x \<and> rn_assigned_to (f x) = rn_assigned_to x \<and> rn_status (f x) \<notin> set IN_FLIGHT_STATUSES"
  shows "settles {i} (\<lambda>x. if rn_run_id x = i then f x else x)"
  using assms by (simp add: settles_def in_flight_def)

lemma ended: "u ''failed'' \<notin> set IN_FLIGHT_STATUSES" "u ''completed'' \<notin> set IN_FLIGHT_STATUSES"
  "u ''recovered'' \<notin> set IN_FLIGHT_STATUSES"
  by (simp_all add: IN_FLIGHT_STATUSES_def u_def)

lemma update_claim_frame [simp]:
  "db_runs (update_claim i f db) = db_runs db" "db_records (update_claim i f db) = db_records db"
  "db_claim_columns (update_claim i f db) = db_claim_columns db" "db_run_columns (update_claim i f db) = db_run_columns db"
  by (simp_all add: update_claim_def)

lemma update_run_frame [simp]:
  "db_claims (update_run i f db) = db_claims db" "db_records (update_run i f db) = db_records db"
  "db_claim_columns (update_run i f db) = db_claim_columns db" "db_run_columns (update_run i f db) = db_run_columns db"
  "db_runs (update_run i f db) = map (\<lambda>r. if rn_run_id r = i then f r else r) (db_runs db)"
  by (simp_all add: update_run_def)

lemma stamp_frame [simp]:
  "db_runs (stamp_claim_recovered E i now n reason db) = db_runs db"
  "db_records (stamp_claim_recovered E i now n reason db) = db_records db"
  "db_claim_columns (stamp_claim_recovered E i now n reason db) = db_claim_columns db"
  "db_run_columns (stamp_claim_recovered E i now n reason db) = db_run_columns db"
  by (simp_all add: stamp_claim_recovered_def split: option.split)

text \<open>The identity of a claim, which no step changes.\<close>

definition claim_view :: "claim_row \<Rightarrow> pystr \<times> pystr \<times> pystr" where
  "claim_view c = (cl_claim_id c, cl_task_id c, cl_agent_id c)"

definition run_view :: "run_row \<Rightarrow> pystr \<times> pystr \<times> pystr \<times> pystr" where
  "run_view r = (rn_run_id r, rn_task_id r, rn_claim_id r, rn_assigned_to r)"

lemma claim_view_update:
  assumes "\<And>c. claim_view (f c) = claim_view c"
  shows "map claim_view (db_claims (update_claim i f db)) = map claim_view (db_claims db)"
  using assms by (simp add: update_claim_def)

lemma claim_view_stamp:
  "map claim_view (db_claims (stamp_claim_recovered E i now n reason db)) = map claim_view (db_claims db)"
  by (simp add: stamp_claim_recovered_def claim_view_update claim_view_def split: option.split)

text \<open>Two states that agree on identities, records and columns give a receipt the same authority.\<close>

definition same_identity :: "runtime_db \<Rightarrow> runtime_db \<Rightarrow> bool" where
  "same_identity db db' \<longleftrightarrow> map claim_view (db_claims db) = map claim_view (db_claims db') \<and>
     map run_view (db_runs db) = map run_view (db_runs db') \<and> db_records db = db_records db' \<and>
     db_claim_columns db = db_claim_columns db' \<and> db_run_columns db = db_run_columns db'"

lemma same_identity_trans: "same_identity a b \<Longrightarrow> same_identity b c \<Longrightarrow> same_identity a c"
  by (simp add: same_identity_def)

lemma same_identity_refl [simp]: "same_identity db db"
  by (simp add: same_identity_def)

lemma filter_view:
  assumes "map v xs = map v ys" and "\<And>x y. v x = v y \<Longrightarrow> Q x = Q y"
  shows "map v (filter Q xs) = map v (filter Q ys)"
  using assms(1) by (induction xs ys rule: list_induct2') (auto dest: assms(2))

lemma authority_same:
  assumes "same_identity db db'"
  shows "claim_authorizes db ci t a = claim_authorizes db' ci t a"
    and "run_authorizes db ri t ci a = run_authorizes db' ri t ci a"
    and "record_confirms db ri t rc s k e receipt = record_confirms db' ri t rc s k e receipt"
proof -
  have c: "map claim_view (filter (\<lambda>c. cl_claim_id c = ci) (db_claims db)) =
      map claim_view (filter (\<lambda>c. cl_claim_id c = ci) (db_claims db'))"
    using assms by (intro filter_view) (auto simp: same_identity_def claim_view_def)
  have r: "map run_view (filter (\<lambda>r. rn_run_id r = ri) (db_runs db)) =
      map run_view (filter (\<lambda>r. rn_run_id r = ri) (db_runs db'))"
    using assms by (intro filter_view) (auto simp: same_identity_def run_view_def)
  show "claim_authorizes db ci t a = claim_authorizes db' ci t a"
    using assms c unfolding claim_authorizes_def
    by (auto simp: same_identity_def claim_view_def split: list.splits)
  show "run_authorizes db ri t ci a = run_authorizes db' ri t ci a"
    using assms r unfolding run_authorizes_def
    by (auto simp: same_identity_def run_view_def split: list.splits)
  show "record_confirms db ri t rc s k e receipt = record_confirms db' ri t rc s k e receipt"
    using assms by (simp add: record_confirms_def same_identity_def)
qed

lemma has_completion_same:
  assumes "same_identity db db'"
  shows "has_runtime_completion P db ri t ci receipt = has_runtime_completion P db' ri t ci receipt"
proof -
  have "db_claim_columns db = db_claim_columns db'" "db_run_columns db = db_run_columns db'"
    using assms by (simp_all add: same_identity_def)
  then show ?thesis by (simp only: has_runtime_completion_def authority_same [OF assms])
qed

section \<open>One run\<close>

lemma settle_orphan_step:
  assumes "settle_orphan E now r cl (db, p) = (db', p')"
  shows "\<exists>f. settles {rn_run_id r} f \<and> db_runs db' = map f (db_runs db)" and "same_identity db db'"
    and "settled_ids p' = add_mset (rn_run_id r) (settled_ids p)" and "rp_completed p' = rp_completed p"
proof -
  let ?n = "retries cl" and ?code = "failure_code cl"
  let ?q = "\<lambda>x. x\<lparr>rn_status := u ''failed'', rn_failure_code := ?code,
       rn_completed_at := Some (re_iso E now), rn_quarantined_at := Some (re_iso E now),
       rn_quarantine_reason := Some QUARANTINE_REASON,
       rn_metadata := set_entry (u ''reconciled_at'') (PStr (re_iso E now)) (rn_metadata r)\<rparr>"
  let ?r = "\<lambda>x. x\<lparr>rn_status := u ''failed'', rn_failure_code := ?code,
       rn_completed_at := Some (re_iso E now),
       rn_metadata := set_entry (u ''last_failure_source'') (PStr ?code) (set_entry (u ''retry_count'') (PInt (?n + 1))
         (set_entry (u ''reconciled_at'') (PStr (re_iso E now)) (rn_metadata r)))\<rparr>"
  let ?f = "if started cl \<and> re_max_retries E \<le> ?n then ?q else ?r"
  have runs: "db_runs db' = map (\<lambda>x. if rn_run_id x = rn_run_id r then ?f x else x) (db_runs db)"
    using assms by (auto simp: settle_orphan_def Let_def quarantine_run_def requeue_run_def split: option.splits if_splits)
  have st: "settles {rn_run_id r} (\<lambda>x. if rn_run_id x = rn_run_id r then ?f x else x)"
    by (rule settles_update) (auto simp: ended)
  from st runs show "\<exists>f. settles {rn_run_id r} f \<and> db_runs db' = map f (db_runs db)" by blast
  have "map claim_view (db_claims db) = map claim_view (db_claims db')"
    using assms by (auto simp: settle_orphan_def Let_def quarantine_run_def requeue_run_def claim_view_stamp split: option.splits if_splits)
  moreover have "map run_view (db_runs db) = map run_view (db_runs db')"
    using st unfolding runs by (auto simp: settles_def run_view_def)
  ultimately show "same_identity db db'"
    using assms by (auto simp: same_identity_def settle_orphan_def Let_def quarantine_run_def requeue_run_def split: option.splits if_splits)
  show "settled_ids p' = add_mset (rn_run_id r) (settled_ids p)" "rp_completed p' = rp_completed p"
    using assms by (auto simp: settle_orphan_def Let_def settled_ids_def split: option.splits if_splits)
qed

lemma complete_step:
  assumes "complete_from_receipt P E r cl receipt now db = db'"
  shows "\<exists>f. settles {rn_run_id r} f \<and> db_runs db' = map f (db_runs db)" and "same_identity db db'"
proof -
  let ?f = "\<lambda>x. x\<lparr>rn_status := (if str_entry P receipt (u ''status'') = u ''ok'' then u ''completed'' else u ''failed''),
     rn_failure_code := (if str_entry P receipt (u ''status'') = u ''ok'' then [] else receipt_failure P receipt),
     rn_completed_at := Some (re_iso E now), rn_metadata := set_entry (u ''reconciled_from_receipt'') (PBool True)
            (set_entry (u ''reconciled_at'') (PStr (re_iso E now)) (rn_metadata r))\<rparr>"
  have runs: "db_runs db' = map (\<lambda>x. if rn_run_id x = rn_run_id r then ?f x else x) (db_runs db)"
    unfolding assms [symmetric] complete_from_receipt_def Let_def by (simp split: option.split)
  have st: "settles {rn_run_id r} (\<lambda>x. if rn_run_id x = rn_run_id r then ?f x else x)"
    by (rule settles_update) (simp add: ended)
  from st runs show "\<exists>f. settles {rn_run_id r} f \<and> db_runs db' = map f (db_runs db)" by blast
  have "map claim_view (db_claims db) = map claim_view (db_claims db')"
    unfolding assms [symmetric] complete_from_receipt_def Let_def
    by (simp add: claim_view_update claim_view_def split: option.split)
  moreover have "map run_view (db_runs db) = map run_view (db_runs db')"
    using st unfolding runs by (auto simp: settles_def run_view_def)
  ultimately show "same_identity db db'"
    unfolding same_identity_def assms [symmetric] complete_from_receipt_def Let_def by (simp split: option.split)
qed

text \<open>A step at boot settles its run; on a tick it may leave it.\<close>

lemma reconcile_run_step:
  assumes "reconcile_run P E stale_only now r (db, p) = (db', p')"
  obtains I f where "I \<subseteq> {rn_run_id r}" "settles I f" "db_runs db' = map f (db_runs db)" "same_identity db db'"
    "settled_ids p' = settled_ids p + mset_set I" "\<not> stale_only \<longrightarrow> I = {rn_run_id r}"
    "rp_completed p' = rp_completed p \<or>
      (rp_completed p' = rp_completed p @ [rn_run_id r] \<and>
       has_runtime_completion P db (rn_run_id r) (rn_task_id r) (rn_claim_id r) (load_object (rn_receipt r)))"
proof -
  let ?cl = "claim_of_run db r" and ?receipt = "load_object (rn_receipt r)"
  let ?done = "?receipt \<noteq> [] \<and> has_runtime_completion P db (rn_run_id r) (rn_task_id r) (rn_claim_id r) ?receipt"
  have eq: "(db', p') = (if ?done then (complete_from_receipt P E r ?cl ?receipt now db, p\<lparr>rp_completed := rp_completed p @ [rn_run_id r]\<rparr>)
      else if stale_only \<and> \<not> claim_is_stale E ?cl now then (db, p) else settle_orphan E now r ?cl (db, p))"
    using assms by (simp only: reconcile_run_def Let_def prod.case)
  consider (complete) "has_runtime_completion P db (rn_run_id r) (rn_task_id r) (rn_claim_id r) ?receipt"
      "db' = complete_from_receipt P E r ?cl ?receipt now db" "p' = p\<lparr>rp_completed := rp_completed p @ [rn_run_id r]\<rparr>"
    | (skip) "stale_only" "db' = db" "p' = p"
    | (settle) "settle_orphan E now r ?cl (db, p) = (db', p')"
  proof (cases ?done)
    case True
    with eq have "db' = complete_from_receipt P E r ?cl ?receipt now db" "p' = p\<lparr>rp_completed := rp_completed p @ [rn_run_id r]\<rparr>"
      by simp_all
    with True that(1) show ?thesis by blast
  next
    case False
    show ?thesis
    proof (cases "stale_only \<and> \<not> claim_is_stale E ?cl now")
      case True
      with eq False have "db' = db" "p' = p" by simp_all
      with True that(2) show ?thesis by blast
    next
      case left: False
      with eq False have "settle_orphan E now r ?cl (db, p) = (db', p')" by simp
      with that(3) show ?thesis by blast
    qed
  qed
  then show ?thesis
  proof cases
    case complete
    from complete_step [OF complete(2) [symmetric]] obtain f where
      "settles {rn_run_id r} f" "db_runs db' = map f (db_runs db)" "same_identity db db'" by blast
    with complete(1,3) show ?thesis by (intro that [of "{rn_run_id r}" f]) (simp_all add: settled_ids_def)
  next
    case skip
    then show ?thesis by (intro that [of "{}" "\<lambda>x. x"]) (simp_all add: settles_id)
  next
    case settle
    from settle_orphan_step [OF settle] obtain f where
      "settles {rn_run_id r} f" "db_runs db' = map f (db_runs db)" "same_identity db db'"
      "settled_ids p' = add_mset (rn_run_id r) (settled_ids p)" "rp_completed p' = rp_completed p" by blast
    then show ?thesis by (intro that [of "{rn_run_id r}" f]) simp_all
  qed
qed

section \<open>A pass\<close>

definition reconcile_runs ::
    "prims \<Rightarrow> recon_env \<Rightarrow> bool \<Rightarrow> int \<Rightarrow> run_row list \<Rightarrow> runtime_db \<times> recon_report \<Rightarrow> runtime_db \<times> recon_report" where
  "reconcile_runs P E stale_only now rs s = foldl (\<lambda>s r. reconcile_run P E stale_only now r s) s rs"

definition completed_by ::
    "prims \<Rightarrow> runtime_db \<Rightarrow> run_row list \<Rightarrow> pystr \<Rightarrow> bool" where
  "completed_by P db rs i \<longleftrightarrow> (\<exists>r \<in> set rs. rn_run_id r = i \<and>
     has_runtime_completion P db i (rn_task_id r) (rn_claim_id r) (load_object (rn_receipt r)))"

lemma reconcile_runs_pass:
  assumes "reconcile_runs P E stale_only now rs (db, p) = (db', p')"
  shows "\<exists>I f. settles I f \<and> db_runs db' = map f (db_runs db) \<and> same_identity db db' \<and> I \<subseteq> rn_run_id ` set rs \<and>
    (\<not> stale_only \<longrightarrow> I = rn_run_id ` set rs \<and> settled_ids p' = settled_ids p + mset (map rn_run_id rs)) \<and>
    (\<forall>i \<in> set (rp_completed p'). i \<in> set (rp_completed p) \<or> completed_by P db rs i)"
  using assms
proof (induction rs arbitrary: db p)
  case Nil
  then have "db' = db" "p' = p" by (simp_all add: reconcile_runs_def)
  then show ?case using settles_id by (intro exI [of _ "{}"] exI [of _ "\<lambda>x. x"]) simp
next
  case (Cons r rs)
  obtain db1 p1 where one: "reconcile_run P E stale_only now r (db, p) = (db1, p1)"
    by (cases "reconcile_run P E stale_only now r (db, p)")
  with Cons.prems have rest: "reconcile_runs P E stale_only now rs (db1, p1) = (db', p')"
    by (simp add: reconcile_runs_def)
  from reconcile_run_step [OF one] obtain I f where f: "I \<subseteq> {rn_run_id r}" "settles I f" "db_runs db1 = map f (db_runs db)"
    "same_identity db db1" "settled_ids p1 = settled_ids p + mset_set I" "\<not> stale_only \<longrightarrow> I = {rn_run_id r}"
    "rp_completed p1 = rp_completed p \<or> (rp_completed p1 = rp_completed p @ [rn_run_id r] \<and>
       has_runtime_completion P db (rn_run_id r) (rn_task_id r) (rn_claim_id r) (load_object (rn_receipt r)))" .
  from Cons.IH [OF rest] obtain J g where g: "settles J g" "db_runs db' = map g (db_runs db1)" "same_identity db1 db'"
    "J \<subseteq> rn_run_id ` set rs"
    "\<not> stale_only \<longrightarrow> J = rn_run_id ` set rs \<and> settled_ids p' = settled_ids p1 + mset (map rn_run_id rs)"
    "\<forall>i \<in> set (rp_completed p'). i \<in> set (rp_completed p1) \<or> completed_by P db1 rs i" by blast
  have comp: "completed_by P db (r # rs) i" if "i \<in> set (rp_completed p')" "i \<notin> set (rp_completed p)" for i
  proof (cases "completed_by P db1 rs i")
    case True
    then show ?thesis using has_completion_same [OF f(4)] by (auto simp: completed_by_def)
  next
    case False
    with g(6) that have "i \<in> set (rp_completed p1)" by blast
    with f(7) that(2) show ?thesis by (auto simp: completed_by_def)
  qed
  have "settles (I \<union> J) (g \<circ> f)" by (rule settles_compose [OF f(2) g(1)])
  moreover have "db_runs db' = map (g \<circ> f) (db_runs db)" using f(3) g(2) by simp
  moreover have "same_identity db db'" using f(4) g(3) by (rule same_identity_trans)
  moreover have "I \<union> J \<subseteq> rn_run_id ` set (r # rs)" using f(1) g(4) by auto
  moreover have "\<not> stale_only \<longrightarrow> I \<union> J = rn_run_id ` set (r # rs) \<and>
      settled_ids p' = settled_ids p + mset (map rn_run_id (r # rs))" using f(5,6) g(5) by auto
  ultimately show ?case using comp by blast
qed

lemma recover_claims_frame:
  "foldl (\<lambda>s c. recover_claim E now c s) (db, p) cs = (db', p') \<Longrightarrow>
     db_runs db' = db_runs db \<and> settled_ids p' = settled_ids p \<and> rp_completed p' = rp_completed p \<and>
     rp_quarantined p' = rp_quarantined p \<and> rp_requeued p' = rp_requeued p"
proof (induction cs arbitrary: db p)
  case (Cons c cs)
  obtain db1 p1 where one: "recover_claim E now c (db, p) = (db1, p1)" by (cases "recover_claim E now c (db, p)")
  with Cons.prems have rest: "foldl (\<lambda>s c. recover_claim E now c s) (db1, p1) cs = (db', p')" by simp
  show ?case using one Cons.IH [OF rest]
    by (auto simp: recover_claim_def settled_ids_def split: if_splits)
qed simp

lemma reconcile_pass:
  assumes "reconcile P E stale_only now db = (db', p')"
  obtains db1 p1 where "reconcile_runs P E stale_only now (filter in_flight (db_runs db)) (db, empty_report) = (db1, p1)"
    "db_runs db' = db_runs db1" "settled_ids p' = settled_ids p1" "rp_completed p' = rp_completed p1"
proof -
  obtain db1 p1 where one: "reconcile_runs P E stale_only now (filter in_flight (db_runs db)) (db, empty_report) = (db1, p1)"
    by (cases "reconcile_runs P E stale_only now (filter in_flight (db_runs db)) (db, empty_report)")
  with assms have "foldl (\<lambda>s c. recover_claim E now c s) (db1, p1)
      (filter (\<lambda>c. open_claim c \<and> cl_stale_after c \<noteq> None) (db_claims db1)) = (db', p')"
    by (simp add: reconcile_def reconcile_runs_def recover_stale_claims_def)
  from recover_claims_frame [OF this] one that show ?thesis by blast
qed

text \<open>
  C18: A boot pass settles every orphan once. After it no run is in flight and live, the runs it
  requeued, quarantined and completed are together exactly the runs that were in flight, each
  reported once, and every other run is unchanged.
\<close>

theorem boot_settles_orphans:
  assumes "reconcile P E False now db = (db', p)" and "distinct (map rn_run_id (db_runs db))"
  shows "(\<forall>r \<in> set (db_runs db'). \<not> in_flight r) \<and>
    mset (rp_requeued p @ rp_quarantined p @ rp_completed p) = mset (map rn_run_id (filter in_flight (db_runs db))) \<and>
    (\<forall>r \<in> set (db_runs db). \<not> in_flight r \<longrightarrow> r \<in> set (db_runs db'))"
proof -
  let ?rs = "filter in_flight (db_runs db)"
  from reconcile_pass [OF assms(1)] obtain db1 p1 where
    run: "reconcile_runs P E False now ?rs (db, empty_report) = (db1, p1)" and runs: "db_runs db' = db_runs db1"
    and ids: "settled_ids p = settled_ids p1" .
  from reconcile_runs_pass [OF run] obtain f where f: "settles (rn_run_id ` set ?rs) f" "db_runs db1 = map f (db_runs db)"
    "settled_ids p1 = settled_ids empty_report + mset (map rn_run_id ?rs)" by auto
  have "\<not> in_flight (f r)" if "r \<in> set (db_runs db)" for r
  proof (cases "in_flight r")
    case True
    with f(1) that show ?thesis by (auto simp: settles_def)
  next
    case False
    have "f r = r" if "rn_run_id r \<notin> rn_run_id ` set ?rs" using f(1) that by (simp add: settles_def)
    with f(1) False show ?thesis by (cases "rn_run_id r \<in> rn_run_id ` set ?rs") (auto simp: settles_def)
  qed
  moreover have "f r = r" if r: "r \<in> set (db_runs db)" "\<not> in_flight r" for r
  proof -
    have "rn_run_id r \<notin> rn_run_id ` set ?rs"
      using r assms(2) by (auto simp: distinct_map dest: inj_onD)
    with f(1) show ?thesis by (simp add: settles_def)
  qed
  ultimately show ?thesis using ids f(3) unfolding runs f(2)
    by (auto simp: settled_ids_def empty_report_def) (metis image_eqI)
qed

text \<open>Tables with one claim and one run, and times printed in unary.\<close>

definition demo_recon :: recon_env where
  "demo_recon = \<lparr>re_parse = (\<lambda>s. case s of [] \<Rightarrow> None | c # cs \<Rightarrow> Some (if c = 45 then - int (length cs) else int (length cs))),
     re_iso = (\<lambda>t. (if t < 0 then 45 else 43) # replicate (nat \<bar>t\<bar>) 49), re_max_retries = 3, re_default_window = 60000000\<rparr>"

definition demo_time :: "int \<Rightarrow> pystr" where "demo_time = re_iso demo_recon"

lemma demo_times [simp]: "demo_time t \<noteq> []" "parse_ts demo_recon (Some (demo_time t)) = Some t"
proof -
  show ne: "demo_time t \<noteq> []" by (simp add: demo_time_def demo_recon_def)
  have ch: "c \<in> {43, 45, 49}" if "c \<in> set (demo_time t)" for c
    using that by (auto simp: demo_time_def demo_recon_def split: if_splits)
  then have "\<not> py_space c" if "c \<in> set (demo_time t)" for c using that by (force simp: py_space_def)
  then have "strip (demo_time t) = demo_time t"
    using hd_in_set [OF ne] last_in_set [OF ne] ne by (simp add: strip_def dropWhile_hd hd_rev)
  moreover have "utc_suffix s = s" if "90 \<notin> set s" for s
    using that by (induction s) (auto simp: utc_suffix_def)
  moreover have "90 \<notin> set (demo_time t)" using ch by force
  ultimately show "parse_ts demo_recon (Some (demo_time t)) = Some t"
    using ne by (simp add: parse_ts_def) (simp add: demo_time_def demo_recon_def)
qed

definition demo_claim :: "int \<Rightarrow> claim_row" where
  "demo_claim n = \<lparr>cl_claim_id = [99], cl_task_id = [116], cl_agent_id = [97], cl_status = u ''running'',
     cl_claimed_at = demo_time 0, cl_acked_at = Some (demo_time 1), cl_heartbeat_at = None,
     cl_stale_after = Some (demo_time 6000000), cl_recovered_at = None, cl_retry_count = n, cl_metadata = None\<rparr>"

definition demo_run :: "json_column \<Rightarrow> run_row" where
  "demo_run receipt = \<lparr>rn_run_id = [114], rn_task_id = [116], rn_claim_id = [99], rn_assigned_to = [97],
     rn_status = u ''running'', rn_failure_code = [], rn_completed_at = None, rn_quarantined_at = None,
     rn_quarantine_reason = None, rn_metadata = None, rn_receipt = receipt\<rparr>"

definition demo_db :: "int \<Rightarrow> json_column \<Rightarrow> idempotency_row list \<Rightarrow> runtime_db" where
  "demo_db n receipt records = \<lparr>db_claims = [demo_claim n], db_runs = [demo_run receipt], db_records = records,
     db_claim_columns = [u ''claim_id'', u ''task_id'', u ''agent_id''],
     db_run_columns = [u ''run_id'', u ''task_id'', u ''claim_id'', u ''assigned_to'']\<rparr>"

lemma demo_in_flight [simp]: "in_flight (demo_run receipt)"
  by (simp add: in_flight_def demo_run_def live_row_def IN_FLIGHT_STATUSES_def)

lemma boot_settles_orphans_witness:
  "\<exists>db' p. reconcile demo_prims demo_recon False 9 (demo_db 0 None []) = (db', p) \<and>
     (\<forall>r \<in> set (db_runs db'). \<not> in_flight r) \<and>
     mset (rp_requeued p @ rp_quarantined p @ rp_completed p) = {#[114]#}"
proof -
  obtain db' p where run: "reconcile demo_prims demo_recon False 9 (demo_db 0 None []) = (db', p)"
    by (cases "reconcile demo_prims demo_recon False 9 (demo_db 0 None [])")
  have "distinct (map rn_run_id (db_runs (demo_db 0 None [])))" by (simp add: demo_db_def)
  from boot_settles_orphans [OF run this] run show ?thesis by (auto simp: demo_db_def) (simp add: demo_run_def)
qed

lemma authority_id_Some: "authority_id v = Some a \<Longrightarrow> v = PStr a \<and> strip a \<noteq> []"
  by (cases v) (auto split: if_splits)

lemma authority_id_PStr: "authority_id (PStr s) = Some a \<longleftrightarrow> s = a \<and> strip a \<noteq> []"
  by auto

text \<open>The runtime's own schema.\<close>

definition full_schema :: "runtime_db \<Rightarrow> bool" where
  "full_schema db \<longleftrightarrow> {u ''claim_id'', u ''task_id'', u ''agent_id''} \<subseteq> set (db_claim_columns db) \<and>
     {u ''run_id'', u ''task_id'', u ''claim_id'', u ''assigned_to''} \<subseteq> set (db_run_columns db)"

lemma has_completion_full:
  assumes "has_runtime_completion P db ri t ci receipt" and "full_schema db"
  obtains agent c r q where "c \<in> set (db_claims db)" "cl_claim_id c = ci" "cl_task_id c = t" "cl_agent_id c = agent"
    "strip agent \<noteq> []" "filter (\<lambda>r. rn_run_id r = ri) (db_runs db) = [r]" "rn_claim_id r = ci" "rn_task_id r = t"
    "rn_assigned_to r = agent" "vget receipt (u ''agent_id'') = PStr agent"
    "q \<in> set (db_records db)" "ir_run_id q = ri" "ir_task_id q = t" "ir_idempotency_key q \<noteq> []"
    "py_eq (vget (load_object (ir_metadata q)) (u ''receipt'')) (PDict receipt)"
    "record_status (str_entry P receipt (u ''status'')) = Some (ir_status q)"
proof -
  from assms(1) obtain expected attributes where e: "record_status (str_entry P receipt (u ''status'')) = Some expected"
    "vget receipt (u ''attributes'') = PDict attributes"
    "str_entry P attributes (u ''idempotency_key'') \<noteq> []"
    "claim_authorizes db ci t (authority_id (vget receipt (u ''agent_id'')))"
    "run_authorizes db ri t ci (authority_id (vget receipt (u ''agent_id'')))"
    "record_confirms db ri t (str_entry P receipt (u ''receipt_id'')) expected (str_entry P attributes (u ''idempotency_key''))
       (str_entry P attributes (u ''side_effect_key'')) receipt"
    unfolding has_runtime_completion_def Let_def by (auto split: if_splits option.splits pyval.splits)
  have cols: "u ''agent_id'' \<in> set (db_claim_columns db)" "u ''claim_id'' \<in> set (db_run_columns db)"
    "u ''assigned_to'' \<in> set (db_run_columns db)" using assms(2) by (simp_all add: full_schema_def)
  have "authority_id (vget receipt (u ''agent_id'')) \<noteq> None"
  proof
    assume "authority_id (vget receipt (u ''agent_id'')) = None"
    with e(4) cols show False by (auto simp: claim_authorizes_def simp del: authority_id.simps split: list.splits)
  qed
  then obtain agent where g: "authority_id (vget receipt (u ''agent_id'')) = Some agent" by blast
  from e(4) cols g obtain c where c: "filter (\<lambda>c. cl_claim_id c = ci) (db_claims db) = [c]" "cl_task_id c = t"
    "authority_id (vget receipt (u ''agent_id'')) = Some agent" "authority_id (PStr (cl_agent_id c)) = Some agent"
    by (auto simp: claim_authorizes_def simp del: authority_id.simps split: list.splits)
  from e(5) cols c(3) obtain r where r: "filter (\<lambda>r. rn_run_id r = ri) (db_runs db) = [r]" "rn_task_id r = t" "rn_claim_id r = ci"
    "authority_id (PStr (rn_assigned_to r)) = Some agent"
    by (auto simp: run_authorizes_def simp del: authority_id.simps split: list.splits)
  from e(6) obtain q where q: "q \<in> set (filter (\<lambda>q. ir_run_id q = ri \<and> ir_task_id q = t \<and>
      ir_receipt_id q = str_entry P receipt (u ''receipt_id'')) (db_records db))" "ir_status q = expected"
    "ir_idempotency_key q = str_entry P attributes (u ''idempotency_key'')"
    "py_eq (vget (load_object (ir_metadata q)) (u ''receipt'')) (PDict receipt)"
    by (auto simp: record_confirms_def simp del: set_filter split: list.splits)
  have "c \<in> set (filter (\<lambda>c. cl_claim_id c = ci) (db_claims db))" using c(1) by simp
  then have "c \<in> set (db_claims db)" "cl_claim_id c = ci" by simp_all
  then show ?thesis using c r q e(1,3) authority_id_Some [OF c(3)]
    by (intro that [of c agent r q]) (simp_all add: authority_id_PStr del: authority_id.simps)
qed

text \<open>
  C19: A run completes from a receipt only with full authority. On the runtime's schema a pass
  completes a run from its receipt only if a claim of the tables has the run's claim id and task,
  claim, run and receipt name one and the same non-blank agent, and an idempotency record of that
  run and task stores exactly this receipt; also after other runs of the same pass were settled.
\<close>

theorem completion_needs_authority:
  assumes "reconcile P E stale_only now db = (db', p)" and "i \<in> set (rp_completed p)" and "full_schema db"
  shows "\<exists>r c q agent receipt. r \<in> set (db_runs db) \<and> rn_run_id r = i \<and> in_flight r \<and> load_object (rn_receipt r) = receipt \<and>
    c \<in> set (db_claims db) \<and> cl_claim_id c = rn_claim_id r \<and> cl_task_id c = rn_task_id r \<and>
    strip agent \<noteq> [] \<and> cl_agent_id c = agent \<and> rn_assigned_to r = agent \<and> vget receipt (u ''agent_id'') = PStr agent \<and>
    q \<in> set (db_records db) \<and> ir_run_id q = i \<and> ir_task_id q = rn_task_id r \<and> ir_idempotency_key q \<noteq> [] \<and>
    py_eq (vget (load_object (ir_metadata q)) (u ''receipt'')) (PDict receipt)"
proof -
  let ?rs = "filter in_flight (db_runs db)"
  from reconcile_pass [OF assms(1)] obtain db1 p1 where
    run: "reconcile_runs P E stale_only now ?rs (db, empty_report) = (db1, p1)" and c: "rp_completed p = rp_completed p1" .
  from reconcile_runs_pass [OF run] assms(2) c have "completed_by P db ?rs i" by (auto simp: empty_report_def)
  then obtain r where r: "r \<in> set (db_runs db)" "in_flight r" "rn_run_id r = i"
    "has_runtime_completion P db i (rn_task_id r) (rn_claim_id r) (load_object (rn_receipt r))"
    by (auto simp: completed_by_def)
  from has_completion_full [OF r(4) assms(3)] obtain agent c r0 q where
    a: "c \<in> set (db_claims db)" "cl_claim_id c = rn_claim_id r" "cl_task_id c = rn_task_id r" "cl_agent_id c = agent"
    "strip agent \<noteq> []" "filter (\<lambda>r. rn_run_id r = i) (db_runs db) = [r0]" "rn_assigned_to r0 = agent"
    "vget (load_object (rn_receipt r)) (u ''agent_id'') = PStr agent"
    "q \<in> set (db_records db)" "ir_run_id q = i" "ir_task_id q = rn_task_id r" "ir_idempotency_key q \<noteq> []"
    "py_eq (vget (load_object (ir_metadata q)) (u ''receipt'')) (PDict (load_object (rn_receipt r)))" by metis
  have "r \<in> set (filter (\<lambda>r. rn_run_id r = i) (db_runs db))" using r by simp
  with a(6) have "r0 = r" by simp
  with a r show ?thesis by blast
qed

definition demo_receipt :: "(pyval \<times> pyval) list" where
  "demo_receipt = [(PStr (u ''receipt_id''), PStr (uuid_str 0)), (PStr (u ''task_id''), PStr [116]),
     (PStr (u ''claim_id''), PStr [99]), (PStr (u ''status''), PStr (u ''ok'')), (PStr (u ''agent_id''), PStr [97]),
     (PStr (u ''attributes''), PDict [(PStr (u ''run_id''), PStr [114]), (PStr (u ''idempotency_key''), PStr [107]),
       (PStr (u ''side_effect_key''), PStr [115])])]"

definition demo_confirmation :: idempotency_row where
  "demo_confirmation = \<lparr>ir_idempotency_key = [107], ir_side_effect_key = [115], ir_run_id = [114], ir_task_id = [116],
     ir_status = u ''completed'', ir_receipt_id = uuid_str 0, ir_metadata = Some (PDict [(PStr (u ''receipt''), PDict demo_receipt)])\<rparr>"

abbreviation demo_db1 :: runtime_db where
  "demo_db1 \<equiv> demo_db 0 (Some (PDict demo_receipt)) [demo_confirmation]"

lemma demo_completion: "has_runtime_completion demo_prims demo_db1 [114] [116] [99] demo_receipt"
proof -
  have e: "str_entry demo_prims demo_receipt (u ''receipt_id'') = uuid_str 0"
    "str_entry demo_prims demo_receipt (u ''task_id'') = [116]" "str_entry demo_prims demo_receipt (u ''claim_id'') = [99]"
    "str_entry demo_prims demo_receipt (u ''status'') = u ''ok''" "vget demo_receipt (u ''agent_id'') = PStr [97]"
    "vget demo_receipt (u ''attributes'') = PDict [(PStr (u ''run_id''), PStr [114]), (PStr (u ''idempotency_key''), PStr [107]),
       (PStr (u ''side_effect_key''), PStr [115])]"
    by (simp_all add: str_entry_def dget_def vget_def demo_receipt_def u_def)
  have s: "strip [97] = [97]" by (simp add: strip_def py_space_def)
  have "py_eq (PDict demo_receipt) (PDict demo_receipt)" by (simp add: demo_receipt_def u_def)
  then have "record_confirms demo_db1 [114] [116] (uuid_str 0) (u ''completed'') [107] [115] demo_receipt"
    by (simp add: record_confirms_def demo_db_def demo_confirmation_def load_object_def vget_def dget_def)
  moreover have "claim_authorizes demo_db1 [99] [116] (Some [97])"
    by (simp add: claim_authorizes_def demo_db_def demo_claim_def s)
  moreover have "run_authorizes demo_db1 [114] [116] [99] (Some [97])"
    by (simp add: run_authorizes_def demo_db_def demo_run_def s)
  moreover have "{u ''claim_id'', u ''task_id''} \<subseteq> set (db_claim_columns demo_db1)"
    "{u ''run_id'', u ''task_id''} \<subseteq> set (db_run_columns demo_db1)" by (simp_all add: demo_db_def)
  moreover have "is_ok (validate_uuid (uuid_str 0))" using validate_uuid_str [of 0] by simp
  moreover have "record_status (u ''ok'') = Some (u ''completed'')" by (simp add: record_status_def)
  moreover have "str_entry demo_prims [(PStr (u ''run_id''), PStr [114]), (PStr (u ''idempotency_key''), PStr [107]),
       (PStr (u ''side_effect_key''), PStr [115])] k =
      (if k = u ''run_id'' then [114] else if k = u ''idempotency_key'' then [107] else if k = u ''side_effect_key'' then [115] else [])" for k
    by (simp add: str_entry_def dget_def)
  ultimately show ?thesis
    by (simp add: has_runtime_completion_def Let_def e s) (simp add: u_def)
qed

lemma completion_needs_authority_witness:
  "\<exists>db' p. reconcile demo_prims demo_recon True 9 demo_db1 = (db', p) \<and> [114] \<in> set (rp_completed p) \<and>
     (\<exists>c \<in> set (db_claims demo_db1). cl_agent_id c = [97] \<and> cl_claim_id c = [99])"
proof -
  obtain db' p where run: "reconcile demo_prims demo_recon True 9 demo_db1 = (db', p)"
    by (cases "reconcile demo_prims demo_recon True 9 demo_db1")
  from reconcile_pass [OF run] obtain db1 p1 where
    one: "reconcile_runs demo_prims demo_recon True 9 (filter in_flight (db_runs demo_db1)) (demo_db1, empty_report) = (db1, p1)"
    and p: "rp_completed p = rp_completed p1" .
  have "filter in_flight (db_runs demo_db1) = [demo_run (Some (PDict demo_receipt))]" by (simp add: demo_db_def)
  moreover have "load_object (rn_receipt (demo_run (Some (PDict demo_receipt)))) = demo_receipt" "demo_receipt \<noteq> []"
    "rn_run_id (demo_run (Some (PDict demo_receipt))) = [114]" "rn_task_id (demo_run (Some (PDict demo_receipt))) = [116]"
    "rn_claim_id (demo_run (Some (PDict demo_receipt))) = [99]"
    by (simp_all add: demo_run_def load_object_def) (simp add: demo_receipt_def)
  ultimately have "rp_completed p1 = [[114]]"
    using one demo_completion by (auto simp: reconcile_runs_def reconcile_run_def Let_def empty_report_def)
  then have "[114] \<in> set (rp_completed p)" using p by simp
  moreover have "full_schema demo_db1" by (simp add: full_schema_def demo_db_def)
  ultimately show ?thesis
    using completion_needs_authority [OF run, of "[114]"] run by (auto simp: demo_db_def demo_claim_def demo_run_def)
qed

section \<open>Retries\<close>

lemma find_map_same:
  "(\<And>x. Q (f x) = Q x) \<Longrightarrow> find Q (map f xs) = map_option f (find Q xs)"
  by (induction xs) auto

lemma stamped_claim:
  assumes "fetch_claim db i = Some c"
  shows "fetch_claim (stamp_claim_recovered E i now n reason db) i =
    Some (c\<lparr>cl_status := u ''recovered'', cl_recovered_at := Some (re_iso E now), cl_retry_count := n,
      cl_metadata := set_entry (u ''recovery_reason'') (PStr reason) (cl_metadata c)\<rparr>)"
proof -
  have "cl_claim_id c = i" using assms by (auto simp: fetch_claim_def find_Some_iff)
  with assms show ?thesis
    by (simp add: stamp_claim_recovered_def fetch_claim_def update_claim_def find_map_same)
qed

text \<open>
  C20: Retries are counted and limited. Settling an orphaned run whose claim matches ends the run as
  failed and recovers the claim with one more retry; the run is quarantined exactly when its
  dispatch had started and the retries are used up, and otherwise requeued with the new count.
\<close>

theorem orphan_settled_by_retries:
  assumes "reconcile_run P E stale_only now r (db, p) = (db', p')" and "r \<in> set (db_runs db)"
    and "\<not> has_runtime_completion P db (rn_run_id r) (rn_task_id r) (rn_claim_id r) (load_object (rn_receipt r))"
    and "claim_of_run db r = Some c" and "\<not> stale_only \<or> claim_is_stale E (Some c) now"
  shows "\<exists>r' c'. r' \<in> set (db_runs db') \<and> rn_run_id r' = rn_run_id r \<and> rn_status r' = u ''failed'' \<and>
    rn_failure_code r' = (if started (Some c) then FAILURE_CODE_DIED_MID_DISPATCH else FAILURE_CODE_NEVER_STARTED) \<and>
    (if started (Some c) \<and> re_max_retries E \<le> cl_retry_count c
     then rn_quarantined_at r' = Some (re_iso E now) \<and> rn_quarantine_reason r' = Some QUARANTINE_REASON \<and>
       rp_quarantined p' = rp_quarantined p @ [rn_run_id r] \<and> rp_requeued p' = rp_requeued p
     else rn_quarantined_at r' = rn_quarantined_at r \<and> rp_quarantined p' = rp_quarantined p \<and>
       vget (load_object (rn_metadata r')) (u ''retry_count'') = PInt (cl_retry_count c + 1) \<and>
       rp_requeued p' = rp_requeued p @ [rn_run_id r]) \<and>
    fetch_claim db' (rn_claim_id r) = Some c' \<and> cl_status c' = u ''recovered'' \<and>
    cl_retry_count c' = cl_retry_count c + 1 \<and> rp_recovered p' = rp_recovered p @ [rn_claim_id r]"
proof -
  have fc: "fetch_claim db (rn_claim_id r) = Some c"
    using assms(4) by (auto simp: claim_of_run_def split: if_splits option.splits)
  have fr: "fetch_claim (update_run i f db) j = fetch_claim db j" for i f j
    by (simp add: fetch_claim_def)
  have q: "vget (load_object (set_entry (u ''last_failure_source'') x (set_entry (u ''retry_count'') y z))) (u ''retry_count'') = y"
    for x y z by (simp add: set_entry_def load_object_def vget_def dget_def u_def)
  have run: "settle_orphan E now r (Some c) (db, p) = (db', p')"
    using assms(1,3,4,5) by (simp add: reconcile_run_def Let_def split: if_splits)
  show ?thesis
  proof (cases "started (Some c) \<and> re_max_retries E \<le> cl_retry_count c")
    case True
    let ?db = "quarantine_run E r now (failure_code (Some c)) db"
    have db': "db' = stamp_claim_recovered E (rn_claim_id r) now (cl_retry_count c + 1) (failure_code (Some c)) ?db"
      and p': "p' = p\<lparr>rp_quarantined := rp_quarantined p @ [rn_run_id r], rp_recovered := rp_recovered p @ [rn_claim_id r]\<rparr>"
      using run True by (simp_all add: settle_orphan_def retries_def Let_def)
    have "fetch_claim ?db (rn_claim_id r) = Some c" by (simp add: quarantine_run_def fr fc)
    note claim = stamped_claim [OF this, of E now "cl_retry_count c + 1" "failure_code (Some c)"]
    show ?thesis unfolding db' claim using True assms(2)
      by (auto simp: p' quarantine_run_def failure_code_def intro!: image_eqI [OF _ assms(2)])
  next
    case False
    let ?db = "requeue_run E r now (failure_code (Some c)) (cl_retry_count c + 1) db"
    have db': "db' = stamp_claim_recovered E (rn_claim_id r) now (cl_retry_count c + 1) (failure_code (Some c)) ?db"
      and p': "p' = p\<lparr>rp_requeued := rp_requeued p @ [rn_run_id r], rp_recovered := rp_recovered p @ [rn_claim_id r]\<rparr>"
      using run False by (auto simp: settle_orphan_def retries_def Let_def)
    have "fetch_claim ?db (rn_claim_id r) = Some c" by (simp add: requeue_run_def fr fc)
    note claim = stamped_claim [OF this, of E now "cl_retry_count c + 1" "failure_code (Some c)"]
    show ?thesis unfolding db' claim using False assms(2)
      by (auto simp: p' requeue_run_def failure_code_def q intro!: image_eqI [OF _ assms(2)])
  qed
qed

lemma orphan_settled_by_retries_witness:
  "\<exists>db' p. reconcile_run demo_prims demo_recon False 9 (demo_run None) (demo_db 3 None [], empty_report) = (db', p) \<and>
     rp_quarantined p = [[114]] \<and> (\<exists>c. fetch_claim db' [99] = Some c \<and> cl_retry_count c = 4)"
proof -
  let ?r = "demo_run None" and ?db = "demo_db 3 None []"
  obtain db' p where run: "reconcile_run demo_prims demo_recon False 9 ?r (?db, empty_report) = (db', p)"
    by (cases "reconcile_run demo_prims demo_recon False 9 ?r (?db, empty_report)")
  have r: "?r \<in> set (db_runs ?db)" by (simp add: demo_db_def)
  have no: "\<not> has_runtime_completion demo_prims ?db (rn_run_id ?r) (rn_task_id ?r) (rn_claim_id ?r) (load_object (rn_receipt ?r))"
    by (simp add: demo_run_def load_object_def has_runtime_completion_def str_entry_def dget_def Let_def)
  have c: "claim_of_run ?db ?r = Some (demo_claim 3)"
    by (simp add: claim_of_run_def fetch_claim_def claim_run_match_def demo_db_def demo_claim_def demo_run_def strip_def py_space_def)
  have "started (Some (demo_claim 3))" "re_max_retries demo_recon \<le> cl_retry_count (demo_claim 3)"
    by (simp_all add: started_def demo_claim_def demo_recon_def)
  with orphan_settled_by_retries [OF run r no c] run show ?thesis
    by (auto simp: empty_report_def) (simp_all add: demo_run_def demo_claim_def)
qed

section \<open>Heartbeats keep claims alive\<close>

text \<open>The rows after the heartbeats: those that were due are stamped.\<close>

lemma heartbeat_rows:
  "db_claims (foldl (\<lambda>db c. heartbeat_claim E clock (cl_claim_id c) db) db cs) =
     map (\<lambda>x. if cl_claim_id x \<in> cl_claim_id ` set cs then x\<lparr>cl_heartbeat_at := Some (re_iso E clock)\<rparr> else x) (db_claims db)"
  by (induction cs arbitrary: db) (auto simp: heartbeat_claim_def update_claim_def)



end
