(* ===== verification/TcbFrontend.thy ===== *)
theory TcbFrontend
  imports PyVal
begin

text \<open>
  The frontend of the purity verifier
  (src/packages/titanium-verify/titanium_verify/frontend.py): from the abstract syntax of a
  package's files to a list of modules with their functions, import aliases and effect tags;
  a function outside the supported dialect is rejected with a reason.

  A syntax tree has a constructor for each node class the verifier looks at; \<open>ANode\<close> is any
  other node with its child nodes, in the order of the fields of its class. Nodes without
  children that the verifier never looks at (operators, load and store contexts) are left out.
  Parsing a file's text and printing a tree (\<open>ast.parse\<close>, \<open>ast.unparse\<close>) are outside: a file
  is given by the outcome of its parsing and the text of an annotation by a parameter.
\<close>

section \<open>Syntax trees\<close>

datatype ast =
    AName pystr
  | AAttribute ast pystr
  | ACall ast "ast list" "ast list"
  | AKeyword "pystr option" ast
  | AStr pystr
  | ALambda "ast list"
  | AGlobal "pystr list"
  | ANonlocal "pystr list"
  | AImport "(pystr \<times> pystr option) list"
  | AImportFrom "pystr option" "(pystr \<times> pystr option) list" nat
  | AArg pystr "ast list"
  | AArguments "ast list" "ast list" "ast list"
  | AFunctionDef pystr ast "ast list" "ast list" "ast list"
  | AClassDef pystr "ast list" "ast list" "ast list"
  | ANode "ast list"

text \<open>
  \<open>AStr\<close> is a constant whose value is a string; other constants are nodes without children.
  \<open>AArg\<close> holds its annotation, if any. \<open>AArguments\<close> holds the positional-only arguments,
  the arguments proper and the rest (star arguments, keyword-only arguments, defaults).
  \<open>AFunctionDef\<close>, also for \<open>async def\<close>, holds its arguments, body, decorators and return
  annotation, if any; \<open>AClassDef\<close> its bases and keywords, body and decorators.
\<close>

fun children :: "ast \<Rightarrow> ast list" where
  "children (AName _) = []"
| "children (AAttribute v _) = [v]"
| "children (ACall f args kws) = f # args @ kws"
| "children (AKeyword _ v) = [v]"
| "children (AStr _) = []"
| "children (ALambda ns) = ns"
| "children (AGlobal _) = []"
| "children (ANonlocal _) = []"
| "children (AImport _) = []"
| "children (AImportFrom _ _ _) = []"
| "children (AArg _ ann) = ann"
| "children (AArguments pos args rest) = pos @ args @ rest"
| "children (AFunctionDef _ a body decs rets) = a # body @ decs @ rets"
| "children (AClassDef _ bases body decs) = bases @ body @ decs"
| "children (ANode ns) = ns"

text \<open>\<open>ast.walk\<close> visits a tree breadth first: it takes the first node of a queue and appends
  the node's children to it.\<close>

lemma children_size: "size_list size (children n) \<le> size n"
  by (cases n) (simp_all add: size_list_append)

lemma size_list_member: "c \<in> set ns \<Longrightarrow> Suc (size c) \<le> size_list size ns"
  by (induction ns) auto

lemma child_smaller: "c \<in> set (children n) \<Longrightarrow> size c < size n"
  using children_size [of n] size_list_member [of c "children n"] by simp

function walk_queue :: "ast list \<Rightarrow> ast list" where
  "walk_queue [] = []"
| "walk_queue (n # q) = n # walk_queue (q @ children n)"
  by pat_completeness auto
termination
proof (relation "measure (size_list size)")
  fix n :: ast and q
  show "(q @ children n, n # q) \<in> measure (size_list size)"
    using children_size [of n] by (simp add: size_list_append)
qed simp

definition walk :: "ast \<Rightarrow> ast list" where
  "walk n = walk_queue [n]"

section \<open>Strings\<close>

definition endswith :: "pystr \<Rightarrow> pystr \<Rightarrow> bool" where
  "endswith s p \<longleftrightarrow> startswith (rev s) (rev p)"

definition removesuffix :: "pystr \<Rightarrow> pystr \<Rightarrow> pystr" where
  "removesuffix s p = (if p \<noteq> [] \<and> endswith s p then take (length s - length p) s else s)"

text \<open>\<open>p in s\<close> for strings, and \<open>s.replace(a, b)\<close> of one character by another.\<close>

fun contains_str :: "pystr \<Rightarrow> pystr \<Rightarrow> bool" where
  "contains_str p [] \<longleftrightarrow> p = []"
| "contains_str p (c # s) \<longleftrightarrow> startswith (c # s) p \<or> contains_str p s"

definition replace_char :: "nat \<Rightarrow> nat \<Rightarrow> pystr \<Rightarrow> pystr" where
  "replace_char a b s = map (\<lambda>c. if c = a then b else c) s"

definition dotted :: "pystr list \<Rightarrow> pystr" where
  "dotted parts = join_str (u ''.'') parts"

definition split_dots :: "pystr \<Rightarrow> pystr list" where
  "split_dots s = split_on 46 s"

section \<open>Functions and modules\<close>

definition ALLOWED_DECORATORS :: "pystr list" where
  "ALLOWED_DECORATORS = [u ''dataclass'', u ''frozen'', u ''staticmethod'', u ''classmethod'',
     u ''property'', u ''abstractmethod'', u ''abc.abstractmethod'', u ''effect'',
     u ''field_validator'', u ''model_validator'', u ''cached_property'', u ''override'',
     u ''require'', u ''ensure'', u ''invariant'', u ''icontract.require'', u ''icontract.ensure'',
     u ''icontract.invariant'']"

record tcb_function =
  fn_qualname :: pystr
  fn_module :: pystr
  fn_name :: pystr
  fn_args :: "(pystr \<times> pystr option) list"
  fn_returns :: "pystr option"
  fn_decorators :: "pystr list"
  fn_tags :: "pystr list"
  fn_body :: "ast list"
  fn_aliases :: "(pystr, pystr) dict"
  fn_rejected :: "pystr option"

text \<open>The tags of a function are a set in the code: here a list without repetitions.\<close>

definition is_rejected :: "tcb_function \<Rightarrow> bool" where
  "is_rejected f \<longleftrightarrow> fn_rejected f \<noteq> None"

record tcb_module =
  tm_name :: pystr
  tm_path :: pystr
  tm_rim :: bool
  tm_imports :: "pystr list"
  tm_aliases :: "(pystr, pystr) dict"
  tm_functions :: "tcb_function list"

fun decorator_name :: "ast \<Rightarrow> pystr" where
  "decorator_name (AName i) = i"
| "decorator_name (AAttribute v a) = decorator_name v @ u ''.'' @ a"
| "decorator_name (ACall f _ _) = decorator_name f"
| "decorator_name _ = u ''<complex-decorator>''"

fun effect_tag :: "ast \<Rightarrow> pystr list" where
  "effect_tag (AAttribute (AName i) a) = (if i = u ''Effect'' then [a] else [])"
| "effect_tag _ = []"

fun decorator_tags :: "ast \<Rightarrow> pystr list" where
  "decorator_tags (ACall f args _) =
     (if endswith (decorator_name f) (u ''effect'') then concat (map effect_tag args) else [])"
| "decorator_tags _ = []"

definition effect_tags_from_decorators :: "ast list \<Rightarrow> pystr list" where
  "effect_tags_from_decorators ds = remdups (concat (map decorator_tags ds))"

text \<open>
  The aliases of the imports below a list of statements. \<open>import a.b\<close> without a name binds
  the first segment \<open>a\<close>, and the code maps it to the whole \<open>a.b\<close>.
\<close>

fun add_import :: "(pystr, pystr) dict \<Rightarrow> pystr \<times> pystr option \<Rightarrow> (pystr, pystr) dict" where
  "add_import aliases (name, None) = dset (hd (split_dots name)) name aliases"
| "add_import aliases (name, Some local) = dset local name aliases"

fun add_import_from :: "pystr \<Rightarrow> (pystr, pystr) dict \<Rightarrow> pystr \<times> pystr option \<Rightarrow> (pystr, pystr) dict" where
  "add_import_from m aliases (name, asname) =
     (if name = u ''*'' then aliases
      else dset (case asname of None \<Rightarrow> name | Some local \<Rightarrow> local) (m @ u ''.'' @ name) aliases)"

fun node_imports :: "(pystr, pystr) dict \<Rightarrow> ast \<Rightarrow> (pystr, pystr) dict" where
  "node_imports aliases (AImport names) = foldl add_import aliases names"
| "node_imports aliases (AImportFrom m names level) =
     (case m of
        None \<Rightarrow> aliases
      | Some md \<Rightarrow> if level \<noteq> 0 \<or> md = [] then aliases else foldl (add_import_from md) aliases names)"
| "node_imports aliases _ = aliases"

definition import_aliases :: "ast list \<Rightarrow> (pystr, pystr) dict" where
  "import_aliases stmts = foldl node_imports [] (concat (map walk stmts))"

text \<open>
  The visitor of \<open>_check_forbidden\<close> goes depth first and stops at the first construct it does
  not support.
\<close>

fun own_reason :: "ast \<Rightarrow> pystr option" where
  "own_reason (ACall (AName i) _ _) =
     (if i \<in> {u ''eval'', u ''exec'', u ''compile'', u ''__import__''}
      then Some (u ''forbidden call: '' @ i @ u ''(...)'') else None)"
| "own_reason (ALambda _) = Some (u ''lambda not supported in TCB dialect'')"
| "own_reason (AGlobal _) = Some (u ''global statement not supported'')"
| "own_reason (ANonlocal _) = Some (u ''nonlocal statement not supported'')"
| "own_reason _ = None"

fun first_some :: "'a option list \<Rightarrow> 'a option" where
  "first_some [] = None"
| "first_some (None # xs) = first_some xs"
| "first_some (Some x # xs) = Some x"

function forbidden :: "ast \<Rightarrow> pystr option" where
  "forbidden n = (case own_reason n of Some r \<Rightarrow> Some r | None \<Rightarrow> first_some (map forbidden (children n)))"
  by pat_completeness auto
termination
  by (relation "measure size") (auto dest: child_smaller)

declare forbidden.simps [simp del]

definition check_forbidden :: "ast list \<Rightarrow> pystr option" where
  "check_forbidden stmts = first_some (map forbidden stmts)"

definition decorator_reason :: "pystr list \<Rightarrow> pystr option" where
  "decorator_reason decs =
     first_some (map (\<lambda>d. if last (split_dots d) \<notin> set ALLOWED_DECORATORS \<and> d \<notin> set ALLOWED_DECORATORS
                          then Some (u ''unsupported decorator: '' @ d) else None) decs)"

fun positional_args :: "ast \<Rightarrow> ast list" where
  "positional_args (AArguments _ args _) = args"
| "positional_args _ = []"

fun annotation_text :: "(ast \<Rightarrow> pystr option) \<Rightarrow> ast list \<Rightarrow> pystr option" where
  "annotation_text unparse [] = None"
| "annotation_text unparse (a # _) = unparse a"

fun arg_of :: "(ast \<Rightarrow> pystr option) \<Rightarrow> ast \<Rightarrow> (pystr \<times> pystr option) list" where
  "arg_of unparse (AArg name ann) = [(name, annotation_text unparse ann)]"
| "arg_of unparse _ = []"

definition extract_function ::
    "(ast \<Rightarrow> pystr option) \<Rightarrow> pystr \<Rightarrow> pystr option \<Rightarrow> pystr \<Rightarrow> ast \<Rightarrow> ast list \<Rightarrow> ast list \<Rightarrow> ast list \<Rightarrow> tcb_function"
where
  "extract_function unparse module_name class_name name args body decs rets =
     (let decorators = map decorator_name decs in
      \<lparr>fn_qualname = dotted (module_name # (case class_name of None \<Rightarrow> [] | Some c \<Rightarrow> [c]) @ [name]),
       fn_module = module_name, fn_name = name,
       fn_args = concat (map (arg_of unparse) (positional_args args)),
       fn_returns = annotation_text unparse rets,
       fn_decorators = decorators,
       fn_tags = effect_tags_from_decorators decs,
       fn_body = body,
       fn_aliases = import_aliases body,
       fn_rejected = (case decorator_reason decorators of Some r \<Rightarrow> Some r | None \<Rightarrow> check_forbidden body)\<rparr>)"

fun def_functions :: "(ast \<Rightarrow> pystr option) \<Rightarrow> pystr \<Rightarrow> pystr option \<Rightarrow> ast \<Rightarrow> tcb_function list" where
  "def_functions unparse m cls (AFunctionDef name args body decs rets) =
     [extract_function unparse m cls name args body decs rets]"
| "def_functions unparse m cls _ = []"

fun top_functions :: "(ast \<Rightarrow> pystr option) \<Rightarrow> pystr \<Rightarrow> ast \<Rightarrow> tcb_function list" where
  "top_functions unparse m (AClassDef name _ body _) = concat (map (def_functions unparse m (Some name)) body)"
| "top_functions unparse m n = def_functions unparse m None n"

definition module_functions :: "(ast \<Rightarrow> pystr option) \<Rightarrow> ast list \<Rightarrow> pystr \<Rightarrow> tcb_function list" where
  "module_functions unparse tree m = concat (map (top_functions unparse m) tree)"

fun import_roots :: "ast \<Rightarrow> pystr list" where
  "import_roots (AImport names) = map (\<lambda>(name, _). hd (split_dots name)) names"
| "import_roots (AImportFrom m _ _) =
     (case m of None \<Rightarrow> [] | Some md \<Rightarrow> if md = [] then [] else [hd (split_dots md)])"
| "import_roots _ = []"

definition module_imports :: "ast list \<Rightarrow> pystr list" where
  "module_imports tree = sort (remdups (concat (map import_roots tree)))"

section \<open>Packages\<close>

text \<open>
  A package is its Python files in sorted order of their paths: the path below the root, with
  slashes, and the outcome of parsing the file.
\<close>

datatype parsed = SyntaxFailure pystr | Parsed "ast list"

definition kept_file :: "pystr \<Rightarrow> bool" where
  "kept_file rel \<longleftrightarrow>
     \<not> (contains_str (u ''/tests/'') (u ''/'' @ rel) \<or> startswith rel (u ''tests/'')) \<and>
     \<not> contains_str (u ''__pycache__'') rel"

definition dotted_name :: "pystr \<Rightarrow> pystr \<Rightarrow> pystr" where
  "dotted_name pkg rel =
     removesuffix (pkg @ u ''.'' @ replace_char 47 46 (removesuffix rel (u ''.py''))) (u ''.__init__'')"

definition is_rim_path :: "pystr \<Rightarrow> bool" where
  "is_rim_path rel \<longleftrightarrow> contains_str (u ''/_io/'') (u ''/'' @ rel) \<or> startswith rel (u ''_io/'')"

definition unparsed_function :: "pystr \<Rightarrow> pystr \<Rightarrow> tcb_function" where
  "unparsed_function name msg =
     \<lparr>fn_qualname = name, fn_module = name, fn_name = u ''<module>'', fn_args = [], fn_returns = None,
      fn_decorators = [], fn_tags = [], fn_body = [], fn_aliases = [],
      fn_rejected = Some (u ''SyntaxError: '' @ msg)\<rparr>"

fun parse_file :: "(ast \<Rightarrow> pystr option) \<Rightarrow> pystr \<Rightarrow> pystr \<times> parsed \<Rightarrow> tcb_module" where
  "parse_file unparse pkg (rel, SyntaxFailure msg) =
     \<lparr>tm_name = dotted_name pkg rel, tm_path = rel, tm_rim = is_rim_path rel, tm_imports = [],
      tm_aliases = [], tm_functions = [unparsed_function (dotted_name pkg rel) msg]\<rparr>"
| "parse_file unparse pkg (rel, Parsed tree) =
     \<lparr>tm_name = dotted_name pkg rel, tm_path = rel, tm_rim = is_rim_path rel,
      tm_imports = module_imports tree, tm_aliases = import_aliases tree,
      tm_functions = module_functions unparse tree (dotted_name pkg rel)\<rparr>"

definition parse_package ::
    "(ast \<Rightarrow> pystr option) \<Rightarrow> (pystr \<times> parsed) list \<Rightarrow> pystr \<Rightarrow> tcb_module list" where
  "parse_package unparse files pkg =
     map (parse_file unparse pkg) (filter (\<lambda>(rel, _). kept_file rel) files)"

end
