(* ===== verification/TcbEffects.thy ===== *)
theory TcbEffects
  imports TcbFrontend
begin

text \<open>
  The effect analysis of the purity verifier
  (src/packages/titanium-verify/titanium_verify/effects.py): the effects of a function's own
  calls by the dotted names they resolve to, joined with the effects its decorators declare.
\<close>

section \<open>Effect sets\<close>

datatype effect = PURE | FS_READ | FS_WRITE | NET | SUBPROCESS | NONDETERMINISTIC

lemma UNIV_effect: "(UNIV :: effect set) = {PURE, FS_READ, FS_WRITE, NET, SUBPROCESS, NONDETERMINISTIC}"
  using effect.exhaust by auto

instantiation effect :: enum
begin

definition "enum_effect = [PURE, FS_READ, FS_WRITE, NET, SUBPROCESS, NONDETERMINISTIC]"

definition "enum_all_effect P \<longleftrightarrow>
  P PURE \<and> P FS_READ \<and> P FS_WRITE \<and> P NET \<and> P SUBPROCESS \<and> P NONDETERMINISTIC"

definition "enum_ex_effect P \<longleftrightarrow>
  P PURE \<or> P FS_READ \<or> P FS_WRITE \<or> P NET \<or> P SUBPROCESS \<or> P NONDETERMINISTIC"

instance
proof
  show "(UNIV :: effect set) = set enum_class.enum"
    by (simp add: enum_effect_def UNIV_effect)
  show "distinct (enum_class.enum :: effect list)"
    by (simp_all add: enum_effect_def)
  show "enum_class.enum_all P \<longleftrightarrow> Ball (UNIV :: effect set) P" for P
    by (simp add: enum_all_effect_def UNIV_effect)
  show "enum_class.enum_ex P \<longleftrightarrow> Bex (UNIV :: effect set) P" for P
    by (simp add: enum_ex_effect_def UNIV_effect)
qed

end

fun effect_name :: "effect \<Rightarrow> pystr" where
  "effect_name PURE = u ''PURE''"
| "effect_name FS_READ = u ''FS_READ''"
| "effect_name FS_WRITE = u ''FS_WRITE''"
| "effect_name NET = u ''NET''"
| "effect_name SUBPROCESS = u ''SUBPROCESS''"
| "effect_name NONDETERMINISTIC = u ''NONDETERMINISTIC''"

text \<open>\<open>Effect.__members__.get(tag)\<close>, which \<open>Effect(tag)\<close> turns into a \<open>ValueError\<close>
  when there is none.\<close>

definition effect_of_name :: "pystr \<Rightarrow> effect option" where
  "effect_of_name tag = List.find (\<lambda>e. effect_name e = tag) enum_class.enum"

definition is_pure :: "effect set \<Rightarrow> bool" where
  "is_pure es \<longleftrightarrow> es = {} \<or> es = {PURE}"

definition join_effects :: "effect set \<Rightarrow> effect set \<Rightarrow> effect set" where
  "join_effects a b = (let merged = (a \<union> b) - {PURE} in if merged = {} then {PURE} else merged)"

section \<open>The effect of a call\<close>

text \<open>The tables are looked up in the order they are written.\<close>

definition MODULE_EFFECTS :: "(pystr, effect) dict" where
  "MODULE_EFFECTS = [(u ''open'', FS_WRITE), (u ''os'', FS_WRITE), (u ''os.path'', FS_READ),
     (u ''pathlib'', FS_READ), (u ''shutil'', FS_WRITE), (u ''subprocess'', SUBPROCESS),
     (u ''socket'', NET), (u ''urllib'', NET), (u ''urllib.request'', NET), (u ''http'', NET),
     (u ''requests'', NET), (u ''httpx'', NET), (u ''random'', NONDETERMINISTIC),
     (u ''time'', NONDETERMINISTIC), (u ''datetime'', PURE), (u ''tempfile'', FS_WRITE),
     (u ''yaml'', FS_READ), (u ''json'', PURE), (u ''hashlib'', PURE), (u ''hmac'', PURE),
     (u ''secrets'', NONDETERMINISTIC)]"

definition QUALIFIED_EFFECTS :: "(pystr, effect) dict" where
  "QUALIFIED_EFFECTS = [(u ''datetime.datetime.now'', NONDETERMINISTIC),
     (u ''datetime.date.today'', NONDETERMINISTIC), (u ''os.path.exists'', FS_READ),
     (u ''os.path.join'', PURE), (u ''os.path.dirname'', PURE), (u ''os.path.basename'', PURE),
     (u ''os.environ.get'', NONDETERMINISTIC), (u ''uuid.UUID'', PURE),
     (u ''uuid.uuid4'', NONDETERMINISTIC), (u ''uuid.uuid1'', NONDETERMINISTIC),
     (u ''uuid.uuid3'', PURE), (u ''uuid.uuid5'', PURE)]"

fun target_parts :: "ast \<Rightarrow> pystr list option" where
  "target_parts (AName i) = Some [i]"
| "target_parts (AAttribute v a) = map_option (\<lambda>ps. ps @ [a]) (target_parts v)"
| "target_parts _ = None"

definition apply_alias :: "(pystr, pystr) dict \<Rightarrow> pystr list \<Rightarrow> pystr list" where
  "apply_alias aliases parts =
     (case map_of aliases (hd parts) of None \<Rightarrow> parts | Some full \<Rightarrow> split_dots full @ tl parts)"

definition resolve_call_target :: "(pystr, pystr) dict \<Rightarrow> ast \<Rightarrow> pystr option" where
  "resolve_call_target aliases f = map_option (\<lambda>ps. dotted (apply_alias aliases ps)) (target_parts f)"

fun keyword_mode :: "pystr \<Rightarrow> ast \<Rightarrow> pystr" where
  "keyword_mode mode (AKeyword arg (AStr s)) = (if arg = Some (u ''mode'') then s else mode)"
| "keyword_mode mode _ = mode"

definition effect_of_open_call :: "ast list \<Rightarrow> ast list \<Rightarrow> effect set" where
  "effect_of_open_call args kws =
     (let positional = (case args of _ # AStr s # _ \<Rightarrow> s | _ \<Rightarrow> u ''r'');
          mode = foldl keyword_mode positional kws in
      if \<exists>flag \<in> {u ''w'', u ''a'', u ''x'', u ''+''}. contains_str flag mode
      then {FS_WRITE} else {FS_READ})"

fun module_effect :: "(pystr, effect) dict \<Rightarrow> pystr \<Rightarrow> effect set" where
  "module_effect [] target = {PURE}"
| "module_effect ((pre, eff) # table) target =
     (if target = pre \<or> startswith target (pre @ u ''.'') then {eff} else module_effect table target)"

definition syntactic_effect_of_call ::
    "(pystr, pystr) dict \<Rightarrow> ast \<Rightarrow> ast list \<Rightarrow> ast list \<Rightarrow> effect set" where
  "syntactic_effect_of_call aliases f args kws =
     (case resolve_call_target aliases f of
        None \<Rightarrow> {PURE}
      | Some target \<Rightarrow>
          if target = u ''open'' then effect_of_open_call args kws
          else if target = u ''input'' then {NONDETERMINISTIC}
          else if target = u ''print'' then {NONDETERMINISTIC}
          else case map_of QUALIFIED_EFFECTS target of
            Some e \<Rightarrow> {e}
          | None \<Rightarrow> module_effect MODULE_EFFECTS target)"

section \<open>The effects of functions\<close>

fun node_effect :: "(pystr, pystr) dict \<Rightarrow> effect set \<Rightarrow> ast \<Rightarrow> effect set" where
  "node_effect aliases eff (ACall f args kws) =
     join_effects eff (syntactic_effect_of_call aliases f args kws)"
| "node_effect aliases eff _ = eff"

text \<open>\<open>dict(module_aliases)\<close> updated with the function's own aliases.\<close>

definition all_aliases :: "tcb_function \<Rightarrow> (pystr, pystr) dict \<Rightarrow> (pystr, pystr) dict" where
  "all_aliases f module_aliases = foldl (\<lambda>d (k, v). dset k v d) module_aliases (fn_aliases f)"

definition local_effect :: "tcb_function \<Rightarrow> (pystr, pystr) dict \<Rightarrow> effect set" where
  "local_effect f module_aliases =
     foldl (node_effect (all_aliases f module_aliases)) {PURE} (concat (map walk (fn_body f)))"

definition effect_of_tag :: "pystr \<Rightarrow> pyexc + effect" where
  "effect_of_tag tag =
     (case effect_of_name tag of Some e \<Rightarrow> Inr e | None \<Rightarrow> Inl (ValueError (tag @ u '' is not a valid Effect'')))"

definition declared_effects :: "tcb_function \<Rightarrow> pyexc + effect set" where
  "declared_effects f =
     (if fn_tags f = [] then Inr {PURE} else emap set (etraverse effect_of_tag (fn_tags f)))"

record effect_analysis =
  ea_per_function :: "(pystr, effect set) dict"
  ea_rim :: "pystr list"

definition effect_of :: "effect_analysis \<Rightarrow> pystr \<Rightarrow> effect set" where
  "effect_of ea q = dget (ea_per_function ea) q {PURE}"

definition is_pure_function :: "effect_analysis \<Rightarrow> pystr \<Rightarrow> bool" where
  "is_pure_function ea q \<longleftrightarrow> is_pure (effect_of ea q)"

definition analyze_function :: "tcb_module \<Rightarrow> effect_analysis \<Rightarrow> tcb_function \<Rightarrow> pyexc + effect_analysis" where
  "analyze_function m ea f =
     emap (\<lambda>declared.
        ea\<lparr>ea_per_function :=
             dset (fn_qualname f) (join_effects declared (local_effect f (tm_aliases m))) (ea_per_function ea),
           ea_rim := (if tm_rim m then List.insert (fn_qualname f) (ea_rim ea) else ea_rim ea)\<rparr>)
       (declared_effects f)"

definition analyze_effects :: "tcb_module list \<Rightarrow> pyexc + effect_analysis" where
  "analyze_effects modules =
     efold (\<lambda>ea m. efold (analyze_function m) ea (tm_functions m)) \<lparr>ea_per_function = [], ea_rim = []\<rparr> modules"

end
