(* ===== verification/TcbVc.thy ===== *)
theory TcbVc
  imports TcbEffects "HOL-Library.While_Combinator"
begin

text \<open>
  The verification conditions and the verdict of the purity verifier
  (src/packages/titanium-verify/titanium_verify: vc.py, solvers.py, report.py, verifier.py).

  Effect masks are Python integers. The worklist loop is \<open>while_option\<close>, so that not
  returning is the value \<open>None\<close>. The order in which a Python set of names is iterated is a
  parameter \<open>order\<close>; the SMT solver is a parameter that maps the assertions of a condition to
  its answer. Times are not modelled.
\<close>

section \<open>Masks\<close>

fun effect_bit :: "effect \<Rightarrow> nat" where
  "effect_bit PURE = 0"
| "effect_bit FS_READ = 1"
| "effect_bit FS_WRITE = 2"
| "effect_bit NET = 3"
| "effect_bit SUBPROCESS = 4"
| "effect_bit NONDETERMINISTIC = 5"

definition effect_set_to_bv :: "effect set \<Rightarrow> int" where
  "effect_set_to_bv es =
     foldl (\<lambda>val e. if e \<in> es then val OR push_bit (effect_bit e) 1 else val) 0 enum_class.enum"

definition declared_tags_to_bv :: "pystr list \<Rightarrow> int" where
  "declared_tags_to_bv tags =
     foldl (\<lambda>val tag. case effect_of_name tag of Some e \<Rightarrow> val OR push_bit (effect_bit e) 1 | None \<Rightarrow> val) 0 tags"

definition pure_mask :: int where
  "pure_mask = push_bit (effect_bit PURE) 1"

definition impure_mask :: int where
  "impure_mask =
     foldl (\<lambda>mask e. if e \<noteq> PURE then mask OR push_bit (effect_bit e) 1 else mask) 0 enum_class.enum"

section \<open>The call graph\<close>

definition enclosing_class :: "tcb_function \<Rightarrow> pystr option" where
  "enclosing_class f =
     (let parts = split_dots (fn_qualname f) in
      if length parts > length (split_dots (fn_module f)) + 1 then Some (parts ! (length parts - 2)) else None)"

definition matching_callees ::
    "pystr \<Rightarrow> pystr option \<Rightarrow> pystr list \<Rightarrow> pystr list \<Rightarrow> pystr list" where
  "matching_callees same_module cls all parts =
     (if length parts = 1
      then filter (\<lambda>q. q = same_module @ u ''.'' @ hd parts) all
      else if hd parts = u ''self'' \<and> length parts = 2 \<and> cls \<noteq> None \<and> cls \<noteq> Some []
      then filter (\<lambda>q. q = same_module @ u ''.'' @ the cls @ u ''.'' @ parts ! 1) all
      else if dotted parts \<in> set all then [dotted parts]
      else if dotted parts @ u ''.__init__'' \<in> set all then [dotted parts @ u ''.__init__'']
      else if length parts \<ge> 2 then filter (\<lambda>q. endswith q (u ''.'' @ dotted parts)) all
      else [])"

fun node_callees ::
    "tcb_function \<Rightarrow> pystr list \<Rightarrow> (pystr, pystr) dict \<Rightarrow> pystr list \<Rightarrow> ast \<Rightarrow> pystr list" where
  "node_callees f all aliases callees (ACall g _ _) =
     (case target_parts g of
        None \<Rightarrow> callees
      | Some parts \<Rightarrow>
          foldl (\<lambda>cs q. List.insert q cs) callees
            (matching_callees (fn_module f) (enclosing_class f) all (apply_alias aliases parts)))"
| "node_callees f all aliases callees _ = callees"

definition collect_kernel_calls :: "tcb_function \<Rightarrow> pystr list \<Rightarrow> (pystr, pystr) dict \<Rightarrow> pystr list" where
  "collect_kernel_calls f all module_aliases =
     foldl (node_callees f all (all_aliases f module_aliases)) [] (concat (map walk (fn_body f)))"

definition all_qualnames :: "tcb_module list \<Rightarrow> pystr list" where
  "all_qualnames modules = remdups (concat (map (\<lambda>m. map fn_qualname (tm_functions m)) modules))"

definition callees_map :: "tcb_module list \<Rightarrow> (pystr, pystr list) dict" where
  "callees_map modules =
     foldl (\<lambda>d m. foldl (\<lambda>d f. dset (fn_qualname f)
         (collect_kernel_calls f (all_qualnames modules) (tm_aliases m)) d) d (tm_functions m)) [] modules"

section \<open>The fixpoint\<close>

definition local_masks :: "tcb_module list \<Rightarrow> effect_analysis \<Rightarrow> (pystr, int) dict" where
  "local_masks modules ea =
     foldl (\<lambda>d m. foldl (\<lambda>d f.
         if is_rejected f then d
         else let declared_bits = declared_tags_to_bv (fn_tags f);
                  declared = (if declared_bits = 0 then pure_mask else declared_bits)
              in dset (fn_qualname f) (declared OR effect_set_to_bv (effect_of ea (fn_qualname f))) d)
       d (tm_functions m)) [] modules"

definition add_caller :: "(pystr, int) dict \<Rightarrow> pystr \<Rightarrow> (pystr, pystr list) dict \<Rightarrow> pystr \<Rightarrow> (pystr, pystr list) dict" where
  "add_caller local q callers c =
     (if has_key local c then dset c (List.insert q (dget callers c [])) callers else callers)"

definition caller_map ::
    "(pystr list \<Rightarrow> pystr list) \<Rightarrow> (pystr, int) dict \<Rightarrow> (pystr, pystr list) dict \<Rightarrow> (pystr, pystr list) dict" where
  "caller_map order local callees =
     foldl (\<lambda>d (q, cs). if has_key local q then foldl (add_caller local q) d (order cs) else d)
       (map (\<lambda>q. (q, [])) (keys local)) callees"

definition joined_mask :: "(pystr, int) dict \<Rightarrow> pystr list \<Rightarrow> int \<Rightarrow> int" where
  "joined_mask current cs val =
     foldl (\<lambda>val c. case map_of current c of Some m \<Rightarrow> val OR m | None \<Rightarrow> val) val cs"

definition normalize_mask :: "int \<Rightarrow> int" where
  "normalize_mask val = (if val AND impure_mask \<noteq> 0 then val AND NOT pure_mask else val)"

definition worklist_step ::
    "(pystr list \<Rightarrow> pystr list) \<Rightarrow> (pystr, int) dict \<Rightarrow> (pystr, pystr list) dict \<Rightarrow> (pystr, pystr list) dict \<Rightarrow>
     (pystr, int) dict \<times> pystr list \<Rightarrow> (pystr, int) dict \<times> pystr list" where
  "worklist_step order local callees callers = (\<lambda>(current, worklist).
     let q = last worklist; rest = butlast worklist;
         new_val = normalize_mask (joined_mask current (order (dget callees q [])) (dget local q pure_mask))
     in if map_of current q \<noteq> Some new_val
        then (dset q new_val current, rest @ order (dget callers q []))
        else (current, rest))"

definition purity_fixpoint ::
    "(pystr list \<Rightarrow> pystr list) \<Rightarrow> (pystr, int) dict \<Rightarrow> (pystr, pystr list) dict \<Rightarrow> (pystr, int) dict option" where
  "purity_fixpoint order local callees =
     map_option fst
       (while_option (\<lambda>(_, worklist). worklist \<noteq> [])
          (worklist_step order local callees (caller_map order local callees)) (local, keys local))"

section \<open>Verification conditions\<close>

text \<open>
  An assertion about the 8-bit variable of a condition: it is a constant, it meets a mask, or
  it meets a mask outside another one.
\<close>

datatype assertion = BvEq "8 word" | BvMeets "8 word" | BvMeetsOutside "8 word" "8 word"

fun bv_holds :: "8 word \<Rightarrow> assertion \<Rightarrow> bool" where
  "bv_holds x (BvEq c) \<longleftrightarrow> x = c"
| "bv_holds x (BvMeets m) \<longleftrightarrow> x AND m \<noteq> 0"
| "bv_holds x (BvMeetsOutside m d) \<longleftrightarrow> x AND m AND NOT d \<noteq> 0"

record condition =
  vc_qualname :: pystr
  vc_property :: pystr
  vc_asserts :: "assertion list"

definition purity_vc :: "(pystr, int) dict \<Rightarrow> tcb_function \<Rightarrow> condition" where
  "purity_vc fixpoint f =
     \<lparr>vc_qualname = fn_qualname f, vc_property = u ''purity'',
      vc_asserts =
        [BvEq (word_of_int (dget fixpoint (fn_qualname f) pure_mask)),
         if fn_tags f \<noteq> []
         then BvMeetsOutside (word_of_int impure_mask) (word_of_int (declared_tags_to_bv (fn_tags f)))
         else BvMeets (word_of_int impure_mask)]\<rparr>"

definition generate_purity_vcs ::
    "(pystr list \<Rightarrow> pystr list) \<Rightarrow> tcb_module list \<Rightarrow> effect_analysis \<Rightarrow> condition list option" where
  "generate_purity_vcs order modules ea =
     map_option (\<lambda>fixpoint.
         concat (map (\<lambda>m. if tm_rim m then []
                          else map (purity_vc fixpoint) (filter (\<lambda>f. \<not> is_rejected f) (tm_functions m))) modules))
       (purity_fixpoint order (local_masks modules ea) (callees_map modules))"

section \<open>Discharging a condition\<close>

datatype tcb_verdict = VERIFIED | REFUTED | UNKNOWN | REJECTED

datatype z3_result = Unsat | Sat "8 word" | Undecided

record counter_example =
  ce_qualname :: pystr
  ce_property :: pystr
  ce_witness :: "(pystr \<times> pystr) list"
  ce_trace :: "pystr list"
  ce_detail :: pystr

record function_result =
  fr_qualname :: pystr
  fr_verdict :: tcb_verdict
  fr_detail :: pystr
  fr_counterexample :: "counter_example option"

definition bv_name :: "pystr \<Rightarrow> pystr" where
  "bv_name q = u ''eff_'' @ replace_char 46 95 q"

definition refutation :: "condition \<Rightarrow> 8 word \<Rightarrow> counter_example" where
  "refutation c x =
     \<lparr>ce_qualname = vc_qualname c, ce_property = vc_property c,
      ce_witness = [(bv_name (vc_qualname c), nat_str (unat x))], ce_trace = [vc_qualname c],
      ce_detail = u ''z3: sat with witness on '' @ bv_name (vc_qualname c)\<rparr>"

definition discharge :: "(assertion list \<Rightarrow> z3_result) \<Rightarrow> condition \<Rightarrow> function_result" where
  "discharge z3 c =
     (case z3 (vc_asserts c) of
        Unsat \<Rightarrow> \<lparr>fr_qualname = vc_qualname c, fr_verdict = VERIFIED, fr_detail = u ''z3: unsat'',
                 fr_counterexample = None\<rparr>
      | Sat x \<Rightarrow> \<lparr>fr_qualname = vc_qualname c, fr_verdict = REFUTED, fr_detail = ce_detail (refutation c x),
                 fr_counterexample = Some (refutation c x)\<rparr>
      | Undecided \<Rightarrow> \<lparr>fr_qualname = vc_qualname c, fr_verdict = UNKNOWN,
                     fr_detail = u ''z3: unknown (timeout or incomplete)'', fr_counterexample = None\<rparr>)"

section \<open>The report\<close>

record tcb_report =
  tr_package :: pystr
  tr_property :: pystr
  tr_verdict :: tcb_verdict
  tr_checked :: nat
  tr_verified :: nat
  tr_counterexamples :: "counter_example list"
  tr_per_function :: "function_result list"

definition is_success :: "tcb_report \<Rightarrow> bool" where
  "is_success r \<longleftrightarrow> tr_verdict r = VERIFIED"

definition aggregate_verdict :: "function_result list \<Rightarrow> tcb_verdict" where
  "aggregate_verdict fns =
     (if fns = [] then UNKNOWN
      else if list_ex (\<lambda>f. fr_verdict f = REFUTED) fns then REFUTED
      else if list_ex (\<lambda>f. fr_verdict f = REJECTED) fns then REJECTED
      else if list_ex (\<lambda>f. fr_verdict f = UNKNOWN) fns then UNKNOWN
      else VERIFIED)"

definition rejected_results :: "tcb_module list \<Rightarrow> function_result list" where
  "rejected_results modules =
     concat (map (\<lambda>m. concat (map (\<lambda>f.
         case fn_rejected f of
           None \<Rightarrow> []
         | Some reason \<Rightarrow> [\<lparr>fr_qualname = fn_qualname f, fr_verdict = REJECTED,
                           fr_detail = u ''frontend rejected: '' @ reason, fr_counterexample = None\<rparr>])
       (tm_functions m))) modules)"

definition purity_report ::
    "(assertion list \<Rightarrow> z3_result) \<Rightarrow> pystr \<Rightarrow> tcb_module list \<Rightarrow> condition list \<Rightarrow> tcb_report" where
  "purity_report z3 pkg modules vcs =
     (let results = rejected_results modules @ map (discharge z3) vcs in
      \<lparr>tr_package = pkg, tr_property = u ''purity'', tr_verdict = aggregate_verdict results,
       tr_checked = length results,
       tr_verified = length (filter (\<lambda>f. fr_verdict f = VERIFIED) results),
       tr_counterexamples = concat (map (\<lambda>f. case fr_counterexample f of None \<Rightarrow> [] | Some c \<Rightarrow> [c]) results),
       tr_per_function = results\<rparr>)"

text \<open>\<open>None\<close> is a run that does not return, \<open>Some (Inl e)\<close> one that raises.\<close>

definition verify_package ::
    "(ast \<Rightarrow> pystr option) \<Rightarrow> (pystr list \<Rightarrow> pystr list) \<Rightarrow> (assertion list \<Rightarrow> z3_result) \<Rightarrow>
     (pystr \<times> parsed) list \<Rightarrow> pystr \<Rightarrow> pystr \<Rightarrow> (pyexc + tcb_report) option" where
  "verify_package unparse order z3 files pkg property_name =
     (let modules = parse_package unparse files pkg in
      if property_name \<noteq> u ''purity''
      then Some (Inr \<lparr>tr_package = pkg, tr_property = property_name, tr_verdict = REJECTED, tr_checked = 0,
                     tr_verified = 0, tr_counterexamples = [], tr_per_function = []\<rparr>)
      else case analyze_effects modules of
             Inl e \<Rightarrow> Some (Inl e)
           | Inr ea \<Rightarrow> map_option (\<lambda>vcs. Inr (purity_report z3 pkg modules vcs))
                         (generate_purity_vcs order modules ea))"

end
