(* ===== verification/TcbPurity.thy ===== *)
theory TcbPurity
  imports TcbVc
begin

text \<open>
  What the purity verifier's verdict means: the worklist loop returns, its result is the union
  of the impure effects of all functions a function reaches in the call graph, and the verdict
  VERIFIED says exactly that no function is rejected and no core function reaches an effect it
  does not declare.
\<close>

section \<open>Masks as sets of bits\<close>

definition bits :: "int \<Rightarrow> nat set" where
  "bits x = {i. bit x i}"

definition impure_bits :: "nat set" where
  "impure_bits = {1..5}"

definition norm_bits :: "nat set \<Rightarrow> nat set" where
  "norm_bits S = (if S \<inter> impure_bits \<noteq> {} then S - {0} else S)"

lemma bits_inject: "bits x = bits y \<longleftrightarrow> x = y"
  unfolding bits_def by (metis bit_eq_iff mem_Collect_eq)

lemma bits_0 [simp]: "bits 0 = {}"
  by (simp add: bits_def)

lemma bits_or [simp]: "bits (x OR y) = bits x \<union> bits y"
  by (auto simp: bits_def bit_or_iff)

lemma bits_and [simp]: "bits (x AND y) = bits x \<inter> bits y"
  by (auto simp: bits_def bit_and_iff)

lemma bits_not [simp]: "bits (NOT x) = - bits x"
  by (auto simp: bits_def bit_not_iff)

lemma bits_one: "bits (push_bit n 1) = {n}"
  by (auto simp: bits_def push_bit_of_1 bit_exp_iff)

lemma bits_eq_empty: "bits x = {} \<longleftrightarrow> x = 0"
  using bits_inject [of x 0] by simp

lemma bits_pure_mask [simp]: "bits pure_mask = {0}"
  by (simp only: pure_mask_def bits_one effect_bit.simps)

lemma bits_impure_mask [simp]: "bits impure_mask = impure_bits"
proof -
  have eq: "impure_mask = push_bit 1 1 OR push_bit 2 1 OR push_bit 3 1 OR push_bit 4 1 OR push_bit 5 1"
    by (simp add: impure_mask_def enum_effect_def)
  show ?thesis unfolding eq bits_or bits_one impure_bits_def by auto
qed

lemma bits_normalize [simp]: "bits (normalize_mask v) = norm_bits (bits v)"
proof -
  have "(v AND impure_mask \<noteq> 0) = (bits v \<inter> impure_bits \<noteq> {})"
    by (simp add: bits_eq_empty [symmetric])
  then show ?thesis by (auto simp: normalize_mask_def norm_bits_def)
qed

lemma bits_joined_mask:
  "bits (joined_mask cur cs v) = bits v \<union> (\<Union>c \<in> set cs. case map_of cur c of None \<Rightarrow> {} | Some m \<Rightarrow> bits m)"
  unfolding joined_mask_def
  by (induction cs arbitrary: v) (auto split: option.splits)

lemma norm_impure [simp]: "norm_bits S \<inter> impure_bits = S \<inter> impure_bits"
  by (auto simp: norm_bits_def impure_bits_def)

lemma norm_keeps: "x \<in> S \<Longrightarrow> x \<in> impure_bits \<Longrightarrow> x \<in> norm_bits S"
  by (auto simp: norm_bits_def impure_bits_def)

lemma norm_nonempty: "S \<noteq> {} \<Longrightarrow> norm_bits S \<noteq> {}"
  by (auto simp: norm_bits_def impure_bits_def)

lemma norm_subset: "norm_bits S \<subseteq> S"
  by (auto simp: norm_bits_def)

lemma norm_pure: "S \<inter> impure_bits \<noteq> {} \<Longrightarrow> 0 \<notin> norm_bits S"
  by (simp add: norm_bits_def)

section \<open>The call graph of a fixpoint\<close>

definition mask_at :: "(pystr, int) dict \<Rightarrow> pystr \<Rightarrow> nat set" where
  "mask_at d q = (case map_of d q of None \<Rightarrow> {} | Some m \<Rightarrow> bits m)"

definition graph_edges :: "(pystr, int) dict \<Rightarrow> (pystr, pystr list) dict \<Rightarrow> (pystr \<times> pystr) set" where
  "graph_edges local callees = {(q, c). has_key local q \<and> has_key local c \<and> c \<in> set (dget callees q [])}"

definition below :: "(pystr, int) dict \<Rightarrow> (pystr, pystr list) dict \<Rightarrow> (pystr, int) dict \<Rightarrow> pystr \<Rightarrow> nat set" where
  "below local callees cur q = mask_at local q \<union> (\<Union>c \<in> graph_edges local callees `` {q}. mask_at cur c)"

definition reached_bits :: "(pystr, int) dict \<Rightarrow> (pystr, pystr list) dict \<Rightarrow> pystr \<Rightarrow> nat set" where
  "reached_bits local callees q =
     (\<Union>g \<in> (graph_edges local callees)\<^sup>* `` {q}. mask_at local g \<inter> impure_bits)"

lemma add_caller_callers:
  "set (dget (add_caller local q callers c) x []) =
     set (dget callers x []) \<union> (if x = c \<and> has_key local c then {q} else {})"
  by (simp add: add_caller_def)

lemma foldl_add_caller:
  "set (dget (foldl (add_caller local q) d cs) x []) =
     set (dget d x []) \<union> (if x \<in> set cs \<and> has_key local x then {q} else {})"
  by (induction cs arbitrary: d) (auto simp: add_caller_callers)

lemma dget_seeds [simp]: "dget (map (\<lambda>q. (f q, [])) qs) x [] = []"
  by (induction qs) (auto simp: dget_def)

lemma foldl_callers:
  assumes order: "\<And>xs. set (order xs) = set xs"
  shows "set (dget (foldl (\<lambda>d (q, cs). if has_key local q then foldl (add_caller local q) d (order cs) else d)
                      d cm) x []) =
     set (dget d x []) \<union> {q. has_key local q \<and> has_key local x \<and> (\<exists>cs. (q, cs) \<in> set cm \<and> x \<in> set cs)}"
proof (induction cm arbitrary: d)
  case (Cons e cm)
  obtain q cs where e: "e = (q, cs)" by force
  show ?case unfolding e by (simp add: Cons.IH foldl_add_caller order) auto
qed simp

lemma callers_exact:
  assumes order: "\<And>xs. set (order xs) = set xs" and wf: "wf_dict callees"
  shows "set (dget (caller_map order local callees) c []) = {q. (q, c) \<in> graph_edges local callees}"
proof -
  have "(\<exists>cs. (q, cs) \<in> set callees \<and> c \<in> set cs) \<longleftrightarrow> c \<in> set (dget callees q [])" for q
  proof (cases "map_of callees q")
    case None
    then have "(q, cs) \<notin> set callees" for cs by (force simp: map_of_eq_None_iff)
    with None show ?thesis by (simp add: dget_def)
  next
    case (Some cs)
    with wf have "(q, cs') \<in> set callees \<longleftrightarrow> cs' = cs" for cs'
      using map_of_eq_Some_iff [of callees q cs'] by (auto simp: wf_dict_def)
    with Some show ?thesis by (simp add: dget_def)
  qed
  then show ?thesis
    unfolding caller_map_def by (simp add: foldl_callers [OF order] comp_def) (auto simp: graph_edges_def)
qed

section \<open>The worklist loop\<close>

text \<open>
  Of the masks every function's own contributes a bit, and no mask has a bit outside the six.
\<close>

definition wf_masks :: "(pystr, int) dict \<Rightarrow> bool" where
  "wf_masks d \<longleftrightarrow> (\<forall>q. has_key d q \<longrightarrow> mask_at d q \<noteq> {} \<and> mask_at d q \<subseteq> insert 0 impure_bits)"

definition loop_invariant ::
    "(pystr, int) dict \<Rightarrow> (pystr, pystr list) dict \<Rightarrow> (pystr, int) dict \<times> pystr list \<Rightarrow> bool" where
  "loop_invariant local callees = (\<lambda>(cur, wl).
     (\<forall>q. has_key cur q \<longleftrightarrow> has_key local q) \<and> (\<forall>q \<in> set wl. has_key local q) \<and> wf_masks cur \<and>
     (\<forall>q. has_key local q \<longrightarrow>
        mask_at cur q \<inter> impure_bits \<subseteq> below local callees cur q \<and>
        mask_at cur q \<inter> impure_bits \<subseteq> reached_bits local callees q \<and>
        (q \<notin> set wl \<longrightarrow> mask_at cur q = norm_bits (below local callees cur q))))"

lemma loop_invariantD:
  assumes "loop_invariant local callees (cur, wl)" and "has_key local q"
  shows "mask_at cur q \<inter> impure_bits \<subseteq> below local callees cur q"
    and "mask_at cur q \<inter> impure_bits \<subseteq> reached_bits local callees q"
    and "q \<notin> set wl \<Longrightarrow> mask_at cur q = norm_bits (below local callees cur q)"
  using assms by (simp_all add: loop_invariant_def)

lemma mask_at_dset [simp]: "mask_at (dset q v d) x = (if x = q then bits v else mask_at d x)"
  by (simp add: mask_at_def)

lemma mask_at_Some: "map_of d q = Some m \<Longrightarrow> mask_at d q = bits m"
  by (simp add: mask_at_def)

lemma edges_cases [elim]:
  assumes "(q, c) \<in> graph_edges local callees"
  obtains "has_key local q" "has_key local c" "c \<in> set (dget callees q [])"
  using assms by (simp add: graph_edges_def)

text \<open>What one round computes for a function.\<close>

lemma new_mask:
  assumes order: "\<And>xs. set (order xs) = set xs" and keys: "\<And>c. has_key cur c \<longleftrightarrow> has_key local c"
    and q: "has_key local q"
  shows "bits (normalize_mask (joined_mask cur (order (dget callees q [])) (dget local q pure_mask))) =
    norm_bits (below local callees cur q)"
proof -
  obtain m where m: "map_of local q = Some m" using q by (auto simp: has_key_map_of)
  have "(\<Union>c \<in> set (dget callees q []). case map_of cur c of None \<Rightarrow> {} | Some m \<Rightarrow> bits m) =
    (\<Union>c \<in> graph_edges local callees `` {q}. mask_at cur c)"
  proof -
    have "mask_at cur c = {}" if "\<not> has_key local c" for c
      using that keys [of c] by (simp add: mask_at_def has_key_map_of)
    then show ?thesis using q by (force simp: graph_edges_def mask_at_def)
  qed
  moreover have "bits (dget local q pure_mask) = mask_at local q"
    using m by (simp add: dget_def mask_at_def)
  ultimately show ?thesis by (simp add: bits_joined_mask order below_def)
qed

lemma reached_own: "mask_at local q \<inter> impure_bits \<subseteq> reached_bits local callees q"
  by (auto simp: reached_bits_def)

lemma reached_edge:
  "(q, c) \<in> graph_edges local callees \<Longrightarrow> reached_bits local callees c \<subseteq> reached_bits local callees q"
  by (auto simp: reached_bits_def intro: converse_rtrancl_into_rtrancl)

lemma below_reached:
  assumes "\<And>c. (q, c) \<in> graph_edges local callees \<Longrightarrow> mask_at cur c \<inter> impure_bits \<subseteq> reached_bits local callees c"
  shows "below local callees cur q \<inter> impure_bits \<subseteq> reached_bits local callees q"
  using assms reached_own [of local q callees] reached_edge [of q _ local callees]
  unfolding below_def by blast

lemma below_mono:
  assumes "\<And>c. mask_at cur c \<inter> impure_bits \<subseteq> mask_at cur' c"
  shows "below local callees cur q \<inter> impure_bits \<subseteq> below local callees cur' q"
  using assms unfolding below_def by blast

lemma start_invariant:
  assumes "wf_masks local"
  shows "loop_invariant local callees (local, keys local)"
  using assms reached_own by (auto simp: loop_invariant_def below_def has_key_def)

text \<open>A round that changes a mask lowers its weight: it gains an impure bit or loses the pure one.\<close>

definition weight_of :: "nat set \<Rightarrow> nat" where
  "weight_of S = 2 * card (impure_bits - S) + (if 0 \<in> S then 1 else 0)"

definition potential :: "(pystr, int) dict \<Rightarrow> (pystr, int) dict \<Rightarrow> nat" where
  "potential local cur = (\<Sum>q \<in> fst ` set local. weight_of (mask_at cur q))"

lemma finite_impure_bits [simp]: "finite impure_bits"
  by (simp add: impure_bits_def)

lemma weight_decreases:
  assumes grow: "A \<inter> impure_bits \<subseteq> S" and ne: "A \<noteq> norm_bits S"
    and A: "A \<noteq> {}" "A \<subseteq> insert 0 impure_bits" and S: "S \<noteq> {}" "S \<subseteq> insert 0 impure_bits"
  shows "weight_of (norm_bits S) < weight_of A"
proof (cases "A \<inter> impure_bits = S \<inter> impure_bits")
  case True
  then have same: "impure_bits - norm_bits S = impure_bits - A"
    using norm_impure [of S] by blast
  have "S \<inter> impure_bits \<noteq> {}"
  proof
    assume none: "S \<inter> impure_bits = {}"
    then have "A = {0}" "S = {0}" using True A S by auto
    with ne none show False by (simp add: norm_bits_def)
  qed
  then have "0 \<notin> norm_bits S" by (rule norm_pure)
  moreover have "0 \<in> A"
  proof (rule ccontr)
    assume "0 \<notin> A"
    then have "A = S \<inter> impure_bits" using True A by auto
    also have "\<dots> = norm_bits S" using S \<open>S \<inter> impure_bits \<noteq> {}\<close> by (auto simp: norm_bits_def impure_bits_def)
    finally show False using ne by simp
  qed
  ultimately show ?thesis by (simp add: weight_of_def same)
next
  case False
  then have "impure_bits - norm_bits S \<subset> impure_bits - A"
    using grow norm_impure [of S] by blast
  then have "card (impure_bits - norm_bits S) < card (impure_bits - A)"
    by (rule psubset_card_mono [rotated]) simp
  then show ?thesis by (simp add: weight_of_def)
qed

lemma below_wf:
  assumes "wf_masks local" and "\<And>c. has_key cur c \<longleftrightarrow> has_key local c" and "wf_masks cur" and "has_key local q"
  shows "below local callees cur q \<noteq> {} \<and> below local callees cur q \<subseteq> insert 0 impure_bits"
proof
  show "below local callees cur q \<noteq> {}"
    using assms by (auto simp: wf_masks_def below_def)
  have "mask_at local q \<subseteq> insert 0 impure_bits" using assms by (simp add: wf_masks_def)
  moreover have "mask_at cur c \<subseteq> insert 0 impure_bits" if "(q, c) \<in> graph_edges local callees" for c
    using that assms by (auto simp: wf_masks_def graph_edges_def)
  ultimately show "below local callees cur q \<subseteq> insert 0 impure_bits"
    by (auto simp: below_def)
qed

lemma below_untouched:
  "(x, q) \<notin> graph_edges local callees \<Longrightarrow> below local callees (dset q v cur) x = below local callees cur x"
  unfolding below_def by auto

lemma worklist_round:
  assumes order: "\<And>xs. set (order xs) = set xs" and wfl: "wf_masks local" and wfc: "wf_dict callees"
    and inv: "loop_invariant local callees (cur, wl)" and more: "wl \<noteq> []"
    and round: "worklist_step order local callees (caller_map order local callees) (cur, wl) = (cur', wl')"
  shows "loop_invariant local callees (cur', wl')"
    and "potential local cur' < potential local cur \<or> cur' = cur \<and> length wl' < length wl"
proof -
  let ?B = "below local callees" and ?E = "graph_edges local callees" and ?q = "last wl"
  let ?N = "normalize_mask (joined_mask cur (order (dget callees ?q [])) (dget local ?q pure_mask))"
  have keys: "has_key cur c \<longleftrightarrow> has_key local c" for c using inv by (simp add: loop_invariant_def)
  have q: "has_key local ?q" using inv last_in_set [OF more] by (simp add: loop_invariant_def)
  have N: "bits ?N = norm_bits (?B cur ?q)" by (rule new_mask [OF order keys q])
  have wfcur: "wf_masks cur" using inv by (simp add: loop_invariant_def)
  have wl: "set (butlast wl) \<subseteq> set wl" by (auto dest: in_set_butlastD)
  have split: "x \<in> set wl \<longleftrightarrow> x \<in> set (butlast wl) \<or> x = ?q" for x
    by (metis append_butlast_last_id [OF more] in_set_conv_decomp_last rotate1.simps(2) set_append
        Un_iff empty_iff list.set(1) list.set(2) insert_iff)
  have post: "mask_at cur x \<inter> impure_bits \<subseteq> ?B cur x"
    and reach: "mask_at cur x \<inter> impure_bits \<subseteq> reached_bits local callees x"
    and stable: "x \<notin> set wl \<Longrightarrow> mask_at cur x = norm_bits (?B cur x)" if "has_key local x" for x
    by (rule loop_invariantD [OF inv that], assumption?)+
  have B: "?B cur ?q \<noteq> {}" "?B cur ?q \<subseteq> insert 0 impure_bits"
    using below_wf [OF wfl keys wfcur q] by blast+
  have "loop_invariant local callees (cur', wl') \<and>
    (potential local cur' < potential local cur \<or> cur' = cur \<and> length wl' < length wl)"
  proof (cases "map_of cur ?q = Some ?N")
    case True
    then have eq: "cur' = cur" "wl' = butlast wl"
      using round by (simp_all add: worklist_step_def Let_def)
    have "mask_at cur ?q = norm_bits (?B cur ?q)" using True N by (simp add: mask_at_Some)
    then have "mask_at cur x = norm_bits (?B cur x)" if "has_key local x" "x \<notin> set (butlast wl)" for x
      using that stable [of x] split [of x] by (cases "x = ?q") auto
    moreover have "\<forall>x \<in> set (butlast wl). has_key local x" using inv wl by (auto simp: loop_invariant_def)
    ultimately show ?thesis
      using more keys wfcur post reach by (auto simp: eq loop_invariant_def)
  next
    case False
    then have eq: "cur' = dset ?q ?N cur"
        "wl' = butlast wl @ order (dget (caller_map order local callees) ?q [])"
      using round by (simp_all add: worklist_step_def Let_def)
    have wl': "set wl' = set (butlast wl) \<union> {x. (x, ?q) \<in> ?E}"
      by (simp add: eq order callers_exact [OF order wfc])
    have mask': "mask_at cur' x = (if x = ?q then norm_bits (?B cur ?q) else mask_at cur x)" for x
      using N by (simp add: eq)
    have ne: "mask_at cur ?q \<noteq> norm_bits (?B cur ?q)"
    proof
      assume same: "mask_at cur ?q = norm_bits (?B cur ?q)"
      obtain m where m: "map_of cur ?q = Some m" using q keys [of ?q] by (auto simp: has_key_map_of)
      then have "bits m = bits ?N" using same unfolding N by (simp add: mask_at_def)
      then show False using False m unfolding bits_inject by simp
    qed
    have mono: "mask_at cur c \<inter> impure_bits \<subseteq> mask_at cur' c" for c
      using post [OF q] by (auto simp: mask' intro: norm_keeps)
    have grow: "?B cur x \<inter> impure_bits \<subseteq> ?B cur' x" for x by (rule below_mono [OF mono])
    have 1: "has_key cur' c \<longleftrightarrow> has_key local c" for c using keys [of c] q by (auto simp: eq)
    have 2: "\<forall>x \<in> set wl'. has_key local x"
      using inv wl by (auto simp: wl' loop_invariant_def)
    have 3: "wf_masks cur'"
      using wfcur norm_nonempty [OF B(1)] norm_subset [of "?B cur ?q"] B(2) keys q
      by (auto simp: wf_masks_def mask' 1)
    have 4: "mask_at cur' x \<inter> impure_bits \<subseteq> ?B cur' x" if "has_key local x" for x
      using post [OF that] grow [of x] by (auto simp: mask' split: if_splits)
    have 5: "mask_at cur' x \<inter> impure_bits \<subseteq> reached_bits local callees x" if "has_key local x" for x
    proof -
      have "?B cur ?q \<inter> impure_bits \<subseteq> reached_bits local callees ?q"
        by (rule below_reached) (auto intro!: reach)
      then show ?thesis using reach [OF that] by (auto simp: mask')
    qed
    have 6: "mask_at cur' x = norm_bits (?B cur' x)" if "has_key local x" "x \<notin> set wl'" for x
    proof -
      have "?B cur' x = ?B cur x"
        unfolding eq(1) using that(2) by (intro below_untouched) (simp add: wl')
      moreover have "x \<noteq> ?q \<Longrightarrow> x \<notin> set wl" using that(2) split [of x] by (simp add: wl')
      ultimately show ?thesis using stable [OF that(1)] by (simp add: mask' N)
    qed
    have less: "weight_of (mask_at cur' ?q) < weight_of (mask_at cur ?q)"
      using weight_decreases [OF post [OF q] ne _ _ B] wfcur q keys [of ?q]
      by (simp add: mask' wf_masks_def)
    have "potential local cur' < potential local cur"
      unfolding potential_def
    proof (rule sum_strict_mono_ex1)
      show "\<forall>x \<in> fst ` set local. weight_of (mask_at cur' x) \<le> weight_of (mask_at cur x)"
        using less by (auto simp: mask' dest: less_imp_le)
      show "\<exists>x \<in> fst ` set local. weight_of (mask_at cur' x) < weight_of (mask_at cur x)"
        using less q unfolding has_key_def by blast
    qed simp
    with 1 2 3 4 5 6 show ?thesis by (simp add: loop_invariant_def)
  qed
  then show "loop_invariant local callees (cur', wl')"
    and "potential local cur' < potential local cur \<or> cur' = cur \<and> length wl' < length wl"
    by blast+
qed

text \<open>The loop returns, and the impure bits of its result are those a function reaches.\<close>

lemma purity_fixpoint_reaches:
  assumes order: "\<And>xs. set (order xs) = set xs" and wfl: "wf_masks local" and wfc: "wf_dict callees"
  obtains fixpoint where "purity_fixpoint order local callees = Some fixpoint"
    and "\<And>q. has_key fixpoint q \<longleftrightarrow> has_key local q"
    and "\<And>q. has_key local q \<Longrightarrow> mask_at fixpoint q \<inter> impure_bits = reached_bits local callees q"
    and "\<And>q. has_key local q \<Longrightarrow> mask_at fixpoint q \<subseteq> insert 0 impure_bits"
proof -
  let ?step = "worklist_step order local callees (caller_map order local callees)"
  let ?more = "\<lambda>(_ :: (pystr, int) dict, wl :: pystr list). wl \<noteq> []"
  let ?R = "measures [potential local \<circ> fst, length \<circ> snd]"
  have round: "loop_invariant local callees (?step s) \<and> (?step s, s) \<in> ?R"
    if "loop_invariant local callees s \<and> ?more s" for s
  proof -
    obtain cur wl where s: "s = (cur, wl)" by (cases s)
    obtain cur' wl' where s': "?step s = (cur', wl')" by (cases "?step s")
    show ?thesis
      using worklist_round [OF order wfl wfc, of cur wl cur' wl'] that s' by (auto simp: s)
  qed
  have start: "loop_invariant local callees (local, keys local)" by (rule start_invariant [OF wfl])
  have "\<exists>t. while_option ?more ?step (local, keys local) = Some t"
    by (rule wf_rel_while_option_Some [where P = "loop_invariant local callees" and R = ?R])
       (use round start in auto)
  then obtain fixpoint wl where w: "while_option ?more ?step (local, keys local) = Some (fixpoint, wl)"
    by auto
  have inv: "loop_invariant local callees (fixpoint, wl)"
    by (rule while_option_rule [where P = "loop_invariant local callees", OF _ w start]) (use round in blast)
  have "wl = []" using while_option_stop [OF w] by simp
  with inv have keys: "\<And>q. has_key fixpoint q \<longleftrightarrow> has_key local q"
    and wf: "wf_masks fixpoint"
    and stable: "\<And>q. has_key local q \<Longrightarrow> mask_at fixpoint q = norm_bits (below local callees fixpoint q)"
    by (simp_all add: loop_invariant_def)
  have sound: "mask_at fixpoint q \<inter> impure_bits \<subseteq> reached_bits local callees q" if "has_key local q" for q
    by (rule loop_invariantD(2) [OF inv that])
  have imp: "mask_at fixpoint q \<inter> impure_bits = below local callees fixpoint q \<inter> impure_bits"
    if "has_key local q" for q
    by (subst stable [OF that]) (rule norm_impure)
  have closed: "mask_at local q \<inter> impure_bits \<subseteq> mask_at fixpoint q"
      "(q, c) \<in> graph_edges local callees \<Longrightarrow> mask_at fixpoint c \<inter> impure_bits \<subseteq> mask_at fixpoint q"
    if "has_key local q" for q c
    using imp [OF that] unfolding below_def by blast+
  have "mask_at local g \<inter> impure_bits \<subseteq> mask_at fixpoint q"
    if "(q, g) \<in> (graph_edges local callees)\<^sup>*" "has_key local g" for q g
    using that
  proof (induction rule: converse_rtrancl_induct)
    case (step q c)
    then show ?case using closed(2) [of q c] by blast
  qed (rule closed(1))
  moreover have "has_key local g" if "(q, g) \<in> (graph_edges local callees)\<^sup>*" "has_key local q" for q g
    using that by (induction rule: rtrancl_induct) auto
  ultimately have "reached_bits local callees q \<subseteq> mask_at fixpoint q \<inter> impure_bits" if "has_key local q" for q
    using that by (fastforce simp: reached_bits_def)
  with sound have "mask_at fixpoint q \<inter> impure_bits = reached_bits local callees q" if "has_key local q" for q
    using that by blast
  moreover have "purity_fixpoint order local callees = Some fixpoint"
    by (simp add: purity_fixpoint_def w)
  ultimately show thesis using that keys wf by (metis wf_masks_def)
qed

end
