(* ===== verification/TcbVerdict.thy ===== *)
theory TcbVerdict
  imports TcbPurity
begin

text \<open>
  From the fixpoint to the verdict: the masks of a package as sets of effects, the meaning of
  a verification condition and the theorems about the verifier's answer.
\<close>

section \<open>Functions of a package\<close>

definition package_functions :: "tcb_module list \<Rightarrow> (tcb_module \<times> tcb_function) list" where
  "package_functions modules = concat (map (\<lambda>m. map (Pair m) (tm_functions m)) modules)"

lemma foldl_functions:
  "foldl (\<lambda>d m. foldl (g m) d (tm_functions m)) d modules =
     foldl (\<lambda>d (m, f). g m d f) d (package_functions modules)"
proof (induction modules arbitrary: d)
  case (Cons m modules)
  have "foldl (\<lambda>d (m, f). g m d f) d (map (Pair m) fs) = foldl (g m) d fs" for d fs
    by (induction fs arbitrary: d) auto
  with Cons show ?case by (simp add: package_functions_def)
qed (simp add: package_functions_def)

lemma package_functions_iff:
  "(m, f) \<in> set (package_functions modules) \<longleftrightarrow> m \<in> set modules \<and> f \<in> set (tm_functions m)"
  by (auto simp: package_functions_def)

lemma has_key_foldl_dset:
  "has_key (foldl (\<lambda>d x. dset (k x) (v x) d) d xs) q \<longleftrightarrow> has_key d q \<or> q \<in> k ` set xs"
  by (induction xs arbitrary: d) auto

lemma wf_dict_foldl_dset: "wf_dict d \<Longrightarrow> wf_dict (foldl (\<lambda>d x. dset (k x) (v x) d) d xs)"
  by (induction xs arbitrary: d) (auto simp: wf_dict_def keys_dset has_key_def)

text \<open>Of the entries with one key the last one counts.\<close>

lemma foldl_dset_entry:
  "map_of (foldl (\<lambda>d x. dset (k x) (v x) d) d xs) q =
     (case filter (\<lambda>x. k x = q) xs of [] \<Rightarrow> map_of d q | _ \<Rightarrow> Some (v (last (filter (\<lambda>x. k x = q) xs))))"
  by (induction xs arbitrary: d) (auto split: list.splits)

lemma callees_map_eq:
  "callees_map modules =
     foldl (\<lambda>d x. dset (fn_qualname (snd x))
       (collect_kernel_calls (snd x) (all_qualnames modules) (tm_aliases (fst x))) d) [] (package_functions modules)"
  unfolding callees_map_def foldl_functions by (simp add: case_prod_unfold)

lemma wf_callees_map: "wf_dict (callees_map modules)"
  unfolding callees_map_eq by (rule wf_dict_foldl_dset) (simp add: wf_dict_def)

section \<open>Masks and effects\<close>

lemma effect_name_inject [simp]: "effect_name a = effect_name b \<longleftrightarrow> a = b"
  by (cases a; cases b) (simp_all add: u_def)

lemma effect_of_name_iff: "effect_of_name t = Some e \<longleftrightarrow> effect_name e = t"
proof
  assume "effect_of_name t = Some e"
  then show "effect_name e = t" by (auto simp: effect_of_name_def find_Some_iff)
next
  assume t: "effect_name e = t"
  have "(\<lambda>e'. effect_name e' = t) = (\<lambda>e'. e' = e)"
    unfolding t [symmetric] by simp
  then show "effect_of_name t = Some e"
    unfolding effect_of_name_def by (cases e) (simp_all add: enum_effect_def)
qed

lemma effect_bit_inject [simp]: "effect_bit a = effect_bit b \<longleftrightarrow> a = b"
  by (cases a; cases b) simp_all

lemma effect_bit_impure [simp]: "effect_bit e \<in> impure_bits \<longleftrightarrow> e \<noteq> PURE"
  by (cases e) (simp_all add: impure_bits_def)

lemma effect_bit_pure [simp]: "effect_bit e = 0 \<longleftrightarrow> e = PURE" "0 = effect_bit e \<longleftrightarrow> e = PURE"
  by (cases e; simp)+

lemma effect_bit_range: "effect_bit e \<in> insert 0 impure_bits"
  by (cases e) (simp_all add: impure_bits_def)

lemma bits_effect_fold:
  "bits (foldl (\<lambda>val e. if P e then val OR push_bit (effect_bit e) 1 else val) v es) =
     bits v \<union> effect_bit ` {e \<in> set es. P e}"
  by (induction es arbitrary: v) (auto simp: bits_one simp del: push_bit_of_1)

lemma bits_effect_set [simp]: "bits (effect_set_to_bv es) = effect_bit ` es"
  unfolding effect_set_to_bv_def bits_effect_fold by (auto simp: UNIV_enum [symmetric])

text \<open>The effects a function declares: the tags that name one.\<close>

definition declared_set :: "tcb_function \<Rightarrow> effect set" where
  "declared_set f = {e. effect_name e \<in> set (fn_tags f)}"

lemma bits_declared_fold:
  "bits (foldl (\<lambda>val tag. case effect_of_name tag of Some e \<Rightarrow> val OR push_bit (effect_bit e) 1 | None \<Rightarrow> val) v tags) =
     bits v \<union> effect_bit ` {e. effect_name e \<in> set tags}"
proof (induction tags arbitrary: v)
  case (Cons t tags)
  show ?case
  proof (cases "effect_of_name t")
    case None
    then have "effect_name e \<noteq> t" for e using effect_of_name_iff [of t e] by auto
    with Cons None show ?thesis by auto
  next
    case (Some e)
    then have "effect_name e' = t \<longleftrightarrow> e' = e" for e'
      using effect_of_name_iff [of t e] effect_name_inject [of e' e] by simp
    then have "effect_bit ` {e'. effect_name e' \<in> set (t # tags)} =
        insert (effect_bit e) (effect_bit ` {e'. effect_name e' \<in> set tags})" by auto
    then show ?thesis
      unfolding foldl_Cons Cons.IH Some option.case bits_or bits_one by auto
  qed
qed simp

lemma bits_declared [simp]: "bits (declared_tags_to_bv (fn_tags f)) = effect_bit ` declared_set f"
  by (simp add: declared_tags_to_bv_def bits_declared_fold declared_set_def)

section \<open>What a package does\<close>

text \<open>
  The effects of a name are those of the last function that has it: declared, and of its own
  calls. A function reaches the effects of every function it calls, directly or not.
\<close>

definition own_effects :: "tcb_module list \<Rightarrow> pystr \<Rightarrow> effect set" where
  "own_effects modules q =
     (case filter (\<lambda>x. fn_qualname (snd x) = q) (package_functions modules) of
        [] \<Rightarrow> {}
      | xs \<Rightarrow> (declared_set (snd (last xs)) \<union> local_effect (snd (last xs)) (tm_aliases (fst (last xs)))) - {PURE})"

definition call_graph :: "tcb_module list \<Rightarrow> (pystr \<times> pystr) set" where
  "call_graph modules = {(q, c). q \<in> set (all_qualnames modules) \<and> c \<in> set (all_qualnames modules) \<and>
     c \<in> set (dget (callees_map modules) q [])}"

definition reached_effects :: "tcb_module list \<Rightarrow> pystr \<Rightarrow> effect set" where
  "reached_effects modules q = (\<Union>g \<in> (call_graph modules)\<^sup>* `` {q}. own_effects modules g)"

definition honest_package :: "tcb_module list \<Rightarrow> bool" where
  "honest_package modules \<longleftrightarrow>
     (\<exists>(m, f) \<in> set (package_functions modules). \<not> tm_rim m) \<and>
     (\<forall>(m, f) \<in> set (package_functions modules). \<not> is_rejected f) \<and>
     (\<forall>(m, f) \<in> set (package_functions modules).
        \<not> tm_rim m \<longrightarrow> reached_effects modules (fn_qualname f) \<subseteq> declared_set f)"

section \<open>The analysis and the local masks\<close>

lemma efold_functions:
  "efold (\<lambda>d m. efold (g m) d (tm_functions m)) d modules =
     efold (\<lambda>d (m, f). g m d f) d (package_functions modules)"
proof (induction modules arbitrary: d)
  case (Cons m modules)
  have "efold (\<lambda>d (m, f). g m d f) d (map (Pair m) fs) = efold (g m) d fs" for d fs
    by (induction fs arbitrary: d) (auto split: sum.splits)
  with Cons show ?case
    by (simp add: package_functions_def efold_append ebind_def split: sum.splits)
qed (simp add: package_functions_def)

lemma effect_of_tag_Inr [simp]: "effect_of_tag t = Inr e \<longleftrightarrow> t = effect_name e"
  using effect_of_name_iff [of t e] by (auto simp: effect_of_tag_def split: option.splits)

lemma effect_of_tag_name [simp]: "effect_of_tag (effect_name e) = Inr e"
  by simp

lemma traverse_tags: "map effect_of_tag ts = map Inr es \<longleftrightarrow> ts = map effect_name es"
proof (induction ts arbitrary: es)
  case (Cons t ts)
  then show ?case by (cases es) simp_all
qed auto

lemma declared_effects_Inr:
  assumes "declared_effects f = Inr D"
  shows "D - {PURE} = declared_set f - {PURE}"
proof (cases "fn_tags f = []")
  case True
  with assms show ?thesis by (simp add: declared_effects_def declared_set_def)
next
  case False
  then obtain es where es: "etraverse effect_of_tag (fn_tags f) = Inr es" and D: "D = set es"
    using assms by (auto simp: declared_effects_def emap_Inr_iff)
  have tags: "fn_tags f = map effect_name es"
    using es by (simp add: etraverse_Inr_iff traverse_tags)
  have "declared_set f = set es" by (auto simp: declared_set_def tags)
  with D show ?thesis by simp
qed

lemma join_impure: "join_effects a b - {PURE} = (a \<union> b) - {PURE}"
  by (auto simp: join_effects_def Let_def)

text \<open>The analysis holds, for every name, the effects of its last function.\<close>

lemma efold_analyze:
  assumes "efold (\<lambda>ea (m, f). analyze_function m ea f) ea0 xs = Inr ea"
  shows "effect_of ea q - {PURE} =
    (case filter (\<lambda>x. fn_qualname (snd x) = q) xs of
       [] \<Rightarrow> effect_of ea0 q - {PURE}
     | ys \<Rightarrow> (declared_set (snd (last ys)) \<union> local_effect (snd (last ys)) (tm_aliases (fst (last ys)))) - {PURE})"
  using assms
proof (induction xs arbitrary: ea0)
  case (Cons x xs)
  obtain m f where x: "x = (m, f)" by force
  from Cons.prems obtain ea1 where step: "analyze_function m ea0 f = Inr ea1"
    and rest: "efold (\<lambda>ea (m, f). analyze_function m ea f) ea1 xs = Inr ea"
    by (auto simp: x split: sum.splits)
  from step obtain D where D: "declared_effects f = Inr D"
    and ea1: "ea_per_function ea1 =
      dset (fn_qualname f) (join_effects D (local_effect f (tm_aliases m))) (ea_per_function ea0)"
    by (auto simp: analyze_function_def emap_Inr_iff)
  have "effect_of ea1 q - {PURE} = (if fn_qualname f = q
      then (declared_set f \<union> local_effect f (tm_aliases m)) - {PURE} else effect_of ea0 q - {PURE})"
    using declared_effects_Inr [OF D] by (auto simp: effect_of_def ea1 join_impure)
  then show ?case
    using Cons.IH [OF rest] by (auto simp: x split: list.splits)
qed simp

lemma analyze_own_effects:
  assumes "analyze_effects modules = Inr ea"
  shows "effect_of ea q - {PURE} = own_effects modules q"
  using efold_analyze [of _ "package_functions modules" ea q] assms
  unfolding analyze_effects_def efold_functions own_effects_def
  by (simp add: effect_of_def split: list.splits)

definition own_mask :: "effect_analysis \<Rightarrow> tcb_function \<Rightarrow> int" where
  "own_mask ea f = (if declared_tags_to_bv (fn_tags f) = 0 then pure_mask else declared_tags_to_bv (fn_tags f)) OR
     effect_set_to_bv (effect_of ea (fn_qualname f))"

lemma bits_own_mask:
  "bits (own_mask ea f) =
     (if declared_set f = {} then {0} else effect_bit ` declared_set f) \<union>
     effect_bit ` effect_of ea (fn_qualname f)"
  using bits_eq_empty [of "declared_tags_to_bv (fn_tags f)"] by (auto simp: own_mask_def)

lemma own_mask_impure:
  "bits (own_mask ea f) \<inter> impure_bits =
     effect_bit ` ((declared_set f - {PURE}) \<union> (effect_of ea (fn_qualname f) - {PURE}))"
proof -
  have "effect_bit ` es \<inter> impure_bits = effect_bit ` (es - {PURE})" for es by auto
  moreover have "0 \<notin> impure_bits" by (simp add: impure_bits_def)
  ultimately show ?thesis by (simp add: bits_own_mask Int_Un_distrib2 image_Un)
qed

lemma local_masks_eq:
  "local_masks modules ea =
     foldl (\<lambda>d x. dset (fn_qualname (snd x)) (own_mask ea (snd x)) d) []
       (filter (\<lambda>x. \<not> is_rejected (snd x)) (package_functions modules))"
proof -
  have "foldl (\<lambda>d x. if P x then d else h d x) d xs = foldl h d (filter (\<lambda>x. \<not> P x) xs)"
    for P and h :: "(pystr, int) dict \<Rightarrow> tcb_module \<times> tcb_function \<Rightarrow> (pystr, int) dict" and d xs
    by (induction xs arbitrary: d) auto
  then show ?thesis
    unfolding local_masks_def foldl_functions by (simp add: case_prod_unfold own_mask_def Let_def)
qed

lemma foldl_dset_value:
  "map_of (foldl (\<lambda>d x. dset (k x) (v x) d) [] xs) q = Some y \<Longrightarrow> \<exists>x \<in> set xs. k x = q \<and> y = v x"
proof (induction xs rule: rev_induct)
  case (snoc x xs)
  then show ?case by (auto split: if_splits)
qed simp

lemma wf_local_masks: "wf_masks (local_masks modules ea)"
proof -
  have "mask_at (local_masks modules ea) q \<noteq> {} \<and> mask_at (local_masks modules ea) q \<subseteq> insert 0 impure_bits"
    if "has_key (local_masks modules ea) q" for q
  proof -
    from that obtain y where y: "map_of (local_masks modules ea) q = Some y"
      by (auto simp: has_key_map_of)
    then obtain x where "y = own_mask ea (snd x)"
      unfolding local_masks_eq by (auto dest!: foldl_dset_value)
    then have "mask_at (local_masks modules ea) q = bits (own_mask ea (snd x))"
      using y by (simp add: mask_at_Some)
    moreover have "bits (own_mask ea (snd x)) \<noteq> {}" by (auto simp: bits_own_mask)
    moreover have "bits (own_mask ea (snd x)) \<subseteq> insert 0 impure_bits"
      unfolding bits_own_mask using effect_bit_range by (simp add: image_subset_iff del: insert_iff) (simp add: insert_iff)
    ultimately show ?thesis by blast
  qed
  then show ?thesis by (simp add: wf_masks_def)
qed

lemma set_all_qualnames: "set (all_qualnames modules) = (\<lambda>x. fn_qualname (snd x)) ` set (package_functions modules)"
  by (force simp: all_qualnames_def package_functions_def)

text \<open>When nothing is rejected the masks are those of all functions.\<close>

definition none_rejected :: "tcb_module list \<Rightarrow> bool" where
  "none_rejected modules \<longleftrightarrow> (\<forall>(m, f) \<in> set (package_functions modules). \<not> is_rejected f)"

lemma local_masks_all:
  assumes "none_rejected modules"
  shows "local_masks modules ea =
     foldl (\<lambda>d x. dset (fn_qualname (snd x)) (own_mask ea (snd x)) d) [] (package_functions modules)"
proof -
  have "filter (\<lambda>x. \<not> is_rejected (snd x)) (package_functions modules) = package_functions modules"
    using assms by (intro filter_True) (auto simp: none_rejected_def)
  then show ?thesis by (simp add: local_masks_eq)
qed

lemma has_key_local_masks:
  "none_rejected modules \<Longrightarrow> has_key (local_masks modules ea) q \<longleftrightarrow> q \<in> set (all_qualnames modules)"
  by (simp add: local_masks_all has_key_foldl_dset set_all_qualnames)

lemma mask_own_effects:
  assumes "none_rejected modules" and ea: "analyze_effects modules = Inr ea"
  shows "mask_at (local_masks modules ea) q \<inter> impure_bits = effect_bit ` own_effects modules q"
proof (cases "filter (\<lambda>x. fn_qualname (snd x) = q) (package_functions modules)")
  case Nil
  then show ?thesis
    by (simp add: local_masks_all [OF assms(1)] mask_at_def foldl_dset_entry own_effects_def)
next
  case (Cons x xs)
  let ?f = "snd (last (x # xs))"
  have q: "fn_qualname ?f = q"
  proof -
    have "last (x # xs) \<in> set (filter (\<lambda>x. fn_qualname (snd x) = q) (package_functions modules))"
      unfolding Cons by (rule last_in_set) simp
    then show ?thesis by simp
  qed
  have "mask_at (local_masks modules ea) q = bits (own_mask ea ?f)"
    by (simp add: local_masks_all [OF assms(1)] mask_at_def foldl_dset_entry Cons)
  also have "\<dots> \<inter> impure_bits = effect_bit ` ((declared_set ?f - {PURE}) \<union> (effect_of ea q - {PURE}))"
    using own_mask_impure [of ea ?f] unfolding q .
  also have "(declared_set ?f - {PURE}) \<union> (effect_of ea q - {PURE}) = own_effects modules q"
    unfolding analyze_own_effects [OF ea] by (auto simp: own_effects_def Cons)
  finally show ?thesis .
qed

lemma graph_call_graph:
  "none_rejected modules \<Longrightarrow> graph_edges (local_masks modules ea) (callees_map modules) = call_graph modules"
  by (simp add: graph_edges_def call_graph_def has_key_local_masks)

lemma reached_bits_effects:
  assumes "none_rejected modules" and "analyze_effects modules = Inr ea"
  shows "reached_bits (local_masks modules ea) (callees_map modules) q = effect_bit ` reached_effects modules q"
  unfolding reached_bits_def reached_effects_def graph_call_graph [OF assms(1)] mask_own_effects [OF assms]
  by blast

text \<open>The analysis raises on a tag that names no effect, and only then.\<close>

lemma declared_effects_ok: "is_ok (declared_effects f) \<longleftrightarrow> (\<forall>tag \<in> set (fn_tags f). \<exists>e. tag = effect_name e)"
proof -
  have "is_ok (etraverse effect_of_tag tags) \<longleftrightarrow> (\<forall>tag \<in> set tags. \<exists>e. tag = effect_name e)" for tags
  proof (induction tags)
    case (Cons t tags)
    show ?case
    proof (cases "effect_of_tag t")
      case (Inl e)
      then have "\<nexists>e. t = effect_name e" using effect_of_tag_Inr [of t] by auto
      with Inl show ?thesis by simp
    next
      case (Inr e)
      then have "t = effect_name e" by simp
      with Inr Cons show ?thesis by (cases "etraverse effect_of_tag tags") auto
    qed
  qed simp
  from this [of "fn_tags f"] show ?thesis
    by (cases "etraverse effect_of_tag (fn_tags f)") (auto simp: declared_effects_def)
qed

lemma analyze_effects_ok:
  "is_ok (analyze_effects modules) \<longleftrightarrow>
     (\<forall>(m, f) \<in> set (package_functions modules). \<forall>tag \<in> set (fn_tags f). \<exists>e. tag = effect_name e)"
proof -
  have "is_ok (efold (\<lambda>ea (m, f). analyze_function m ea f) ea0 xs) \<longleftrightarrow>
      (\<forall>(m, f) \<in> set xs. is_ok (declared_effects f))" for ea0 xs
  proof (induction xs arbitrary: ea0)
    case (Cons x xs)
    then show ?case
      by (cases x; cases "declared_effects (snd x)") (simp_all add: analyze_function_def)
  qed simp
  then show ?thesis unfolding analyze_effects_def efold_functions declared_effects_ok by simp
qed

section \<open>The meaning of a condition\<close>

text \<open>What the solver's documentation promises: \<open>unsat\<close> and \<open>sat\<close> are right.\<close>

definition solver_right :: "(assertion list \<Rightarrow> z3_result) \<Rightarrow> bool" where
  "solver_right z3 \<longleftrightarrow> (\<forall>as. (z3 as = Unsat \<longrightarrow> \<not> (\<exists>x. \<forall>a \<in> set as. bv_holds x a)) \<and>
     (\<forall>x. z3 as = Sat x \<longrightarrow> (\<forall>a \<in> set as. bv_holds x a)))"

definition solver_decides :: "(assertion list \<Rightarrow> z3_result) \<Rightarrow> bool" where
  "solver_decides z3 \<longleftrightarrow> (\<forall>as. z3 as \<noteq> Undecided)"

lemma word_meets:
  "word_of_int x AND word_of_int y AND NOT (word_of_int z) = (0 :: 8 word) \<longleftrightarrow>
     (\<forall>i \<in> bits x \<inter> bits y. i < 8 \<longrightarrow> i \<in> bits z)"
  by (auto simp: bit_eq_iff bit_and_iff bit_not_iff bits_def bit_word_of_int_iff)

lemma purity_vc_unsat:
  "(\<exists>x. \<forall>a \<in> set (vc_asserts (purity_vc fixpoint f)). bv_holds x a) \<longleftrightarrow>
     \<not> bits (dget fixpoint (fn_qualname f) pure_mask) \<inter> impure_bits \<subseteq> effect_bit ` declared_set f"
proof -
  let ?c = "dget fixpoint (fn_qualname f) pure_mask"
  have none: "declared_tags_to_bv [] = 0" by (simp add: declared_tags_to_bv_def)
  have "(\<exists>x. \<forall>a \<in> set (vc_asserts (purity_vc fixpoint f)). bv_holds x a) \<longleftrightarrow>
    word_of_int ?c AND word_of_int impure_mask AND NOT (word_of_int (declared_tags_to_bv (fn_tags f))) \<noteq> (0 :: 8 word)"
    by (simp add: purity_vc_def none)
  also have "\<dots> \<longleftrightarrow> \<not> bits ?c \<inter> impure_bits \<subseteq> effect_bit ` declared_set f"
    unfolding word_meets by (auto simp: impure_bits_def subset_iff)
  finally show ?thesis .
qed

section \<open>The verdict\<close>

lemma aggregate_verified:
  "aggregate_verdict fns = VERIFIED \<longleftrightarrow> fns \<noteq> [] \<and> (\<forall>f \<in> set fns. fr_verdict f = VERIFIED)"
proof -
  have "(\<forall>f \<in> set fns. fr_verdict f = VERIFIED) \<longleftrightarrow>
    \<not> list_ex (\<lambda>f. fr_verdict f = REFUTED) fns \<and> \<not> list_ex (\<lambda>f. fr_verdict f = REJECTED) fns \<and>
    \<not> list_ex (\<lambda>f. fr_verdict f = UNKNOWN) fns"
  proof -
    have "v = VERIFIED \<longleftrightarrow> v \<noteq> REFUTED \<and> v \<noteq> REJECTED \<and> v \<noteq> UNKNOWN" for v
      by (cases v) simp_all
    then show ?thesis unfolding list_ex_iff by simp blast
  qed
  then show ?thesis by (simp add: aggregate_verdict_def)
qed

lemma rejected_results_none: "rejected_results modules = [] \<longleftrightarrow> none_rejected modules"
  by (auto simp: rejected_results_def none_rejected_def package_functions_iff is_rejected_def split: option.splits)

lemma rejected_results_verdict: "r \<in> set (rejected_results modules) \<Longrightarrow> fr_verdict r = REJECTED"
  by (auto simp: rejected_results_def split: option.splits)

lemma discharge_verified: "fr_verdict (discharge z3 c) = VERIFIED \<longleftrightarrow> z3 (vc_asserts c) = Unsat"
  by (simp add: discharge_def split: z3_result.splits)

text \<open>The functions a package answers for: those outside the rim.\<close>

definition core_functions :: "tcb_module list \<Rightarrow> tcb_function list" where
  "core_functions modules = concat (map (\<lambda>m. if tm_rim m then []
     else filter (\<lambda>f. \<not> is_rejected f) (tm_functions m)) modules)"

lemma core_functions_iff:
  "f \<in> set (core_functions modules) \<longleftrightarrow>
     (\<exists>m. (m, f) \<in> set (package_functions modules) \<and> \<not> tm_rim m \<and> \<not> is_rejected f)"
  by (auto simp: core_functions_def package_functions_iff)

lemma generate_purity_vcs_eq:
  "generate_purity_vcs order modules ea =
     map_option (\<lambda>fixpoint. map (purity_vc fixpoint) (core_functions modules))
       (purity_fixpoint order (local_masks modules ea) (callees_map modules))"
  unfolding generate_purity_vcs_def core_functions_def map_concat
  by (auto intro!: arg_cong [where f = "\<lambda>g. map_option g _"] arg_cong [where f = concat])

lemma honest_iff_core:
  "honest_package modules \<longleftrightarrow> core_functions modules \<noteq> [] \<and> none_rejected modules \<and>
     (\<forall>f \<in> set (core_functions modules). reached_effects modules (fn_qualname f) \<subseteq> declared_set f)"
proof -
  have "core_functions modules \<noteq> [] \<longleftrightarrow> (\<exists>f. f \<in> set (core_functions modules))"
    by (metis last_in_set length_greater_0_conv length_pos_if_in_set)
  then show ?thesis
    unfolding honest_package_def core_functions_iff none_rejected_def
    by (simp only: Ball_def Bex_def split_paired_All split_paired_Ex prod.case core_functions_iff) blast
qed

lemma purity_vcs_meaning:
  assumes order: "\<And>xs. set (order xs) = set xs" and ea: "analyze_effects modules = Inr ea"
  shows "\<exists>fixpoint. generate_purity_vcs order modules ea = Some (map (purity_vc fixpoint) (core_functions modules)) \<and>
    (none_rejected modules \<longrightarrow> (\<forall>f \<in> set (core_functions modules).
       (\<exists>x. \<forall>a \<in> set (vc_asserts (purity_vc fixpoint f)). bv_holds x a) \<longleftrightarrow>
       \<not> reached_effects modules (fn_qualname f) \<subseteq> declared_set f))"
proof -
  obtain fixpoint where fp: "purity_fixpoint order (local_masks modules ea) (callees_map modules) = Some fixpoint"
    and keys: "\<And>q. has_key fixpoint q \<longleftrightarrow> has_key (local_masks modules ea) q"
    and reach: "\<And>q. has_key (local_masks modules ea) q \<Longrightarrow>
       mask_at fixpoint q \<inter> impure_bits = reached_bits (local_masks modules ea) (callees_map modules) q"
    using purity_fixpoint_reaches [OF order wf_local_masks wf_callees_map] by metis
  have "(\<exists>x. \<forall>a \<in> set (vc_asserts (purity_vc fixpoint f)). bv_holds x a) \<longleftrightarrow>
      \<not> reached_effects modules (fn_qualname f) \<subseteq> declared_set f"
    if none: "none_rejected modules" and f: "f \<in> set (core_functions modules)" for f
  proof -
    have q: "has_key (local_masks modules ea) (fn_qualname f)"
      using f by (force simp: has_key_local_masks [OF none] set_all_qualnames core_functions_iff)
    then obtain v where v: "map_of fixpoint (fn_qualname f) = Some v"
      using keys by (auto simp: has_key_map_of)
    have "bits (dget fixpoint (fn_qualname f) pure_mask) \<inter> impure_bits =
        effect_bit ` reached_effects modules (fn_qualname f)"
      using reach [OF q] v by (simp add: dget_def mask_at_def reached_bits_effects [OF none ea])
    moreover have "effect_bit ` A \<subseteq> effect_bit ` B \<longleftrightarrow> A \<subseteq> B" for A B by (auto simp: image_subset_iff)
    ultimately show ?thesis by (simp add: purity_vc_unsat)
  qed
  moreover have "generate_purity_vcs order modules ea = Some (map (purity_vc fixpoint) (core_functions modules))"
    by (simp add: generate_purity_vcs_eq fp)
  ultimately show ?thesis by blast
qed

lemma purity_report_success:
  fixes pkg :: pystr
  assumes z3: "solver_right z3"
    and meaning: "\<And>f. none_rejected modules \<Longrightarrow> f \<in> set (core_functions modules) \<Longrightarrow>
       (\<exists>x. \<forall>a \<in> set (vc_asserts (purity_vc fixpoint f)). bv_holds x a) \<longleftrightarrow>
       \<not> reached_effects modules (fn_qualname f) \<subseteq> declared_set f"
  defines "r \<equiv> purity_report z3 pkg modules (map (purity_vc fixpoint) (core_functions modules))"
  shows "is_success r \<Longrightarrow> honest_package modules"
    and "honest_package modules \<Longrightarrow> solver_decides z3 \<Longrightarrow> is_success r"
proof -
  have success: "is_success r \<longleftrightarrow> none_rejected modules \<and> core_functions modules \<noteq> [] \<and>
      (\<forall>f \<in> set (core_functions modules). z3 (vc_asserts (purity_vc fixpoint f)) = Unsat)"
  proof (cases "none_rejected modules")
    case True
    then show ?thesis
      by (simp add: r_def is_success_def purity_report_def Let_def aggregate_verified
          rejected_results_none [symmetric] discharge_verified)
  next
    case False
    then obtain x where "x \<in> set (rejected_results modules)"
      using rejected_results_none by (metis last_in_set)
    with False show ?thesis
      using rejected_results_verdict [of x modules]
      by (auto simp: r_def is_success_def purity_report_def Let_def aggregate_verified)
  qed
  show "honest_package modules" if "is_success r"
    using that z3 meaning unfolding success honest_iff_core solver_right_def by metis
  show "is_success r" if honest: "honest_package modules" and decides: "solver_decides z3"
  proof -
    have "z3 (vc_asserts (purity_vc fixpoint f)) = Unsat" if "f \<in> set (core_functions modules)" for f
    proof -
      have "\<not> (\<exists>x. \<forall>a \<in> set (vc_asserts (purity_vc fixpoint f)). bv_holds x a)"
        using honest that meaning [of f] by (simp add: honest_iff_core)
      then show ?thesis
        using z3 decides unfolding solver_right_def solver_decides_def by (metis z3_result.exhaust)
    qed
    then show ?thesis using honest by (simp add: success honest_iff_core)
  qed
qed

end
