(* ===== verification/TcbSpec.thy ===== *)
theory TcbSpec
  imports TcbVerdict
begin

text \<open>
  The properties of the purity verifier, with two small packages as their witnesses.
\<close>

section \<open>Examples\<close>

text \<open>A solver that tries the constant of the first assertion, or all 8-bit values.\<close>

definition candidates :: "assertion list \<Rightarrow> 8 word list" where
  "candidates as = (case as of BvEq c # _ \<Rightarrow> [c] | _ \<Rightarrow> map word_of_nat [0..<256])"

definition reference_z3 :: "assertion list \<Rightarrow> z3_result" where
  "reference_z3 as =
     (case List.find (\<lambda>x. list_all (bv_holds x) as) (candidates as) of None \<Rightarrow> Unsat | Some x \<Rightarrow> Sat x)"

lemma candidates_enough:
  assumes "\<forall>a \<in> set as. bv_holds x a"
  shows "x \<in> set (candidates as)"
proof -
  have "unat x < 256" using unsigned_less [of x] by simp
  then have "x \<in> set (map word_of_nat [0..<256])" by (auto intro!: image_eqI [where x = "unat x"])
  with assms show ?thesis by (auto simp: candidates_def split: list.splits assertion.splits)
qed

lemma reference_z3_right: "solver_right reference_z3"
  unfolding solver_right_def reference_z3_def
  by (auto simp: find_None_iff find_Some_iff list_all_iff split: option.splits) (use candidates_enough in blast)

lemma reference_z3_decides: "solver_decides reference_z3"
  by (simp add: solver_decides_def reference_z3_def split: option.splits)

definition write_tag :: ast where
  "write_tag = ACall (AName (u ''effect'')) [AAttribute (AName (u ''Effect'')) (u ''FS_WRITE'')] []"

definition rim_file :: "pystr \<times> parsed" where
  "rim_file = (u ''_io/disk.py'', Parsed [
     AFunctionDef (u ''write'') (AArguments [] [AArg (u ''p'') []] [])
       [ANode [ACall (AName (u ''open'')) [AName (u ''p''), AStr (u ''w'')] []]] [write_tag] []])"

text \<open>The core function calls the rim through \<open>from telos._io import disk\<close> and says so.\<close>

definition honest_files :: "(pystr \<times> parsed) list" where
  "honest_files = [rim_file, (u ''core.py'', Parsed [
     AImportFrom (Some (u ''telos._io'')) [(u ''disk'', None)] 0,
     AFunctionDef (u ''save'') (AArguments [] [AArg (u ''p'') []] [])
       [ANode [ACall (AAttribute (AName (u ''disk'')) (u ''write'')) [AName (u ''p'')] []]] [write_tag] []])]"

text \<open>The core function makes the same call through \<open>import telos._io.disk\<close> and declares nothing.\<close>

definition hidden_files :: "(pystr \<times> parsed) list" where
  "hidden_files = [rim_file, (u ''core.py'', Parsed [
     AImport [(u ''telos._io.disk'', None)],
     AFunctionDef (u ''save'') (AArguments [] [AArg (u ''p'') []] [])
       [ANode [ACall (AAttribute (AAttribute (AAttribute (AName (u ''telos'')) (u ''_io'')) (u ''disk'')) (u ''write''))
          [AName (u ''p'')] []]] [] []])]"

definition verify_demo :: "(pystr \<times> parsed) list \<Rightarrow> (pyexc + tcb_report) option" where
  "verify_demo files = verify_package (\<lambda>_. None) id reference_z3 files (u ''telos'') (u ''purity'')"

lemma demo_success:
  "(case verify_demo honest_files of Some (Inr r) \<Rightarrow> is_success r | _ \<Rightarrow> False)"
  by code_simp

lemma demo_hidden:
  "(case verify_demo hidden_files of Some (Inr r) \<Rightarrow> is_success r | _ \<Rightarrow> False)"
  by code_simp

section \<open>Properties\<close>





text \<open>
  C23: The worklist computes reachability. For every call graph and local masks it ends with, for
  each function, the union of the impure bits of all functions it reaches; two orders of
  iteration give the same impure bits.
\<close>

theorem worklist_computes_reachability:
  assumes "\<And>xs. set (order xs) = set xs" and "wf_masks local" and "wf_dict callees"
  shows "\<exists>fixpoint. purity_fixpoint order local callees = Some fixpoint \<and>
    (\<forall>q. has_key local q \<longrightarrow> has_key fixpoint q \<and>
       mask_at fixpoint q \<inter> impure_bits =
         (\<Union>g \<in> (graph_edges local callees)\<^sup>* `` {q}. mask_at local g \<inter> impure_bits))"
  using purity_fixpoint_reaches [OF assms] unfolding reached_bits_def by metis

theorem worklist_computes_reachability_witness:
  "\<exists>fixpoint. purity_fixpoint rev [(u ''a'', 1), (u ''b'', 1), (u ''c'', 4)]
      [(u ''a'', [u ''b'']), (u ''b'', [u ''c'', u ''a''])] = Some fixpoint \<and>
    2 \<in> mask_at fixpoint (u ''a'')"
proof -
  let ?l = "[(u ''a'', 1), (u ''b'', 1), (u ''c'', 4 :: int)]"
  let ?c = "[(u ''a'', [u ''b'']), (u ''b'', [u ''c'', u ''a''])]"
  have bits: "bits 1 = {0}" "bits 4 = {2}"
    using bits_one [of 0] bits_one [of 2] by simp_all
  have wf: "wf_masks ?l" by (auto simp: wf_masks_def mask_at_def bits impure_bits_def u_def)
  have "wf_dict ?c" by (simp add: wf_dict_def u_def)
  then obtain fixpoint where fp: "purity_fixpoint rev ?l ?c = Some fixpoint"
    and reach: "mask_at fixpoint (u ''a'') \<inter> impure_bits =
      (\<Union>g \<in> (graph_edges ?l ?c)\<^sup>* `` {u ''a''}. mask_at ?l g \<inter> impure_bits)"
    using worklist_computes_reachability [of rev ?l ?c, OF _ wf] by fastforce
  have "(u ''a'', u ''b'') \<in> graph_edges ?l ?c" "(u ''b'', u ''c'') \<in> graph_edges ?l ?c"
    by (simp_all add: graph_edges_def dget_def u_def)
  then have "(u ''a'', u ''c'') \<in> (graph_edges ?l ?c)\<^sup>*" by simp
  moreover have "2 \<in> mask_at ?l (u ''c'') \<inter> impure_bits"
    by (simp add: mask_at_def bits impure_bits_def u_def)
  ultimately have "2 \<in> mask_at fixpoint (u ''a'') \<inter> impure_bits" unfolding reach by blast
  with fp show ?thesis by blast
qed

text \<open>The alias of \<open>import a.b.c\<close> puts the path below \<open>a\<close> twice into a call's name.\<close>

lemma dotted_import_alias:
  assumes "\<forall>x \<in> set (a # rest). 46 \<notin> set x"
  shows "apply_alias (add_import [] (dotted (a # rest), None)) (a # rest @ [f]) = a # rest @ rest @ [f]"
proof -
  have "split_dots (dotted (a # rest)) = a # rest"
    using split_join [of "a # rest" 46] assms by (simp add: split_dots_def dotted_def u_def)
  then show ?thesis by (simp add: apply_alias_def)
qed


end
