(* ===== verification/Messages.thy ===== *)
theory Messages
  imports Channels Receipt
begin

text \<open>
  Message lists of the graph engine (src/dharma_swarm/graph/messages.py): typed messages and
  their JSON projections, coercion of message-like values, the merge by id with replacement and
  removal, formatting for OpenAI, the channel that folds its writes through the merge, and the
  reducer of UI messages.

  Values are those of \<open>PyVal\<close>. The random source of an effects provider is a stream \<open>rng\<close> of
  128-bit draws with the number of draws made so far as its state, which is returned also when
  a call raises. Deep and shallow copies are the identity.
\<close>

section \<open>Messages\<close>

definition REMOVE_ALL_MESSAGES :: pystr where
  "REMOVE_ALL_MESSAGES = u ''__remove_all__''"

definition ROLE_ALIASES :: "(pystr, pystr) dict" where
  "ROLE_ALIASES = [(u ''user'', u ''human''), (u ''human'', u ''human''), (u ''assistant'', u ''ai''),
     (u ''ai'', u ''ai''), (u ''system'', u ''system''), (u ''tool'', u ''tool'')]"

datatype message =
    GraphMessage (m_content: pyval) (m_role: pystr) (m_id: pyval) (m_name: pyval)
  | RemoveMessage (m_id: pyval)

text \<open>The constructor with the check of \<open>__post_init__\<close>; \<open>role\<close> is already a string.\<close>

definition make_message :: "pyval \<Rightarrow> pystr \<Rightarrow> pyval \<Rightarrow> pyval \<Rightarrow> pyexc + message" where
  "make_message content role i name =
     (case map_of ROLE_ALIASES role of
        None \<Rightarrow> Inl (ValueError (u ''unsupported message role''))
      | Some r \<Rightarrow> Inr (GraphMessage content r i name))"

fun message_to_dict :: "message \<Rightarrow> pyval" where
  "message_to_dict (GraphMessage content role i name) =
     PDict [(PStr (u ''type''), PStr role), (PStr (u ''content''), content), (PStr (u ''id''), i),
            (PStr (u ''name''), name)]"
| "message_to_dict (RemoveMessage i) = PDict [(PStr (u ''type''), PStr (u ''remove'')), (PStr (u ''id''), i)]"

text \<open>\<open>a or b\<close>.\<close>

definition py_or :: "pyval \<Rightarrow> pyval \<Rightarrow> pyval" where
  "py_or a b = (if py_truthy a then a else b)"

definition message_from_dict :: "prims \<Rightarrow> (pyval \<times> pyval) list \<Rightarrow> pyexc + message" where
  "message_from_dict P d =
     make_message (dget d (PStr (u ''content'')) (PStr []))
       (py_str P (py_or (py_or (vget d (u ''type'')) (vget d (u ''role''))) (PStr (u ''human''))))
       (vget d (u ''id'')) (vget d (u ''name''))"

text \<open>
  A message-like value: a typed message, a plain value, or a list that may hold either.
\<close>

datatype message_like = Typed message | Raw pyval | Batch "message_like list"

fun coerce_message :: "prims \<Rightarrow> message_like \<Rightarrow> pyexc + message" where
  "coerce_message P (Typed m) = Inr m"
| "coerce_message P (Raw (PDict d)) =
     (if py_or (vget d (u ''type'')) (vget d (u ''role'')) = PStr (u ''remove'')
      then (case vget d (u ''id'') of
              PNone \<Rightarrow> Inl (ValueError (u ''remove message requires an id''))
            | i \<Rightarrow> Inr (RemoveMessage (PStr (py_str P i))))
      else message_from_dict P d)"
| "coerce_message P (Raw (PTuple [role, content])) = make_message content (py_str P role) PNone PNone"
| "coerce_message P (Raw (PStr s)) = make_message (PStr s) (u ''human'') PNone PNone"
| "coerce_message P _ = Inl (TypeError (u ''cannot coerce into a graph message''))"

fun message_items :: "message_like \<Rightarrow> message_like list" where
  "message_items (Typed m) = [Typed m]"
| "message_items (Batch xs) = xs"
| "message_items (Raw PNone) = []"
| "message_items (Raw (PTuple [PStr role, content])) = [Raw (PTuple [PStr role, content])]"
| "message_items (Raw (PTuple vs)) = map Raw vs"
| "message_items (Raw (PList vs)) = map Raw vs"
| "message_items (Raw v) = [Raw v]"

definition coerce_all :: "prims \<Rightarrow> message_like \<Rightarrow> pyexc + message list" where
  "coerce_all P v = etraverse (coerce_message P) (message_items v)"

section \<open>Minted ids\<close>

text \<open>\<open>uuid.UUID(int=n, version=4)\<close>: the bits of the variant and the version are set.\<close>

definition uuid4_int :: "nat \<Rightarrow> int" where
  "uuid4_int n =
     (let a = (int n AND NOT (push_bit 62 3)) OR push_bit 63 1
      in (a AND NOT (push_bit 76 15)) OR push_bit 76 4)"

definition minted_id :: "nat \<Rightarrow> pystr" where
  "minted_id n = uuid_str (nat (uuid4_int n))"

fun with_ids :: "(nat \<Rightarrow> nat) \<Rightarrow> nat \<Rightarrow> message list \<Rightarrow> nat \<times> message list" where
  "with_ids rng k [] = (k, [])"
| "with_ids rng k (GraphMessage content role PNone name # ms) =
     (let (k', ms') = with_ids rng (Suc k) ms
      in (k', GraphMessage content role (PStr (minted_id (rng k))) name # ms'))"
| "with_ids rng k (m # ms) = (let (k', ms') = with_ids rng k ms in (k', m # ms'))"

section \<open>Content for OpenAI\<close>

fun as_dict :: "pyval \<Rightarrow> (pyval \<times> pyval) list option" where
  "as_dict (PDict d) = Some d"
| "as_dict _ = None"

definition text_block :: "pyval \<Rightarrow> pyval" where
  "text_block t = PDict [(PStr (u ''type''), PStr (u ''text'')), (PStr (u ''text''), t)]"

definition url_block :: "pyval \<Rightarrow> pyval" where
  "url_block url = PDict [(PStr (u ''type''), PStr (u ''image_url'')), (PStr (u ''image_url''), url)]"

definition image_url :: "prims \<Rightarrow> pyval \<Rightarrow> pyexc + pystr" where
  "image_url P source =
     (case as_dict (py_or source (PDict [])) of
        None \<Rightarrow> Inl (AttributeError (u ''get''))
      | Some d \<Rightarrow> Inr (if vget d (u ''type'') = PStr (u ''base64'')
          then u ''data:'' @ py_str P (vget d (u ''media_type'')) @ u '';base64,'' @ py_str P (vget d (u ''data''))
          else py_str P (dget d (PStr (u ''url'')) (PStr []))))"

fun content_block :: "prims \<Rightarrow> pyval \<Rightarrow> pyexc + pyval" where
  "content_block P (PStr s) = Inr (text_block (PStr s))"
| "content_block P (PDict d) =
     (let kind = vget d (u ''type'') in
      if kind = PStr (u ''text'') then Inr (text_block (dget d (PStr (u ''text'')) (PStr [])))
      else if kind = PStr (u ''image_url'')
      then Inr (url_block (case vget d (u ''image_url'') of PDict e \<Rightarrow> PDict e
                             | url \<Rightarrow> PDict [(PStr (u ''url''), url)]))
      else if kind = PStr (u ''image'')
      then emap (\<lambda>url. url_block (PDict [(PStr (u ''url''), PStr url)])) (image_url P (vget d (u ''source'')))
      else Inl (ValueError (u ''unrecognized content block type'')))"
| "content_block P _ = Inl (ValueError (u ''cannot format content block''))"

definition block_text :: "pyval \<Rightarrow> pyval option" where
  "block_text b =
     (case as_dict b of
        None \<Rightarrow> None
      | Some d \<Rightarrow> if vget d (u ''type'') = PStr (u ''text'') then Some (vget d (u ''text'')) else None)"

fun plain_text :: "pyval \<Rightarrow> pyexc + pystr" where
  "plain_text (PStr s) = Inr s"
| "plain_text _ = Inl (TypeError (u ''sequence item: expected str instance''))"

definition openai_content :: "prims \<Rightarrow> pyval \<Rightarrow> pyexc + pyval" where
  "openai_content P content =
     (case content of
        PList raws \<Rightarrow> ebind (etraverse (content_block P) raws) (\<lambda>blocks.
          if blocks \<noteq> [] \<and> list_all (\<lambda>b. block_text b \<noteq> None) blocks
          then emap (\<lambda>ts. PStr (join_str [10] ts)) (etraverse (plain_text \<circ> the \<circ> block_text) blocks)
          else Inr (PList blocks))
      | v \<Rightarrow> Inr v)"

definition to_openai :: "prims \<Rightarrow> message \<Rightarrow> pyexc + pyval" where
  "to_openai P m =
     (let wire = dget [(u ''human'', u ''user''), (u ''ai'', u ''assistant'')] (m_role m) (m_role m) in
      emap (\<lambda>c. PDict [(PStr (u ''role''), PStr wire), (PStr (u ''content''), c)]) (openai_content P (m_content m)))"

definition format_message :: "prims \<Rightarrow> message \<Rightarrow> pyexc + message" where
  "format_message P m =
     ebind (openai_content P (m_content m)) (\<lambda>c. make_message c (m_role m) PNone (m_name m))"

section \<open>Merging by id\<close>

text \<open>
  The loop that \<open>add_messages\<close> and \<open>ui_message_reducer\<close> share in shape: the merged list, a
  dictionary from ids to positions and the set of ids to remove. Keys are compared with Python's
  \<open>==\<close>; an unhashable key raises.
\<close>

record 'a merge_state =
  mg_items :: "'a list"
  mg_index :: "(pyval \<times> nat) list"
  mg_removed :: "pyval list"

definition key_lookup :: "(pyval \<times> nat) list \<Rightarrow> pyval \<Rightarrow> nat option" where
  "key_lookup d k = map_option snd (List.find (\<lambda>(k', _). py_eq k' k) d)"

fun key_set :: "pyval \<Rightarrow> nat \<Rightarrow> (pyval \<times> nat) list \<Rightarrow> (pyval \<times> nat) list" where
  "key_set k i [] = [(k, i)]"
| "key_set k i ((k', j) # d) = (if py_eq k' k then (k', i) # d else (k', j) # key_set k i d)"

definition key_in :: "pyval \<Rightarrow> pyval list \<Rightarrow> bool" where
  "key_in k ks \<longleftrightarrow> list_ex (\<lambda>k'. py_eq k' k) ks"

definition key_add :: "pyval \<Rightarrow> pyval list \<Rightarrow> pyval list" where
  "key_add k ks = (if key_in k ks then ks else ks @ [k])"

definition key_discard :: "pyval \<Rightarrow> pyval list \<Rightarrow> pyval list" where
  "key_discard k ks = filter (\<lambda>k'. \<not> py_eq k' k) ks"

definition unhashable :: pyexc where
  "unhashable = TypeError (u ''unhashable type'')"

text \<open>\<open>{message.id: index for index, message in enumerate(merged)}\<close>\<close>

fun index_items :: "('a \<Rightarrow> pyval) \<Rightarrow> nat \<Rightarrow> 'a list \<Rightarrow> (pyval \<times> nat) list \<Rightarrow> pyexc + (pyval \<times> nat) list" where
  "index_items ident i [] d = Inr d"
| "index_items ident i (m # ms) d =
     (if py_hashable (ident m) then index_items ident (Suc i) ms (key_set (ident m) i d) else Inl unhashable)"

definition merge_step ::
    "('a \<Rightarrow> pyval) \<Rightarrow> ('a \<Rightarrow> bool) \<Rightarrow> ('a \<Rightarrow> 'a \<Rightarrow> pyexc + 'a) \<Rightarrow> 'a merge_state \<Rightarrow> 'a \<Rightarrow> pyexc + 'a merge_state"
where
  "merge_step ident removal combine st m =
     (if \<not> py_hashable (ident m) then Inl unhashable
      else case key_lookup (mg_index st) (ident m) of
        Some i \<Rightarrow>
          if removal m then Inr (st\<lparr>mg_removed := key_add (ident m) (mg_removed st)\<rparr>)
          else emap (\<lambda>m'. st\<lparr>mg_removed := key_discard (ident m) (mg_removed st),
                            mg_items := (mg_items st)[i := m']\<rparr>)
                 (combine (mg_items st ! i) m)
      | None \<Rightarrow>
          if removal m then Inl (ValueError (u ''Attempting to delete a message that does not exist''))
          else Inr (st\<lparr>mg_index := key_set (ident m) (length (mg_items st)) (mg_index st),
                       mg_items := mg_items st @ [m]\<rparr>))"

text \<open>
  The right-hand list may fail to be one, and its elements are converted one by one in the loop.
\<close>

definition merge_items ::
    "('a \<Rightarrow> pyval) \<Rightarrow> ('a \<Rightarrow> bool) \<Rightarrow> ('a \<Rightarrow> 'a \<Rightarrow> pyexc + 'a) \<Rightarrow> ('r \<Rightarrow> pyexc + 'a) \<Rightarrow>
     'a list \<Rightarrow> pyexc + 'r list \<Rightarrow> pyexc + 'a list" where
  "merge_items ident removal combine conv left right =
     ebind (index_items ident 0 left []) (\<lambda>index.
     ebind right (\<lambda>rs.
     emap (\<lambda>st. filter (\<lambda>m. \<not> key_in (ident m) (mg_removed st)) (mg_items st))
       (efold (\<lambda>st r. ebind (conv r) (merge_step ident removal combine st))
          \<lparr>mg_items = left, mg_index = index, mg_removed = []\<rparr> rs)))"

fun is_graph_message :: "message \<Rightarrow> bool" where
  "is_graph_message (GraphMessage _ _ _ _) = True"
| "is_graph_message (RemoveMessage _) = False"

text \<open>The messages after the last one that removes all, if there is one.\<close>

fun after_clear :: "message list \<Rightarrow> message list option" where
  "after_clear [] = None"
| "after_clear (m # ms) =
     (case after_clear ms of
        Some rest \<Rightarrow> Some rest
      | None \<Rightarrow> if m = RemoveMessage (PStr REMOVE_ALL_MESSAGES) then Some ms else None)"

definition finish_format :: "prims \<Rightarrow> pystr option \<Rightarrow> message list \<Rightarrow> pyexc + message list" where
  "finish_format P format merged =
     (if format = Some (u ''langchain-openai'') then etraverse (format_message P) merged
      else if format \<noteq> None \<and> format \<noteq> Some [] then Inl (ValueError (u ''Unrecognized format''))
      else Inr merged)"

definition merge_messages :: "prims \<Rightarrow> pystr option \<Rightarrow> message list \<Rightarrow> message list \<Rightarrow> pyexc + message list" where
  "merge_messages P format left right =
     (case after_clear right of
        Some rest \<Rightarrow> Inr (filter is_graph_message rest)
      | None \<Rightarrow>
          ebind (merge_items m_id (\<lambda>m. \<not> is_graph_message m) (\<lambda>_ m. Inr m) Inr
               (filter is_graph_message left) (Inr right))
            (finish_format P format))"

definition add_messages ::
    "prims \<Rightarrow> (nat \<Rightarrow> nat) \<Rightarrow> pystr option \<Rightarrow> nat \<Rightarrow> message_like \<Rightarrow> message_like \<Rightarrow> nat \<times> (pyexc + message list)" where
  "add_messages P rng format k left right =
     (case coerce_all P left of
        Inl e \<Rightarrow> (k, Inl e)
      | Inr ls \<Rightarrow> (let (k1, left_messages) = with_ids rng k ls in
          case coerce_all P right of
            Inl e \<Rightarrow> (k1, Inl e)
          | Inr rs \<Rightarrow> (let (k2, right_messages) = with_ids rng k1 rs in
              (k2, merge_messages P format left_messages right_messages))))"

definition add_message_dicts ::
    "prims \<Rightarrow> (nat \<Rightarrow> nat) \<Rightarrow> pystr option \<Rightarrow> nat \<Rightarrow> message_like \<Rightarrow> message_like \<Rightarrow> nat \<times> (pyexc + pyval list)" where
  "add_message_dicts P rng format k left right =
     (case add_messages P rng format k left right of (k', r) \<Rightarrow> (k', emap (map message_to_dict) r))"

section \<open>The channel\<close>

record messages_channel =
  mc_name :: pystr
  mc_version :: int
  mc_messages :: "pyval list"
  mc_format :: "pystr option"
  mc_draws :: nat

definition new_messages_channel :: "pystr \<Rightarrow> pystr option \<Rightarrow> messages_channel" where
  "new_messages_channel name format =
     \<lparr>mc_name = name, mc_version = 0, mc_messages = [], mc_format = format, mc_draws = 0\<rparr>"

fun fold_messages ::
    "prims \<Rightarrow> (nat \<Rightarrow> nat) \<Rightarrow> pystr option \<Rightarrow> nat \<Rightarrow> pyval list \<Rightarrow> channel_write list \<Rightarrow> nat \<times> (pyexc + pyval list)" where
  "fold_messages P rng format k value [] = (k, Inr value)"
| "fold_messages P rng format k value (w # ws) =
     (case add_message_dicts P rng format k (Batch (map Raw value)) (Raw (w_value w)) of
        (k', Inl e) \<Rightarrow> (k', Inl e)
      | (k', Inr value') \<Rightarrow> fold_messages P rng format k' value' ws)"

text \<open>Validation stages the fold: it changes nothing but the random source.\<close>

definition messages_validate ::
    "prims \<Rightarrow> (nat \<Rightarrow> nat) \<Rightarrow> messages_channel \<Rightarrow> channel_write list \<Rightarrow> messages_channel \<times> (pyexc + unit)" where
  "messages_validate P rng c ws =
     (if ws = [] then (c, Inr ())
      else case fold_messages P rng (mc_format c) (mc_draws c) (mc_messages c) ws of
             (k, r) \<Rightarrow> (c\<lparr>mc_draws := k\<rparr>, emap (\<lambda>_. ()) r))"

definition messages_commit ::
    "prims \<Rightarrow> (nat \<Rightarrow> nat) \<Rightarrow> messages_channel \<Rightarrow> channel_write list \<Rightarrow> messages_channel \<times> (pyexc + bool)" where
  "messages_commit P rng c ws =
     (if ws = [] then (c, Inr False)
      else case fold_messages P rng (mc_format c) (mc_draws c) (mc_messages c) ws of
             (k, Inl e) \<Rightarrow> (c\<lparr>mc_draws := k\<rparr>, Inl e)
           | (k, Inr v) \<Rightarrow> (c\<lparr>mc_draws := k, mc_messages := v, mc_version := mc_version c + 1\<rparr>, Inr True))"

definition messages_get :: "messages_channel \<Rightarrow> gerror + pyval list" where
  "messages_get c =
     (if mc_version c = 0 then Inl (EmptyChannelError (if mc_name c = [] then u ''<unbound>'' else mc_name c))
      else Inr (mc_messages c))"

definition messages_typed :: "prims \<Rightarrow> messages_channel \<Rightarrow> gerror + message list" where
  "messages_typed P c =
     ebind (messages_get c) (\<lambda>ms.
       case etraverse (\<lambda>v. case v of PDict d \<Rightarrow> message_from_dict P d | _ \<Rightarrow> Inl (AttributeError (u ''get''))) ms of
         Inl e \<Rightarrow> Inl (PyError e) | Inr xs \<Rightarrow> Inr xs)"

definition messages_checkpoint :: "messages_channel \<Rightarrow> (pystr, pyval) dict" where
  "messages_checkpoint c = [(u ''version'', PInt (mc_version c)), (u ''messages'', PList (mc_messages c))]"

definition messages_restore :: "messages_channel \<Rightarrow> (pystr, pyval) dict \<Rightarrow> pyexc + messages_channel" where
  "messages_restore c snapshot =
     (case map_of snapshot (u ''version'') of
        None \<Rightarrow> Inl (KeyError (u ''version''))
      | Some v \<Rightarrow> ebind (py_int v) (\<lambda>n.
          ebind (py_list (dget snapshot (u ''messages'') (PList []))) (\<lambda>ms.
          emap (\<lambda>ds. c\<lparr>mc_version := n, mc_messages := map PDict ds\<rparr>) (etraverse py_dict ms))))"

section \<open>UI messages\<close>

fun ui_items :: "pyval \<Rightarrow> pyexc + pyval list" where
  "ui_items (PDict d) = Inr [PDict d]"
| "ui_items v = py_list v"

text \<open>\<open>{**a, **b}\<close>\<close>

definition dict_update :: "(pyval \<times> pyval) list \<Rightarrow> (pyval \<times> pyval) list \<Rightarrow> (pyval \<times> pyval) list" where
  "dict_update a b = foldl (\<lambda>d (k, v). dset k v d) a b"

definition ui_combine ::
    "(pyval \<times> pyval) list \<Rightarrow> (pyval \<times> pyval) list \<Rightarrow> pyexc + (pyval \<times> pyval) list" where
  "ui_combine previous m =
     (case as_dict (dget m (PStr (u ''metadata'')) (PDict [])) of
        None \<Rightarrow> Inl (AttributeError (u ''get''))
      | Some meta \<Rightarrow>
          if \<not> py_truthy (dget meta (PStr (u ''merge'')) (PBool False)) then Inr m
          else case (as_dict (dget previous (PStr (u ''props'')) (PDict [])),
                     as_dict (dget m (PStr (u ''props'')) (PDict []))) of
                 (Some a, Some b) \<Rightarrow> Inr (dset (PStr (u ''props'')) (PDict (dict_update a b)) m)
               | _ \<Rightarrow> Inl (TypeError (u ''object is not a mapping'')))"

definition ui_message_reducer :: "pyval \<Rightarrow> pyval \<Rightarrow> pyexc + pyval list" where
  "ui_message_reducer left right =
     ebind (ui_items left) (\<lambda>ls. ebind (etraverse py_dict ls) (\<lambda>lds.
     emap (map PDict)
       (merge_items (\<lambda>d. vget d (u ''id'')) (\<lambda>d. vget d (u ''type'') = PStr (u ''remove-ui'')) ui_combine
          py_dict lds (ui_items right))))"

end
