(* ===== verification/MessagesSpec.thy ===== *)
theory MessagesSpec
  imports Messages
begin

text \<open>
  What merging by id gives. The loop shared by the message reducers is described once, in the
  locale \<open>keyed_merge\<close>, against a reference without indices: every id stands where it first
  occurred, carries what its writes combine to, and is missing when its last operation removes
  it. Both reducers of the code are instances.
\<close>

section \<open>The reference\<close>

text \<open>The elements of a list at their first occurrences.\<close>

fun firsts :: "'k list \<Rightarrow> 'k list" where
  "firsts [] = []"
| "firsts (k # ks) = k # filter (\<lambda>x. x \<noteq> k) (firsts ks)"

lemma set_firsts [simp]: "set (firsts ks) = set ks"
  by (induction ks) auto

lemma distinct_firsts [simp]: "distinct (firsts ks)"
  by (induction ks) auto

lemma firsts_snoc: "firsts (ks @ [k]) = (if k \<in> set ks then firsts ks else firsts ks @ [k])"
  by (induction ks) auto

lemma firsts_distinct: "distinct ks \<Longrightarrow> firsts ks = ks"
  by (induction ks) (auto intro: filter_True)

text \<open>The value an id has after a sequence of operations: removals leave it alone.\<close>

fun upsert :: "('a \<Rightarrow> 'a \<Rightarrow> pyexc + 'a) \<Rightarrow> 'a option \<Rightarrow> 'a \<Rightarrow> 'a option" where
  "upsert combine None m = Some m"
| "upsert combine (Some p) m = (case combine p m of Inl _ \<Rightarrow> None | Inr m' \<Rightarrow> Some m')"

definition keyed_value ::
    "('a \<Rightarrow> pyval) \<Rightarrow> ('a \<Rightarrow> bool) \<Rightarrow> ('a \<Rightarrow> 'a \<Rightarrow> pyexc + 'a) \<Rightarrow> 'a list \<Rightarrow> pyval \<Rightarrow> 'a option" where
  "keyed_value ident removal combine ops k =
     foldl (\<lambda>acc m. if ident m = k \<and> \<not> removal m then upsert combine acc m else acc) None ops"

text \<open>Whether the last operation on an id removes it.\<close>

definition removed_last :: "('a \<Rightarrow> pyval) \<Rightarrow> ('a \<Rightarrow> bool) \<Rightarrow> 'a list \<Rightarrow> pyval \<Rightarrow> bool" where
  "removed_last ident removal ops k = foldl (\<lambda>acc m. if ident m = k then removal m else acc) False ops"

definition reference_merge ::
    "('a \<Rightarrow> pyval) \<Rightarrow> ('a \<Rightarrow> bool) \<Rightarrow> ('a \<Rightarrow> 'a \<Rightarrow> pyexc + 'a) \<Rightarrow> 'a list \<Rightarrow> 'a list \<Rightarrow> 'a list" where
  "reference_merge ident removal combine left right =
     map (\<lambda>k. the (keyed_value ident removal combine (left @ right) k))
       (filter (\<lambda>k. \<not> removed_last ident removal right k) (firsts (map ident (left @ right))))"

definition knows_removed :: "('a \<Rightarrow> pyval) \<Rightarrow> ('a \<Rightarrow> bool) \<Rightarrow> 'a list \<Rightarrow> 'a list \<Rightarrow> bool" where
  "knows_removed ident removal left right \<longleftrightarrow>
     (\<forall>i < length right. removal (right ! i) \<longrightarrow> ident (right ! i) \<in> ident ` set (left @ take i right))"

lemma keyed_value_snoc:
  "keyed_value ident removal combine (ops @ [m]) k =
     (if ident m = k \<and> \<not> removal m then upsert combine (keyed_value ident removal combine ops k) m
      else keyed_value ident removal combine ops k)"
  by (simp add: keyed_value_def)

lemma removed_last_snoc:
  "removed_last ident removal (ops @ [m]) k = (if ident m = k then removal m else removed_last ident removal ops k)"
  by (simp add: removed_last_def)

lemma knows_removed_snoc:
  "knows_removed ident removal left (right @ [m]) \<longleftrightarrow>
     knows_removed ident removal left right \<and> (removal m \<longrightarrow> ident m \<in> ident ` set (left @ right))"
  unfolding knows_removed_def by (auto simp: less_Suc_eq nth_append)

section \<open>Dictionaries with string keys\<close>

abbreviation string_ids :: "('a \<Rightarrow> pyval) \<Rightarrow> 'a list \<Rightarrow> bool" where
  "string_ids ident xs \<equiv> \<forall>m \<in> set xs. is_str (ident m)"

lemma py_eq_str: "is_str a \<Longrightarrow> py_eq a b \<longleftrightarrow> a = b"
  by (cases a) (auto simp: is_str_def)

lemma py_hashable_str: "is_str a \<Longrightarrow> py_hashable a"
  by (cases a) (auto simp: is_str_def)

lemma key_lookup_str: "\<forall>p \<in> set d. is_str (fst p) \<Longrightarrow> key_lookup d k = map_of d k"
  by (induction d) (auto simp: key_lookup_def py_eq_str)

lemma key_set_str: "\<forall>p \<in> set d. is_str (fst p) \<Longrightarrow> key_set k i d = dset k i d"
  by (induction d) (auto simp: py_eq_str)

lemma key_in_str: "\<forall>k \<in> set ks. is_str k \<Longrightarrow> key_in k ks \<longleftrightarrow> k \<in> set ks"
  by (induction ks) (auto simp: key_in_def py_eq_str)

lemma key_discard_str: "\<forall>k \<in> set ks. is_str k \<Longrightarrow> set (key_discard k ks) = set ks - {k}"
  by (auto simp: key_discard_def py_eq_str)

lemma key_add_str: "\<forall>k \<in> set ks. is_str k \<Longrightarrow> set (key_add k ks) = insert k (set ks)"
  by (auto simp: key_add_def key_in_str)

lemma str_dset: "\<forall>p \<in> set d. is_str (fst p) \<Longrightarrow> is_str k \<Longrightarrow> \<forall>p \<in> set (dset k i d). is_str (fst p)"
  by (induction d) auto

text \<open>A dictionary that maps the id of each item to its position.\<close>

definition positions :: "('a \<Rightarrow> pyval) \<Rightarrow> 'a list \<Rightarrow> (pyval \<times> nat) list \<Rightarrow> bool" where
  "positions ident items d \<longleftrightarrow> (\<forall>p \<in> set d. is_str (fst p)) \<and>
     (\<forall>i < length items. map_of d (ident (items ! i)) = Some i) \<and>
     (\<forall>k. k \<notin> ident ` set items \<longrightarrow> map_of d k = None)"

lemma positions_snoc:
  assumes "positions ident items d" and "is_str (ident m)" and "ident m \<notin> ident ` set items"
  shows "positions ident (items @ [m]) (key_set (ident m) (length items) d)"
proof -
  have ne: "i < length items \<Longrightarrow> ident (items ! i) \<noteq> ident m" for i
    using assms(3) nth_mem [of i items] by (metis image_eqI)
  show ?thesis
    using assms str_dset [of d "ident m" "length items"] ne
    by (auto simp: positions_def key_set_str nth_append less_Suc_eq)
qed

lemma index_items_positions:
  assumes "string_ids ident (pre @ ms)" and "distinct (map ident (pre @ ms))" and "positions ident pre d"
  shows "\<exists>d'. index_items ident (length pre) ms d = Inr d' \<and> positions ident (pre @ ms) d'"
  using assms
proof (induction ms arbitrary: pre d)
  case (Cons m ms)
  have "positions ident (pre @ [m]) (key_set (ident m) (length pre) d)"
    using Cons.prems by (intro positions_snoc) auto
  then show ?case
    using Cons.IH [of "pre @ [m]"] Cons.prems py_hashable_str by simp
qed simp

section \<open>The shared loop\<close>

text \<open>The law of a client: combining an item with its earlier version keeps the id.\<close>

locale keyed_merge =
  fixes ident :: "'a \<Rightarrow> pyval" and removal :: "'a \<Rightarrow> bool" and combine :: "'a \<Rightarrow> 'a \<Rightarrow> pyexc + 'a"
  assumes combine_ident: "combine p m = Inr m' \<Longrightarrow> ident m' = ident m"
begin

definition merge_invariant :: "'a list \<Rightarrow> 'a list \<Rightarrow> 'a merge_state \<Rightarrow> bool" where
  "merge_invariant left right st \<longleftrightarrow>
     positions ident (mg_items st) (mg_index st) \<and>
     (\<forall>k \<in> set (mg_removed st). is_str k) \<and>
     map ident (mg_items st) = firsts (map ident (left @ right)) \<and>
     (\<forall>k. k \<in> set (mg_removed st) \<longleftrightarrow> removed_last ident removal right k) \<and>
     (\<forall>m \<in> set (mg_items st). keyed_value ident removal combine (left @ right) (ident m) = Some m)"

lemma invariant_ids:
  assumes "merge_invariant left right st"
  shows "ident ` set (mg_items st) = ident ` set (left @ right)" and "distinct (map ident (mg_items st))"
proof -
  have keys: "map ident (mg_items st) = firsts (map ident (left @ right))"
    using assms by (simp add: merge_invariant_def)
  show "ident ` set (mg_items st) = ident ` set (left @ right)"
    using arg_cong [OF keys, of set] by (simp only: set_firsts set_map)
  show "distinct (map ident (mg_items st))" unfolding keys by simp
qed

lemma keyed_value_absent:
  "k \<notin> ident ` set ops \<Longrightarrow> keyed_value ident removal combine ops k = None"
  by (induction ops rule: rev_induct) (auto simp: keyed_value_snoc keyed_value_def)

lemma removed_last_absent: "k \<notin> ident ` set ops \<Longrightarrow> \<not> removed_last ident removal ops k"
  by (induction ops rule: rev_induct) (auto simp: removed_last_snoc removed_last_def)

lemma merge_step_unknown:
  assumes inv: "merge_invariant left right st" and str: "is_str (ident m)"
    and new: "ident m \<notin> ident ` set (left @ right)"
  shows "merge_step ident removal combine st m =
    (if removal m then Inl (ValueError (u ''Attempting to delete a message that does not exist''))
     else Inr (st\<lparr>mg_index := key_set (ident m) (length (mg_items st)) (mg_index st),
                  mg_items := mg_items st @ [m]\<rparr>))"
  using inv new str invariant_ids(1) [OF inv]
  by (simp add: merge_step_def py_hashable_str merge_invariant_def positions_def key_lookup_str)

lemma merge_step_known:
  assumes inv: "merge_invariant left right st" and str: "is_str (ident m)"
    and old: "ident m \<in> ident ` set (left @ right)"
  obtains i where "i < length (mg_items st)" and "ident (mg_items st ! i) = ident m"
    and "merge_step ident removal combine st m =
      (if removal m then Inr (st\<lparr>mg_removed := key_add (ident m) (mg_removed st)\<rparr>)
       else emap (\<lambda>m'. st\<lparr>mg_removed := key_discard (ident m) (mg_removed st), mg_items := (mg_items st)[i := m']\<rparr>)
              (combine (mg_items st ! i) m))"
proof -
  from old obtain i where i: "i < length (mg_items st)" "ident (mg_items st ! i) = ident m"
    unfolding invariant_ids(1) [OF inv, symmetric] by (metis imageE in_set_conv_nth)
  then have "key_lookup (mg_index st) (ident m) = Some i"
    using inv by (auto simp: merge_invariant_def positions_def key_lookup_str)
  then show thesis using i str by (intro that [of i]) (simp_all add: merge_step_def py_hashable_str)
qed

lemma firsts_known: "k \<in> set ks \<Longrightarrow> firsts (ks @ [k]) = firsts ks"
  by (simp add: firsts_snoc)

lemma merge_step_invariant:
  assumes inv: "merge_invariant left right st" and str: "is_str (ident m)"
    and step: "merge_step ident removal combine st m = Inr st'"
  shows "merge_invariant left (right @ [m]) st'"
proof (cases "ident m \<in> ident ` set (left @ right)")
  case False
  note step = step [unfolded merge_step_unknown [OF inv str False]]
  from step have m: "\<not> removal m"
    and st': "st' = st\<lparr>mg_index := key_set (ident m) (length (mg_items st)) (mg_index st), mg_items := mg_items st @ [m]\<rparr>"
    by (simp_all split: if_splits)
  have "ident m \<notin> ident ` set (mg_items st)" using False invariant_ids(1) [OF inv] by simp
  then have "positions ident (mg_items st') (mg_index st')"
    using inv str unfolding st' by (simp add: merge_invariant_def positions_snoc)
  moreover have "map ident (mg_items st') = firsts (map ident (left @ right @ [m]))"
    using inv False firsts_snoc [of "map ident (left @ right)" "ident m"]
    by (simp add: st' merge_invariant_def image_Un)
  moreover have "keyed_value ident removal combine (left @ right @ [m]) (ident m) = Some m"
    using keyed_value_snoc [of ident removal combine "left @ right" m] keyed_value_absent [OF False] m by simp
  moreover have "keyed_value ident removal combine (left @ right @ [m]) (ident x) = Some x" if "x \<in> set (mg_items st)" for x
  proof -
    have "ident x \<noteq> ident m" using that False invariant_ids(1) [OF inv] by (metis imageI)
    then show ?thesis
      using that inv keyed_value_snoc [of ident removal combine "left @ right" m] by (simp add: merge_invariant_def)
  qed
  moreover have "\<not> removed_last ident removal right (ident m)" using False by (intro removed_last_absent) auto
  ultimately show ?thesis
    using inv m by (auto simp: st' merge_invariant_def removed_last_snoc)
next
  case True
  obtain i where i: "i < length (mg_items st)" "ident (mg_items st ! i) = ident m"
    and eq: "merge_step ident removal combine st m =
      (if removal m then Inr (st\<lparr>mg_removed := key_add (ident m) (mg_removed st)\<rparr>)
       else emap (\<lambda>m'. st\<lparr>mg_removed := key_discard (ident m) (mg_removed st), mg_items := (mg_items st)[i := m']\<rparr>)
              (combine (mg_items st ! i) m))"
    by (rule merge_step_known [OF inv str True])
  have strs: "\<forall>k \<in> set (mg_removed st). is_str k" using inv by (simp add: merge_invariant_def)
  have firsts: "firsts (map ident (left @ right @ [m])) = map ident (mg_items st)"
    using inv True firsts_known [of "ident m" "map ident (left @ right)"] by (simp add: merge_invariant_def image_Un)
  show ?thesis
  proof (cases "removal m")
    case True
    with step eq have st': "st' = st\<lparr>mg_removed := key_add (ident m) (mg_removed st)\<rparr>" by simp
    show ?thesis
      using inv True str firsts keyed_value_snoc [of ident removal combine "left @ right" m]
      by (auto simp: st' merge_invariant_def key_add_str [OF strs] removed_last_snoc)
  next
    case False
    with step eq obtain m' where m': "combine (mg_items st ! i) m = Inr m'"
      and st': "st' = st\<lparr>mg_removed := key_discard (ident m) (mg_removed st), mg_items := (mg_items st)[i := m']\<rparr>"
      by (auto simp: emap_Inr_iff)
    have id': "ident m' = ident (mg_items st ! i)" using combine_ident [OF m'] i by simp
    then have same: "map ident ((mg_items st)[i := m']) = map ident (mg_items st)"
      by (simp add: map_update list_update_same_conv i)
    have other: "ident x \<noteq> ident m" if "j < length (mg_items st)" "j \<noteq> i" "x = mg_items st ! j" for j x
      using invariant_ids(2) [OF inv] that i by (metis length_map nth_eq_iff_index_eq nth_map)
    have vals: "keyed_value ident removal combine (left @ right @ [m]) (ident x) = Some x"
      if "x \<in> set ((mg_items st)[i := m'])" for x
    proof -
      from that obtain j where j: "j < length (mg_items st)" "x = (mg_items st)[i := m'] ! j"
        by (metis in_set_conv_nth length_list_update)
      have old: "keyed_value ident removal combine (left @ right) (ident (mg_items st ! j)) = Some (mg_items st ! j)"
        using inv j(1) by (simp add: merge_invariant_def)
      show ?thesis
        using keyed_value_snoc [of ident removal combine "left @ right" m] False old j i id' m' other [of j]
        by (cases "j = i") simp_all
    qed
    have "positions ident ((mg_items st)[i := m']) (mg_index st)"
    proof -
      have "ident ((mg_items st)[i := m'] ! j) = ident (mg_items st ! j)" for j
        using id' i by (cases "j = i") simp_all
      moreover have "ident ` set ((mg_items st)[i := m']) = ident ` set (mg_items st)"
        using arg_cong [OF same, of set] by simp
      ultimately show ?thesis using inv by (simp add: merge_invariant_def positions_def)
    qed
    then show ?thesis
      using inv str firsts same vals False
      by (auto simp: st' merge_invariant_def key_discard_str [OF strs] removed_last_snoc)
  qed
qed

lemma merge_start:
  assumes "string_ids ident left" and "distinct (map ident left)" and "\<forall>m \<in> set left. \<not> removal m"
    and "positions ident left index"
  shows "merge_invariant left [] \<lparr>mg_items = left, mg_index = index, mg_removed = []\<rparr>"
proof -
  have "keyed_value ident removal combine xs (ident m) = Some m"
    if "distinct (map ident xs)" "\<forall>x \<in> set xs. \<not> removal x" "m \<in> set xs" for xs m
    using that
  proof (induction xs rule: rev_induct)
    case (snoc x xs)
    show ?case
    proof (cases "ident x = ident m")
      case True
      then have "m = x" using snoc.prems by (auto simp: image_iff)
      moreover have "keyed_value ident removal combine xs (ident x) = None"
        using snoc.prems(1) by (intro keyed_value_absent) simp
      ultimately show ?thesis using snoc.prems by (simp add: keyed_value_snoc)
    next
      case False
      then show ?thesis using snoc by (auto simp: keyed_value_snoc)
    qed
  qed simp
  then show ?thesis
    using assms by (simp add: merge_invariant_def firsts_distinct removed_last_def)
qed

lemma efold_single: "efold f s [x] = f s x"
  by (cases "f s x") simp_all

lemma efold_snoc: "efold f s (xs @ [x]) = ebind (efold f s xs) (\<lambda>t. f t x)"
  by (simp only: efold_append efold_single)

lemma merge_fold_invariant:
  assumes "merge_invariant left [] st0" and "string_ids ident right"
    and "efold (merge_step ident removal combine) st0 right = Inr st"
  shows "merge_invariant left right st"
  using assms(2,3)
proof (induction right arbitrary: st rule: rev_induct)
  case Nil
  then show ?case using assms(1) by simp
next
  case (snoc m right)
  then obtain st1 where "efold (merge_step ident removal combine) st0 right = Inr st1"
    and step: "merge_step ident removal combine st1 m = Inr st"
    by (auto simp: efold_snoc ebind_Inr_iff)
  then have "merge_invariant left right st1" using snoc by simp
  then show ?case using step snoc.prems by (intro merge_step_invariant) simp_all
qed

lemma merge_fold_error:
  assumes "merge_invariant left [] st0" and "string_ids ident right"
    and total: "\<And>p m. \<exists>m'. combine p m = Inr m'"
  shows "is_ok (efold (merge_step ident removal combine) st0 right) \<longleftrightarrow> knows_removed ident removal left right"
    and "efold (merge_step ident removal combine) st0 right = Inl e \<Longrightarrow>
      e = ValueError (u ''Attempting to delete a message that does not exist'')"
proof -
  have "(is_ok (efold (merge_step ident removal combine) st0 right) \<longleftrightarrow> knows_removed ident removal left right) \<and>
    (\<forall>e. efold (merge_step ident removal combine) st0 right = Inl e \<longrightarrow>
      e = ValueError (u ''Attempting to delete a message that does not exist''))"
    using assms(2)
  proof (induction right rule: rev_induct)
    case (snoc m right)
    show ?case
    proof (cases "efold (merge_step ident removal combine) st0 right")
      case (Inl e)
      then show ?thesis using snoc by (simp add: efold_append knows_removed_snoc)
    next
      case (Inr st)
      have inv: "merge_invariant left right st"
        using merge_fold_invariant [OF assms(1) _ Inr] snoc.prems by simp
      have str: "is_str (ident m)" using snoc.prems by simp
      have split: "efold (merge_step ident removal combine) st0 (right @ [m]) = merge_step ident removal combine st m"
        by (simp add: efold_snoc Inr)
      show ?thesis
      proof (cases "ident m \<in> ident ` set (left @ right)")
        case True
        obtain i where "merge_step ident removal combine st m =
          (if removal m then Inr (st\<lparr>mg_removed := key_add (ident m) (mg_removed st)\<rparr>)
           else emap (\<lambda>m'. st\<lparr>mg_removed := key_discard (ident m) (mg_removed st), mg_items := (mg_items st)[i := m']\<rparr>)
                  (combine (mg_items st ! i) m))"
          by (rule merge_step_known [OF inv str True])
        moreover obtain m' where "combine (mg_items st ! i) m = Inr m'" using total by blast
        ultimately show ?thesis
          using snoc Inr True unfolding split by (auto simp: knows_removed_snoc)
      next
        case False
        then show ?thesis
          using snoc Inr unfolding split merge_step_unknown [OF inv str False] by (auto simp: knows_removed_snoc)
      qed
    qed
  qed (simp add: knows_removed_def)
  then show "is_ok (efold (merge_step ident removal combine) st0 right) \<longleftrightarrow> knows_removed ident removal left right"
    and "efold (merge_step ident removal combine) st0 right = Inl e \<Longrightarrow>
      e = ValueError (u ''Attempting to delete a message that does not exist'')"
    by blast+
qed

lemma merge_items_start:
  assumes "string_ids ident left" and "distinct (map ident left)" and "\<forall>m \<in> set left. \<not> removal m"
  obtains index where "index_items ident 0 left [] = Inr index"
    and "merge_invariant left [] \<lparr>mg_items = left, mg_index = index, mg_removed = []\<rparr>"
proof -
  have "positions ident [] []" by (simp add: positions_def)
  then obtain index where "index_items ident 0 left [] = Inr index" "positions ident left index"
    using index_items_positions [where ident = ident and pre = "[]" and ms = left and d = "[]"] assms by auto
  then show thesis using that merge_start [OF assms] by blast
qed

lemma ebind_Inr_id: "(\<lambda>st r. ebind (Inr r) (f st)) = f"
  by (rule ext)+ simp

text \<open>A merge that returns gives the reference merge.\<close>

theorem merge_items_reference:
  assumes left: "string_ids ident left" "distinct (map ident left)" "\<forall>m \<in> set left. \<not> removal m"
    and right: "string_ids ident right"
    and result: "merge_items ident removal combine Inr left (Inr right) = Inr result"
  shows "result = reference_merge ident removal combine left right"
proof -
  obtain index where index: "index_items ident 0 left [] = Inr index"
    and start: "merge_invariant left [] \<lparr>mg_items = left, mg_index = index, mg_removed = []\<rparr>"
    by (rule merge_items_start [OF left])
  from result obtain st
    where st: "efold (merge_step ident removal combine) \<lparr>mg_items = left, mg_index = index, mg_removed = []\<rparr> right = Inr st"
      and r: "result = filter (\<lambda>m. \<not> key_in (ident m) (mg_removed st)) (mg_items st)"
    by (auto simp: merge_items_def index ebind_Inr_id emap_Inr_iff)
  have inv: "merge_invariant left right st" by (rule merge_fold_invariant [OF start right st])
  have keys: "map ident (mg_items st) = firsts (map ident (left @ right))"
    and removed: "\<And>k. key_in k (mg_removed st) \<longleftrightarrow> removed_last ident removal right k"
    and val: "\<And>m. m \<in> set (mg_items st) \<Longrightarrow> keyed_value ident removal combine (left @ right) (ident m) = Some m"
    using inv by (simp_all add: merge_invariant_def key_in_str)
  have ids: "filter (\<lambda>k. \<not> removed_last ident removal right k) (map ident (mg_items st)) = map ident result"
    by (simp add: r removed filter_map comp_def)
  have "map (\<lambda>m. the (keyed_value ident removal combine (left @ right) (ident m))) result = map (\<lambda>m. m) result"
    using val by (intro map_cong) (auto simp: r)
  then show ?thesis
    unfolding reference_merge_def keys [symmetric] ids by (simp add: comp_def)
qed

theorem merge_items_ok:
  assumes left: "string_ids ident left" "distinct (map ident left)" "\<forall>m \<in> set left. \<not> removal m"
    and right: "string_ids ident right" and total: "\<And>p m. \<exists>m'. combine p m = Inr m'"
  shows "merge_items ident removal combine Inr left (Inr right) =
    (if knows_removed ident removal left right then Inr (reference_merge ident removal combine left right)
     else Inl (ValueError (u ''Attempting to delete a message that does not exist'')))"
proof -
  obtain index where index: "index_items ident 0 left [] = Inr index"
    and start: "merge_invariant left [] \<lparr>mg_items = left, mg_index = index, mg_removed = []\<rparr>"
    by (rule merge_items_start [OF left])
  let ?fold = "efold (merge_step ident removal combine) \<lparr>mg_items = left, mg_index = index, mg_removed = []\<rparr> right"
  have eq: "merge_items ident removal combine Inr left (Inr right) =
    emap (\<lambda>st. filter (\<lambda>m. \<not> key_in (ident m) (mg_removed st)) (mg_items st)) ?fold"
    by (simp add: merge_items_def index ebind_Inr_id)
  show ?thesis
  proof (cases ?fold)
    case (Inl e)
    then show ?thesis using merge_fold_error [OF start right total] by (simp add: eq)
  next
    case (Inr st)
    then show ?thesis
      using merge_fold_error(1) [OF start right total] merge_items_reference [OF left right] eq by simp
  qed
qed

end

interpretation chat: keyed_merge m_id "\<lambda>m. \<not> is_graph_message m" "\<lambda>_ m. Inr m"
  by unfold_locales simp

lemma ui_combine_id: "ui_combine p m = Inr m' \<Longrightarrow> vget m' (u ''id'') = vget m (u ''id'')"
  by (auto simp: ui_combine_def vget_def u_def split: option.splits if_splits)

interpretation ui: keyed_merge "\<lambda>d. vget d (u ''id'')" "\<lambda>d. vget d (u ''type'') = PStr (u ''remove-ui'')" ui_combine
  by unfold_locales (rule ui_combine_id)

section \<open>Messages in the JSON domain\<close>

text \<open>A message as the constructors leave it, with a string as its id.\<close>

definition wf_message :: "message \<Rightarrow> bool" where
  "wf_message m \<longleftrightarrow> is_str (m_id m) \<and>
     (case m of GraphMessage _ role _ _ \<Rightarrow> role \<in> {u ''human'', u ''ai'', u ''system'', u ''tool''}
      | RemoveMessage _ \<Rightarrow> True)"

lemma coerce_to_dict:
  assumes "wf_message m"
  shows "coerce_message P (Raw (message_to_dict m)) = Inr m"
proof (cases m)
  case (GraphMessage content role i name)
  with assms have "role \<in> {u ''human'', u ''ai'', u ''system'', u ''tool''}" by (simp add: wf_message_def)
  then show ?thesis
    by (auto simp: GraphMessage vget_def dget_def py_or_def message_from_dict_def make_message_def ROLE_ALIASES_def u_def)
next
  case (RemoveMessage i)
  with assms obtain s where "i = PStr s" by (cases i) (auto simp: wf_message_def is_str_def)
  then show ?thesis by (simp add: RemoveMessage vget_def dget_def py_or_def u_def)
qed

lemma etraverse_Inr: "(\<And>x. x \<in> set xs \<Longrightarrow> f x = Inr (g x)) \<Longrightarrow> etraverse f xs = Inr (map g xs)"
  by (induction xs) auto

lemma coerce_dicts:
  assumes "\<forall>m \<in> set ms. wf_message m"
  shows "etraverse (coerce_message P) (map (\<lambda>m. Raw (message_to_dict m)) ms) = Inr ms"
proof -
  have "etraverse (coerce_message P) (map (\<lambda>m. Raw (message_to_dict m)) ms) =
      etraverse (\<lambda>m. coerce_message P (Raw (message_to_dict m))) ms"
    by (simp add: etraverse_eq comp_def)
  also have "\<dots> = Inr (map id ms)" using assms coerce_to_dict by (intro etraverse_Inr) auto
  finally show ?thesis by simp
qed

lemma with_ids_str: "\<forall>m \<in> set ms. is_str (m_id m) \<Longrightarrow> with_ids rng k ms = (k, ms)"
proof (induction ms)
  case (Cons m ms)
  then show ?case by (cases "(rng, k, m # ms)" rule: with_ids.cases) (auto simp: is_str_def)
qed simp

lemma merge_messages_plain:
  assumes "\<forall>m \<in> set left. is_graph_message m"
  shows "merge_messages P None left right =
    (case after_clear right of
       Some rest \<Rightarrow> Inr (filter is_graph_message rest)
     | None \<Rightarrow> merge_items m_id (\<lambda>m. \<not> is_graph_message m) (\<lambda>_ m. Inr m) Inr left (Inr right))"
proof -
  have "filter is_graph_message left = left" using assms by (simp add: filter_id_conv)
  moreover have "finish_format P None = Inr" by (rule ext) (simp add: finish_format_def)
  moreover have "ebind r Inr = r" for r :: "pyexc + message list" by (cases r) simp_all
  ultimately show ?thesis by (simp add: merge_messages_def split: option.splits)
qed


definition demo_message :: "string \<Rightarrow> string \<Rightarrow> message" where
  "demo_message i text = GraphMessage (PStr (u text)) (u ''human'') (PStr (u i)) PNone"


section \<open>UI messages\<close>

lemma merge_items_conv:
  assumes "\<And>r. r \<in> set rs \<Longrightarrow> conv r = Inr (g r)"
  shows "merge_items ident removal combine conv left (Inr rs) = merge_items ident removal combine Inr left (Inr (map g rs))"
proof -
  have "efold (\<lambda>st r. ebind (conv r) (merge_step ident removal combine st)) st rs =
      efold (\<lambda>st r. ebind (Inr r) (merge_step ident removal combine st)) st (map g rs)" for st
    using assms
  proof (induction rs arbitrary: st)
    case (Cons r rs)
    then show ?case by (cases "merge_step ident removal combine st (g r)") simp_all
  qed simp
  then show ?thesis by (simp add: merge_items_def)
qed

text \<open>UI messages with string ids merge to the reference too, with merged properties.\<close>

lemma ui_reducer_reference:
  assumes "string_ids (\<lambda>d. vget d (u ''id'')) left" and "distinct (map (\<lambda>d. vget d (u ''id'')) left)"
    and "\<forall>d \<in> set left. vget d (u ''type'') \<noteq> PStr (u ''remove-ui'')"
    and "string_ids (\<lambda>d. vget d (u ''id'')) right"
    and "ui_message_reducer (PList (map PDict left)) (PList (map PDict right)) = Inr result"
  shows "result = map PDict (reference_merge (\<lambda>d. vget d (u ''id''))
    (\<lambda>d. vget d (u ''type'') = PStr (u ''remove-ui'')) ui_combine left right)"
proof -
  have dicts: "etraverse py_dict (map PDict left) = Inr left"
    by (induction left) auto
  have "map dict_of_val (map PDict right) = right" by (simp add: comp_def)
  then have "merge_items (\<lambda>d. vget d (u ''id'')) (\<lambda>d. vget d (u ''type'') = PStr (u ''remove-ui'')) ui_combine py_dict left
        (Inr (map PDict right)) =
      merge_items (\<lambda>d. vget d (u ''id'')) (\<lambda>d. vget d (u ''type'') = PStr (u ''remove-ui'')) ui_combine Inr left (Inr right)"
    by (subst merge_items_conv [where g = dict_of_val]) auto
  with assms(5) dicts obtain merged
    where "merge_items (\<lambda>d. vget d (u ''id'')) (\<lambda>d. vget d (u ''type'') = PStr (u ''remove-ui'')) ui_combine Inr left
        (Inr right) = Inr merged"
      and "result = map PDict merged"
    by (auto simp: ui_message_reducer_def emap_Inr_iff)
  then show ?thesis using ui.merge_items_reference [OF assms(1,2,3,4)] by simp
qed

end
