(* ===== verification/Identity.thy ===== *)
theory Identity
  imports Receipt Persistence
begin

text \<open>
  The execution identity of one unit of work (spine/identity.py) and the table
  execution_identities that runtime_state.py keeps of them. A field is a string; the ids that
  \<open>uuid4\<close> makes are a parameter, a function of the prefix asked for.
\<close>

section \<open>Errors\<close>

text \<open>
  What the operations of the store and of the durable invoker raise: an exception of the language,
  \<open>MissingExecutionIdentity\<close>, an error of the database, the lost lease and the missing row of
  the idempotency table, \<open>DuplicateDispatchInFlight\<close>, and the exception of a provider.
\<close>

datatype store_error =
    Raised pyexc
  | MissingExecutionIdentity
  | DatabaseError
  | LeaseLost
  | RecordNotFound
  | DuplicateDispatchInFlight pystr
  | ProviderError pystr

fun raised :: "pyexc + 'a \<Rightarrow> store_error + 'a" where
  "raised (Inl e) = Inl (Raised e)"
| "raised (Inr x) = Inr x"

section \<open>Fields\<close>

record execution_identity =
  ei_trace_id :: pystr
  ei_correlation_id :: pystr
  ei_task_id :: pystr
  ei_run_id :: pystr
  ei_claim_id :: pystr
  ei_idempotency_key :: pystr
  ei_causation_id :: pystr
  ei_parent_run_id :: pystr
  ei_agent_id :: pystr
  ei_session_id :: pystr
  ei_external_a2a_task_id :: pystr
  ei_message_id :: pystr
  ei_event_id :: pystr
  ei_artifact_id :: pystr
  ei_proposal_id :: pystr
  ei_metadata :: "(pyval \<times> pyval) list"

text \<open>The string fields by name, the mapping \<open>to_dict\<close> and the constructor go through.\<close>

definition identity_items :: "execution_identity \<Rightarrow> (pystr, pystr) dict" where
  "identity_items I =
     [(u ''trace_id'', ei_trace_id I), (u ''correlation_id'', ei_correlation_id I),
      (u ''task_id'', ei_task_id I), (u ''run_id'', ei_run_id I), (u ''claim_id'', ei_claim_id I),
      (u ''idempotency_key'', ei_idempotency_key I), (u ''causation_id'', ei_causation_id I),
      (u ''parent_run_id'', ei_parent_run_id I), (u ''agent_id'', ei_agent_id I),
      (u ''session_id'', ei_session_id I), (u ''external_a2a_task_id'', ei_external_a2a_task_id I),
      (u ''message_id'', ei_message_id I), (u ''event_id'', ei_event_id I),
      (u ''artifact_id'', ei_artifact_id I), (u ''proposal_id'', ei_proposal_id I)]"

definition IDENTITY_FIELDS :: "pystr list" where
  "IDENTITY_FIELDS =
     [u ''trace_id'', u ''correlation_id'', u ''task_id'', u ''run_id'', u ''claim_id'',
      u ''idempotency_key'', u ''causation_id'', u ''parent_run_id'', u ''agent_id'', u ''session_id'',
      u ''external_a2a_task_id'', u ''message_id'', u ''event_id'', u ''artifact_id'', u ''proposal_id'']"

definition identity_of :: "(pystr \<Rightarrow> pystr) \<Rightarrow> (pyval \<times> pyval) list \<Rightarrow> execution_identity" where
  "identity_of f m =
     \<lparr>ei_trace_id = f (u ''trace_id''), ei_correlation_id = f (u ''correlation_id''),
      ei_task_id = f (u ''task_id''), ei_run_id = f (u ''run_id''), ei_claim_id = f (u ''claim_id''),
      ei_idempotency_key = f (u ''idempotency_key''), ei_causation_id = f (u ''causation_id''),
      ei_parent_run_id = f (u ''parent_run_id''), ei_agent_id = f (u ''agent_id''),
      ei_session_id = f (u ''session_id''), ei_external_a2a_task_id = f (u ''external_a2a_task_id''),
      ei_message_id = f (u ''message_id''), ei_event_id = f (u ''event_id''),
      ei_artifact_id = f (u ''artifact_id''), ei_proposal_id = f (u ''proposal_id''), ei_metadata = m\<rparr>"

definition identity_field :: "execution_identity \<Rightarrow> pystr \<Rightarrow> pystr" where
  "identity_field I k = dget (identity_items I) k []"

definition REQUIRED_FIELDS :: "pystr list" where
  "REQUIRED_FIELDS = [u ''trace_id'', u ''correlation_id'', u ''task_id'', u ''run_id'', u ''claim_id'',
     u ''idempotency_key'']"

text \<open>\<open>str(value or '').strip()\<close> of a value and of a string, and \<open>a or b\<close> of strings.\<close>

definition clean :: "prims \<Rightarrow> pyval \<Rightarrow> pystr" where
  "clean P v = strip (if py_truthy v then py_str P v else [])"

definition or_str :: "pystr \<Rightarrow> pystr \<Rightarrow> pystr" where
  "or_str a b = (if a = [] then b else a)"

section \<open>Construction\<close>

text \<open>
  \<open>ExecutionIdentity.new\<close>: \<open>arg\<close> gives the keyword arguments, the empty string for one left
  out.
\<close>

definition new_identity ::
    "(pystr \<Rightarrow> pystr) \<Rightarrow> (pystr \<Rightarrow> pystr) \<Rightarrow> (pyval \<times> pyval) list \<Rightarrow> store_error + execution_identity" where
  "new_identity ids arg m =
     (let c = (\<lambda>k. strip (arg k));
          trace = or_str (c (u ''trace_id'')) (ids (u ''trace''));
          run = or_str (c (u ''run_id'')) (ids (u ''run''))
      in if c (u ''task_id'') = [] then Inl MissingExecutionIdentity
         else Inr (identity_of (\<lambda>k.
           if k = u ''trace_id'' then trace
           else if k = u ''correlation_id'' then or_str (c (u ''correlation_id'')) trace
           else if k = u ''run_id'' then run
           else if k = u ''claim_id'' then or_str (c (u ''claim_id'')) (ids (u ''claim''))
           else if k = u ''idempotency_key'' then or_str (c (u ''idempotency_key'')) (u ''idem_'' @ run)
           else c k) m))"

text \<open>
  \<open>from_metadata\<close>: the identity is nested under its own key or the metadata themselves;
  \<open>None\<close> when no task is named and none is required.
\<close>

definition nested_identity :: "(pyval \<times> pyval) list \<Rightarrow> (pyval \<times> pyval) list" where
  "nested_identity m = (case vget m (u ''execution_identity'') of PDict d \<Rightarrow> d | _ \<Rightarrow> m)"

definition from_metadata ::
    "prims \<Rightarrow> (pystr \<Rightarrow> pystr) \<Rightarrow> (pyval \<times> pyval) list \<Rightarrow> pystr \<Rightarrow> pystr \<Rightarrow> pystr \<Rightarrow> bool
     \<Rightarrow> store_error + execution_identity option" where
  "from_metadata P ids m task agent session req =
     (let raw = nested_identity m;
          c = (\<lambda>k. clean P (vget raw k));
          task' = or_str (c (u ''task_id'')) (strip task);
          meta = vget raw (u ''metadata'')
      in if task' = [] then if req then Inl MissingExecutionIdentity else Inr None
         else if req \<and> (\<exists>k \<in> set REQUIRED_FIELDS. k \<noteq> u ''task_id'' \<and> c k = []) then Inl MissingExecutionIdentity
         else ebind (if py_truthy meta then raised (py_dict meta) else Inr []) (\<lambda>d.
           emap Some (new_identity ids
             (\<lambda>k. if k = u ''task_id'' then task'
                  else if k = u ''agent_id'' then or_str (c k) (strip agent)
                  else if k = u ''session_id'' then or_str (c k) (strip session)
                  else c k) d)))"

definition require_for_dispatch :: "execution_identity \<Rightarrow> store_error + execution_identity" where
  "require_for_dispatch I =
     (if \<exists>k \<in> set REQUIRED_FIELDS. strip (identity_field I k) = [] then Inl MissingExecutionIdentity else Inr I)"

definition require_execution_identity ::
    "prims \<Rightarrow> (pystr \<Rightarrow> pystr) \<Rightarrow> (pyval \<times> pyval) list \<Rightarrow> pystr \<Rightarrow> pystr \<Rightarrow> pystr
     \<Rightarrow> store_error + execution_identity" where
  "require_execution_identity P ids m task agent session =
     ebind (from_metadata P ids m task agent session True) (\<lambda>r.
       case r of None \<Rightarrow> Inl MissingExecutionIdentity | Some I \<Rightarrow> require_for_dispatch I)"

text \<open>
  \<open>to_dict\<close> and its nesting under a key; \<open>with_updates\<close> of string fields and of metadata
  entries, a name that is no field being refused by the constructor.
\<close>

definition identity_dict :: "execution_identity \<Rightarrow> (pyval \<times> pyval) list" where
  "identity_dict I = map (\<lambda>(k, v). (PStr k, PStr v)) (identity_items I) @
     [(PStr (u ''metadata''), asdict_val (PDict (ei_metadata I)))]"

definition to_metadata :: "execution_identity \<Rightarrow> (pyval \<times> pyval) list" where
  "to_metadata I = [(PStr (u ''execution_identity''), PDict (identity_dict I))]"

definition dmerge :: "('k, 'v) dict \<Rightarrow> ('k, 'v) dict \<Rightarrow> ('k, 'v) dict" where
  "dmerge d e = foldl (\<lambda>a (k, v). dset k v a) d e"

definition with_updates ::
    "execution_identity \<Rightarrow> (pystr, pystr) dict \<Rightarrow> (pyval \<times> pyval) list \<Rightarrow> store_error + execution_identity" where
  "with_updates I ups m =
     (if \<forall>k \<in> set (keys ups). k \<in> set IDENTITY_FIELDS
      then Inr (identity_of (\<lambda>k. dget (dmerge (identity_items I) ups) k [])
        (dmerge (dict_of_val (asdict_val (PDict (ei_metadata I)))) m))
      else Inl (Raised (TypeError (u ''unexpected keyword argument''))))"

text \<open>The boot id of the process, made once from \<open>random\<close>: the id and the new state.\<close>

definition process_boot_id :: "pystr \<Rightarrow> pystr \<Rightarrow> pystr \<times> pystr" where
  "process_boot_id state random = (let b = or_str state (u ''boot_'' @ random) in (b, b))"

section \<open>The table of identities\<close>

type_synonym identity_table = "(pystr, execution_identity) dict"

text \<open>Every string field but \<open>run_id\<close>, the key.\<close>

definition EXECUTION_IDENTITY_CONFLICT_FIELDS :: "pystr list" where
  "EXECUTION_IDENTITY_CONFLICT_FIELDS =
     [u ''trace_id'', u ''correlation_id'', u ''task_id'', u ''claim_id'', u ''idempotency_key'',
      u ''causation_id'', u ''parent_run_id'', u ''agent_id'', u ''session_id'',
      u ''external_a2a_task_id'', u ''message_id'', u ''event_id'', u ''artifact_id'', u ''proposal_id'']"

definition execution_identity_conflicts :: "execution_identity option \<Rightarrow> execution_identity \<Rightarrow> pystr list" where
  "execution_identity_conflicts existing incoming =
     (case existing of None \<Rightarrow> []
      | Some e \<Rightarrow> filter (\<lambda>k. identity_field e k \<noteq> [] \<and> identity_field incoming k \<noteq> [] \<and>
          identity_field e k \<noteq> identity_field incoming k) EXECUTION_IDENTITY_CONFLICT_FIELDS)"

text \<open>The fields the upsert keeps when the new value is empty (its CASE expressions).\<close>

definition KEPT_FIELDS :: "pystr list" where
  "KEPT_FIELDS = [u ''external_a2a_task_id'', u ''message_id'', u ''event_id'', u ''artifact_id'', u ''proposal_id'']"

definition identity_upsert ::
    "execution_identity option \<Rightarrow> execution_identity \<Rightarrow> (pyval \<times> pyval) list \<Rightarrow> execution_identity" where
  "identity_upsert existing new meta =
     (case existing of None \<Rightarrow> new\<lparr>ei_metadata := meta\<rparr>
      | Some e \<Rightarrow> identity_of (\<lambda>k. if k \<in> set KEPT_FIELDS \<and> identity_field new k = []
          then identity_field e k else identity_field new k) meta)"

definition record_execution_identity ::
    "prims \<Rightarrow> identity_table \<Rightarrow> execution_identity \<Rightarrow> (pyval \<times> pyval) list
     \<Rightarrow> store_error + execution_identity \<times> identity_table" where
  "record_execution_identity P tab I meta =
     (let existing = map_of tab (ei_run_id I)
      in ebind (require_for_dispatch I) (\<lambda>_.
         ebind (guard (execution_identity_conflicts existing I = [])
           (Raised (ValueError (u ''execution identity conflict'')))) (\<lambda>_.
         ebind (raised (json_shape P (PDict (dmerge (ei_metadata I) meta)))) (\<lambda>m.
           let row = identity_upsert existing I (dict_of_val m)
           in Inr (row, dset (ei_run_id I) row tab)))))"

end
