(* ===== verification/Idempotency.thy ===== *)
theory Idempotency
  imports Identity
begin

text \<open>
  The table idempotency_records of runtime_state.py and the operations that begin, complete,
  reclaim and read a row. An operation is a program over SQL statements: every statement is
  one transaction, so other workers may act between two statements but not within one. Times
  are microseconds in UTC and are compared as the texts of their columns are; JSON columns hold
  the value they parse to; \<open>init_db\<close> and the pragmas are not modelled.
\<close>

section \<open>Rows\<close>

record idem_record =
  id_run_id :: pystr
  id_task_id :: pystr
  id_trace_id :: pystr
  id_correlation_id :: pystr
  id_status :: pystr
  id_result_receipt_id :: pystr
  id_metadata :: "(pyval \<times> pyval) list"
  id_created_at :: int
  id_updated_at :: int

text \<open>The primary key: the idempotency key and the side-effect key.\<close>

type_synonym row_key = "pystr \<times> pystr"

record runtime_receipt =
  rt_type :: pystr
  rt_status :: pystr
  rt_identity :: execution_identity
  rt_side_effect_key :: pystr
  rt_payload :: "(pyval \<times> pyval) list"

text \<open>A row of delegation_runs as far as a receipt is looked up in it.\<close>

record run_blob =
  rb_task_id :: pystr
  rb_run_id :: pystr
  rb_receipt :: "pyval option"

record idem_db =
  tb_records :: "(row_key, idem_record) dict"
  tb_receipts :: "runtime_receipt list"
  tb_runs :: "run_blob list"

text \<open>ISO texts of times, and \<open>json.dumps\<close> and \<open>json.loads\<close> with their defaults.\<close>

record text_io =
  to_iso :: "int \<Rightarrow> pystr"
  from_iso :: "pystr \<Rightarrow> int option"
  dumps :: "pyval \<Rightarrow> pyexc + pystr"
  loads :: "pystr \<Rightarrow> pyexc + pyval"

section \<open>Evidence receipts\<close>

text \<open>
  The receipt of a dispatch (spine/receipt.py). Four fields hold objects, a UUID by its text and
  a time, or any value when they were read back from one; the others hold plain values.
\<close>

datatype rfield = FVal pyval | FUuid pystr | FTime int

record evidence_receipt =
  er_receipt_id :: rfield
  er_started_at :: rfield
  er_finished_at :: rfield
  er_routing_decision_id :: rfield
  er_plain :: "(pystr, pyval) dict"
  er_attributes :: "(pyval \<times> pyval) list"

text \<open>The plain fields in the order of the class, with their defaults.\<close>

definition PLAIN_DEFAULTS :: "(pystr, pyval) dict" where
  "PLAIN_DEFAULTS =
     [(u ''trace_id'', PStr []), (u ''span_id'', PStr []), (u ''parent_span_id'', PNone),
      (u ''context_id'', PStr []), (u ''task_id'', PStr []), (u ''claim_id'', PNone),
      (u ''claim_status'', PNone), (u ''agent_id'', PStr []), (u ''agent_card_version'', PStr []),
      (u ''provider'', PStr []), (u ''model'', PStr []), (u ''operation'', PStr (u ''invoke_agent'')),
      (u ''provider_attempted'', PBool False), (u ''status'', PStr (u ''ok'')),
      (u ''error_source'', PStr (u ''none'')), (u ''error_detail'', PNone), (u ''latency_ms'', PNone),
      (u ''input_tokens'', PNone), (u ''output_tokens'', PNone), (u ''cost_usd'', PNone)]"

definition er_field :: "evidence_receipt \<Rightarrow> pystr \<Rightarrow> pyval" where
  "er_field r k = dget (er_plain r) k (dget PLAIN_DEFAULTS k PNone)"

definition er_set :: "pystr \<Rightarrow> pyval \<Rightarrow> evidence_receipt \<Rightarrow> evidence_receipt" where
  "er_set k v r = r\<lparr>er_plain := dset k v (er_plain r)\<rparr>"

fun field_truthy :: "rfield \<Rightarrow> bool" where
  "field_truthy (FVal v) = py_truthy v"
| "field_truthy _ = True"

fun field_str :: "prims \<Rightarrow> text_io \<Rightarrow> rfield \<Rightarrow> pystr" where
  "field_str P T (FVal v) = py_str P v"
| "field_str P T (FUuid s) = s"
| "field_str P T (FTime t) = val_str P (PObj (u ''datetime''))"

fun field_iso :: "text_io \<Rightarrow> rfield \<Rightarrow> pyexc + pystr" where
  "field_iso T (FTime t) = Inr (to_iso T t)"
| "field_iso T _ = Inl (AttributeError (u ''isoformat''))"

text \<open>What \<open>asdict\<close> leaves of a field that is not replaced: a UUID or a time is no JSON value.\<close>

fun field_plain :: "rfield \<Rightarrow> pyval" where
  "field_plain (FVal v) = asdict_val v"
| "field_plain (FUuid s) = PObj (u ''UUID'')"
| "field_plain (FTime t) = PObj (u ''datetime'')"

definition receipt_to_dict :: "prims \<Rightarrow> text_io \<Rightarrow> evidence_receipt \<Rightarrow> pyexc + (pyval \<times> pyval) list" where
  "receipt_to_dict P T r =
     ebind (field_iso T (er_started_at r)) (\<lambda>started.
     emap (\<lambda>finished.
         [(PStr (u ''receipt_id''), PStr (field_str P T (er_receipt_id r)))] @
         map (\<lambda>(k, _). (PStr k, asdict_val (er_field r k))) PLAIN_DEFAULTS @
         [(PStr (u ''started_at''), PStr started),
          (PStr (u ''finished_at''), finished),
          (PStr (u ''routing_decision_id''),
             if field_truthy (er_routing_decision_id r) then PStr (field_str P T (er_routing_decision_id r))
             else field_plain (er_routing_decision_id r)),
          (PStr (u ''attributes''), asdict_val (PDict (er_attributes r)))])
       (if field_truthy (er_finished_at r) then emap PStr (field_iso T (er_finished_at r))
        else Inr (field_plain (er_finished_at r))))"

text \<open>
  \<open>receipt_from_dict\<close> of durable_invoker.py: unknown keys are dropped, a missing field takes its
  default (\<open>new_uuid\<close> and \<open>now\<close> are those of the id and of the start), texts are parsed.
\<close>

definition parse_uuid :: "pyval \<Rightarrow> pyexc + rfield" where
  "parse_uuid v = (case v of PStr s \<Rightarrow> emap FUuid (validate_uuid s) | _ \<Rightarrow> Inr (FVal v))"

definition parse_time :: "text_io \<Rightarrow> pyval \<Rightarrow> pyexc + rfield" where
  "parse_time T v =
     (case v of
        PStr s \<Rightarrow> (case from_iso T s of None \<Rightarrow> Inl (ValueError (u ''Invalid isoformat string'')) | Some t \<Rightarrow> Inr (FTime t))
      | _ \<Rightarrow> Inr (FVal v))"

definition with_default :: "(pyval \<times> pyval) list \<Rightarrow> pystr \<Rightarrow> 'e + 'a \<Rightarrow> (pyval \<Rightarrow> 'e + 'a) \<Rightarrow> 'e + 'a" where
  "with_default d k dflt f = (case map_of d (PStr k) of None \<Rightarrow> dflt | Some v \<Rightarrow> f v)"

definition receipt_from_dict ::
    "text_io \<Rightarrow> pystr \<Rightarrow> int \<Rightarrow> (pyval \<times> pyval) list \<Rightarrow> pyexc + evidence_receipt" where
  "receipt_from_dict T new_uuid now d =
     ebind (with_default d (u ''receipt_id'') (Inr (FUuid new_uuid)) parse_uuid) (\<lambda>rid.
     ebind (with_default d (u ''routing_decision_id'') (Inr (FVal PNone)) parse_uuid) (\<lambda>routing.
     ebind (with_default d (u ''started_at'') (Inr (FTime now)) (parse_time T)) (\<lambda>started.
     ebind (with_default d (u ''finished_at'') (Inr (FVal PNone)) (parse_time T)) (\<lambda>finished.
       Inr \<lparr>er_receipt_id = rid, er_started_at = started, er_finished_at = finished,
         er_routing_decision_id = routing,
         er_plain = map (\<lambda>(k, v). (k, dget d (PStr k) v)) PLAIN_DEFAULTS,
         er_attributes = dict_of_val (vget d (u ''attributes''))\<rparr>))))"

section \<open>Programs over statements\<close>

text \<open>
  \<open>UtcNow\<close> is the clock of the store, \<open>EffectsNow\<close> that of the invoker's effects;
  \<open>CallProvider\<close> and \<open>CallResult\<close> are the calls of the inner invoker and of the result
  provider. The expected time of an update is the compared column, when the code compares it.
\<close>

datatype statement =
    UtcNow
  | EffectsNow
  | InsertStarted row_key execution_identity "(pyval \<times> pyval) list" int
  | SelectRecord row_key
  | UpdateStale row_key "(pyval \<times> pyval) list" int int
  | UpdateResult row_key pystr pystr "(pyval \<times> pyval) list" int "int option"
  | UpdateOwner row_key execution_identity pystr "int option" int
  | InsertReceipt runtime_receipt
  | SelectReceiptJson pystr pystr
  | CallProvider
  | CallResult

datatype reply =
    Failed
  | Time int
  | Changed bool
  | Found "idem_record option"
  | Inserted
  | Blob "pyval option"
  | Returned evidence_receipt
  | Threw store_error
  | Gave "pyval option"

datatype 'x prog = Return 'x | Stmt statement "reply \<Rightarrow> 'x prog"

primrec pbind :: "'x prog \<Rightarrow> ('x \<Rightarrow> 'y prog) \<Rightarrow> 'y prog" where
  "pbind (Return x) f = f x"
| "pbind (Stmt op k) f = Stmt op (\<lambda>r. pbind (k r) f)"

type_synonym 'a code = "(store_error + 'a) prog"

definition sbind :: "'a code \<Rightarrow> ('a \<Rightarrow> 'b code) \<Rightarrow> 'b code" where
  "sbind p f = pbind p (\<lambda>r. case r of Inl e \<Rightarrow> Return (Inl e) | Inr x \<Rightarrow> f x)"

definition ask :: "statement \<Rightarrow> (reply \<Rightarrow> 'a option) \<Rightarrow> 'a code" where
  "ask op select = Stmt op (\<lambda>r. Return (case select r of None \<Rightarrow> Inl DatabaseError | Some x \<Rightarrow> Inr x))"

abbreviation lift :: "store_error + 'a \<Rightarrow> 'a code" where
  "lift r \<equiv> Return r"

fun the_time :: "reply \<Rightarrow> int option" where
  "the_time (Time t) = Some t" | "the_time _ = None"
fun the_change :: "reply \<Rightarrow> bool option" where
  "the_change (Changed b) = Some b" | "the_change _ = None"
fun the_record :: "reply \<Rightarrow> idem_record option option" where
  "the_record (Found r) = Some r" | "the_record _ = None"
fun the_insert :: "reply \<Rightarrow> unit option" where
  "the_insert Inserted = Some ()" | "the_insert _ = None"
fun the_blob :: "reply \<Rightarrow> pyval option option" where
  "the_blob (Blob b) = Some b" | "the_blob _ = None"

section \<open>Statements on the tables\<close>

text \<open>
  What a SQL statement does and answers; \<open>None\<close> for the statements that are no SQL. An
  update counts its row when the compared columns match.
\<close>

definition find_receipt_json :: "run_blob list \<Rightarrow> pystr \<Rightarrow> pystr \<Rightarrow> pyval option" where
  "find_receipt_json rs task run =
     (case filter (\<lambda>b. rb_task_id b = task \<and> rb_run_id b = run) rs of [] \<Rightarrow> None | b # _ \<Rightarrow> rb_receipt b)"

definition matches :: "idem_record \<Rightarrow> pystr option \<Rightarrow> int option \<Rightarrow> bool" where
  "matches r status updated \<longleftrightarrow>
     (case status of None \<Rightarrow> True | Some s \<Rightarrow> id_status r = s) \<and>
     (case updated of None \<Rightarrow> True | Some t \<Rightarrow> id_updated_at r = t)"

definition update_where ::
    "idem_db \<Rightarrow> row_key \<Rightarrow> pystr option \<Rightarrow> int option \<Rightarrow> (idem_record \<Rightarrow> idem_record) \<Rightarrow> idem_db \<times> reply" where
  "update_where db k status updated f =
     (case map_of (tb_records db) k of
        Some r \<Rightarrow> if matches r status updated
          then (db\<lparr>tb_records := dset k (f r) (tb_records db)\<rparr>, Changed True) else (db, Changed False)
      | None \<Rightarrow> (db, Changed False))"

definition started_record ::
    "execution_identity \<Rightarrow> (pyval \<times> pyval) list \<Rightarrow> int \<Rightarrow> idem_record" where
  "started_record I meta now =
     \<lparr>id_run_id = ei_run_id I, id_task_id = ei_task_id I, id_trace_id = ei_trace_id I,
      id_correlation_id = ei_correlation_id I, id_status = u ''started'', id_result_receipt_id = [],
      id_metadata = meta, id_created_at = now, id_updated_at = now\<rparr>"

definition stale_record :: "(pyval \<times> pyval) list \<Rightarrow> int \<Rightarrow> idem_record \<Rightarrow> idem_record" where
  "stale_record meta now r = r\<lparr>id_status := u ''stale'', id_metadata := meta, id_updated_at := now\<rparr>"

definition result_record ::
    "pystr \<Rightarrow> pystr \<Rightarrow> (pyval \<times> pyval) list \<Rightarrow> int \<Rightarrow> idem_record \<Rightarrow> idem_record" where
  "result_record status rid meta now r =
     r\<lparr>id_status := status, id_result_receipt_id := rid, id_metadata := meta, id_updated_at := now\<rparr>"

definition owned_record :: "execution_identity \<Rightarrow> int \<Rightarrow> idem_record \<Rightarrow> idem_record" where
  "owned_record I now r =
     r\<lparr>id_status := u ''started'', id_run_id := ei_run_id I, id_task_id := ei_task_id I,
       id_trace_id := ei_trace_id I, id_correlation_id := ei_correlation_id I, id_updated_at := now\<rparr>"

fun run_sql :: "idem_db \<Rightarrow> statement \<Rightarrow> (idem_db \<times> reply) option" where
  "run_sql db (InsertStarted k I meta now) =
     Some (case map_of (tb_records db) k of
         Some _ \<Rightarrow> (db, Changed False)
       | None \<Rightarrow> (db\<lparr>tb_records := dset k (started_record I meta now) (tb_records db)\<rparr>, Changed True))"
| "run_sql db (SelectRecord k) = Some (db, Found (map_of (tb_records db) k))"
| "run_sql db (UpdateStale k meta now t) =
     Some (update_where db k (Some (u ''started'')) (Some t) (stale_record meta now))"
| "run_sql db (UpdateResult k status rid meta now expected) =
     Some (update_where db k (map_option (\<lambda>_. u ''started'') expected) expected (result_record status rid meta now))"
| "run_sql db (UpdateOwner k I status expected now) =
     Some (update_where db k (Some status) expected (owned_record I now))"
| "run_sql db (InsertReceipt r) = Some (db\<lparr>tb_receipts := tb_receipts db @ [r]\<rparr>, Inserted)"
| "run_sql db (SelectReceiptJson task run) = Some (db, Blob (find_receipt_json (tb_runs db) task run))"
| "run_sql db _ = None"

section \<open>Receipts of the store\<close>

definition build_runtime_receipt ::
    "execution_identity \<Rightarrow> pystr \<Rightarrow> pystr \<Rightarrow> pystr \<Rightarrow> (pyval \<times> pyval) list \<Rightarrow> store_error + runtime_receipt" where
  "build_runtime_receipt I type status key payload =
     emap (\<lambda>_. \<lparr>rt_type = type, rt_status = status, rt_identity = I, rt_side_effect_key = key, rt_payload = payload\<rparr>)
       (require_for_dispatch I)"

text \<open>\<open>_json_dump\<close> and what is read back from the column.\<close>

definition dumped_column :: "prims \<Rightarrow> (pyval \<times> pyval) list \<Rightarrow> store_error + (pyval \<times> pyval) list" where
  "dumped_column P d = emap dict_of_val (raised (json_shape P (PDict d)))"

definition record_runtime_receipt :: "prims \<Rightarrow> runtime_receipt \<Rightarrow> unit code" where
  "record_runtime_receipt P r =
     sbind (lift (dumped_column P (rt_payload r))) (\<lambda>payload.
       ask (InsertReceipt (r\<lparr>rt_payload := payload\<rparr>)) the_insert)"

definition record_receipt_for_identity ::
    "prims \<Rightarrow> execution_identity \<Rightarrow> pystr \<Rightarrow> pystr \<Rightarrow> pystr \<Rightarrow> (pyval \<times> pyval) list \<Rightarrow> unit code" where
  "record_receipt_for_identity P I type status key payload =
     sbind (lift (build_runtime_receipt I type status key payload)) (record_runtime_receipt P)"

definition record_idempotency_consumed ::
    "prims \<Rightarrow> execution_identity \<Rightarrow> pystr \<Rightarrow> pystr \<Rightarrow> (pyval \<times> pyval) list \<Rightarrow> unit code" where
  "record_idempotency_consumed P I key status payload =
     record_receipt_for_identity P I (u ''idempotency_consumed'') status key payload"

definition record_side_effect_intent ::
    "prims \<Rightarrow> execution_identity \<Rightarrow> pystr \<Rightarrow> (pyval \<times> pyval) list \<Rightarrow> unit code" where
  "record_side_effect_intent P I key payload =
     record_receipt_for_identity P I (u ''side_effect_intent'') (u ''started'') key payload"

definition record_side_effect_complete ::
    "prims \<Rightarrow> execution_identity \<Rightarrow> pystr \<Rightarrow> pystr \<Rightarrow> pystr \<Rightarrow> (pyval \<times> pyval) list \<Rightarrow> unit code" where
  "record_side_effect_complete P I key status rid payload =
     record_receipt_for_identity P I (u ''side_effect_complete'') status key
       (dmerge [(PStr (u ''result_receipt_id''), PStr rid)] payload)"

section \<open>Operations on a row\<close>

definition utc_now :: "int code" where
  "utc_now = ask UtcNow the_time"

definition next_idempotency_token :: "int \<Rightarrow> int option \<Rightarrow> int option \<Rightarrow> int" where
  "next_idempotency_token now observed least =
     max (max now (case observed of None \<Rightarrow> now | Some t \<Rightarrow> t + 1)) (case least of None \<Rightarrow> now | Some t \<Rightarrow> t)"

definition get_idempotency_record :: "row_key \<Rightarrow> idem_record option code" where
  "get_idempotency_record k = ask (SelectRecord k) the_record"

definition operation_hash :: "prims \<Rightarrow> (pyval \<times> pyval) list \<Rightarrow> pystr" where
  "operation_hash P meta =
     (let v = vget meta (u ''operation_hash'') in if py_truthy v then py_str P v else [])"

definition merge_idempotency_metadata :: "idem_record \<Rightarrow> (pyval \<times> pyval) list \<Rightarrow> (pyval \<times> pyval) list" where
  "merge_idempotency_metadata r meta = dmerge (id_metadata r) meta"

definition mark_idempotency_record_stale ::
    "prims \<Rightarrow> text_io \<Rightarrow> row_key \<Rightarrow> idem_record \<Rightarrow> (pyval \<times> pyval) list \<Rightarrow> bool code" where
  "mark_idempotency_record_stale P T k r meta =
     sbind utc_now (\<lambda>t.
       let now = next_idempotency_token t (Some (id_updated_at r)) None;
           merged = merge_idempotency_metadata r
             (dmerge meta [(PStr (u ''stale_quarantined_at''), PStr (to_iso T now)),
                           (PStr (u ''previous_status''), PStr (id_status r))])
       in sbind (lift (dumped_column P merged)) (\<lambda>column.
            ask (UpdateStale k column now (id_updated_at r)) the_change))"

text \<open>\<open>(now - updated).total_seconds() >= limit\<close>\<close>

definition aged :: "int \<Rightarrow> int \<Rightarrow> rat \<Rightarrow> bool" where
  "aged now updated limit \<longleftrightarrow> limit \<le> of_int (now - updated) / 1000000"

definition holder_is_stale :: "idem_record \<Rightarrow> rat option \<Rightarrow> bool code" where
  "holder_is_stale r stale_after =
     (case stale_after of
        Some limit \<Rightarrow> if id_status r = u ''started''
          then sbind utc_now (\<lambda>now. lift (Inr (aged now (id_updated_at r) limit))) else lift (Inr False)
      | None \<Rightarrow> lift (Inr False))"

definition stale_value :: "rat option \<Rightarrow> pyval" where
  "stale_value limit = (case limit of None \<Rightarrow> PNone | Some x \<Rightarrow> PFloat (FFin x))"

definition handle_existing_idempotency_record ::
    "prims \<Rightarrow> text_io \<Rightarrow> execution_identity \<Rightarrow> row_key \<Rightarrow> idem_record \<Rightarrow> (pyval \<times> pyval) list \<Rightarrow> rat option
     \<Rightarrow> unit code" where
  "handle_existing_idempotency_record P T I k r meta stale_after =
     (let existing_hash = operation_hash P (id_metadata r); incoming_hash = operation_hash P meta
      in if existing_hash \<noteq> [] \<and> incoming_hash \<noteq> [] \<and> existing_hash \<noteq> incoming_hash
         then sbind (record_idempotency_consumed P I (snd k) (u ''conflict'')
                (dmerge meta [(PStr (u ''existing_operation_hash''), PStr existing_hash),
                              (PStr (u ''operation_hash''), PStr incoming_hash)])) (\<lambda>_.
              lift (Inl (Raised (ValueError (u ''idempotency operation_hash conflict'')))))
         else
           sbind (holder_is_stale r stale_after) (\<lambda>old.
           sbind (if old then mark_idempotency_record_stale P T k r meta else lift (Inr False)) (\<lambda>marked.
             if marked
             then record_idempotency_consumed P I (snd k) (u ''stale'')
                    (dmerge meta [(PStr (u ''stale_after_seconds''), stale_value stale_after)])
             else record_idempotency_consumed P I (snd k) (u ''duplicate'') meta)))"

definition try_begin_with_token ::
    "prims \<Rightarrow> text_io \<Rightarrow> execution_identity \<Rightarrow> pystr \<Rightarrow> (pyval \<times> pyval) list \<Rightarrow> rat option \<Rightarrow> int option
     \<Rightarrow> int option code" where
  "try_begin_with_token P T I key meta stale_after ownership_time =
     (let k = (ei_idempotency_key I, key) in
      sbind (lift (require_for_dispatch I)) (\<lambda>_.
      sbind (lift (guard (key \<noteq> []) (Raised (ValueError (u ''side_effect_key is required''))))) (\<lambda>_.
      sbind utc_now (\<lambda>t.
        let now = next_idempotency_token t None ownership_time in
        sbind (lift (dumped_column P meta)) (\<lambda>column.
        sbind (ask (InsertStarted k I column now) the_change) (\<lambda>inserted.
          if inserted
          then sbind (record_idempotency_consumed P I key (u ''accepted'') meta) (\<lambda>_.
               sbind (record_side_effect_intent P I key meta) (\<lambda>_. lift (Inr (Some now))))
          else sbind (get_idempotency_record k) (\<lambda>existing.
                 case existing of
                   None \<Rightarrow> lift (Inl RecordNotFound)
                 | Some r \<Rightarrow> sbind (handle_existing_idempotency_record P T I k r meta stale_after)
                     (\<lambda>_. lift (Inr None)))))))))"

definition try_begin_idempotent_side_effect ::
    "prims \<Rightarrow> text_io \<Rightarrow> execution_identity \<Rightarrow> pystr \<Rightarrow> (pyval \<times> pyval) list \<Rightarrow> rat option \<Rightarrow> bool code" where
  "try_begin_idempotent_side_effect P T I key meta stale_after =
     sbind (try_begin_with_token P T I key meta stale_after None) (\<lambda>token. lift (Inr (token \<noteq> None)))"

definition complete_idempotent_side_effect ::
    "prims \<Rightarrow> execution_identity \<Rightarrow> pystr \<Rightarrow> pystr \<Rightarrow> pystr \<Rightarrow> (pyval \<times> pyval) list \<Rightarrow> int option
     \<Rightarrow> idem_record option code" where
  "complete_idempotent_side_effect P I key status rid meta expected =
     (let k = (ei_idempotency_key I, key) in
      sbind (lift (require_for_dispatch I)) (\<lambda>_.
      sbind (get_idempotency_record k) (\<lambda>existing.
      case existing of None \<Rightarrow> lift (Inl RecordNotFound)
      | Some r \<Rightarrow>
        sbind utc_now (\<lambda>t.
          let now = next_idempotency_token t
                (Some (case expected of None \<Rightarrow> id_updated_at r | Some e \<Rightarrow> e)) None;
              merged = merge_idempotency_metadata r meta
          in sbind (lift (dumped_column P merged)) (\<lambda>column.
             sbind (ask (UpdateResult k status rid column now expected) the_change) (\<lambda>changed.
             sbind (lift (guard (expected = None \<or> changed) LeaseLost)) (\<lambda>_.
             sbind (get_idempotency_record k) (\<lambda>record.
             sbind (record_side_effect_complete P I key status rid merged) (\<lambda>_.
               lift (Inr record))))))))))"

definition try_reclaim_with_token ::
    "prims \<Rightarrow> text_io \<Rightarrow> execution_identity \<Rightarrow> pystr \<Rightarrow> pystr \<Rightarrow> int option \<Rightarrow> int option \<Rightarrow> int option code" where
  "try_reclaim_with_token P T I key expected_status expected ownership_time =
     (let k = (ei_idempotency_key I, key) in
      sbind (lift (require_for_dispatch I)) (\<lambda>_.
      sbind (lift (guard (key \<noteq> []) (Raised (ValueError (u ''side_effect_key is required''))))) (\<lambda>_.
      sbind utc_now (\<lambda>t.
        let now = next_idempotency_token t expected ownership_time in
        sbind (ask (UpdateOwner k I expected_status expected now) the_change) (\<lambda>reclaimed.
          if reclaimed
          then sbind (record_idempotency_consumed P I key (u ''reclaimed'')
                  [(PStr (u ''expected_status''), PStr expected_status),
                   (PStr (u ''ownership_token''), PStr (to_iso T now))]) (\<lambda>_. lift (Inr (Some now)))
          else lift (Inr None))))))"

definition try_reclaim_idempotent_side_effect ::
    "prims \<Rightarrow> text_io \<Rightarrow> execution_identity \<Rightarrow> pystr \<Rightarrow> pystr \<Rightarrow> int option \<Rightarrow> bool code" where
  "try_reclaim_idempotent_side_effect P T I key expected_status expected =
     sbind (try_reclaim_with_token P T I key expected_status expected None) (\<lambda>token. lift (Inr (token \<noteq> None)))"

definition was_side_effect_performed :: "row_key \<Rightarrow> bool code" where
  "was_side_effect_performed k =
     sbind (get_idempotency_record k) (\<lambda>record.
       lift (Inr (case record of None \<Rightarrow> False
         | Some r \<Rightarrow> id_status r = u ''completed'' \<or> id_status r = u ''skipped'')))"

end
