(* ===== verification/DurableInvoker.thy ===== *)
theory DurableInvoker
  imports Idempotency
begin

text \<open>
  The effectively-once wrapper of a provider call (graph/durable_invoker.py): memo check, atomic
  begin, recovery of a lost begin, the call and its completion. A call is a program over the
  statements of \<open>Idempotency\<close> that carries the attributes the object shows to its caller, so
  that they are known on the error path too. The store has the tables and methods the wrapper
  looks for, or it has not (\<open>iv_capable\<close>). Log lines are not modelled.
\<close>

section \<open>Configuration and attributes\<close>

datatype identity_source = GivenIdentity execution_identity | IdentityDict "(pyval \<times> pyval) list" | NoIdentity

text \<open>
  The arguments of the constructor and of one call; \<open>iv_ids\<close> are the random ids of a new
  identity, \<open>iv_new_uuid\<close> and \<open>iv_now\<close> the defaults of a receipt that is read back without
  its id or start.
\<close>

record invoker =
  iv_capable :: bool
  iv_identity :: identity_source
  iv_side_effect_key :: pystr
  iv_stale_after :: "rat option"
  iv_result_provider :: bool
  iv_task :: "(pyval \<times> pyval) list"
  iv_agent_id :: pystr
  iv_ids :: "pystr \<Rightarrow> pystr"
  iv_new_uuid :: pystr
  iv_now :: int

record invoker_state =
  is_memo_hit :: bool
  is_memo_result :: pyval
  is_memo_result_omitted :: "pystr option"
  is_audit_failures :: nat

definition initial_state :: invoker_state where
  "initial_state = \<lparr>is_memo_hit = False, is_memo_result = PNone, is_memo_result_omitted = None, is_audit_failures = 0\<rparr>"

type_synonym 'a icode = "invoker_state \<Rightarrow> (invoker_state \<times> (store_error + 'a)) prog"

definition ireturn :: "'a \<Rightarrow> 'a icode" where
  "ireturn x s = Return (s, Inr x)"

definition iraise :: "store_error \<Rightarrow> 'a icode" where
  "iraise e s = Return (s, Inl e)"

definition ilift :: "'a code \<Rightarrow> 'a icode" where
  "ilift p s = pbind p (\<lambda>r. Return (s, r))"

definition imodify :: "(invoker_state \<Rightarrow> invoker_state) \<Rightarrow> unit icode" where
  "imodify f s = Return (f s, Inr ())"

definition ibind :: "'a icode \<Rightarrow> ('a \<Rightarrow> 'b icode) \<Rightarrow> 'b icode" where
  "ibind p f s = pbind (p s) (\<lambda>(s', r). case r of Inl e \<Rightarrow> Return (s', Inl e) | Inr x \<Rightarrow> f x s')"

text \<open>\<open>try: ... except Exception: ...\<close>\<close>

definition itry :: "'a icode \<Rightarrow> (store_error \<Rightarrow> 'b icode) \<Rightarrow> ('a \<Rightarrow> 'b icode) \<Rightarrow> 'b icode" where
  "itry p handler f s = pbind (p s) (\<lambda>(s', r). case r of Inl e \<Rightarrow> handler e s' | Inr x \<Rightarrow> f x s')"

definition audit_failure :: "unit icode" where
  "audit_failure = imodify (\<lambda>s. s\<lparr>is_audit_failures := Suc (is_audit_failures s)\<rparr>)"

section \<open>Keys, receipts and memoized results\<close>

definition mark_unprotected :: "evidence_receipt \<Rightarrow> pystr \<Rightarrow> evidence_receipt" where
  "mark_unprotected r reason =
     r\<lparr>er_attributes := dmerge (er_attributes r)
         [(PStr (u ''unprotected_dispatch''), PBool True), (PStr (u ''unprotected_reason''), PStr reason)]\<rparr>"

definition claim_idempotency_key :: "prims \<Rightarrow> pystr \<Rightarrow> pyexc + pystr" where
  "claim_idempotency_key P key = emap (\<lambda>b. u ''sek_'' @ hex (sha256 P b)) (encode_utf8 key)"

definition derive_graph_side_effect_key :: "prims \<Rightarrow> pystr \<Rightarrow> int \<Rightarrow> pystr \<Rightarrow> int \<Rightarrow> pyexc + pystr" where
  "derive_graph_side_effect_key P run superstep node retry_count =
     emap (\<lambda>b. u ''invoke_agent:graph:'' @ hex (sha256 P b))
       (encode_utf8 (run @ u '':'' @ int_str superstep @ u '':'' @ node @ u '':'' @ int_str retry_count))"

definition invocation_hash :: "prims \<Rightarrow> pystr \<Rightarrow> pystr \<Rightarrow> pyexc + pystr" where
  "invocation_hash P task agent =
     emap (\<lambda>b. hex (sha256 P b)) (encode_utf8 (u ''invoke_agent:'' @ task @ u '':'' @ agent))"

definition RESULT_JSON_CAP :: nat where "RESULT_JSON_CAP = 100000"

text \<open>Only \<open>TypeError\<close> and \<open>ValueError\<close> are caught.\<close>

definition encode_memo_result :: "text_io \<Rightarrow> pyval \<Rightarrow> pyexc + (pyval \<times> pyval) list" where
  "encode_memo_result T v =
     (let omitted = (\<lambda>s. [(PStr (u ''result_omitted_reason''), PStr (u s))]) in
      case dumps T v of
        Inl e \<Rightarrow> if is_type_error e \<or> is_value_error e then Inr (omitted ''not_json_serializable'') else Inl e
      | Inr text \<Rightarrow>
          if RESULT_JSON_CAP < length text then Inr (omitted ''exceeds_result_cap'')
          else Inr [(PStr (u ''result_json''), PStr text)])"

definition decode_memo_result :: "text_io \<Rightarrow> (pyval \<times> pyval) list \<Rightarrow> pyexc + pyval" where
  "decode_memo_result T meta =
     (case vget meta (u ''result_json'') of
        PStr text \<Rightarrow> (case loads T text of
            Inl e \<Rightarrow> if is_type_error e \<or> is_value_error e then Inr PNone else Inl e
          | Inr v \<Rightarrow> Inr v)
      | _ \<Rightarrow> Inr PNone)"

text \<open>\<open>str(v or d)\<close>\<close>

definition str_or :: "prims \<Rightarrow> pyval \<Rightarrow> pystr \<Rightarrow> pystr" where
  "str_or P v d = (if py_truthy v then py_str P v else d)"

section \<open>Identity\<close>

text \<open>\<open>str(task.get('id', '') or task.get('task_id', '') or '')\<close>\<close>

definition task_of :: "prims \<Rightarrow> (pyval \<times> pyval) list \<Rightarrow> pystr" where
  "task_of P task = str_or P (vget task (u ''id'')) (str_or P (vget task (u ''task_id'')) [])"

definition resolve_identity :: "prims \<Rightarrow> invoker \<Rightarrow> store_error + execution_identity" where
  "resolve_identity P c =
     (case iv_identity c of
        GivenIdentity I \<Rightarrow> require_for_dispatch I
      | source \<Rightarrow>
          ebind (from_metadata P (iv_ids c)
              (case source of IdentityDict d \<Rightarrow> [(PStr (u ''execution_identity''), PDict d)] | _ \<Rightarrow> [])
              (task_of P (iv_task c)) (iv_agent_id c) [] False)
            (\<lambda>r. case r of None \<Rightarrow> Inl MissingExecutionIdentity | Some I \<Rightarrow> require_for_dispatch I))"

section \<open>Memo sources\<close>

text \<open>The receipt must name the dispatch: \<open>str(attributes.get(k, '')) == v\<close> for its ids.\<close>

definition attr_str :: "prims \<Rightarrow> (pyval \<times> pyval) list \<Rightarrow> pystr \<Rightarrow> pystr" where
  "attr_str P d k = py_str P (dget d (PStr k) (PStr []))"

definition names_dispatch :: "prims \<Rightarrow> pystr \<Rightarrow> pystr \<Rightarrow> pystr \<Rightarrow> (pyval \<times> pyval) list \<Rightarrow> bool" where
  "names_dispatch P run ikey key blob =
     (case vget blob (u ''attributes'') of
        PDict a \<Rightarrow> attr_str P a (u ''run_id'') = run \<and> attr_str P a (u ''idempotency_key'') = ikey \<and>
          attr_str P a (u ''side_effect_key'') = key
      | _ \<Rightarrow> False)"

definition prior_receipt_from_delegation_runs ::
    "prims \<Rightarrow> text_io \<Rightarrow> invoker \<Rightarrow> pystr \<Rightarrow> pystr \<Rightarrow> pystr \<Rightarrow> evidence_receipt option icode" where
  "prior_receipt_from_delegation_runs P T c task run ikey =
     (if task = [] \<or> run = [] \<or> ikey = [] then ireturn None
      else itry (ilift (ask (SelectReceiptJson task run) the_blob)) (\<lambda>_. ireturn None) (\<lambda>blob.
        case blob of
          Some (PDict d) \<Rightarrow>
            if names_dispatch P run ikey (iv_side_effect_key c) d
            then ireturn (case receipt_from_dict T (iv_new_uuid c) (iv_now c) d of Inl _ \<Rightarrow> None | Inr r \<Rightarrow> Some r)
            else ireturn None
        | _ \<Rightarrow> ireturn None))"

definition memo_from_record ::
    "prims \<Rightarrow> text_io \<Rightarrow> invoker \<Rightarrow> pystr \<Rightarrow> idem_record \<Rightarrow> pystr \<Rightarrow> evidence_receipt option icode" where
  "memo_from_record P T c ikey r task =
     (let fallback = prior_receipt_from_delegation_runs P T c task (id_run_id r) ikey in
      case vget (id_metadata r) (u ''receipt'') of
        PDict blob \<Rightarrow>
          if attr_str P blob (u ''task_id'') = task \<and>
             names_dispatch P (id_run_id r) ikey (iv_side_effect_key c) blob
          then (case receipt_from_dict T (iv_new_uuid c) (iv_now c) blob of
                  Inr receipt \<Rightarrow> ireturn (Some receipt)
                | Inl _ \<Rightarrow> ibind audit_failure (\<lambda>_. fallback))
          else fallback
      | _ \<Rightarrow> fallback)"

definition started_record_is_stale :: "invoker \<Rightarrow> idem_record \<Rightarrow> bool icode" where
  "started_record_is_stale c r =
     (case iv_stale_after c of
        None \<Rightarrow> ireturn False
      | Some limit \<Rightarrow> ilift (sbind (ask EffectsNow the_time) (\<lambda>now. lift (Inr (aged now (id_updated_at r) limit)))))"

definition check_memo ::
    "prims \<Rightarrow> text_io \<Rightarrow> invoker \<Rightarrow> pystr \<Rightarrow> execution_identity \<Rightarrow> evidence_receipt option icode" where
  "check_memo P T c task claim =
     itry (ilift (get_idempotency_record (ei_idempotency_key claim, iv_side_effect_key c))) (\<lambda>_. ireturn None)
       (\<lambda>record. case record of
          None \<Rightarrow> ireturn None
        | Some r \<Rightarrow>
            if id_status r \<noteq> u ''completed'' then ireturn None
            else if py_truthy (vget (id_metadata r) (u ''result_omitted_reason''))
            then ibind (imodify (\<lambda>s. s\<lparr>is_memo_result_omitted :=
                   Some (py_str P (vget (id_metadata r) (u ''result_omitted_reason'')))\<rparr>)) (\<lambda>_. ireturn None)
            else ibind (memo_from_record P T c (ei_idempotency_key claim) r task) (\<lambda>m.
              case m of
                None \<Rightarrow> ireturn None
              | Some receipt \<Rightarrow>
                  ibind (imodify (\<lambda>s. s\<lparr>is_memo_hit := True\<rparr>)) (\<lambda>_.
                  ibind (ilift (lift (raised (decode_memo_result T (id_metadata r))))) (\<lambda>v.
                  ibind (imodify (\<lambda>s. s\<lparr>is_memo_result := v\<rparr>)) (\<lambda>_.
                  itry (ilift (record_idempotency_consumed P claim (iv_side_effect_key c) (u ''memo_hit'')
                          [(PStr (u ''result_receipt_id''), PStr (id_result_receipt_id r))]))
                    (\<lambda>_. ibind audit_failure (\<lambda>_. ireturn (Some receipt)))
                    (\<lambda>_. ireturn (Some receipt)))))))"

section \<open>The call\<close>

fun the_receipt :: "reply \<Rightarrow> (store_error + evidence_receipt) option" where
  "the_receipt (Returned r) = Some (Inr r)"
| "the_receipt (Threw e) = Some (Inl e)"
| "the_receipt _ = None"

fun the_result :: "reply \<Rightarrow> pyval option option" where
  "the_result (Gave v) = Some v"
| "the_result _ = None"

definition call_provider :: "evidence_receipt code" where
  "call_provider = sbind (ask CallProvider the_receipt) lift"

text \<open>The result of the result provider, \<open>None\<close> when it raises or gives \<open>None\<close>.\<close>

definition call_result :: "pyval option code" where
  "call_result = ask CallResult the_result"

definition reclaim_or_lose ::
    "prims \<Rightarrow> text_io \<Rightarrow> invoker \<Rightarrow> execution_identity \<Rightarrow> idem_record \<Rightarrow> int icode" where
  "reclaim_or_lose P T c claim r =
     ibind (ilift (ask EffectsNow the_time)) (\<lambda>now.
     itry (ilift (try_reclaim_with_token P T claim (iv_side_effect_key c) (id_status r) (Some (id_updated_at r)) (Some now)))
       (\<lambda>_. iraise (DuplicateDispatchInFlight (iv_side_effect_key c)))
       (\<lambda>token. case token of
           None \<Rightarrow> iraise (DuplicateDispatchInFlight (iv_side_effect_key c))
         | Some t \<Rightarrow> ireturn t))"

definition complete_fail_open ::
    "prims \<Rightarrow> invoker \<Rightarrow> execution_identity \<Rightarrow> pystr \<Rightarrow> pystr \<Rightarrow> (pyval \<times> pyval) list \<Rightarrow> int option \<Rightarrow> unit icode" where
  "complete_fail_open P c claim status rid meta token =
     (case token of
        None \<Rightarrow> audit_failure
      | Some t \<Rightarrow>
          itry (ilift (complete_idempotent_side_effect P claim (iv_side_effect_key c) status rid meta (Some t)))
            (\<lambda>_. audit_failure) (\<lambda>_. ireturn ()))"

definition bind_receipt ::
    "invoker \<Rightarrow> execution_identity \<Rightarrow> execution_identity \<Rightarrow> pystr \<Rightarrow> evidence_receipt \<Rightarrow> evidence_receipt" where
  "bind_receipt c identity claim task r =
     er_set (u ''trace_id'') (PStr (ei_trace_id identity))
      (er_set (u ''task_id'') (PStr task)
       (er_set (u ''claim_id'') (PStr (ei_claim_id identity))
        (r\<lparr>er_attributes := dmerge (er_attributes r)
            [(PStr (u ''run_id''), PStr (ei_run_id identity)),
             (PStr (u ''idempotency_key''), PStr (ei_idempotency_key claim)),
             (PStr (u ''dispatch_idempotency_key''), PStr (ei_idempotency_key identity)),
             (PStr (u ''side_effect_key''), PStr (iv_side_effect_key c))]\<rparr>)))"

definition is_ok_receipt :: "evidence_receipt \<Rightarrow> bool" where
  "is_ok_receipt r \<longleftrightarrow> er_field r (u ''status'') = PStr (u ''ok'')"

text \<open>The call once the claim is decided: the token held, or none.\<close>

definition execute_claimed ::
    "prims \<Rightarrow> text_io \<Rightarrow> invoker \<Rightarrow> execution_identity \<Rightarrow> execution_identity \<Rightarrow> pystr \<Rightarrow> pystr \<Rightarrow> int option
     \<Rightarrow> evidence_receipt icode" where
  "execute_claimed P T c identity claim task op_hash token =
     itry (ilift call_provider)
       (\<lambda>e. ibind (complete_fail_open P c claim (u ''failed'') [] [(PStr (u ''operation_hash''), PStr op_hash)] token)
         (\<lambda>_. iraise e))
       (\<lambda>answer.
         let receipt = bind_receipt c identity claim task answer; ok = is_ok_receipt receipt in
         ibind (ilift (lift (raised (receipt_to_dict P T receipt)))) (\<lambda>blob.
         ibind (if ok \<and> iv_result_provider c then ilift call_result else ireturn None) (\<lambda>result.
         ibind (ilift (lift (raised (case result of None \<Rightarrow> Inr [] | Some v \<Rightarrow> encode_memo_result T v)))) (\<lambda>memo.
         ibind (complete_fail_open P c claim (if ok then u ''completed'' else u ''failed'')
             (field_str P T (er_receipt_id receipt))
             (dmerge [(PStr (u ''operation_hash''), PStr op_hash), (PStr (u ''receipt''), PDict blob),
                (PStr (u ''result_json''), PNone), (PStr (u ''result_omitted_reason''), PNone)] memo) token) (\<lambda>_.
           ireturn (if token = None then mark_unprotected receipt (u ''begin_lost_unreclaimed'') else receipt))))))"

definition execute_unprotected :: "pystr \<Rightarrow> evidence_receipt icode" where
  "execute_unprotected reason = ibind (ilift call_provider) (\<lambda>r. ireturn (mark_unprotected r reason))"

text \<open>After a begin that was lost: the memo of the winner, a takeover, or \<open>DuplicateDispatchInFlight\<close>.\<close>

definition recover_lost_begin ::
    "prims \<Rightarrow> text_io \<Rightarrow> invoker \<Rightarrow> execution_identity \<Rightarrow> execution_identity \<Rightarrow> pystr \<Rightarrow> pystr \<Rightarrow> evidence_receipt icode" where
  "recover_lost_begin P T c identity claim task op_hash =
     itry (ilift (get_idempotency_record (ei_idempotency_key claim, iv_side_effect_key c)))
       (\<lambda>_. execute_claimed P T c identity claim task op_hash None)
       (\<lambda>record. case record of
          None \<Rightarrow> execute_claimed P T c identity claim task op_hash None
        | Some r \<Rightarrow>
            let take_over = ibind (reclaim_or_lose P T c claim r) (\<lambda>t.
              execute_claimed P T c identity claim task op_hash (Some t))
            in if id_status r = u ''completed''
               then ibind (check_memo P T c task claim) (\<lambda>m.
                 case m of Some receipt \<Rightarrow> ireturn receipt | None \<Rightarrow> take_over)
               else if id_status r = u ''started''
               then ibind (started_record_is_stale c r) (\<lambda>old.
                 if old then take_over else iraise (DuplicateDispatchInFlight (iv_side_effect_key c)))
               else take_over)"

definition begin_metadata :: "pystr \<Rightarrow> pystr \<Rightarrow> (pyval \<times> pyval) list" where
  "begin_metadata op_hash task = [(PStr (u ''operation_hash''), PStr op_hash), (PStr (u ''task_id''), PStr task)]"

definition protected_call :: "prims \<Rightarrow> text_io \<Rightarrow> invoker \<Rightarrow> execution_identity \<Rightarrow> evidence_receipt icode" where
  "protected_call P T c identity =
     (let task = str_or P (vget (iv_task c) (u ''id'')) (ei_task_id identity) in
      ibind (ilift (lift (raised (invocation_hash P task (iv_agent_id c))))) (\<lambda>op_hash.
      ibind (ilift (lift (raised (claim_idempotency_key P (iv_side_effect_key c))))) (\<lambda>ikey.
      ibind (ilift (lift (with_updates identity [(u ''idempotency_key'', ikey)] []))) (\<lambda>claim.
      ibind (check_memo P T c task claim) (\<lambda>memo.
      case memo of Some receipt \<Rightarrow> ireturn receipt
      | None \<Rightarrow>
        itry (ilift (sbind (ask EffectsNow the_time) (\<lambda>now.
            try_begin_with_token P T claim (iv_side_effect_key c) (begin_metadata op_hash task)
              (iv_stale_after c) (Some now))))
          (\<lambda>_. execute_unprotected (u ''idempotency_begin_failed''))
          (\<lambda>token. case token of
              Some t \<Rightarrow> execute_claimed P T c identity claim task op_hash (Some t)
            | None \<Rightarrow> recover_lost_begin P T c identity claim task op_hash))))))"

definition durable_call :: "prims \<Rightarrow> text_io \<Rightarrow> invoker \<Rightarrow> evidence_receipt icode" where
  "durable_call P T c =
     (if \<not> iv_capable c then execute_unprotected (u ''no_capable_store'')
      else case resolve_identity P c of
        Inl MissingExecutionIdentity \<Rightarrow> execute_unprotected (u ''incomplete_identity'')
      | Inl e \<Rightarrow> iraise e
      | Inr identity \<Rightarrow> protected_call P T c identity)"

definition wrap_invoker :: "invoker \<Rightarrow> store_error + invoker" where
  "wrap_invoker c = (if iv_side_effect_key c = [] then Inl (Raised (ValueError (u ''side_effect_key is required''))) else Inr c)"

end
