(* ===== verification/Interleaving.thy ===== *)
theory Interleaving
  imports DurableInvoker
begin

text \<open>
  Several workers over one database: one step is one statement of one worker. A SQL statement may
  also fail without an effect, a worker may stop for ever between any two statements (it
  then has no further step), and other programs may rewrite delegation_runs. Around this
  relation: the versions of a row as a contract of the table, and a calculus of what a worker's
  program may do given what it has seen.
\<close>

section \<open>Steps\<close>

datatype event = Did nat statement reply

text \<open>The answers a statement that is no SQL may get.\<close>

fun outside :: "statement \<Rightarrow> reply \<Rightarrow> bool" where
  "outside UtcNow (Time _) = True"
| "outside EffectsNow (Time _) = True"
| "outside CallProvider (Returned _) = True"
| "outside CallProvider (Threw _) = True"
| "outside CallResult (Gave _) = True"
| "outside _ _ = False"

text \<open>The events so far, the database and what every worker has left to do.\<close>

inductive exec :: "(nat \<Rightarrow> 'x prog) \<Rightarrow> idem_db \<Rightarrow> event list \<Rightarrow> idem_db \<Rightarrow> (nat \<Rightarrow> 'x prog) \<Rightarrow> bool"
  for W0 db0 where
  exec_start: "exec W0 db0 [] db0 W0"
| exec_sql: "exec W0 db0 tr db W \<Longrightarrow> W i = Stmt op k \<Longrightarrow> run_sql db op = Some (db', r) \<Longrightarrow>
    exec W0 db0 (tr @ [Did i op r]) db' (W(i := k r))"
| exec_fault: "exec W0 db0 tr db W \<Longrightarrow> W i = Stmt op k \<Longrightarrow> run_sql db op \<noteq> None \<Longrightarrow>
    exec W0 db0 (tr @ [Did i op Failed]) db (W(i := k Failed))"
| exec_outside: "exec W0 db0 tr db W \<Longrightarrow> W i = Stmt op k \<Longrightarrow> outside op r \<Longrightarrow>
    exec W0 db0 (tr @ [Did i op r]) db (W(i := k r))"
| exec_others: "exec W0 db0 tr db W \<Longrightarrow> exec W0 db0 tr (db\<lparr>tb_runs := rs\<rparr>) W"

inductive_simps exec_nil: "exec W0 db0 [] db W"

text \<open>All steps of a worker have one shape: the effect of an event on the database.\<close>

definition event_effect :: "idem_db \<Rightarrow> statement \<Rightarrow> reply \<Rightarrow> idem_db \<Rightarrow> bool" where
  "event_effect db op r db' \<longleftrightarrow>
     run_sql db op = Some (db', r) \<or> (db' = db \<and> (run_sql db op \<noteq> None \<and> r = Failed \<or> outside op r))"

lemma exec_induct [consumes 1, case_names start event others]:
  assumes "exec W0 db0 tr db W"
    and "Q [] db0 W0"
    and "\<And>tr db W i op k r db'. exec W0 db0 tr db W \<Longrightarrow> Q tr db W \<Longrightarrow> W i = Stmt op k \<Longrightarrow>
      event_effect db op r db' \<Longrightarrow> Q (tr @ [Did i op r]) db' (W(i := k r))"
    and "\<And>tr db W rs. exec W0 db0 tr db W \<Longrightarrow> Q tr db W \<Longrightarrow> Q tr (db\<lparr>tb_runs := rs\<rparr>) W"
  shows "Q tr db W"
  using assms(1)
proof (induction rule: exec.induct)
  case exec_start
  then show ?case by (rule assms(2))
next
  case (exec_sql tr db W i op k db' r)
  then show ?case by (intro assms(3)) (auto simp: event_effect_def)
next
  case (exec_fault tr db W i op k)
  then show ?case by (intro assms(3)) (auto simp: event_effect_def)
next
  case (exec_outside tr db W i op k r)
  then show ?case by (intro assms(3)) (auto simp: event_effect_def)
next
  case (exec_others tr db W rs)
  then show ?case by (intro assms(4))
qed

text \<open>What worker \<open>i\<close> has done and seen.\<close>

type_synonym hist = "(statement \<times> reply) list"

fun own :: "nat \<Rightarrow> event list \<Rightarrow> hist" where
  "own i [] = []"
| "own i (Did j op r # tr) = (if i = j then (op, r) # own i tr else own i tr)"

lemma own_append [simp]: "own i (a @ b) = own i a @ own i b"
  by (induction a rule: own.induct) auto

lemma own_member: "(op, r) \<in> set (own i tr) \<longleftrightarrow> Did i op r \<in> set tr"
  by (induction i tr rule: own.induct) auto

section \<open>What a program may do\<close>

text \<open>
  \<open>wp fits ok p h Q\<close>: started after the events \<open>h\<close>, and as long as the answers fit what was seen, every
  statement \<open>p\<close> issues is one that \<open>ok\<close> allows after the events before it, and its result
  satisfies \<open>Q\<close>.
\<close>

primrec wp :: "(hist \<Rightarrow> statement \<Rightarrow> reply \<Rightarrow> bool) \<Rightarrow> (hist \<Rightarrow> statement \<Rightarrow> bool) \<Rightarrow> 'x prog \<Rightarrow> hist \<Rightarrow>
    (hist \<Rightarrow> 'x \<Rightarrow> bool) \<Rightarrow> bool" where
  "wp fits ok (Return x) h Q \<longleftrightarrow> Q h x"
| "wp fits ok (Stmt op k) h Q \<longleftrightarrow> ok h op \<and> (\<forall>r. fits h op r \<longrightarrow> wp fits ok (k r) (h @ [(op, r)]) Q)"

lemma wp_mono: "wp fits ok p h Q \<Longrightarrow> (\<And>h' x. Q h' x \<Longrightarrow> R h' x) \<Longrightarrow> wp fits ok p h R"
  by (induction p arbitrary: h) auto

lemma wp_pbind [simp]: "wp fits ok (pbind p f) h Q \<longleftrightarrow> wp fits ok p h (\<lambda>h' x. wp fits ok (f x) h' Q)"
  by (induction p arbitrary: h) auto

lemma wp_ask: "wp fits ok (ask op sel) h Q \<longleftrightarrow> ok h op \<and> (\<forall>r. fits h op r \<longrightarrow>
    Q (h @ [(op, r)]) (case sel r of None \<Rightarrow> Inl DatabaseError | Some x \<Rightarrow> Inr x))"
  by (simp add: ask_def)

lemma wp_sbind: "wp fits ok (sbind p f) h Q \<longleftrightarrow>
    wp fits ok p h (\<lambda>h' r. case r of Inl e \<Rightarrow> Q h' (Inl e) | Inr x \<Rightarrow> wp fits ok (f x) h' Q)"
  unfolding sbind_def wp_pbind by (rule arg_cong [where f = "wp fits ok p h"]) (auto split: sum.splits intro!: ext)

lemma wp_ibind: "wp fits ok (ibind p f s) h Q \<longleftrightarrow>
    wp fits ok (p s) h (\<lambda>h' (s', r). case r of Inl e \<Rightarrow> Q h' (s', Inl e) | Inr x \<Rightarrow> wp fits ok (f x s') h' Q)"
  unfolding ibind_def wp_pbind by (rule arg_cong [where f = "wp fits ok (p s) h"]) (auto split: sum.splits intro!: ext)

lemma wp_itry: "wp fits ok (itry p g f s) h Q \<longleftrightarrow>
    wp fits ok (p s) h (\<lambda>h' (s', r). case r of Inl e \<Rightarrow> wp fits ok (g e s') h' Q | Inr x \<Rightarrow> wp fits ok (f x s') h' Q)"
  unfolding itry_def wp_pbind by (rule arg_cong [where f = "wp fits ok (p s) h"]) (auto split: sum.splits intro!: ext)

lemma wp_ilift: "wp fits ok (ilift p s) h Q \<longleftrightarrow> wp fits ok p h (\<lambda>h' r. Q h' (s, r))"
  by (simp add: ilift_def)

lemma wp_ireturn [simp]: "wp fits ok (ireturn x s) h Q \<longleftrightarrow> Q h (s, Inr x)"
  by (simp add: ireturn_def)

lemma wp_iraise [simp]: "wp fits ok (iraise e s) h Q \<longleftrightarrow> Q h (s, Inl e)"
  by (simp add: iraise_def)

lemma wp_imodify [simp]: "wp fits ok (imodify f s) h Q \<longleftrightarrow> Q h (f s, Inr ())"
  by (simp add: imodify_def)

lemma wp_audit_failure [simp]:
  "wp fits ok (audit_failure s) h Q \<longleftrightarrow> Q h (s\<lparr>is_audit_failures := Suc (is_audit_failures s)\<rparr>, Inr ())"
  by (simp add: audit_failure_def)

lemmas wp_rules = wp_sbind wp_ibind wp_itry wp_ilift

text \<open>Statements that neither claim nor change a row, and programs that issue no others.\<close>

fun harmless :: "statement \<Rightarrow> bool" where
  "harmless (InsertStarted _ _ _ _) = False"
| "harmless (UpdateStale _ _ _ _) = False"
| "harmless (UpdateResult _ _ _ _ _ _) = False"
| "harmless (UpdateOwner _ _ _ _ _) = False"
| "harmless CallProvider = False"
| "harmless _ = True"

primrec quiet :: "'x prog \<Rightarrow> bool" where
  "quiet (Return x) = True"
| "quiet (Stmt op k) = (harmless op \<and> (\<forall>r. quiet (k r)))"

definition quietly :: "hist \<Rightarrow> hist \<Rightarrow> bool" where
  "quietly h h' \<longleftrightarrow> (\<exists>e. h' = h @ e \<and> (\<forall>(op, r) \<in> set e. harmless op))"

lemma quietly_refl [simp]: "quietly h h"
  by (simp add: quietly_def)

lemma quietly_trans: "quietly h1 h2 \<Longrightarrow> quietly h2 h3 \<Longrightarrow> quietly h1 h3"
  unfolding quietly_def by (elim exE conjE, rename_tac a b, rule_tac x = "a @ b" in exI) auto

lemma quietly_snoc: "harmless op \<Longrightarrow> quietly h (h @ [(op, r)])"
  by (auto simp: quietly_def)

lemma wp_quiet:
  assumes "quiet p" and "\<And>h op. harmless op \<Longrightarrow> ok h op" and "\<And>h' x. quietly h h' \<Longrightarrow> Q h' x"
  shows "wp fits ok p h Q"
  using assms(1,3)
proof (induction p arbitrary: h)
  case (Stmt op k)
  have op: "harmless op" using Stmt.prems(1) by simp
  have "wp fits ok (k r) (h @ [(op, r)]) Q" for r
  proof (rule Stmt.IH)
    show "quiet (k r)" using Stmt.prems(1) by simp
    show "Q h' x" if "quietly (h @ [(op, r)]) h'" for h' x
      using Stmt.prems(2) quietly_trans [OF quietly_snoc [OF op] that] by blast
  qed (rule rangeI)
  then show ?case using op assms(2) by simp
qed simp

lemma quiet_pbind: "quiet p \<Longrightarrow> (\<And>x. quiet (f x)) \<Longrightarrow> quiet (pbind p f)"
  by (induction p) auto

lemma quiet_sbind: "quiet p \<Longrightarrow> (\<And>x. quiet (f x)) \<Longrightarrow> quiet (sbind p f)"
  unfolding sbind_def by (rule quiet_pbind) (auto split: sum.splits)

lemma quiet_ask [simp]: "quiet (ask op sel) \<longleftrightarrow> harmless op"
  by (simp add: ask_def)

lemma quiet_records:
  "quiet (record_runtime_receipt P r)"
  "quiet (record_receipt_for_identity P I type status key payload)"
  "quiet (record_idempotency_consumed P I key status payload)"
  "quiet (record_side_effect_intent P I key payload)"
  "quiet (record_side_effect_complete P I key status rid payload)"
proof -
  show 1: "quiet (record_runtime_receipt P r)" for r
    unfolding record_runtime_receipt_def by (intro quiet_sbind) simp_all
  show 2: "quiet (record_receipt_for_identity P I type status key payload)" for type status payload
    unfolding record_receipt_for_identity_def by (intro quiet_sbind 1) simp
  show "quiet (record_idempotency_consumed P I key status payload)"
    "quiet (record_side_effect_intent P I key payload)"
    "quiet (record_side_effect_complete P I key status rid payload)"
    unfolding record_idempotency_consumed_def record_side_effect_intent_def record_side_effect_complete_def
    by (rule 2)+
qed

lemma quiet_reads: "quiet utc_now" "quiet (get_idempotency_record k)" "quiet (holder_is_stale r limit)"
  "quiet call_result"
proof -
  show u: "quiet utc_now" by (simp add: utc_now_def)
  show "quiet (get_idempotency_record k)" by (simp add: get_idempotency_record_def)
  show "quiet (holder_is_stale r limit)"
    unfolding holder_is_stale_def by (auto split: option.splits intro!: quiet_sbind u)
  show "quiet call_result" by (simp add: call_result_def)
qed

lemma quiet_ileaf [simp]: "quiet (ireturn x s)" "quiet (iraise e s)" "quiet (imodify f s)" "quiet (audit_failure s)"
  by (simp_all add: ireturn_def iraise_def imodify_def audit_failure_def)

lemma quiet_ilift [simp]: "quiet p \<Longrightarrow> quiet (ilift p s)"
  unfolding ilift_def by (rule quiet_pbind) simp_all

lemma quiet_ibind: "quiet (p s) \<Longrightarrow> (\<And>x s'. quiet (f x s')) \<Longrightarrow> quiet (ibind p f s)"
  unfolding ibind_def by (rule quiet_pbind) (auto split: sum.splits)

lemma quiet_itry: "quiet (p s) \<Longrightarrow> (\<And>e s'. quiet (g e s')) \<Longrightarrow> (\<And>x s'. quiet (f x s')) \<Longrightarrow> quiet (itry p g f s)"
  unfolding itry_def by (rule quiet_pbind) (auto split: sum.splits)

lemma quiet_prior: "quiet (prior_receipt_from_delegation_runs P T c task run ikey s)"
  unfolding prior_receipt_from_delegation_runs_def
  by (auto intro!: quiet_itry split: option.splits pyval.splits)

lemma quiet_memo_from_record: "quiet (memo_from_record P T c ikey r task s)"
  unfolding memo_from_record_def Let_def
  by (auto intro!: quiet_ibind quiet_prior split: pyval.splits sum.splits)

lemma quiet_check_memo: "quiet (check_memo P T c task claim s)"
  unfolding check_memo_def
  by (auto intro!: quiet_itry quiet_ibind quiet_memo_from_record quiet_records quiet_ilift
      simp: get_idempotency_record_def split: option.splits)

lemma quiet_started_record_is_stale: "quiet (started_record_is_stale c r s)"
  unfolding started_record_is_stale_def by (auto intro!: quiet_ilift quiet_sbind split: option.splits)

end
