(* ===== verification/Fencing.thy ===== *)
theory Fencing
  imports Interleaving
begin

text \<open>
  Fencing: whatever statements fail, whoever stops, and however the clocks run, the times written
  into a row are strictly increasing, and a completion that takes effect is that of the last
  worker that claimed the row.
\<close>

section \<open>Versions of a row\<close>

text \<open>
  The contract of a table whose rows carry a version: a change leaves the rows it does not write,
  and a row it writes gets a version above the one it had.
\<close>

locale versioned_table =
  fixes change :: "'db \<Rightarrow> 'e \<Rightarrow> 'db \<Rightarrow> bool"
    and row :: "'db \<Rightarrow> 'k \<Rightarrow> 'r option"
    and version :: "'r \<Rightarrow> 'v::linorder"
    and writes :: "'e \<Rightarrow> ('k \<times> 'v) option"
  assumes kept: "change db e db' \<Longrightarrow> (\<And>v. writes e \<noteq> Some (k, v)) \<Longrightarrow> row db' k = row db k"
    and written: "change db e db' \<Longrightarrow> writes e = Some (k, v) \<Longrightarrow>
      \<exists>r. row db' k = Some r \<and> version r = v \<and> (\<forall>r0. row db k = Some r0 \<longrightarrow> version r0 < v)"
begin

inductive evolves :: "'db \<Rightarrow> 'e list \<Rightarrow> 'db \<Rightarrow> bool" where
  evolves_nil: "evolves db [] db"
| evolves_snoc: "evolves db es db' \<Longrightarrow> change db' e db'' \<Longrightarrow> evolves db (es @ [e]) db''"

lemma evolves_split: "evolves db (es @ fs) db'' \<Longrightarrow> \<exists>db'. evolves db es db' \<and> evolves db' fs db''"
proof (induction fs arbitrary: db'' rule: rev_induct)
  case Nil
  then show ?case using evolves_nil by auto
next
  case (snoc f fs)
  from snoc.prems have "evolves db ((es @ fs) @ [f]) db''" by simp
  then obtain d where "evolves db (es @ fs) d" "change d f db''"
    by (cases rule: evolves.cases) auto
  with snoc.IH show ?case using evolves_snoc by blast
qed

lemma evolves_single: "evolves db [e] db' \<longleftrightarrow> change db e db'"
proof
  assume "evolves db [e] db'"
  then show "change db e db'"
    by (cases rule: evolves.cases) (auto elim: evolves.cases)
next
  assume "change db e db'"
  from evolves_snoc [OF evolves_nil this] show "evolves db [e] db'" by simp
qed

text \<open>A row is never lost, its version never falls, and with its version it is the same row.\<close>

lemma row_persists:
  assumes "evolves db es db'" and "row db k = Some r"
  shows "\<exists>r'. row db' k = Some r' \<and> version r \<le> version r' \<and>
    (version r' = version r \<longrightarrow> r' = r \<and> (\<forall>e \<in> set es. \<forall>v. writes e \<noteq> Some (k, v)))"
  using assms
proof (induction rule: evolves.induct)
  case (evolves_snoc db es db' e db'')
  then obtain r' where r': "row db' k = Some r'" "version r \<le> version r'"
    "version r' = version r \<longrightarrow> r' = r \<and> (\<forall>e \<in> set es. \<forall>v. writes e \<noteq> Some (k, v))" by blast
  show ?case
  proof (cases "\<exists>v. writes e = Some (k, v)")
    case True
    then obtain v where "writes e = Some (k, v)" by blast
    from written [OF evolves_snoc.hyps(2) this] r' show ?thesis by force
  next
    case False
    then show ?thesis using kept [OF evolves_snoc.hyps(2)] r' by auto
  qed
qed auto

text \<open>Two writes of one row, in this order, carry increasing versions.\<close>

lemma writes_increase:
  assumes "evolves db (as @ [e] @ bs @ [f] @ cs) db'"
    and "writes e = Some (k, v)" and "writes f = Some (k, w)"
  shows "v < w"
proof -
  obtain d1 d2 where d: "evolves db as d1" "change d1 e d2" "evolves d2 (bs @ [f] @ cs) db'"
    using assms(1) evolves_split [of db as "[e] @ bs @ [f] @ cs"] evolves_split [of _ "[e]" "bs @ [f] @ cs"]
    by (metis evolves_single)
  obtain d3 d4 where d': "evolves d2 bs d3" "change d3 f d4"
    using d(3) evolves_split [of d2 bs "[f] @ cs"] evolves_split [of _ "[f]" cs] by (metis evolves_single)
  obtain r where r: "row d2 k = Some r" "version r = v"
    using written [OF d(2) assms(2)] by blast
  obtain r' where "row d3 k = Some r'" "v \<le> version r'"
    using row_persists [OF d'(1) r(1)] r(2) by blast
  with written [OF d'(2) assms(3)] show ?thesis by force
qed

text \<open>A row that still has the version a write gave it has not been written since.\<close>

lemma unwritten_since:
  assumes "evolves db (as @ [e] @ bs) db'" and "writes e = Some (k, v)"
    and "row db' k = Some r" and "version r = v"
  shows "\<forall>f \<in> set bs. \<forall>w. writes f \<noteq> Some (k, w)"
proof -
  obtain d1 d2 where d: "change d1 e d2" "evolves d2 bs db'"
    using assms(1) evolves_split [of db as "[e] @ bs"] evolves_split [of _ "[e]" bs] by (metis evolves_single)
  obtain r0 where r0: "row d2 k = Some r0" "version r0 = v" using written [OF d(1) assms(2)] by blast
  from row_persists [OF d(2) r0(1)] r0(2) assms(3,4) show ?thesis by auto
qed

end

section \<open>The idempotency table\<close>

text \<open>The row and the time a statement writes; a statement is legal when the time passes the compared one.\<close>

fun written_row :: "statement \<Rightarrow> (row_key \<times> int) option" where
  "written_row (InsertStarted k I meta now) = Some (k, now)"
| "written_row (UpdateStale k meta now t) = Some (k, now)"
| "written_row (UpdateResult k status rid meta now e) = Some (k, now)"
| "written_row (UpdateOwner k I status e now) = Some (k, now)"
| "written_row _ = None"

fun legal :: "statement \<Rightarrow> bool" where
  "legal (UpdateStale k meta now t) = (t < now)"
| "legal (UpdateResult k status rid meta now e) = (case e of None \<Rightarrow> False | Some t \<Rightarrow> t < now)"
| "legal (UpdateOwner k I status e now) = (case e of None \<Rightarrow> False | Some t \<Rightarrow> t < now)"
| "legal _ = True"

fun claims :: "statement \<Rightarrow> row_key \<Rightarrow> int \<Rightarrow> bool" where
  "claims (InsertStarted k' I meta now) k t \<longleftrightarrow> k' = k \<and> now = t"
| "claims (UpdateOwner k' I status e now) k t \<longleftrightarrow> k' = k \<and> now = t"
| "claims _ k t \<longleftrightarrow> False"

definition takes_effect :: "statement \<times> reply \<Rightarrow> (row_key \<times> int) option" where
  "takes_effect e = (if snd e = Changed True then written_row (fst e) else None)"

definition table_change ::
    "(row_key, idem_record) dict \<Rightarrow> statement \<times> reply \<Rightarrow> (row_key, idem_record) dict \<Rightarrow> bool" where
  "table_change R e R' \<longleftrightarrow> legal (fst e) \<and>
     (\<exists>db db'. R = tb_records db \<and> R' = tb_records db' \<and> event_effect db (fst e) (snd e) db')"

lemma outside_unchanged: "outside op r \<Longrightarrow> r \<noteq> Changed b"
  by (cases "(op, r)" rule: outside.cases) auto

lemma update_where_cases:
  "update_where db k status updated f =
     (if \<exists>r. map_of (tb_records db) k = Some r \<and> matches r status updated
      then (db\<lparr>tb_records := dset k (f (the (map_of (tb_records db) k))) (tb_records db)\<rparr>, Changed True)
      else (db, Changed False))"
  by (auto simp: update_where_def split: option.splits)

lemma claims_written: "claims c k t \<Longrightarrow> written_row c = Some (k, t)"
  by (cases c) auto

interpretation idem_table: versioned_table table_change map_of id_updated_at takes_effect
proof
  fix R R' e k
  assume c: "table_change R e R'" and w: "\<And>v. takes_effect e \<noteq> Some (k, v)"
  obtain op r where e: "e = (op, r)" by (cases e)
  obtain db db' where db: "R = tb_records db" "R' = tb_records db'" "event_effect db op r db'"
    using c by (auto simp: table_change_def e)
  have w': "\<forall>v. takes_effect e \<noteq> Some (k, v)" using w by blast
  show "map_of R' k = map_of R k"
  proof (cases "run_sql db op = Some (db', r)")
    case True
    with w' show ?thesis unfolding db(1,2) e takes_effect_def
      by (cases op) (auto simp: update_where_cases split: option.splits if_splits)
  next
    case False
    then show ?thesis using db by (auto simp: event_effect_def)
  qed
next
  fix R R' e k v
  assume c: "table_change R e R'" and w: "takes_effect e = Some (k, v)"
  obtain op r where e: "e = (op, r)" by (cases e)
  obtain db db' where db: "R = tb_records db" "R' = tb_records db'" "event_effect db op r db'" and l: "legal op"
    using c by (auto simp: table_change_def e)
  have r: "r = Changed True" "written_row op = Some (k, v)"
    using w by (auto simp: takes_effect_def e split: if_splits)
  then have "run_sql db op = Some (db', r)"
    using db(3) outside_unchanged by (auto simp: event_effect_def)
  then show "\<exists>r. map_of R' k = Some r \<and> id_updated_at r = v \<and> (\<forall>r0. map_of R k = Some r0 \<longrightarrow> id_updated_at r0 < v)"
    using r l unfolding db(1,2)
    by (cases op) (auto simp: update_where_cases matches_def started_record_def stale_record_def result_record_def
        owned_record_def split: option.splits if_splits)
qed

section \<open>The discipline of a worker\<close>

text \<open>
  In whatever database and with whatever answers: a worker's writes are legal, and it completes
  only with a token a claim of its own returned.
\<close>

definition claimed :: "hist \<Rightarrow> row_key \<Rightarrow> int \<Rightarrow> bool" where
  "claimed h k t \<longleftrightarrow> (\<exists>c. (c, Changed True) \<in> set h \<and> claims c k t)"

definition fenced :: "hist \<Rightarrow> statement \<Rightarrow> bool" where
  "fenced h op \<longleftrightarrow> legal op \<and>
     (case op of UpdateResult k status rid meta now (Some t) \<Rightarrow> claimed h k t | _ \<Rightarrow> True)"

abbreviation any_reply :: "hist \<Rightarrow> statement \<Rightarrow> reply \<Rightarrow> bool" where
  "any_reply h op r \<equiv> True"

lemma fenced_harmless: "harmless op \<Longrightarrow> fenced h op"
  by (cases op) (auto simp: fenced_def)

lemmas wp_fenced_quiet = wp_quiet [where ok = fenced, OF _ fenced_harmless]

lemma wp_fenced_quiet_code:
  "quiet p \<Longrightarrow> (\<And>h' x. quietly h h' \<Longrightarrow> Q h' x) \<Longrightarrow> wp any_reply fenced p h Q"
  by (intro wp_fenced_quiet)

lemma claimed_quietly: "claimed h k t \<Longrightarrow> quietly h h' \<Longrightarrow> claimed h' k t"
  by (auto simp: claimed_def quietly_def)

lemma claimed_snoc: "claimed h k t \<Longrightarrow> claimed (h @ [e]) k t"
  by (auto simp: claimed_def)

lemma token_after: "t < next_idempotency_token now (Some t) least"
  by (auto simp: next_idempotency_token_def split: option.splits)

lemma the_change_True: "the_change r = Some True \<longleftrightarrow> r = Changed True"
  by (cases r) auto

text \<open>A claim: what is known when an operation returns a token.\<close>

definition token_claimed :: "row_key \<Rightarrow> hist \<Rightarrow> store_error + int option \<Rightarrow> bool" where
  "token_claimed k h r \<longleftrightarrow> (\<forall>t. r = Inr (Some t) \<longrightarrow> claimed h k t)"

lemma fenced_mark_stale:
  assumes "\<And>h' r. Q h' r"
  shows "wp any_reply fenced (mark_idempotency_record_stale P T k r meta) h Q"
proof -
  have "fenced h' (UpdateStale k column (next_idempotency_token t (Some u) None) u)" for h' column t u
    by (simp add: fenced_def token_after)
  then show ?thesis
    unfolding mark_idempotency_record_stale_def Let_def
    by (auto simp: wp_sbind wp_ask utc_now_def fenced_harmless assms split: sum.splits option.splits)
qed

lemma fenced_handle_existing:
  assumes "\<And>h' r. Q h' r"
  shows "wp any_reply fenced (handle_existing_idempotency_record P T I k r meta limit) h Q"
proof -
  have q: "wp any_reply fenced p h' R" if "quiet p" "\<And>h' x. R h' x" for p h' R
    using that by (intro wp_fenced_quiet)
  show ?thesis
    unfolding handle_existing_idempotency_record_def Let_def
    by (auto simp: wp_sbind assms split: sum.splits
        intro!: q quiet_records quiet_reads fenced_mark_stale)
qed

lemma fenced_try_begin:
  assumes "\<And>h' r. token_claimed (ei_idempotency_key I, key) h' r \<Longrightarrow> Q h' r"
  shows "wp any_reply fenced (try_begin_with_token P T I key meta limit own_time) h Q"
proof -
  let ?k = "(ei_idempotency_key I, key)"
  have fail: "Q h' (Inl e)" and none: "Q h' (Inr None)" for h' e
    using assms by (simp_all add: token_claimed_def)
  have some: "Q h' (Inr (Some t))" if "claimed h' ?k t" for h' t
    using assms that by (simp add: token_claimed_def)
  have base: "claimed (h @ [e, (InsertStarted ?k I column now, Changed True)]) ?k now" for e column now
    by (auto simp: claimed_def)
  show ?thesis
    unfolding try_begin_with_token_def Let_def utc_now_def get_idempotency_record_def
    by (auto simp: wp_sbind wp_ask fail none fenced_def the_change_True
        intro!: fenced_handle_existing wp_fenced_quiet_code quiet_records split: sum.splits option.splits)
      (blast intro: some claimed_quietly base)
qed

lemma fenced_try_reclaim:
  assumes "\<And>h' r. token_claimed (ei_idempotency_key I, key) h' r \<Longrightarrow> Q h' r"
  shows "wp any_reply fenced (try_reclaim_with_token P T I key status (Some e) own_time) h Q"
proof -
  let ?k = "(ei_idempotency_key I, key)"
  have fail: "Q h' (Inl e)" and none: "Q h' (Inr None)" for h' e
    using assms by (simp_all add: token_claimed_def)
  have some: "Q h' (Inr (Some t))" if "claimed h' ?k t" for h' t
    using assms that by (simp add: token_claimed_def)
  have legal: "fenced h' (UpdateOwner ?k I status (Some e) (next_idempotency_token t (Some e) own_time))" for h' t
    by (simp add: fenced_def token_after)
  have base: "claimed (h @ [e', (UpdateOwner ?k I status (Some e) now, Changed True)]) ?k now" for e' now
    by (auto simp: claimed_def)
  show ?thesis
    unfolding try_reclaim_with_token_def Let_def utc_now_def
    by (auto simp: wp_sbind wp_ask fail none legal fenced_harmless the_change_True
        intro!: wp_fenced_quiet_code quiet_records split: sum.splits option.splits)
      (blast intro: some claimed_quietly base)
qed

lemma fenced_complete:
  assumes "claimed h (ei_idempotency_key I, key) t" and "\<And>h' r. Q h' r"
  shows "wp any_reply fenced (complete_idempotent_side_effect P I key status rid meta (Some t)) h Q"
proof -
  let ?k = "(ei_idempotency_key I, key)"
  have ok: "fenced h' (UpdateResult ?k status rid column (next_idempotency_token now (Some t) None) (Some t))"
    if "quietly h h'" for h' column now
    using claimed_quietly [OF assms(1) that] by (simp add: fenced_def token_after)
  have q: "quietly h (h @ [(SelectRecord ?k, r), (UtcNow, r')])" for r r'
    by (simp add: quietly_def)
  have tail: "wp any_reply fenced (sbind (record_side_effect_complete P I key status rid m) (\<lambda>_. lift (Inr x))) h' Q"
    for m x h'
    by (auto simp: wp_sbind intro!: wp_fenced_quiet quiet_records assms(2) split: sum.splits)
  show ?thesis
    unfolding complete_idempotent_side_effect_def Let_def utc_now_def get_idempotency_record_def
    by (auto simp: wp_sbind [where p = "ask op sel" for op sel] wp_sbind [where p = "Return r" for r] wp_ask
        assms(2) tail ok [OF q] fenced_harmless split: sum.splits option.splits)
qed

section \<open>The invoker\<close>

lemma fenced_complete_fail_open:
  assumes "\<And>t. token = Some t \<Longrightarrow> claimed h (ei_idempotency_key claim, iv_side_effect_key c) t"
    and "\<And>h' r. Q h' r"
  shows "wp any_reply fenced (complete_fail_open P c claim status rid meta token s) h Q"
  using assms
  by (auto simp: complete_fail_open_def wp_itry wp_ilift intro!: fenced_complete split: option.splits sum.splits)

lemma fenced_execute_claimed:
  assumes "\<And>t. token = Some t \<Longrightarrow> claimed h (ei_idempotency_key claim, iv_side_effect_key c) t"
    and "\<And>h' r. Q h' r"
  shows "wp any_reply fenced (execute_claimed P T c identity claim task op_hash token s) h Q"
proof -
  let ?k = "(ei_idempotency_key claim, iv_side_effect_key c)"
  have ext: "wp any_reply fenced (complete_fail_open P c claim status rid meta token s') h' R"
    if "h' = h @ e" "\<And>h' r. R h' r" for h' e R status rid meta s'
    using assms(1) that by (intro fenced_complete_fail_open) (auto simp: claimed_def)
  show ?thesis
    unfolding execute_claimed_def Let_def call_provider_def call_result_def
    by (auto simp: wp_rules wp_ask fenced_def assms(2) split: sum.splits option.splits intro!: ext)
qed

lemma fenced_reclaim_or_lose:
  assumes "\<And>h' s' r. (\<forall>t. r = Inr t \<longrightarrow> claimed h' (ei_idempotency_key claim, iv_side_effect_key c) t) \<Longrightarrow> Q h' (s', r)"
  shows "wp any_reply fenced (reclaim_or_lose P T c claim r s) h Q"
  unfolding reclaim_or_lose_def
  by (auto simp: wp_rules wp_ask fenced_harmless assms token_claimed_def split: sum.splits option.splits intro!: fenced_try_reclaim)

lemma fenced_recover:
  assumes "\<And>h' r. Q h' r"
  shows "wp any_reply fenced (recover_lost_begin P T c identity claim task op_hash s) h Q"
proof -
  have take: "wp any_reply fenced (ibind (reclaim_or_lose P T c claim r) (\<lambda>t.
      execute_claimed P T c identity claim task op_hash (Some t)) s') h' Q" for r s' h'
    by (auto simp: wp_ibind intro!: fenced_reclaim_or_lose fenced_execute_claimed assms split: sum.splits)
  have exec: "wp any_reply fenced (execute_claimed P T c identity claim task op_hash None s') h' Q" for s' h'
    by (intro fenced_execute_claimed assms) simp
  show ?thesis
    unfolding recover_lost_begin_def Let_def get_idempotency_record_def
    by (auto simp: wp_itry wp_ilift wp_ask fenced_harmless exec take assms wp_ibind [where p = "check_memo P T c task claim"]
        wp_ibind [where p = "started_record_is_stale c r" for r] split: sum.splits option.splits
        intro!: wp_fenced_quiet_code quiet_check_memo quiet_started_record_is_stale)
qed

lemma fenced_unprotected:
  assumes "\<And>h' r. Q h' r"
  shows "wp any_reply fenced (execute_unprotected reason s) h Q"
  unfolding execute_unprotected_def call_provider_def
  by (auto simp: wp_rules wp_ask fenced_def assms split: sum.splits option.splits)

lemma fenced_protected_call:
  assumes "\<And>h' r. Q h' r"
  shows "wp any_reply fenced (protected_call P T c identity s) h Q"
proof -
  have unprotected: "wp any_reply fenced (execute_unprotected reason s') h' Q" for reason s' h'
    by (intro fenced_unprotected assms)
  have claimed_call: "wp any_reply fenced (execute_claimed P T c identity claim task op_hash (Some t) s') h' Q"
    if "claimed h' (ei_idempotency_key claim, iv_side_effect_key c) t" for claim task op_hash t s' h'
    using that by (intro fenced_execute_claimed assms) simp
  have recover: "wp any_reply fenced (recover_lost_begin P T c identity claim task op_hash s') h' Q"
    for claim task op_hash s' h'
    by (intro fenced_recover assms)
  show ?thesis
    unfolding protected_call_def Let_def
    by (auto simp: wp_rules wp_ask fenced_harmless assms unprotected recover claimed_call token_claimed_def
        split: sum.splits option.splits
        intro!: wp_fenced_quiet_code [OF quiet_check_memo] fenced_try_begin)
qed

lemma fenced_durable_call: "wp any_reply fenced (durable_call P T c s) h (\<lambda>_ _. True)"
  unfolding durable_call_def
  by (auto intro!: fenced_unprotected fenced_protected_call split: sum.splits store_error.splits)

section \<open>Every execution\<close>

abbreviation workers :: "prims \<Rightarrow> text_io \<Rightarrow> (nat \<Rightarrow> invoker) \<Rightarrow> nat \<Rightarrow>
    (invoker_state \<times> (store_error + evidence_receipt)) prog" where
  "workers P T cs \<equiv> \<lambda>i. durable_call P T (cs i) initial_state"

fun did :: "event \<Rightarrow> statement \<times> reply" where
  "did (Did i op r) = (op, r)"

lemma exec_fenced:
  assumes "exec (workers P T cs) db0 tr db W"
  shows "(\<forall>i. wp any_reply fenced (W i) (own i tr) (\<lambda>_ _. True)) \<and>
    (\<forall>a i op r b. tr = a @ [Did i op r] @ b \<longrightarrow> fenced (own i a) op) \<and>
    idem_table.evolves (tb_records db0) (map did tr) (tb_records db)"
  using assms
proof (induction rule: exec_induct)
  case start
  then show ?case by (auto intro: fenced_durable_call idem_table.evolves_nil)
next
  case (event tr db W i op k r db')
  from event.IH event.hyps(2) have w: "wp any_reply fenced (Stmt op k) (own i tr) (\<lambda>_ _. True)" by metis
  then have f: "fenced (own i tr) op" by simp
  have "table_change (tb_records db) (op, r) (tb_records db')"
    using f event.hyps(3) by (auto simp: table_change_def fenced_def)
  with event.IH have e: "idem_table.evolves (tb_records db0) (map did (tr @ [Did i op r])) (tb_records db')"
    using idem_table.evolves_snoc by fastforce
  have split: "(tr = a \<and> i = i' \<and> op = op' \<and> r = r' \<and> b = []) \<or> (\<exists>b'. b = b' @ [Did i op r] \<and> tr = a @ [Did i' op' r'] @ b')"
    if "tr @ [Did i op r] = a @ [Did i' op' r'] @ b" for a i' op' r' b
    using that by (cases b rule: rev_cases) auto
  show ?case
  proof (intro conjI allI impI)
    fix j
    show "wp any_reply fenced ((W(i := k r)) j) (own j (tr @ [Did i op r])) (\<lambda>_ _. True)"
      using event.IH w by auto
  next
    fix a i' op' r' b
    assume "tr @ [Did i op r] = a @ [Did i' op' r'] @ b"
    from split [OF this] event.IH f show "fenced (own i' a) op'" by blast
  qed (rule e)
next
  case (others tr db W rs)
  then show ?case by simp
qed

lemmas exec_allowed = exec_fenced [THEN conjunct2, THEN conjunct1, rule_format]
lemmas exec_evolves = exec_fenced [THEN conjunct2, THEN conjunct2]

lemma own_claim_split:
  assumes "claimed (own i tr) k t"
  obtains a c b where "tr = a @ [Did i c (Changed True)] @ b" and "claims c k t"
proof -
  from assms obtain c where c: "claims c k t" "Did i c (Changed True) \<in> set tr"
    by (auto simp: claimed_def own_member)
  then show ?thesis using that split_list [of "Did i c (Changed True)" tr] by auto
qed

end
