(* ===== verification/IdentitySpec.thy ===== *)
theory IdentitySpec
  imports Identity
begin

text \<open>
  Facts about execution identities: the round trip through metadata, and which fields the conflict
  check of the identity table protects over a sequence of recordings.
\<close>

section \<open>Fields\<close>

lemma u_eq [simp]: "u s = u t \<longleftrightarrow> s = t"
  unfolding u_def by (rule inj_map_eq_map) (simp add: inj_def)

lemma u_nonempty [simp]: "u s = [] \<longleftrightarrow> s = []"
  by (simp add: u_def)

lemma keys_identity_items: "keys (identity_items I) = IDENTITY_FIELDS"
  by (simp add: identity_items_def IDENTITY_FIELDS_def)

lemma identity_eqI:
  "identity_items I = identity_items J \<Longrightarrow> ei_metadata I = ei_metadata J \<Longrightarrow> I = (J :: execution_identity)"
  by (simp add: identity_items_def)

lemma identity_field_of: "k \<in> set IDENTITY_FIELDS \<Longrightarrow> identity_field (identity_of f m) k = f k"
  by (auto simp: identity_field_def identity_items_def IDENTITY_FIELDS_def identity_of_def dget_def)

lemma metadata_identity_of [simp]: "ei_metadata (identity_of f m) = m"
  by (simp add: identity_of_def)

lemma identity_of_cong: "(\<And>k. k \<in> set IDENTITY_FIELDS \<Longrightarrow> f k = g k) \<Longrightarrow> identity_of f m = identity_of g m"
  by (simp add: identity_of_def IDENTITY_FIELDS_def)

lemma run_id_field: "ei_run_id I = identity_field I (u ''run_id'')"
  by (simp add: identity_field_def identity_items_def dget_def u_def)

lemma identity_dict_field:
  "k \<in> set IDENTITY_FIELDS \<Longrightarrow> vget (identity_dict I) k = PStr (identity_field I k)"
  by (auto simp: vget_def identity_dict_def identity_field_def identity_items_def IDENTITY_FIELDS_def dget_def u_def)

lemma identity_dict_metadata:
  "vget (identity_dict I) (u ''metadata'') = asdict_val (PDict (ei_metadata I))"
  by (simp add: vget_def identity_dict_def identity_items_def dget_def u_def)

lemma required_are_fields: "k \<in> set REQUIRED_FIELDS \<Longrightarrow> k \<in> set IDENTITY_FIELDS"
  by (auto simp: REQUIRED_FIELDS_def IDENTITY_FIELDS_def)

lemma conflict_are_fields: "k \<in> set EXECUTION_IDENTITY_CONFLICT_FIELDS \<Longrightarrow> k \<in> set IDENTITY_FIELDS"
  by (auto simp: EXECUTION_IDENTITY_CONFLICT_FIELDS_def IDENTITY_FIELDS_def)

lemma strip_nil [simp]: "strip [] = []"
  by (simp add: strip_def)

lemma clean_str [simp]: "clean P (PStr s) = strip s"
  by (simp add: clean_def)

lemma last_dropWhile: "dropWhile Q xs \<noteq> [] \<Longrightarrow> last (dropWhile Q xs) = last xs"
  by (induction xs) auto

lemma hd_space: "dropWhile py_space s \<noteq> [] \<Longrightarrow> \<not> py_space (hd (dropWhile py_space s))"
  by (induction s) auto

lemma strip_idem [simp]: "strip (strip s) = strip s"
proof -
  let ?a = "dropWhile py_space s" and ?b = "dropWhile py_space (rev (dropWhile py_space s))"
  have "dropWhile py_space (rev ?b) = rev ?b"
  proof (cases "?b = []")
    case True
    show ?thesis unfolding True by simp
  next
    case False
    then have "hd (rev ?b) = hd ?a"
      by (metis dropWhile.simps(1) hd_rev last_dropWhile last_rev rev_is_Nil_conv)
    moreover have "?a \<noteq> []"
    proof
      assume "?a = []"
      then have "?b = []" by (simp only: rev.simps dropWhile.simps)
      with False show False ..
    qed
    ultimately show ?thesis unfolding dropWhile_eq_self_iff using hd_space [of s] by metis
  qed
  then show ?thesis by (simp add: strip_def)
qed

section \<open>Round trip\<close>

lemma new_identity_clean:
  assumes "\<And>k. k \<in> set IDENTITY_FIELDS \<Longrightarrow> strip (arg k) = f k"
    and "\<And>k. k \<in> set REQUIRED_FIELDS \<Longrightarrow> f k \<noteq> []"
  shows "new_identity ids arg m = Inr (identity_of f m)"
proof -
  have full: "or_str (strip (arg k)) d = f k" if "k \<in> set REQUIRED_FIELDS" for k d
    using assms(1) [OF required_are_fields [OF that]] assms(2) [OF that] by (simp add: or_str_def)
  have "strip (arg (u ''task_id'')) \<noteq> []"
    using assms(1) [of "u ''task_id''"] assms(2) [of "u ''task_id''"]
    by (simp add: REQUIRED_FIELDS_def IDENTITY_FIELDS_def)
  moreover have "(if k = u ''trace_id'' then or_str (strip (arg (u ''trace_id''))) (ids (u ''trace''))
      else if k = u ''correlation_id'' then or_str (strip (arg (u ''correlation_id''))) d
      else if k = u ''run_id'' then or_str (strip (arg (u ''run_id''))) (ids (u ''run''))
      else if k = u ''claim_id'' then or_str (strip (arg (u ''claim_id''))) (ids (u ''claim''))
      else if k = u ''idempotency_key'' then or_str (strip (arg (u ''idempotency_key''))) d'
      else strip (arg k)) = f k" if "k \<in> set IDENTITY_FIELDS" for k d d'
    using assms(1) [OF that] full by (simp add: REQUIRED_FIELDS_def)
  ultimately show ?thesis
    unfolding new_identity_def Let_def by (auto intro!: identity_of_cong)
qed

text \<open>
  A complete identity without surrounding blanks in its fields is what \<open>from_metadata\<close> reads
  from the metadata \<open>to_metadata\<close> makes, whatever defaults and fresh ids are on offer.
\<close>

theorem identity_round_trip:
  assumes "require_for_dispatch I = Inr I"
    and "\<forall>k \<in> set IDENTITY_FIELDS. strip (identity_field I k) = identity_field I k"
    and "asdict_val (PDict (ei_metadata I)) = PDict (ei_metadata I)"
  shows "from_metadata P ids (to_metadata I) task agent session req =
      Inr (Some (I\<lparr>ei_agent_id := or_str (ei_agent_id I) (strip agent),
        ei_session_id := or_str (ei_session_id I) (strip session)\<rparr>))"
proof -
  have nested: "nested_identity (to_metadata I) = identity_dict I"
    by (simp add: nested_identity_def to_metadata_def vget_def dget_def)
  let ?c = "\<lambda>k. clean P (vget (identity_dict I) k)"
  have c: "?c k = identity_field I k" if "k \<in> set IDENTITY_FIELDS" for k
    using bspec [OF assms(2) that] that by (simp add: identity_dict_field)
  have full: "identity_field I k \<noteq> []" if "k \<in> set REQUIRED_FIELDS" for k
    using assms(1) that by (auto simp: require_for_dispatch_def split: if_splits)
  have req: "?c k = identity_field I k" "identity_field I k \<noteq> []" "strip (identity_field I k) = identity_field I k"
    if "k \<in> set REQUIRED_FIELDS" for k
    using c [OF required_are_fields [OF that]] full [OF that] bspec [OF assms(2) required_are_fields [OF that]] by simp_all
  have task: "u ''task_id'' \<in> set REQUIRED_FIELDS" by (simp add: REQUIRED_FIELDS_def)
  have meta: "(if py_truthy (vget (identity_dict I) (u ''metadata''))
      then raised (py_dict (vget (identity_dict I) (u ''metadata''))) else Inr []) = Inr (ei_metadata I)"
    unfolding identity_dict_metadata assms(3) by simp
  let ?arg = "\<lambda>k. if k = u ''task_id'' then identity_field I (u ''task_id'')
    else if k = u ''agent_id'' then or_str (?c k) (strip agent)
    else if k = u ''session_id'' then or_str (?c k) (strip session) else ?c k"
  have task': "or_str (?c (u ''task_id'')) (strip task) = identity_field I (u ''task_id'')"
    using req [OF task] by (simp add: or_str_def)
  let ?f = "\<lambda>k. if k = u ''agent_id'' then or_str (identity_field I k) (strip agent)
    else if k = u ''session_id'' then or_str (identity_field I k) (strip session) else identity_field I k"
  have "new_identity ids ?arg (ei_metadata I) = Inr (identity_of ?f (ei_metadata I))"
  proof (rule new_identity_clean)
    fix k assume k: "k \<in> set IDENTITY_FIELDS"
    show "strip (?arg k) = ?f k"
      using bspec [OF assms(2) k] c [OF k] by (auto simp: or_str_def)
  next
    fix k assume k: "k \<in> set REQUIRED_FIELDS"
    then have "k \<noteq> u ''agent_id''" "k \<noteq> u ''session_id''" by (auto simp: REQUIRED_FIELDS_def)
    then show "?f k \<noteq> []" using req(2) [OF k] by simp
  qed
  also have "\<dots> = Inr (I\<lparr>ei_agent_id := or_str (ei_agent_id I) (strip agent),
        ei_session_id := or_str (ei_session_id I) (strip session)\<rparr>)"
    by (simp add: identity_of_def identity_field_def identity_items_def dget_def u_def)
  finally have new: "new_identity ids ?arg (ei_metadata I) = Inr (I\<lparr>ei_agent_id := or_str (ei_agent_id I) (strip agent),
        ei_session_id := or_str (ei_session_id I) (strip session)\<rparr>)" .
  have present: "\<not> (\<exists>k \<in> set REQUIRED_FIELDS. k \<noteq> u ''task_id'' \<and> ?c k = [])" using req by auto
  show ?thesis
    unfolding from_metadata_def Let_def nested task' meta
    using req(2) [OF task] present new by simp
qed

section \<open>The table\<close>

definition record_identities ::
    "prims \<Rightarrow> identity_table \<Rightarrow> (execution_identity \<times> (pyval \<times> pyval) list) list \<Rightarrow> identity_table" where
  "record_identities P tab xs = foldl (\<lambda>t (I, m).
     case record_execution_identity P t I m of Inl _ \<Rightarrow> t | Inr (_, t') \<Rightarrow> t') tab xs"

text \<open>The fields a recorded identity never loses: the required ones and those the upsert keeps.\<close>

definition PROTECTED_FIELDS :: "pystr list" where
  "PROTECTED_FIELDS = REQUIRED_FIELDS @ KEPT_FIELDS"

lemma protected_fields:
  "k \<in> set PROTECTED_FIELDS \<Longrightarrow> k \<in> set IDENTITY_FIELDS"
  "k \<in> set PROTECTED_FIELDS \<Longrightarrow> k \<noteq> u ''run_id'' \<Longrightarrow> k \<in> set EXECUTION_IDENTITY_CONFLICT_FIELDS"
  by (auto simp: PROTECTED_FIELDS_def REQUIRED_FIELDS_def KEPT_FIELDS_def IDENTITY_FIELDS_def
      EXECUTION_IDENTITY_CONFLICT_FIELDS_def)

lemma required_nonempty:
  "require_for_dispatch I = Inr J \<Longrightarrow> k \<in> set REQUIRED_FIELDS \<Longrightarrow> identity_field I k \<noteq> []"
  by (auto simp: require_for_dispatch_def split: if_splits)

lemma upsert_keeps:
  assumes "require_for_dispatch I = Inr J" and "execution_identity_conflicts (Some e) I = []"
    and "ei_run_id I = ei_run_id e"
    and "k \<in> set PROTECTED_FIELDS" and "identity_field e k \<noteq> []"
  shows "identity_field (identity_upsert (Some e) I m) k = identity_field e k"
proof -
  have agree: "identity_field I k = [] \<or> identity_field I k = identity_field e k"
  proof (cases "k = u ''run_id''")
    case True
    then show ?thesis using assms(3) by (simp add: run_id_field)
  next
    case False
    then show ?thesis
      using assms(2,5) protected_fields(2) [OF assms(4)]
      by (auto simp: execution_identity_conflicts_def filter_empty_conv)
  qed
  moreover have "k \<in> set KEPT_FIELDS" if "identity_field I k = []"
    using assms(4) required_nonempty [OF assms(1)] that by (auto simp: PROTECTED_FIELDS_def)
  ultimately show ?thesis
    using protected_fields(1) [OF assms(4)]
    by (auto simp: identity_upsert_def identity_field_of)
qed

lemma record_keeps:
  assumes "record_execution_identity P tab I m = Inr (row, tab')"
    and "map_of tab r = Some e" and "ei_run_id e = r"
    and "k \<in> set PROTECTED_FIELDS" and "identity_field e k \<noteq> []"
  obtains e' where "map_of tab' r = Some e'" and "ei_run_id e' = r" and "identity_field e' k = identity_field e k"
proof (cases "ei_run_id I = r")
  case True
  obtain J d where J: "require_for_dispatch I = Inr J" and no: "execution_identity_conflicts (Some e) I = []"
    and d: "row = identity_upsert (Some e) I d" "tab' = dset r row tab"
    using assms(1,2) True by (auto simp: record_execution_identity_def Let_def ebind_Inr_iff)
  have run: "u ''run_id'' \<in> set PROTECTED_FIELDS" by (simp add: PROTECTED_FIELDS_def REQUIRED_FIELDS_def)
  have "identity_field e (u ''run_id'') \<noteq> []"
    using required_nonempty [OF J, of "u ''run_id''"] True assms(3)
    by (simp add: REQUIRED_FIELDS_def flip: run_id_field)
  then have "ei_run_id row = r"
    using upsert_keeps [OF J no _ run] True assms(3) d(1) by (simp add: run_id_field)
  moreover have "identity_field row k = identity_field e k"
    using upsert_keeps [OF J no _ assms(4,5)] True assms(3) d(1) by simp
  ultimately show ?thesis using that d(2) by simp
next
  case False
  then show ?thesis
    using that assms by (auto simp: record_execution_identity_def Let_def ebind_Inr_iff)
qed

text \<open>
  C9: Once recorded, a required field or an external id of a run keeps its value over every later
  sequence of recordings, conflicting ones included.
\<close>

theorem identity_fields_stay:
  assumes "map_of tab r = Some e" and "ei_run_id e = r"
    and "k \<in> set PROTECTED_FIELDS" and "identity_field e k \<noteq> []"
  shows "\<exists>e'. map_of (record_identities P tab xs) r = Some e' \<and> identity_field e' k = identity_field e k"
proof -
  have "\<exists>e'. map_of (record_identities P tab xs) r = Some e' \<and> ei_run_id e' = r \<and>
      identity_field e' k = identity_field e k"
  proof (induction xs rule: rev_induct)
    case (snoc x xs)
    obtain I m where x: "x = (I, m)" by (cases x)
    let ?t = "record_identities P tab xs"
    from snoc obtain e' where e': "map_of ?t r = Some e'" "ei_run_id e' = r" "identity_field e' k = identity_field e k"
      by blast
    show ?case
    proof (cases "record_execution_identity P ?t I m")
      case (Inl err)
      then show ?thesis using e' by (simp add: record_identities_def x)
    next
      case (Inr p)
      obtain row t' where p: "p = (row, t')" by (cases p)
      have "record_execution_identity P ?t I m = Inr (row, t')" using Inr p by simp
      from record_keeps [OF this e'(1,2) assms(3)] e'(3) assms(4)
      obtain e2 where "map_of t' r = Some e2" "ei_run_id e2 = r" "identity_field e2 k = identity_field e' k"
        by metis
      then show ?thesis using e'(3) Inr p by (simp add: record_identities_def x)
    qed
  qed (use assms in \<open>simp add: record_identities_def\<close>)
  then show ?thesis by blast
qed

text \<open>
  The agent of a run is not among these fields: recording the identity once without an agent
  erases it, and a recording with another agent then meets no conflict.
\<close>

definition demo_identity :: "string \<Rightarrow> execution_identity" where
  "demo_identity agent = identity_of (\<lambda>k. if k = u ''agent_id'' then u agent
     else if k \<in> set REQUIRED_FIELDS then u ''x'' else []) []"

lemma empty_agent_bypasses_conflict:
  "record_execution_identity demo_prims [(u ''x'', demo_identity ''a'')] (demo_identity ''b'') [] =
     Inl (Raised (ValueError (u ''execution identity conflict'')))"
  "map_of (record_identities demo_prims [(u ''x'', demo_identity ''a'')] [(demo_identity [], []), (demo_identity ''b'', [])])
     (u ''x'') = Some (demo_identity ''b'')"
proof -
  have x: "strip (u ''x'') = u ''x''" by (simp add: strip_def py_space_def u_def)
  have f: "identity_field (demo_identity s) k = (if k = u ''agent_id'' then u s
      else if k \<in> set REQUIRED_FIELDS then u ''x'' else [])" if "k \<in> set IDENTITY_FIELDS" for s k
    using that by (simp add: demo_identity_def identity_field_of)
  have req: "require_for_dispatch (demo_identity s) = Inr (demo_identity s)" for s
    by (simp add: require_for_dispatch_def REQUIRED_FIELDS_def f IDENTITY_FIELDS_def x)
  have c: "execution_identity_conflicts (Some (demo_identity s)) (demo_identity t) =
      (if s \<noteq> [] \<and> t \<noteq> [] \<and> s \<noteq> t then [u ''agent_id''] else [])" for s t
    by (simp add: execution_identity_conflicts_def EXECUTION_IDENTITY_CONFLICT_FIELDS_def f IDENTITY_FIELDS_def
        REQUIRED_FIELDS_def)
  have up: "identity_upsert (Some (demo_identity s)) (demo_identity t) [] = demo_identity t" for s t
    unfolding identity_upsert_def option.case
  proof (subst (3) demo_identity_def, rule identity_of_cong)
    fix k assume k: "k \<in> set IDENTITY_FIELDS"
    show "(if k \<in> set KEPT_FIELDS \<and> identity_field (demo_identity t) k = [] then identity_field (demo_identity s) k
        else identity_field (demo_identity t) k) =
      (if k = u ''agent_id'' then u t else if k \<in> set REQUIRED_FIELDS then u ''x'' else [])"
      unfolding f [OF k] by (auto simp: KEPT_FIELDS_def)
  qed
  have run: "ei_run_id (demo_identity s) = u ''x''" "ei_metadata (demo_identity s) = []" for s
    by (simp_all add: demo_identity_def run_id_field identity_field_of IDENTITY_FIELDS_def REQUIRED_FIELDS_def)
  note step = record_execution_identity_def Let_def req c up run sort_items_def dmerge_def
  show "record_execution_identity demo_prims [(u ''x'', demo_identity ''a'')] (demo_identity ''b'') [] =
     Inl (Raised (ValueError (u ''execution identity conflict'')))"
    by (simp add: step)
  show "map_of (record_identities demo_prims [(u ''x'', demo_identity ''a'')] [(demo_identity [], []), (demo_identity ''b'', [])])
     (u ''x'') = Some (demo_identity ''b'')"
    by (simp add: step record_identities_def)
qed

theorem identity_fields_stay_witness:
  "\<exists>e. map_of (record_identities demo_prims [(u ''x'', demo_identity ''a'')] [(demo_identity ''b'', [])]) (u ''x'') = Some e \<and>
     identity_field e (u ''task_id'') = u ''x''"
proof -
  let ?e = "demo_identity ''a''"
  have f: "identity_field ?e k = u ''x''" if "k \<in> set REQUIRED_FIELDS" for k
    using that required_are_fields [OF that] by (auto simp: demo_identity_def identity_field_of REQUIRED_FIELDS_def)
  have k: "u ''task_id'' \<in> set REQUIRED_FIELDS" "u ''run_id'' \<in> set REQUIRED_FIELDS" by (simp_all add: REQUIRED_FIELDS_def)
  have "map_of [(u ''x'', ?e)] (u ''x'') = Some ?e" "ei_run_id ?e = u ''x''" using f [OF k(2)] by (simp_all add: run_id_field)
  from identity_fields_stay [OF this, of "u ''task_id''" demo_prims "[(demo_identity ''b'', [])]"] k(1) f [OF k(1)]
  show ?thesis by (simp add: PROTECTED_FIELDS_def)
qed

end
