(* ===== verification/Memo.thy ===== *)
theory Memo
  imports Fencing IdentitySpec
begin

text \<open>
  What a completed row holds: the columns after a JSON round trip, and when the memo in a row can
  be replayed to a dispatch.
\<close>

section \<open>Columns\<close>

text \<open>Metadata as the code builds them: distinct string keys.\<close>

definition named :: "(pyval \<times> pyval) list \<Rightarrow> bool" where
  "named d \<longleftrightarrow> list_all (is_str \<circ> fst) d \<and> distinct (map fst d)"

lemma shaped_keys: "list_all2 (shaped P) xs ys \<Longrightarrow> map fst ys = map fst xs"
  by (induction rule: list_all2_induct) (auto simp: shaped_def)

lemma shaped_lookup:
  "list_all2 (shaped P) xs ys \<Longrightarrow>
     (case map_of xs k of None \<Rightarrow> map_of ys k = None
      | Some v \<Rightarrow> \<exists>w. map_of ys k = Some w \<and> json_shape P v = Inr w)"
  by (induction rule: list_all2_induct) (auto simp: shaped_def split: option.splits)

lemma distinct_sort_str: "distinct (map fst (sort_str d)) \<longleftrightarrow> distinct (map fst d)"
  by (metis (no_types, lifting) mset_eq_imp_distinct_iff mset_map mset_sort)

lemma map_of_sort_str: "distinct (map fst d) \<Longrightarrow> map_of (sort_str d) = map_of d"
  by (rule map_of_eq_of_mset) (simp_all add: wf_dict_def distinct_sort_str)

lemma shape_dict_lookup:
  assumes "named d" and "json_shape P (PDict d) = Inr w"
  obtains e where "w = PDict e" and "named e"
    and "\<And>k v. map_of d k = Some v \<Longrightarrow> \<exists>x. map_of e k = Some x \<and> json_shape P v = Inr x"
    and "\<And>k. map_of d k = None \<Longrightarrow> map_of e k = None"
proof -
  obtain e where e: "w = PDict e" "list_all2 (shaped P) (sort_str d) e"
    using assms json_shape_dict [of d P w] by (auto simp: named_def)
  have m: "map_of (sort_str d) = map_of d" using assms(1) by (intro map_of_sort_str) (simp add: named_def)
  have "distinct (map fst (sort_str d))"
    using assms(1) by (simp add: named_def distinct_sort_str)
  then have "distinct (map fst e)" using shaped_keys [OF e(2)] by simp
  moreover have "list_all (is_str \<circ> fst) e"
  proof -
    have "list_all is_str (map fst e)" unfolding shaped_keys [OF e(2)]
      using assms(1) by (simp add: named_def list_all_iff)
    then show ?thesis by (simp add: list_all_iff)
  qed
  ultimately have "named e" by (simp add: named_def)
  have look: "case map_of d k of None \<Rightarrow> map_of e k = None | Some v \<Rightarrow> \<exists>x. map_of e k = Some x \<and> json_shape P v = Inr x"
    for k using shaped_lookup [OF e(2), of k] by (simp only: m)
  show ?thesis
  proof (rule that [OF e(1) \<open>named e\<close>])
    show "\<exists>x. map_of e k = Some x \<and> json_shape P v = Inr x" if "map_of d k = Some v" for k v
      using look [of k] that by simp
    show "map_of e k = None" if "map_of d k = None" for k using look [of k] that by simp
  qed
qed

lemma shape_str: "is_str v \<Longrightarrow> json_shape P v = Inr v"
  by (cases v) (auto simp: is_str_def)

lemma shape_strings: "list_all (\<lambda>(k, v). is_str k \<and> is_str v) d \<Longrightarrow> distinct (map fst d) \<Longrightarrow>
    is_ok (json_shape P (PDict d))"
proof -
  assume s: "list_all (\<lambda>(k, v). is_str k \<and> is_str v) d" and d: "distinct (map fst d)"
  have "list_all2 (shaped P) (sort_str d) (sort_str d)"
  proof (rule list_all2_all_nthI)
    fix n assume "n < length (sort_str d)"
    then have "sort_str d ! n \<in> set d" by (metis nth_mem set_sort)
    with s show "shaped P (sort_str d ! n) (sort_str d ! n)"
      by (auto simp: list_all_iff shaped_def shape_str case_prod_unfold)
  qed simp
  moreover have "list_all (is_str \<circ> fst) d" using s by (auto simp: list_all_iff)
  ultimately show ?thesis unfolding is_ok_iff using json_shape_dict [OF _ d, of P] by blast
qed

text \<open>A dictionary with a string key among several is JSON only when all its keys are strings.\<close>

lemma shape_string_keys:
  assumes "is_ok (json_shape P (PDict d))" and "2 \<le> length d" and "(PStr s, v) \<in> set d"
  shows "list_all (is_str \<circ> fst) d"
proof (rule ccontr)
  assume n: "\<not> list_all (is_str \<circ> fst) d"
  let ?kvs = "map (\<lambda>(k, v). (k, json_shape P v)) d"
  have "\<not> list_all (\<lambda>(k, _). is_str k) ?kvs" using n by (simp add: list.pred_map comp_def case_prod_unfold)
  moreover have "\<not> list_all (\<lambda>(k, _). num_val k \<noteq> None) ?kvs" using assms(3) by (force simp: list_all_iff)
  ultimately have "\<not> is_ok (sort_items ?kvs)" using assms(2) by (simp add: sort_items_def)
  then show False using assms(1) by (auto simp: is_ok_iff ebind_Inr_iff)
qed

lemma dumped_column_Inr: "dumped_column P d = Inr c \<longleftrightarrow> (\<exists>w. json_shape P (PDict d) = Inr w \<and> c = dict_of_val w)"
  by (cases "json_shape P (PDict d)") (auto simp: dumped_column_def)

lemma dumped_column_lookup:
  assumes "named d" and "dumped_column P d = Inr c"
  shows "named c"
    and "map_of d k = Some v \<Longrightarrow> \<exists>x. map_of c k = Some x \<and> json_shape P v = Inr x"
    and "map_of d k = None \<Longrightarrow> map_of c k = None"
proof -
  obtain w where w: "json_shape P (PDict d) = Inr w" "c = dict_of_val w"
    using assms(2) by (auto simp: dumped_column_Inr)
  from shape_dict_lookup [OF assms(1) w(1)] obtain e where e: "w = PDict e" "named e"
    "\<And>k v. map_of d k = Some v \<Longrightarrow> \<exists>x. map_of e k = Some x \<and> json_shape P v = Inr x"
    "\<And>k. map_of d k = None \<Longrightarrow> map_of e k = None" by blast
  show "named c" using e w by simp
  show "map_of d k = Some v \<Longrightarrow> \<exists>x. map_of c k = Some x \<and> json_shape P v = Inr x" using e(1,3) w by simp
  show "map_of d k = None \<Longrightarrow> map_of c k = None" using e(1,4) w by simp
qed

text \<open>\<open>{**d, **e}\<close>\<close>

lemma map_of_dmerge: "distinct (map fst e) \<Longrightarrow> map_of (dmerge d e) k = (case map_of e k of None \<Rightarrow> map_of d k | Some v \<Rightarrow> Some v)"
proof (induction e arbitrary: d)
  case (Cons p e)
  obtain a b where p: "p = (a, b)" by (cases p)
  have none: "map_of e a = None" using Cons.prems by (simp add: p map_of_eq_None_iff)
  have "map_of (dmerge d (p # e)) k = map_of (dmerge (dset a b d) e) k" by (simp add: dmerge_def p)
  also have "\<dots> = (case map_of e k of None \<Rightarrow> map_of (dset a b d) k | Some v \<Rightarrow> Some v)"
    using Cons by (simp add: p)
  also have "\<dots> = (case map_of (p # e) k of None \<Rightarrow> map_of d k | Some v \<Rightarrow> Some v)"
    using none by (cases "k = a") (simp_all add: p split: option.split)
  finally show ?case .
qed (simp add: dmerge_def)

lemma fst_set_dset: "fst ` set (dset k v d) = insert k (fst ` set d)"
  using arg_cong [OF keys_dset [of k v d], of set] by (auto simp: has_key_def split: if_splits)

lemma keys_dmerge: "fst ` set (dmerge d e) = fst ` set d \<union> fst ` set e"
proof (induction e arbitrary: d)
  case (Cons p e)
  then show ?case by (cases p) (simp add: dmerge_def fst_set_dset)
qed (simp add: dmerge_def)

lemma distinct_dmerge: "distinct (map fst d) \<Longrightarrow> distinct (map fst (dmerge d e))"
  by (induction e arbitrary: d) (auto simp: dmerge_def distinct_update)

lemma named_dmerge: "named d \<Longrightarrow> named e \<Longrightarrow> named (dmerge d e)"
proof -
  assume n: "named d" "named e"
  have "is_str k" if "k \<in> fst ` set (dmerge d e)" for k
    using that n unfolding keys_dmerge by (auto simp: named_def list_all_iff)
  then show ?thesis using n by (auto simp: named_def list_all_iff distinct_dmerge)
qed

section \<open>Replayable rows\<close>

definition memo_ok ::
    "prims \<Rightarrow> text_io \<Rightarrow> pystr \<Rightarrow> pystr \<Rightarrow> pystr \<Rightarrow> pystr \<Rightarrow> (pyval \<times> pyval) list \<Rightarrow> bool" where
  "memo_ok P T ikey key task run meta \<longleftrightarrow> \<not> py_truthy (vget meta (u ''result_omitted_reason'')) \<and>
     (\<exists>blob. vget meta (u ''receipt'') = PDict blob \<and> attr_str P blob (u ''task_id'') = task \<and>
       names_dispatch P run ikey key blob \<and> (\<forall>n t. is_ok (receipt_from_dict T n t blob)))"

definition replayable :: "prims \<Rightarrow> text_io \<Rightarrow> pystr \<Rightarrow> pystr \<Rightarrow> pystr \<Rightarrow> idem_record \<Rightarrow> bool" where
  "replayable P T ikey key task r \<longleftrightarrow> id_status r = u ''completed'' \<and>
     memo_ok P T ikey key task (id_run_id r) (id_metadata r)"

text \<open>A receipt as providers return them: a UUID, times, and attributes with distinct keys.\<close>

definition readable :: "text_io \<Rightarrow> evidence_receipt \<Rightarrow> bool" where
  "readable T r \<longleftrightarrow>
     (\<exists>s. er_receipt_id r = FUuid s \<and> is_ok (validate_uuid s)) \<and>
     (\<exists>t. er_started_at r = FTime t \<and> from_iso T (to_iso T t) \<noteq> None) \<and>
     (er_finished_at r = FVal PNone \<or> (\<exists>t. er_finished_at r = FTime t \<and> from_iso T (to_iso T t) \<noteq> None)) \<and>
     (er_routing_decision_id r = FVal PNone \<or> (\<exists>s. er_routing_decision_id r = FUuid s \<and> is_ok (validate_uuid s))) \<and>
     distinct (map fst (er_attributes r))"

text \<open>The dictionary of a readable receipt.\<close>

definition receipt_entries ::
    "(pystr \<Rightarrow> pyval) \<Rightarrow> pyval \<Rightarrow> pyval \<Rightarrow> pyval \<Rightarrow> pyval \<Rightarrow> pyval \<Rightarrow> (pyval \<times> pyval) list" where
  "receipt_entries f rid started finished routing attrs =
     [(PStr (u ''receipt_id''), rid)] @ map (\<lambda>(k, _). (PStr k, f k)) PLAIN_DEFAULTS @
     [(PStr (u ''started_at''), started), (PStr (u ''finished_at''), finished),
      (PStr (u ''routing_decision_id''), routing), (PStr (u ''attributes''), attrs)]"

lemma receipt_entries_lookup:
  "map_of (receipt_entries f a b c d e) (PStr (u ''receipt_id'')) = Some a"
  "map_of (receipt_entries f a b c d e) (PStr (u ''started_at'')) = Some b"
  "map_of (receipt_entries f a b c d e) (PStr (u ''finished_at'')) = Some c"
  "map_of (receipt_entries f a b c d e) (PStr (u ''routing_decision_id'')) = Some d"
  "map_of (receipt_entries f a b c d e) (PStr (u ''attributes'')) = Some e"
  "map_of (receipt_entries f a b c d e) (PStr (u ''task_id'')) = Some (f (u ''task_id''))"
  by (simp_all add: receipt_entries_def PLAIN_DEFAULTS_def)

lemma receipt_entries_named: "named (receipt_entries f a b c d e)"
  by (simp add: named_def receipt_entries_def PLAIN_DEFAULTS_def is_str_def)

lemma readable_to_dict:
  assumes "readable T r" and "receipt_to_dict P T r = Inr d"
  obtains rid started finished routing where
    "d = receipt_entries (\<lambda>k. asdict_val (er_field r k)) (PStr rid) (PStr started) finished routing
        (asdict_val (PDict (er_attributes r)))"
    and "is_ok (validate_uuid rid)" and "from_iso T started \<noteq> None"
    and "finished = PNone \<or> (\<exists>s. finished = PStr s \<and> from_iso T s \<noteq> None)"
    and "routing = PNone \<or> (\<exists>s. routing = PStr s \<and> is_ok (validate_uuid s))"
proof -
  obtain rid t where r: "er_receipt_id r = FUuid rid" "is_ok (validate_uuid rid)" "er_started_at r = FTime t"
    "from_iso T (to_iso T t) \<noteq> None" using assms(1) by (auto simp: readable_def)
  obtain finished where f: "(if field_truthy (er_finished_at r) then emap PStr (field_iso T (er_finished_at r))
      else Inr (field_plain (er_finished_at r))) = Inr finished"
    and d: "d = receipt_entries (\<lambda>k. asdict_val (er_field r k)) (PStr rid) (PStr (to_iso T t)) finished
      (if field_truthy (er_routing_decision_id r) then PStr (field_str P T (er_routing_decision_id r))
       else field_plain (er_routing_decision_id r)) (asdict_val (PDict (er_attributes r)))"
    using assms(2) unfolding receipt_to_dict_def r(1,3) receipt_entries_def
    by (simp only: field_iso.simps ebind_simps field_str.simps emap_Inr_iff) blast
  have "finished = PNone \<or> (\<exists>s. finished = PStr s \<and> from_iso T s \<noteq> None)"
    using f assms(1) by (auto simp: readable_def)
  moreover have "(if field_truthy (er_routing_decision_id r) then PStr (field_str P T (er_routing_decision_id r))
       else field_plain (er_routing_decision_id r)) = PNone \<or>
     (\<exists>s. (if field_truthy (er_routing_decision_id r) then PStr (field_str P T (er_routing_decision_id r))
       else field_plain (er_routing_decision_id r)) = PStr s \<and> is_ok (validate_uuid s))"
    using assms(1) by (auto simp: readable_def)
  ultimately show ?thesis using that d r(2,4) by blast
qed

section \<open>The memo of a completion\<close>

lemma vget_map_of: "vget d k = (case map_of d (PStr k) of None \<Rightarrow> PNone | Some v \<Rightarrow> v)"
  by (simp add: vget_def dget_def)

lemma attr_str_map_of: "map_of d (PStr k) = Some (PStr s) \<Longrightarrow> attr_str P d k = s"
  by (simp add: attr_str_def dget_def)

lemma asdict_str: "asdict_val v = PStr s \<longleftrightarrow> v = PStr s"
  by (cases v) auto

lemma readable_bind:
  "readable T r \<Longrightarrow> readable T (bind_receipt c identity claim task r)"
  by (auto simp: readable_def bind_receipt_def er_set_def distinct_dmerge)

lemma bound_task: "er_field (bind_receipt c identity claim task r) (u ''task_id'') = PStr task"
  by (simp add: er_field_def bind_receipt_def er_set_def)

lemma bound_status: "is_ok_receipt (bind_receipt c identity claim task r) \<longleftrightarrow> is_ok_receipt r"
  by (simp add: is_ok_receipt_def er_field_def bind_receipt_def er_set_def)

text \<open>The shape of the attributes of a bound receipt.\<close>

lemma bound_attributes:
  assumes "distinct (map fst (er_attributes r))"
    and "json_shape P (asdict_val (PDict (er_attributes (bind_receipt c identity claim task r)))) = Inr w"
  shows "names_dispatch P (ei_run_id identity) (ei_idempotency_key claim) (iv_side_effect_key c) d
    \<or> vget d (u ''attributes'') \<noteq> w"
proof -
  let ?new = "[(PStr (u ''run_id''), PStr (ei_run_id identity)),
             (PStr (u ''idempotency_key''), PStr (ei_idempotency_key claim)),
             (PStr (u ''dispatch_idempotency_key''), PStr (ei_idempotency_key identity)),
             (PStr (u ''side_effect_key''), PStr (iv_side_effect_key c))]"
  let ?a = "dmerge (er_attributes r) ?new"
  let ?b = "map (\<lambda>(k, v). (asdict_val k, asdict_val v)) ?a"
  have new: "distinct (map fst ?new)" by simp
  have shape: "json_shape P (PDict ?b) = Inr w"
    using assms(2) by (simp add: bind_receipt_def er_set_def del: json_shape.simps)
  have "set (map fst ?new) \<subseteq> fst ` set ?a" unfolding keys_dmerge by simp
  then have "card (set (map fst ?new)) \<le> card (fst ` set ?a)" by (intro card_mono) auto
  also have "\<dots> \<le> length ?a" using card_image_le [of "set ?a" fst] card_length [of ?a] by simp
  finally have "4 \<le> length ?a" using distinct_card [OF new] by simp
  moreover have "map_of ?a (PStr (u ''run_id'')) = Some (PStr (ei_run_id identity))"
    using map_of_dmerge [OF new] by simp
  then have "(PStr (u ''run_id''), PStr (ei_run_id identity)) \<in> set ?a" by (rule map_of_SomeD)
  then have "(PStr (u ''run_id''), PStr (ei_run_id identity)) \<in> set ?b" by force
  ultimately have str: "list_all (is_str \<circ> fst) ?b"
    using shape by (intro shape_string_keys [of P]) (auto simp: is_ok_iff)
  have keys: "asdict_val k = k" if "k \<in> fst ` set ?a" for k
  proof -
    from that str have "is_str (asdict_val k)" by (force simp: list_all_iff)
    then show ?thesis by (auto simp: is_str_def asdict_str split: pyval.splits)
  qed
  then have fst_b: "map fst ?b = map fst ?a" by (auto simp: comp_def case_prod_unfold)
  have "named ?b" using str distinct_dmerge [OF assms(1)] fst_b unfolding named_def by metis
  from shape_dict_lookup [OF this shape] obtain e where e: "w = PDict e"
    "\<And>k v. map_of ?b k = Some v \<Longrightarrow> \<exists>x. map_of e k = Some x \<and> json_shape P v = Inr x" by blast
  have b: "map_of ?b k = map_option asdict_val (map_of ?a k)" for k
  proof -
    have m: "?b = map (\<lambda>(k, v). (k, asdict_val v)) ?a" using keys by force
    show ?thesis unfolding m by (simp add: map_of_map)
  qed
  have "attr_str P e k = s" if "map_of ?new (PStr k) = Some (PStr s)" for k s
  proof -
    have "map_of ?a (PStr k) = Some (PStr s)" using map_of_dmerge [OF new] that by simp
    then have "map_of ?b (PStr k) = Some (PStr s)" by (simp add: b)
    from e(2) [OF this] show ?thesis by (auto intro: attr_str_map_of)
  qed
  then show ?thesis by (auto simp: names_dispatch_def e(1))
qed

text \<open>A blob read back can be turned into a receipt.\<close>

lemma blob_readable:
  assumes "map_of d (PStr (u ''receipt_id'')) = Some (PStr rid)" and "is_ok (validate_uuid rid)"
    and "map_of d (PStr (u ''started_at'')) = Some (PStr st)" and "from_iso T st \<noteq> None"
    and "map_of d (PStr (u ''finished_at'')) = Some fin" and "fin = PNone \<or> (\<exists>s. fin = PStr s \<and> from_iso T s \<noteq> None)"
    and "map_of d (PStr (u ''routing_decision_id'')) = Some rt" and "rt = PNone \<or> (\<exists>s. rt = PStr s \<and> is_ok (validate_uuid s))"
  shows "is_ok (receipt_from_dict T n t d)"
proof -
  have uuid: "is_ok (parse_uuid v)" if "v = PNone \<or> (\<exists>s. v = PStr s \<and> is_ok (validate_uuid s))" for v
    using that by (auto simp: parse_uuid_def is_ok_iff)
  have time: "is_ok (parse_time T v)" if "v = PNone \<or> (\<exists>s. v = PStr s \<and> from_iso T s \<noteq> None)" for v
    using that by (auto simp: parse_time_def is_ok_iff)
  have "is_ok (parse_uuid (PStr rid))" "is_ok (parse_uuid rt)" "is_ok (parse_time T (PStr st))" "is_ok (parse_time T fin)"
    using assms by (auto intro!: uuid time)
  then show ?thesis
    unfolding receipt_from_dict_def with_default_def assms(1,3,5,7) option.case by (auto simp: is_ok_iff)
qed

lemma completed_memo_ok:
  assumes r: "readable T r" and blob: "receipt_to_dict P T (bind_receipt c identity claim task r) = Inr blob"
    and memo: "memo = [] \<or> (\<exists>text. memo = [(PStr (u ''result_json''), PStr text)])"
    and old: "named old"
    and column: "dumped_column P (dmerge old (dmerge [(PStr (u ''operation_hash''), PStr op_hash), (PStr (u ''receipt''), PDict blob),
                (PStr (u ''result_json''), PNone), (PStr (u ''result_omitted_reason''), PNone)] memo)) = Inr column"
  shows "memo_ok P T (ei_idempotency_key claim) (iv_side_effect_key c) task (ei_run_id identity) column"
proof -
  let ?r = "bind_receipt c identity claim task r"
  let ?four = "[(PStr (u ''operation_hash''), PStr op_hash), (PStr (u ''receipt''), PDict blob),
                (PStr (u ''result_json''), PNone), (PStr (u ''result_omitted_reason''), PNone)]"
  let ?meta = "dmerge ?four memo"
  have m: "distinct (map fst memo)" "named memo" using memo by (auto simp: named_def is_str_def)
  have four: "named ?four" by (simp add: named_def is_str_def)
  have meta: "named ?meta" using four m by (intro named_dmerge)
  then have dm: "distinct (map fst ?meta)" by (simp add: named_def)
  have at: "map_of (dmerge old ?meta) (PStr (u ''receipt'')) = Some (PDict blob)"
      "map_of (dmerge old ?meta) (PStr (u ''result_omitted_reason'')) = Some PNone"
    unfolding map_of_dmerge [OF dm] map_of_dmerge [OF m(1)] using memo by auto
  note look = dumped_column_lookup [OF named_dmerge [OF old meta] column]
  from look(2) [OF at(1)] obtain w where w: "map_of column (PStr (u ''receipt'')) = Some w"
    "json_shape P (PDict blob) = Inr w" by blast
  from look(2) [OF at(2)] have omitted: "map_of column (PStr (u ''result_omitted_reason'')) = Some PNone" by auto
  from readable_to_dict [OF readable_bind [OF r] blob] obtain rid st fin rt where
    b: "blob = receipt_entries (\<lambda>k. asdict_val (er_field ?r k)) (PStr rid) (PStr st) fin rt (asdict_val (PDict (er_attributes ?r)))"
    and ok: "is_ok (validate_uuid rid)" "from_iso T st \<noteq> None"
      "fin = PNone \<or> (\<exists>s. fin = PStr s \<and> from_iso T s \<noteq> None)"
      "rt = PNone \<or> (\<exists>s. rt = PStr s \<and> is_ok (validate_uuid s))" by blast
  have "named blob" unfolding b by (rule receipt_entries_named)
  from shape_dict_lookup [OF this w(2)] obtain e where e: "w = PDict e"
    "\<And>k v. map_of blob k = Some v \<Longrightarrow> \<exists>x. map_of e k = Some x \<and> json_shape P v = Inr x" by blast
  have entry: "map_of e (PStr k) = Some v" if "map_of blob (PStr k) = Some v" "json_shape P v = Inr v" for k v
    using e(2) [OF that(1)] that(2) by simp
  have same: "json_shape P fin = Inr fin" "json_shape P rt = Inr rt" using ok(3,4) by auto
  have "is_ok (receipt_from_dict T n t e)" for n t
    by (rule blob_readable [OF entry ok(1) entry ok(2) entry ok(3) entry ok(4)])
      (simp_all add: b receipt_entries_lookup same)
  moreover have "attr_str P e (u ''task_id'') = task"
    by (rule attr_str_map_of, rule entry) (simp_all add: b receipt_entries_lookup bound_task)
  moreover have "names_dispatch P (ei_run_id identity) (ei_idempotency_key claim) (iv_side_effect_key c) e"
  proof -
    have "map_of blob (PStr (u ''attributes'')) = Some (asdict_val (PDict (er_attributes ?r)))"
      by (simp only: b receipt_entries_lookup)
    from e(2) [OF this] obtain x where x: "map_of e (PStr (u ''attributes'')) = Some x"
      "json_shape P (asdict_val (PDict (er_attributes ?r))) = Inr x" by blast
    have "distinct (map fst (er_attributes r))" using r by (simp add: readable_def)
    from bound_attributes [OF this x(2), of e] x(1) show ?thesis by (simp add: vget_map_of)
  qed
  ultimately show ?thesis using w(1) omitted e(1) by (simp add: memo_ok_def vget_map_of)
qed

end
