(* ===== verification/OneDispatch.thy ===== *)
theory OneDispatch
  imports Memo
begin

text \<open>
  When no statement of the database fails and no record goes stale, all workers that dispatch the
  same side effect call its provider successfully at most once: who calls holds the row, and the
  row of a success can be replayed and is never claimed again. Workers may stop anywhere.
\<close>

section \<open>What a worker knows\<close>

record dispatch =
  ds_idempotency_key :: pystr
  ds_side_effect_key :: pystr
  ds_task :: pystr
  ds_hash :: pystr

abbreviation ds_row :: "dispatch \<Rightarrow> row_key" where
  "ds_row D \<equiv> (ds_idempotency_key D, ds_side_effect_key D)"

definition meta_ok :: "prims \<Rightarrow> dispatch \<Rightarrow> (pyval \<times> pyval) list \<Rightarrow> bool" where
  "meta_ok P D m \<longleftrightarrow> named m \<and> operation_hash P m = ds_hash D"

abbreviation memo_of :: "prims \<Rightarrow> text_io \<Rightarrow> dispatch \<Rightarrow> pystr \<Rightarrow> (pyval \<times> pyval) list \<Rightarrow> bool" where
  "memo_of P T D \<equiv> memo_ok P T (ds_idempotency_key D) (ds_side_effect_key D) (ds_task D)"

abbreviation replays :: "prims \<Rightarrow> text_io \<Rightarrow> dispatch \<Rightarrow> idem_record \<Rightarrow> bool" where
  "replays P T D \<equiv> replayable P T (ds_idempotency_key D) (ds_side_effect_key D) (ds_task D)"

text \<open>Nothing done yet; a claim in force; a call made, and one that returned an ok receipt.\<close>

definition untouched :: "hist \<Rightarrow> bool" where
  "untouched h \<longleftrightarrow> (\<forall>e \<in> set h. takes_effect e = None \<and> fst e \<noteq> CallProvider)"

definition holds :: "row_key \<Rightarrow> hist \<Rightarrow> int \<Rightarrow> bool" where
  "holds k h t \<longleftrightarrow> (\<exists>h1 c h2. h = h1 @ [(c, Changed True)] @ h2 \<and> untouched h1 \<and> claims c k t \<and>
     (\<forall>e \<in> set h2. takes_effect e = None))"

definition called :: "hist \<Rightarrow> bool" where
  "called h \<longleftrightarrow> (\<exists>r. (CallProvider, r) \<in> set h)"

definition ok_called :: "hist \<Rightarrow> bool" where
  "ok_called h \<longleftrightarrow> (\<exists>x. (CallProvider, Returned x) \<in> set h \<and> is_ok_receipt x)"

text \<open>The row was read with the time \<open>t\<close>, and read again without a memo to replay.\<close>

definition declined :: "prims \<Rightarrow> text_io \<Rightarrow> dispatch \<Rightarrow> hist \<Rightarrow> int \<Rightarrow> bool" where
  "declined P T D h t \<longleftrightarrow> (\<exists>h1 x h2 r. h = h1 @ [(SelectRecord (ds_row D), Found x)] @ h2 \<and>
     (SelectRecord (ds_row D), Found (Some r)) \<in> set h1 \<and> id_updated_at r = t \<and>
     (\<forall>row. x = Some row \<longrightarrow> \<not> replays P T D row))"

text \<open>The answers of a database without failures, of providers and of result providers.\<close>

definition well_answered :: "text_io \<Rightarrow> statement \<Rightarrow> reply \<Rightarrow> bool" where
  "well_answered T op r \<longleftrightarrow> r \<noteq> Failed \<and> (\<forall>x. r = Returned x \<longrightarrow> readable T x) \<and>
     (\<forall>v. r = Gave (Some v) \<longrightarrow> (\<exists>text. dumps T v = Inr text \<and> length text \<le> RESULT_JSON_CAP))"

definition was_inserted :: "row_key \<Rightarrow> hist \<Rightarrow> bool" where
  "was_inserted k h \<longleftrightarrow> (\<exists>I m n b. (InsertStarted k I m n, Changed b) \<in> set h)"

definition fits_once :: "prims \<Rightarrow> text_io \<Rightarrow> dispatch \<Rightarrow> hist \<Rightarrow> statement \<Rightarrow> reply \<Rightarrow> bool" where
  "fits_once P T D h op r \<longleftrightarrow> well_answered T op r \<and>
     (case op of
        SelectRecord k \<Rightarrow> (\<exists>x. r = Found x \<and> (k = ds_row D \<longrightarrow>
          (\<forall>row. x = Some row \<longrightarrow> meta_ok P D (id_metadata row)) \<and> (was_inserted k h \<longrightarrow> x \<noteq> None)))
      | InsertReceipt rr \<Rightarrow> r = Inserted
      | SelectReceiptJson task run \<Rightarrow> (\<exists>b. r = Blob b)
      | UtcNow \<Rightarrow> (\<exists>t. r = Time t)
      | EffectsNow \<Rightarrow> (\<exists>t. r = Time t)
      | CallProvider \<Rightarrow> (\<exists>x. r = Returned x) \<or> (\<exists>e. r = Threw e)
      | CallResult \<Rightarrow> (\<exists>v. r = Gave v)
      | _ \<Rightarrow> (\<exists>b. r = Changed b))"

text \<open>What it may do then, its identity having the run \<open>run\<close>.\<close>

definition once :: "prims \<Rightarrow> text_io \<Rightarrow> dispatch \<Rightarrow> pystr \<Rightarrow> hist \<Rightarrow> statement \<Rightarrow> bool" where
  "once P T D run h op \<longleftrightarrow>
     (case op of
        InsertStarted k I m now \<Rightarrow> k = ds_row D \<and> ei_run_id I = run \<and> meta_ok P D m \<and> untouched h
      | UpdateStale k m now t \<Rightarrow> False
      | UpdateOwner k I status e now \<Rightarrow> k = ds_row D \<and> ei_run_id I = run \<and> status \<noteq> u ''started'' \<and> untouched h \<and>
          (\<exists>t. e = Some t \<and> t < now \<and> (status = u ''completed'' \<longrightarrow> declined P T D h t))
      | UpdateResult k status rid m now e \<Rightarrow> k = ds_row D \<and> meta_ok P D m \<and>
          (\<exists>t. e = Some t \<and> t < now \<and> holds k h t) \<and>
          (ok_called h \<longrightarrow> status = u ''completed'' \<and> memo_of P T D run m)
      | CallProvider \<Rightarrow> (\<exists>t. holds (ds_row D) h t) \<and> \<not> called h
      | _ \<Rightarrow> True)"

abbreviation wp_once :: "prims \<Rightarrow> text_io \<Rightarrow> dispatch \<Rightarrow> pystr \<Rightarrow> 'x prog \<Rightarrow> hist \<Rightarrow> (hist \<Rightarrow> 'x \<Rightarrow> bool) \<Rightarrow> bool" where
  "wp_once P T D run \<equiv> wp (fits_once P T D) (once P T D run)"

lemma once_harmless: "harmless op \<Longrightarrow> once P T D run h op"
  by (cases op) (auto simp: once_def)

lemma once_quiet: "quiet p \<Longrightarrow> (\<And>h' x. quietly h h' \<Longrightarrow> Q h' x) \<Longrightarrow> wp_once P T D run p h Q"
  by (rule wp_quiet) (auto intro: once_harmless)

lemma harmless_effect: "harmless op \<Longrightarrow> takes_effect (op, r) = None"
  by (cases op) (auto simp: takes_effect_def)

lemma quietlyE:
  assumes "quietly h h'"
  obtains es where "h' = h @ es" and "\<And>e. e \<in> set es \<Longrightarrow> takes_effect e = None"
    and "\<And>e. e \<in> set es \<Longrightarrow> fst e \<noteq> CallProvider" and "\<And>r. (CallProvider, r) \<notin> set es"
proof -
  obtain es where es: "h' = h @ es" "\<forall>(op, r) \<in> set es. harmless op"
    using assms by (auto simp: quietly_def)
  have "takes_effect e = None \<and> fst e \<noteq> CallProvider" if "e \<in> set es" for e
  proof -
    obtain op r where e: "e = (op, r)" by (cases e)
    with es(2) that have h: "harmless op" by auto
    then have "op \<noteq> CallProvider" by (cases op) simp_all
    then show ?thesis using harmless_effect [OF h] e by simp
  qed
  with es(1) show ?thesis using that by fastforce
qed

lemma untouched_snoc: "untouched h \<Longrightarrow> takes_effect e = None \<Longrightarrow> fst e \<noteq> CallProvider \<Longrightarrow> untouched (h @ [e])"
  by (auto simp: untouched_def)

lemma untouched_quietly: "untouched h \<Longrightarrow> quietly h h' \<Longrightarrow> untouched h'"
  by (erule quietlyE) (auto simp: untouched_def)

lemma holds_extend:
  assumes "holds k h t" and "\<And>e. e \<in> set es \<Longrightarrow> takes_effect e = None"
  shows "holds k (h @ es) t"
proof -
  obtain h1 c h2 where h: "h = h1 @ [(c, Changed True)] @ h2" "untouched h1" "claims c k t"
    "\<forall>e \<in> set h2. takes_effect e = None" using assms(1) by (auto simp: holds_def)
  then have "h @ es = h1 @ [(c, Changed True)] @ (h2 @ es)" "\<forall>e \<in> set (h2 @ es). takes_effect e = None"
    using assms(2) by auto
  then show ?thesis unfolding holds_def using h(2,3) by blast
qed

lemma holds_quietly: "holds k h t \<Longrightarrow> quietly h h' \<Longrightarrow> holds k h' t"
  by (erule quietlyE) (auto intro: holds_extend)

lemma holds_claim: "untouched h \<Longrightarrow> claims c k t \<Longrightarrow> holds k (h @ [(c, Changed True)]) t"
  unfolding holds_def by fastforce

lemma called_quietly: "quietly h h' \<Longrightarrow> called h' \<longleftrightarrow> called h"
  by (erule quietlyE) (auto simp: called_def)

lemma ok_called_quietly: "quietly h h' \<Longrightarrow> ok_called h' \<longleftrightarrow> ok_called h"
  by (erule quietlyE) (auto simp: ok_called_def)

lemma untouched_not_called: "untouched h \<Longrightarrow> \<not> called h"
  by (auto simp: untouched_def called_def)

lemma declined_extend:
  assumes "declined P T D h t"
  shows "declined P T D (h @ es) t"
proof -
  obtain h1 x h2 r where h: "h = h1 @ [(SelectRecord (ds_row D), Found x)] @ h2"
    "(SelectRecord (ds_row D), Found (Some r)) \<in> set h1 \<and> id_updated_at r = t \<and> (\<forall>row. x = Some row \<longrightarrow> \<not> replays P T D row)"
    using assms by (auto simp: declined_def)
  then have "h @ es = h1 @ [(SelectRecord (ds_row D), Found x)] @ (h2 @ es)" by simp
  then show ?thesis unfolding declined_def using h(2) by blast
qed

lemma was_inserted_quietly: "was_inserted k h \<Longrightarrow> quietly h h' \<Longrightarrow> was_inserted k h'"
  by (erule quietlyE) (auto simp: was_inserted_def)

section \<open>The operations\<close>

lemma once_receipt:
  assumes "require_for_dispatch I = Inr J" and "dumped_column P payload = Inr column"
    and "\<And>h'. quietly h h' \<Longrightarrow> Q h' (Inr ())"
  shows "wp_once P T D run (record_receipt_for_identity P I type status key payload) h Q"
proof -
  have "Q (h @ [(InsertReceipt rr, Inserted)]) (Inr ())" for rr
    by (rule assms(3)) (simp add: quietly_snoc)
  then show ?thesis
    using assms(1,2)
    by (simp add: record_receipt_for_identity_def build_runtime_receipt_def record_runtime_receipt_def wp_sbind wp_ask
        once_harmless fits_once_def)
qed

lemma once_consumed:
  assumes "require_for_dispatch I = Inr J" and "dumped_column P payload = Inr column"
    and "\<And>h'. quietly h h' \<Longrightarrow> Q h' (Inr ())"
  shows "wp_once P T D run (record_idempotency_consumed P I key status payload) h Q"
  unfolding record_idempotency_consumed_def using assms by (intro once_receipt)

lemma once_intent:
  assumes "require_for_dispatch I = Inr J" and "dumped_column P payload = Inr column"
    and "\<And>h'. quietly h h' \<Longrightarrow> Q h' (Inr ())"
  shows "wp_once P T D run (record_side_effect_intent P I key payload) h Q"
  unfolding record_side_effect_intent_def using assms by (intro once_receipt)

lemma sbind_Inr [simp]: "sbind (Return (Inr x)) f = f x"
  by (simp add: sbind_def)

lemma ibind_Inr [simp]: "ibind (ilift (Return (Inr x))) f s = f x s"
  by (simp add: ibind_def ilift_def)

lemma duplicate_begin:
  assumes "operation_hash P (id_metadata r) = operation_hash P m"
  shows "handle_existing_idempotency_record P T I k r m None = record_idempotency_consumed P I (snd k) (u ''duplicate'') m"
  using assms by (simp add: handle_existing_idempotency_record_def holder_is_stale_def)

text \<open>A begin that wins holds the row; one that loses saw its insertion refused.\<close>

lemma once_try_begin:
  assumes I: "ei_idempotency_key I = ds_idempotency_key D" "ei_run_id I = run" "require_for_dispatch I = Inr J"
    and key: "ds_side_effect_key D \<noteq> []" and m: "meta_ok P D m" "dumped_column P m = Inr column" "meta_ok P D column"
    and h: "untouched h"
    and lost: "\<And>h'. untouched h' \<Longrightarrow> was_inserted (ds_row D) h' \<Longrightarrow> Q h' (Inr None)"
    and won: "\<And>h' t. holds (ds_row D) h' t \<Longrightarrow> \<not> called h' \<Longrightarrow> Q h' (Inr (Some t))"
  shows "wp_once P T D run (try_begin_with_token P T' I (ds_side_effect_key D) m None least) h Q"
proof -
  let ?k = "ds_row D"
  let ?ins = "\<lambda>now. InsertStarted ?k I column now"
  define begun :: "int \<Rightarrow> bool \<Rightarrow> int option code" where "begun = (\<lambda>now inserted. if inserted
      then sbind (record_idempotency_consumed P I (ds_side_effect_key D) (u ''accepted'') m) (\<lambda>_.
           sbind (record_side_effect_intent P I (ds_side_effect_key D) m) (\<lambda>_. lift (Inr (Some now))))
      else sbind (get_idempotency_record ?k) (\<lambda>existing.
             case existing of None \<Rightarrow> lift (Inl RecordNotFound)
             | Some r \<Rightarrow> sbind (handle_existing_idempotency_record P T' I ?k r m None) (\<lambda>_. lift (Inr None))))"
  have prog: "try_begin_with_token P T' I (ds_side_effect_key D) m None least =
      sbind utc_now (\<lambda>t. sbind (ask (?ins (next_idempotency_token t None least)) the_change)
        (begun (next_idempotency_token t None least)))"
    using I key m(2) by (simp add: try_begin_with_token_def Let_def begun_def)
  have winner: "wp_once P T D run (begun now True) (h' @ [(?ins now, Changed True)]) Q" if "untouched h'" for h' now
  proof -
    let ?h = "h' @ [(?ins now, Changed True)]"
    have "holds ?k ?h now" by (rule holds_claim [OF that]) simp
    moreover have "\<not> called ?h" using untouched_not_called [OF that] by (auto simp: called_def)
    ultimately have q: "Q h'' (Inr (Some now))" if "quietly ?h h''" for h''
      using holds_quietly [OF _ that] called_quietly [OF that] by (intro won) auto
    show ?thesis
      by (auto simp: begun_def wp_sbind intro!: once_consumed [OF I(3) m(2)] once_intent [OF I(3) m(2)] q)
        (blast intro: quietly_trans)
  qed
  have loser: "wp_once P T D run (begun now False) (h' @ [(?ins now, Changed False)]) Q" if "untouched h'" for h' now
  proof -
    let ?h = "h' @ [(?ins now, Changed False)]"
    have un: "untouched ?h" using that by (intro untouched_snoc) (simp_all add: takes_effect_def)
    have ins: "was_inserted ?k ?h" by (auto simp: was_inserted_def)
    have known: "wp_once P T D run (handle_existing_idempotency_record P T' I ?k r m None)
        (?h @ [(SelectRecord ?k, Found (Some r))])
        (\<lambda>h' r. case r of Inl e \<Rightarrow> Q h' (Inl e) | Inr _ \<Rightarrow> Q h' (Inr None))" if "meta_ok P D (id_metadata r)" for r
    proof -
      have "quietly ?h (?h @ [(SelectRecord ?k, Found (Some r))])" by (rule quietly_snoc) simp
      then have "Q h'' (Inr None)" if "quietly (?h @ [(SelectRecord ?k, Found (Some r))]) h''" for h''
        using quietly_trans [OF _ that] untouched_quietly [OF un] was_inserted_quietly [OF ins] by (intro lost) blast+
      moreover have "operation_hash P (id_metadata r) = operation_hash P m" using that m(1) by (simp add: meta_ok_def)
      ultimately show ?thesis by (simp add: duplicate_begin once_consumed [OF I(3) m(2)])
    qed
    show ?thesis
      using ins known
      by (auto simp: begun_def wp_sbind wp_ask get_idempotency_record_def once_harmless fits_once_def split: option.splits)
  qed
  have un: "untouched (h @ [(UtcNow, Time t)])" for t
    by (rule untouched_snoc [OF h]) (simp_all add: takes_effect_def)
  have "once P T D run (h @ [(UtcNow, Time t)]) (?ins now)" for t now
    using I(2) m(3) un by (simp add: once_def)
  moreover have "wp_once P T D run (begun now b) (h' @ [(?ins now, Changed b)]) Q" if "untouched h'" for h' now b
    using winner [OF that] loser [OF that] by (cases b) simp_all
  from this [OF un] have "wp_once P T D run (begun now b) (h @ [(UtcNow, Time t), (?ins now, Changed b)]) Q" for now b t
    by simp
  ultimately show ?thesis
    unfolding prog utc_now_def
    by (auto simp: wp_sbind wp_ask once_harmless fits_once_def)
qed

text \<open>A memo that is not found was not there to be replayed.\<close>

lemma memo_replayed:
  assumes "memo_ok P T ikey (iv_side_effect_key c) task (id_run_id r) (id_metadata r)"
  shows "\<exists>m. memo_from_record P T c ikey r task = ireturn (Some m)"
proof -
  obtain blob where "vget (id_metadata r) (u ''receipt'') = PDict blob" "attr_str P blob (u ''task_id'') = task"
    "names_dispatch P (id_run_id r) ikey (iv_side_effect_key c) blob" "is_ok (receipt_from_dict T (iv_new_uuid c) (iv_now c) blob)"
    using assms by (auto simp: memo_ok_def)
  then show ?thesis by (auto simp: memo_from_record_def Let_def is_ok_iff)
qed

lemma once_check_memo:
  assumes c: "ei_idempotency_key claim = ds_idempotency_key D" "iv_side_effect_key c = ds_side_effect_key D"
    and missed: "\<And>h' s' x. quietly (h @ [(SelectRecord (ds_row D), Found x)]) h' \<Longrightarrow>
      (\<forall>row. x = Some row \<longrightarrow> \<not> replays P T D row) \<Longrightarrow> Q h' (s', Inr None)"
    and other: "\<And>h' s' m. Q h' (s', Inr (Some m))" "\<And>h' s' e. Q h' (s', Inl e)"
  shows "wp_once P T D run (check_memo P T c (ds_task D) claim s) h Q"
proof -
  let ?h = "\<lambda>x. h @ [(SelectRecord (ds_row D), Found x)]"
  let ?memo = "\<lambda>r. memo_from_record P T c (ds_idempotency_key D) r (ds_task D)"
  have found: "wp_once P T D run (?memo r s) (?h (Some r)) R"
    if "\<And>h' s' e. R h' (s', Inl e)" "\<And>h' s' m. R h' (s', Inr (Some m))"
      "\<And>h' s'. quietly (?h (Some r)) h' \<Longrightarrow> \<not> memo_ok P T (ds_idempotency_key D) (ds_side_effect_key D) (ds_task D) (id_run_id r) (id_metadata r) \<Longrightarrow>
         R h' (s', Inr None)" for r R
  proof (cases "memo_ok P T (ds_idempotency_key D) (ds_side_effect_key D) (ds_task D) (id_run_id r) (id_metadata r)")
    case True
    then obtain m where "?memo r = ireturn (Some m)" using memo_replayed [of P T _ c] c(2) by metis
    then show ?thesis using that(2) by simp
  next
    case False
    have "R h' x" if "quietly (?h (Some r)) h'" for h' x
      using \<open>\<And>h' s' e. R h' (s', Inl e)\<close> \<open>\<And>h' s' m. R h' (s', Inr (Some m))\<close>
        \<open>\<And>h' s'. quietly (?h (Some r)) h' \<Longrightarrow> _ \<Longrightarrow> R h' (s', Inr None)\<close> [OF that False]
      by (cases x; cases "snd x"; cases "projr (snd x)") auto
    then show ?thesis by (intro once_quiet quiet_memo_from_record)
  qed
  show ?thesis
    unfolding check_memo_def get_idempotency_record_def c wp_itry wp_ilift wp_ask
  proof (intro conjI allI impI, goal_cases)
    case 1
    show ?case by (simp add: once_harmless)
  next
    case (2 r)
    then obtain x where r: "r = Found x" by (auto simp: fits_once_def)
    show ?case
    proof (cases x)
      case None
      then show ?thesis using missed [OF quietly_refl, of None] by (simp add: r)
    next
      case (Some row)
      have miss: "Q (?h (Some row)) (s', Inr None)" if "\<not> replays P T D row" for s'
        using missed [of "Some row"] that by simp
      consider "id_status row \<noteq> u ''completed''" | "id_status row = u ''completed''" "py_truthy (vget (id_metadata row) (u ''result_omitted_reason''))"
        | "id_status row = u ''completed''" "\<not> py_truthy (vget (id_metadata row) (u ''result_omitted_reason''))" by blast
      then show ?thesis
      proof cases
        case 1
        then show ?thesis by (simp add: r Some miss replayable_def)
      next
        case 2
        then show ?thesis by (simp add: r Some miss replayable_def memo_ok_def wp_ibind)
      next
        case 3
        have "Q h' (s', Inr None)" if "quietly (?h (Some row)) h'"
          "\<not> memo_ok P T (ds_idempotency_key D) (ds_side_effect_key D) (ds_task D) (id_run_id row) (id_metadata row)" for h' s'
          using missed [OF that(1)] that(2) by (simp add: replayable_def)
        then have "wp_once P T D run (?memo row s) (?h (Some row))
            (\<lambda>h' (s', m). case m of Inl e \<Rightarrow> Q h' (s', Inl e) | Inr m \<Rightarrow> wp_once P T D run ((case m of
               None \<Rightarrow> ireturn None
             | Some receipt \<Rightarrow>
                  ibind (imodify (\<lambda>s. s\<lparr>is_memo_hit := True\<rparr>)) (\<lambda>_.
                  ibind (ilift (lift (raised (decode_memo_result T (id_metadata row))))) (\<lambda>v.
                  ibind (imodify (\<lambda>s. s\<lparr>is_memo_result := v\<rparr>)) (\<lambda>_.
                  itry (ilift (record_idempotency_consumed P claim (ds_side_effect_key D) (u ''memo_hit'')
                          [(PStr (u ''result_receipt_id''), PStr (id_result_receipt_id row))]))
                    (\<lambda>_. ibind audit_failure (\<lambda>_. ireturn (Some receipt)))
                    (\<lambda>_. ireturn (Some receipt)))))) s') h' Q)"
          by (intro found) (auto simp: wp_rules other intro!: once_quiet quiet_records split: sum.splits)
        then show ?thesis using 3 by (simp add: r Some wp_ibind)
      qed
    qed
  qed
qed

section \<open>The invoker\<close>

lemma once_reclaim:
  assumes I: "ei_idempotency_key I = ds_idempotency_key D" "ei_run_id I = run" "require_for_dispatch I = Inr J"
    and key: "ds_side_effect_key D \<noteq> []" and h: "untouched h"
    and status: "status \<noteq> u ''started''" "status = u ''completed'' \<Longrightarrow> declined P T D h e"
    and other: "\<And>h' e. Q h' (Inl e)" "\<And>h'. Q h' (Inr None)"
    and won: "\<And>h' t. holds (ds_row D) h' t \<Longrightarrow> \<not> called h' \<Longrightarrow> Q h' (Inr (Some t))"
  shows "wp_once P T D run (try_reclaim_with_token P T' I (ds_side_effect_key D) status (Some e) least) h Q"
proof -
  let ?k = "ds_row D"
  let ?op = "\<lambda>now. UpdateOwner ?k I status (Some e) now"
  have un: "untouched (h @ [(UtcNow, r)])" for r
    by (rule untouched_snoc [OF h]) (simp_all add: takes_effect_def)
  have may: "once P T D run (h @ [(UtcNow, r)]) (?op (next_idempotency_token t (Some e) least))" for r t
    using I(2) un status declined_extend token_after by (auto simp: once_def)
  have winner: "Q h' (Inr (Some now))" if "quietly (h @ [(UtcNow, r), (?op now, Changed True)]) h'" for h' now r
  proof -
    let ?h = "(h @ [(UtcNow, r)]) @ [(?op now, Changed True)]"
    have "holds ?k ?h now" by (rule holds_claim [OF un]) simp
    moreover have "\<not> called ?h" using untouched_not_called [OF un] by (auto simp: called_def)
    moreover have "quietly ?h h'" using that by simp
    ultimately show ?thesis using holds_quietly called_quietly by (intro won) blast+
  qed
  show ?thesis
    using I key may
    by (auto simp: try_reclaim_with_token_def Let_def utc_now_def wp_sbind wp_ask once_harmless fits_once_def other the_change_True
        intro!: once_quiet quiet_records winner split: sum.splits)
qed

lemma once_reclaim_or_lose:
  assumes I: "ei_idempotency_key claim = ds_idempotency_key D" "ei_run_id claim = run" "require_for_dispatch claim = Inr J"
    and key: "ds_side_effect_key D \<noteq> []" "iv_side_effect_key c = ds_side_effect_key D" and h: "untouched h"
    and status: "id_status r \<noteq> u ''started''" "id_status r = u ''completed'' \<Longrightarrow> declined P T D h (id_updated_at r)"
    and other: "\<And>h' s' e. Q h' (s', Inl e)"
    and won: "\<And>h' s' t. holds (ds_row D) h' t \<Longrightarrow> \<not> called h' \<Longrightarrow> Q h' (s', Inr t)"
  shows "wp_once P T D run (reclaim_or_lose P T c claim r s) h Q"
proof -
  have un: "untouched (h @ [(EffectsNow, a)])" for a
    by (rule untouched_snoc [OF h]) (simp_all add: takes_effect_def)
  show ?thesis
    unfolding reclaim_or_lose_def key(2)
    by (auto simp: wp_rules wp_ask once_harmless other won split: sum.splits option.splits
        intro!: once_reclaim [OF I key(1) un status(1)] declined_extend status(2))
qed

lemma hash_column:
  assumes "named d" "map_of d (PStr (u ''operation_hash'')) = Some (PStr (ds_hash D))" "ds_hash D \<noteq> []"
    and "dumped_column P d = Inr column"
  shows "meta_ok P D column"
proof -
  have "map_of column (PStr (u ''operation_hash'')) = Some (PStr (ds_hash D))"
    using dumped_column_lookup(2) [OF assms(1,4) assms(2)] by (simp add: shape_str is_str_def)
  then show ?thesis
    using assms(3) dumped_column_lookup(1) [OF assms(1,4)] by (simp add: meta_ok_def operation_hash_def vget_map_of)
qed

lemma once_complete:
  assumes I: "ei_idempotency_key claim = ds_idempotency_key D" "ei_run_id claim = run" "require_for_dispatch claim = Inr J"
    and h: "holds (ds_row D) h t"
    and meta: "\<And>old column. named old \<Longrightarrow> dumped_column P (dmerge old meta) = Inr column \<Longrightarrow> meta_ok P D column"
    and ok: "\<And>old column. ok_called h \<Longrightarrow> named old \<Longrightarrow> dumped_column P (dmerge old meta) = Inr column \<Longrightarrow>
      status = u ''completed'' \<and> memo_of P T D run column"
    and Q: "\<And>h' r. Q h' r"
  shows "wp_once P T D run (complete_idempotent_side_effect P claim (ds_side_effect_key D) status rid meta (Some t)) h Q"
proof -
  let ?k = "ds_row D"
  let ?h = "\<lambda>a b. h @ [(SelectRecord ?k, a), (UtcNow, b)]"
  have q: "quietly h (?h a b)" for a b by (simp add: quietly_def)
  have may: "once P T D run (?h (Found (Some r)) b) (UpdateResult ?k status rid column (next_idempotency_token now (Some t) None) (Some t))"
    if "meta_ok P D (id_metadata r)" "dumped_column P (merge_idempotency_metadata r meta) = Inr column" for r b column now
  proof -
    have "named (id_metadata r)" using that(1) by (simp add: meta_ok_def)
    then show ?thesis
      using meta ok that(2) holds_quietly [OF h q] ok_called_quietly [OF q] token_after
      by (auto simp: once_def merge_idempotency_metadata_def)
  qed
  have tail: "wp_once P T D run (sbind (record_side_effect_complete P claim key status rid m) (\<lambda>_. lift (Inr x))) h' Q" for m x h' key
    by (auto simp: wp_sbind intro!: once_quiet quiet_records Q split: sum.splits)
  show ?thesis
    unfolding complete_idempotent_side_effect_def Let_def utc_now_def get_idempotency_record_def I(1)
    by (auto simp: wp_sbind [where p = "ask op sel" for op sel] wp_sbind [where p = "Return r" for r] wp_ask
        Q tail fits_once_def once_harmless may split: sum.splits option.splits)
qed

text \<open>What all workers of one dispatch agree on.\<close>

definition claim_fits :: "dispatch \<Rightarrow> pystr \<Rightarrow> invoker \<Rightarrow> execution_identity \<Rightarrow> execution_identity \<Rightarrow> bool" where
  "claim_fits D run c I claim \<longleftrightarrow> ei_idempotency_key claim = ds_idempotency_key D \<and> ei_run_id claim = run \<and>
     ei_run_id I = run \<and> is_ok (require_for_dispatch claim) \<and> iv_side_effect_key c = ds_side_effect_key D \<and>
     ds_side_effect_key D \<noteq> [] \<and> ds_hash D \<noteq> [] \<and> iv_stale_after c = None"

lemma claim_fitsD:
  assumes "claim_fits D run c I claim"
  obtains J where "ei_idempotency_key claim = ds_idempotency_key D" "ei_run_id claim = run" "require_for_dispatch claim = Inr J"
    and "ei_run_id I = run" "iv_side_effect_key c = ds_side_effect_key D" "ds_side_effect_key D \<noteq> []" "ds_hash D \<noteq> []"
    and "iv_stale_after c = None"
  using assms by (auto simp: claim_fits_def is_ok_iff)

lemma once_complete_fail_open:
  assumes c: "claim_fits D run c I claim" and h: "holds (ds_row D) h t"
    and meta: "named meta" "map_of meta (PStr (u ''operation_hash'')) = Some (PStr (ds_hash D))"
    and ok: "\<And>old column. ok_called h \<Longrightarrow> named old \<Longrightarrow> dumped_column P (dmerge old meta) = Inr column \<Longrightarrow>
      status = u ''completed'' \<and> memo_of P T D run column"
    and Q: "\<And>h' r. Q h' r"
  shows "wp_once P T D run (complete_fail_open P c claim status rid meta (Some t) s) h Q"
proof -
  from c obtain J where J: "ei_idempotency_key claim = ds_idempotency_key D" "ei_run_id claim = run" "require_for_dispatch claim = Inr J"
    and key: "iv_side_effect_key c = ds_side_effect_key D" "ds_hash D \<noteq> []" by (rule claim_fitsD)
  have "meta_ok P D column" if old: "named old" and column: "dumped_column P (dmerge old meta) = Inr column" for old column
  proof (rule hash_column [OF named_dmerge [OF old meta(1)] _ key(2) column])
    have "distinct (map fst meta)" using meta(1) by (simp add: named_def)
    from map_of_dmerge [OF this] show "map_of (dmerge old meta) (PStr (u ''operation_hash'')) = Some (PStr (ds_hash D))"
      by (simp add: meta(2))
  qed
  then show ?thesis
    unfolding complete_fail_open_def key(1)
    by (auto simp: wp_itry wp_ilift Q split: sum.splits intro!: once_complete [OF J h])
      (use ok in blast)+
qed

text \<open>An answered result is recorded with the memo, or there is none.\<close>

lemma encoded_memo:
  "dumps T v = Inr text \<Longrightarrow> length text \<le> RESULT_JSON_CAP \<Longrightarrow>
     encode_memo_result T v = Inr [(PStr (u ''result_json''), PStr text)]"
  by (simp add: encode_memo_result_def)

lemma once_execute_claimed:
  assumes c: "claim_fits D run c I claim" and h: "holds (ds_row D) h t" "\<not> called h" and Q: "\<And>h' r. Q h' r"
  shows "wp_once P T D run (execute_claimed P T c I claim (ds_task D) (ds_hash D) (Some t) s) h Q"
proof -
  from c obtain J where J: "ei_idempotency_key claim = ds_idempotency_key D" "ei_run_id claim = run" "require_for_dispatch claim = Inr J"
    and run: "ei_run_id I = run" and key: "iv_side_effect_key c = ds_side_effect_key D" by (rule claim_fitsD)
  let ?h = "\<lambda>r. h @ [(CallProvider, r)]"
  have held: "holds (ds_row D) (?h r) t" for r
    by (rule holds_extend [OF h(1)]) (simp add: takes_effect_def)
  have not_ok: "\<not> ok_called (?h (Threw e))" "is_ok_receipt x \<longleftrightarrow> ok_called (?h (Returned x))" for e x
    using h(2) by (auto simp: ok_called_def called_def)
  have threw: "wp_once P T D run (complete_fail_open P c claim (u ''failed'') [] [(PStr (u ''operation_hash''), PStr (ds_hash D))] (Some t) s')
      (?h (Threw e)) R" if "\<And>h' r. R h' r" for e s' R
    using that not_ok(1) by (intro once_complete_fail_open [OF c held]) (auto simp: named_def is_str_def)
  let ?four = "\<lambda>blob. [(PStr (u ''operation_hash''), PStr (ds_hash D)), (PStr (u ''receipt''), PDict blob),
                (PStr (u ''result_json''), PNone), (PStr (u ''result_omitted_reason''), PNone)]"
  have done': "wp_once P T D run (complete_fail_open P c claim
        (if is_ok_receipt (bind_receipt c I claim (ds_task D) x) then u ''completed'' else u ''failed'')
        rid (dmerge (?four blob) memo) (Some t) s') h' R"
    if x: "readable T x" "receipt_to_dict P T (bind_receipt c I claim (ds_task D) x) = Inr blob"
      and memo: "memo = [] \<or> (\<exists>text. memo = [(PStr (u ''result_json''), PStr text)])"
      and q: "quietly (?h (Returned x)) h'" and R: "\<And>h' r. R h' r" for x blob memo rid s' h' R
  proof (rule once_complete_fail_open [OF c holds_quietly [OF held q]])
    have m: "distinct (map fst memo)" "named memo" using memo by (auto simp: named_def is_str_def)
    have "named (?four blob)" by (simp add: named_def is_str_def)
    then show "named (dmerge (?four blob) memo)" using m(2) by (rule named_dmerge)
    show "map_of (dmerge (?four blob) memo) (PStr (u ''operation_hash'')) = Some (PStr (ds_hash D))"
      unfolding map_of_dmerge [OF m(1)] using memo by auto
    show "(if is_ok_receipt (bind_receipt c I claim (ds_task D) x) then u ''completed'' else u ''failed'') = u ''completed'' \<and>
        memo_of P T D run column"
      if "ok_called h'" "named old" "dumped_column P (dmerge old (dmerge (?four blob) memo)) = Inr column" for old column
    proof -
      have "is_ok_receipt x" using that(1) ok_called_quietly [OF q] not_ok(2) [of x] by simp
      then show ?thesis
        using completed_memo_ok [OF x memo that(2,3)] by (simp add: J(1) key run bound_status)
    qed
  qed (rule R)
  define rest where "rest = (\<lambda>x blob result.
      let receipt = bind_receipt c I claim (ds_task D) x in
      ibind (ilift (lift (raised (case result of None \<Rightarrow> Inr [] | Some v \<Rightarrow> encode_memo_result T v)))) (\<lambda>memo.
      ibind (complete_fail_open P c claim (if is_ok_receipt receipt then u ''completed'' else u ''failed'')
         (field_str P T (er_receipt_id receipt)) (dmerge (?four blob) memo) (Some t)) (\<lambda>_.
       ireturn (if Some t = None then mark_unprotected receipt (u ''begin_lost_unreclaimed'') else receipt))))"
  have rest: "wp_once P T D run (rest x blob result s') h' Q"
    if "readable T x" "receipt_to_dict P T (bind_receipt c I claim (ds_task D) x) = Inr blob" "quietly (?h (Returned x)) h'"
      "\<And>v. result = Some v \<Longrightarrow> \<exists>text. dumps T v = Inr text \<and> length text \<le> RESULT_JSON_CAP" for x blob result s' h'
  proof -
    note answer = that
    obtain memo where m: "(case result of None \<Rightarrow> Inr [] | Some v \<Rightarrow> encode_memo_result T v) = Inr memo"
      "memo = [] \<or> (\<exists>text. memo = [(PStr (u ''result_json''), PStr text)])"
      using answer(4) encoded_memo by (cases result) auto
    show ?thesis
      unfolding rest_def Let_def m(1) wp_ibind wp_ilift raised.simps
      using done' [OF answer(1,2) m(2) answer(3)] Q by simp
  qed
  have answered: "wp_once P T D run
      (let receipt = bind_receipt c I claim (ds_task D) x in
         ibind (ilift (lift (raised (receipt_to_dict P T receipt)))) (\<lambda>blob.
         ibind (if is_ok_receipt receipt \<and> iv_result_provider c then ilift call_result else ireturn None) (rest x blob)) s')
      (?h (Returned x)) Q" if "readable T x" for x s'
  proof (cases "receipt_to_dict P T (bind_receipt c I claim (ds_task D) x)")
    case (Inl e)
    then show ?thesis by (simp add: Let_def wp_ibind wp_ilift Q)
  next
    case (Inr blob)
    have "quietly (?h (Returned x)) (?h (Returned x) @ [(CallResult, g)])" for g by (rule quietly_snoc) simp
    then have "wp_once P T D run (rest x blob g s') (?h (Returned x) @ [(CallResult, Gave g)]) Q"
      if "well_answered T CallResult (Gave g)" for g s'
      using that by (intro rest [OF \<open>readable T x\<close> Inr]) (auto simp: well_answered_def)
    moreover have "wp_once P T D run (rest x blob None s') (?h (Returned x)) Q" for s'
      by (rule rest [OF that Inr]) simp_all
    ultimately show ?thesis
      by (auto simp: Let_def Inr wp_ibind wp_ilift call_result_def wp_ask once_harmless fits_once_def)
  qed
  show ?thesis
    unfolding execute_claimed_def Let_def call_provider_def wp_itry wp_ilift wp_sbind wp_ask
  proof (intro conjI allI impI, goal_cases)
    case 1
    show ?case using h by (auto simp: once_def)
  next
    case (2 r)
    then consider x where "r = Returned x" "readable T x" | e where "r = Threw e"
      by (auto simp: fits_once_def well_answered_def)
    then show ?case
    proof cases
      case 1
      then show ?thesis using answered [OF 1(2)] by (simp add: rest_def Let_def)
    next
      case 2
      then show ?thesis using threw by (simp add: wp_ibind Q)
    qed
  qed
qed

lemma once_take_over:
  assumes c: "claim_fits D run c I claim" and h: "untouched h" and Q: "\<And>h' r. Q h' r"
    and status: "id_status r \<noteq> u ''started''" "id_status r = u ''completed'' \<Longrightarrow> declined P T D h (id_updated_at r)"
  shows "wp_once P T D run (ibind (reclaim_or_lose P T c claim r) (\<lambda>t.
      execute_claimed P T c I claim (ds_task D) (ds_hash D) (Some t)) s) h Q"
proof -
  from c obtain J where J: "ei_idempotency_key claim = ds_idempotency_key D" "ei_run_id claim = run" "require_for_dispatch claim = Inr J"
    and key: "iv_side_effect_key c = ds_side_effect_key D" "ds_side_effect_key D \<noteq> []" by (rule claim_fitsD)
  show ?thesis
    unfolding wp_ibind
    by (rule once_reclaim_or_lose [OF J key(2,1) h status]) (auto simp: Q intro!: once_execute_claimed [OF c])
qed

lemma once_recover:
  assumes c: "claim_fits D run c I claim" and h: "untouched h" "was_inserted (ds_row D) h" and Q: "\<And>h' r. Q h' r"
  shows "wp_once P T D run (recover_lost_begin P T c I claim (ds_task D) (ds_hash D) s) h Q"
proof -
  from c obtain J where J: "ei_idempotency_key claim = ds_idempotency_key D"
    and key: "iv_side_effect_key c = ds_side_effect_key D" and stale: "iv_stale_after c = None" by (rule claim_fitsD)
  let ?h = "\<lambda>r. h @ [(SelectRecord (ds_row D), Found (Some r))]"
  have un: "untouched (?h r)" for r
    by (rule untouched_snoc [OF h(1)]) (simp_all add: takes_effect_def)
  have take: "wp_once P T D run (ibind (reclaim_or_lose P T c claim r) (\<lambda>t.
      execute_claimed P T c I claim (ds_task D) (ds_hash D) (Some t)) s') h' Q"
    if "quietly (?h r) h'" "id_status r \<noteq> u ''started''" "id_status r = u ''completed'' \<Longrightarrow> declined P T D h' (id_updated_at r)"
    for r s' h'
    by (rule once_take_over [OF c untouched_quietly [OF un that(1)] Q that(2,3)])
  have memo: "wp_once P T D run (ibind (check_memo P T c (ds_task D) claim) (\<lambda>m. case m of Some receipt \<Rightarrow> ireturn receipt
      | None \<Rightarrow> ibind (reclaim_or_lose P T c claim r) (\<lambda>t.
      execute_claimed P T c I claim (ds_task D) (ds_hash D) (Some t))) s') (?h r) Q"
    if "id_status r = u ''completed''" for r s'
    unfolding wp_ibind [where p = "check_memo P T c (ds_task D) claim"]
  proof (rule once_check_memo [OF J key])
    fix h' s' x
    assume q: "quietly (?h r @ [(SelectRecord (ds_row D), Found x)]) h'" and x: "\<forall>row. x = Some row \<longrightarrow> \<not> replays P T D row"
    obtain es where h': "h' = ?h r @ [(SelectRecord (ds_row D), Found x)] @ es" using q by (auto simp: quietly_def)
    have "(SelectRecord (ds_row D), Found (Some r)) \<in> set (?h r)" by simp
    then have "declined P T D h' (id_updated_at r)" unfolding declined_def h' using x by blast
    moreover have "quietly (?h r) h'" by (rule quietly_trans [OF quietly_snoc q]) simp
    ultimately show "case (s', Inr None) of (s', r') \<Rightarrow> case r' of Inl e \<Rightarrow> Q h' (s', Inl e) | Inr m \<Rightarrow>
        wp_once P T D run ((case m of Some receipt \<Rightarrow> ireturn receipt | None \<Rightarrow> ibind (reclaim_or_lose P T c claim r) (\<lambda>t.
      execute_claimed P T c I claim (ds_task D) (ds_hash D) (Some t))) s') h' Q"
      using take [OF _ _ \<open>declined P T D h' (id_updated_at r)\<close>] that by simp
  qed (simp_all add: Q)
  show ?thesis
    unfolding recover_lost_begin_def Let_def get_idempotency_record_def J key wp_itry wp_ilift wp_ask
  proof (intro conjI allI impI, goal_cases)
    case 1
    show ?case by (simp add: once_harmless)
  next
    case (2 a)
    then obtain r where a: "a = Found (Some r)" using h(2) by (auto simp: fits_once_def)
    show ?case
      using memo [of r] take [OF quietly_refl, of r]
      by (auto simp: a started_record_is_stale_def stale wp_ibind [where p = "ireturn x" for x] Q)
  qed
qed

text \<open>The invoker \<open>c\<close> makes the dispatch \<open>D\<close> under the identity \<open>I\<close>, and takes no record for stale.\<close>

definition dispatches :: "prims \<Rightarrow> dispatch \<Rightarrow> invoker \<Rightarrow> execution_identity \<Rightarrow> bool" where
  "dispatches P D c I \<longleftrightarrow> iv_capable c \<and> resolve_identity P c = Inr I \<and> iv_stale_after c = None \<and>
     iv_side_effect_key c = ds_side_effect_key D \<and> ds_side_effect_key D \<noteq> [] \<and>
     claim_idempotency_key P (ds_side_effect_key D) = Inr (ds_idempotency_key D) \<and>
     str_or P (vget (iv_task c) (u ''id'')) (ei_task_id I) = ds_task D \<and>
     invocation_hash P (ds_task D) (iv_agent_id c) = Inr (ds_hash D)"

lemma strip_nonempty: "\<not> py_space x \<Longrightarrow> strip (x # xs) \<noteq> []"
proof -
  assume x: "\<not> py_space x"
  then have "dropWhile py_space (rev (x # xs)) \<noteq> []" by (auto simp: dropWhile_append)
  with x show ?thesis by (simp add: strip_def)
qed

lemma claim_key_shape: "claim_idempotency_key P key = Inr ikey \<Longrightarrow> strip ikey \<noteq> []"
proof -
  assume "claim_idempotency_key P key = Inr ikey"
  then obtain x where "ikey = 115 # x" by (auto simp: claim_idempotency_key_def emap_Inr_iff u_def)
  then show ?thesis using strip_nonempty by (simp add: py_space_def)
qed

lemma hash_nonempty: "invocation_hash P task agent = Inr h \<Longrightarrow> h \<noteq> []"
proof -
  assume "invocation_hash P task agent = Inr h"
  then obtain b where "h = hex (sha256 P b)" by (auto simp: invocation_hash_def emap_Inr_iff)
  then have "sha256 P b \<noteq> [] \<Longrightarrow> ?thesis" by (cases "sha256 P b") (simp_all add: hex_def hex_byte_def)
  moreover have "length (sha256 P b) = 32" by simp
  then have "sha256 P b \<noteq> []" by (metis list.size(3) zero_neq_numeral)
  ultimately show ?thesis by blast
qed

lemma resolve_required: "resolve_identity P c = Inr I \<Longrightarrow> require_for_dispatch I = Inr I"
  unfolding resolve_identity_def
  by (auto simp: ebind_Inr_iff require_for_dispatch_def split: identity_source.splits option.splits if_splits)

lemma claim_identity:
  assumes "require_for_dispatch I = Inr I" and "strip ikey \<noteq> []"
  obtains claim where "with_updates I [(u ''idempotency_key'', ikey)] [] = Inr claim"
    and "ei_idempotency_key claim = ikey" and "ei_run_id claim = ei_run_id I" and "is_ok (require_for_dispatch claim)"
proof -
  let ?f = "\<lambda>k. dget (dmerge (identity_items I) [(u ''idempotency_key'', ikey)]) k []"
  have f: "?f k = (if k = u ''idempotency_key'' then ikey else identity_field I k)" for k
    by (auto simp: dmerge_def dget_def map_of_dset identity_field_def)
  obtain claim where claim: "with_updates I [(u ''idempotency_key'', ikey)] [] = Inr claim"
    and c: "\<exists>m. claim = identity_of ?f m"
    by (auto simp: with_updates_def IDENTITY_FIELDS_def)
  have field: "identity_field claim k = (if k = u ''idempotency_key'' then ikey else identity_field I k)"
    if "k \<in> set IDENTITY_FIELDS" for k
    using c identity_field_of [OF that] f by auto
  have "ei_idempotency_key claim = ikey" using c f by (auto simp: identity_of_def)
  moreover have "ei_run_id claim = ei_run_id I" using c f by (auto simp: identity_of_def run_id_field [of I])
  moreover have "strip (identity_field claim k) \<noteq> []" if "k \<in> set REQUIRED_FIELDS" for k
    using field [OF required_are_fields [OF that]] assms that by (auto simp: require_for_dispatch_def split: if_splits)
  then have "is_ok (require_for_dispatch claim)" by (auto simp: require_for_dispatch_def is_ok_iff)
  ultimately show ?thesis using that claim by blast
qed

lemma begin_columns:
  assumes "ds_hash D \<noteq> []"
  obtains column where "dumped_column P (begin_metadata (ds_hash D) (ds_task D)) = Inr column"
    and "meta_ok P D column" and "meta_ok P D (begin_metadata (ds_hash D) (ds_task D))"
proof -
  let ?m = "begin_metadata (ds_hash D) (ds_task D)"
  have n: "named ?m" by (simp add: named_def begin_metadata_def is_str_def)
  have "is_ok (json_shape P (PDict ?m))" by (rule shape_strings) (simp_all add: begin_metadata_def is_str_def)
  then obtain column where column: "dumped_column P ?m = Inr column" by (auto simp: dumped_column_Inr is_ok_iff)
  have h: "map_of ?m (PStr (u ''operation_hash'')) = Some (PStr (ds_hash D))" by (simp add: begin_metadata_def)
  have "meta_ok P D ?m" using n h assms by (simp add: meta_ok_def operation_hash_def vget_map_of)
  with column hash_column [OF n h assms column] show ?thesis using that by blast
qed

text \<open>What a dispatch does after its first look at the record.\<close>

definition attempt :: "prims \<Rightarrow> text_io \<Rightarrow> invoker \<Rightarrow> dispatch \<Rightarrow> execution_identity \<Rightarrow> execution_identity \<Rightarrow> evidence_receipt icode" where
  "attempt P T c D I claim =
     itry (ilift (sbind (ask EffectsNow the_time) (\<lambda>now. try_begin_with_token P T claim (ds_side_effect_key D)
         (begin_metadata (ds_hash D) (ds_task D)) None (Some now))))
       (\<lambda>_. execute_unprotected (u ''idempotency_begin_failed''))
       (\<lambda>token. case token of
           Some t \<Rightarrow> execute_claimed P T c I claim (ds_task D) (ds_hash D) (Some t)
         | None \<Rightarrow> recover_lost_begin P T c I claim (ds_task D) (ds_hash D))"

lemma durable_call_is:
  assumes "dispatches P D c I"
  obtains claim where "with_updates I [(u ''idempotency_key'', ds_idempotency_key D)] [] = Inr claim"
    and "claim_fits D (ei_run_id I) c I claim"
    and "durable_call P T c s =
      ibind (check_memo P T c (ds_task D) claim) (\<lambda>memo. case memo of Some r \<Rightarrow> ireturn r | None \<Rightarrow> attempt P T c D I claim) s"
proof -
  have D: "resolve_identity P c = Inr I" "iv_stale_after c = None" "iv_side_effect_key c = ds_side_effect_key D"
    "ds_side_effect_key D \<noteq> []" "claim_idempotency_key P (ds_side_effect_key D) = Inr (ds_idempotency_key D)"
    "str_or P (vget (iv_task c) (u ''id'')) (ei_task_id I) = ds_task D"
    "invocation_hash P (ds_task D) (iv_agent_id c) = Inr (ds_hash D)" "iv_capable c"
    using assms by (simp_all add: dispatches_def)
  obtain claim where claim: "with_updates I [(u ''idempotency_key'', ds_idempotency_key D)] [] = Inr claim"
    "ei_idempotency_key claim = ds_idempotency_key D" "ei_run_id claim = ei_run_id I" "is_ok (require_for_dispatch claim)"
    using claim_identity [OF resolve_required [OF D(1)] claim_key_shape [OF D(5)]] by blast
  have fits: "claim_fits D (ei_run_id I) c I claim"
    using D claim hash_nonempty [OF D(7)] by (simp add: claim_fits_def)
  have call: "durable_call P T c s = protected_call P T c I s" using D(1,8) by (simp add: durable_call_def)
  have "durable_call P T c s =
      ibind (check_memo P T c (ds_task D) claim) (\<lambda>memo. case memo of Some r \<Rightarrow> ireturn r | None \<Rightarrow> attempt P T c D I claim) s"
    unfolding call protected_call_def Let_def D raised.simps ibind_Inr claim(1) attempt_def by (rule refl)
  with claim(1) fits show ?thesis by (rule that)
qed

lemma once_attempt:
  assumes c: "claim_fits D run c I claim" and h: "untouched h"
  shows "wp_once P T D run (attempt P T c D I claim s) h (\<lambda>_ _. True)"
proof -
  from c obtain J where J: "ei_idempotency_key claim = ds_idempotency_key D" "ei_run_id claim = run" "require_for_dispatch claim = Inr J"
    and key: "ds_side_effect_key D \<noteq> []" and hash: "ds_hash D \<noteq> []" by (rule claim_fitsD)
  obtain column where m: "meta_ok P D (begin_metadata (ds_hash D) (ds_task D))"
    "dumped_column P (begin_metadata (ds_hash D) (ds_task D)) = Inr column" "meta_ok P D column"
    using begin_columns [OF hash, of P] by metis
  have "untouched (h @ [(EffectsNow, a)])" for a
    by (rule untouched_snoc [OF h]) (simp_all add: takes_effect_def)
  then show ?thesis
    unfolding attempt_def
    by (auto simp: wp_itry wp_ilift wp_sbind wp_ask once_harmless fits_once_def
        intro!: once_try_begin [OF J key m] once_execute_claimed [OF c] once_recover [OF c])
qed

lemma once_durable_call:
  assumes "dispatches P D c I"
  shows "wp_once P T D (ei_run_id I) (durable_call P T c s) [] (\<lambda>_ _. True)"
proof -
  obtain claim where c: "claim_fits D (ei_run_id I) c I claim"
    and call: "durable_call P T c s =
      ibind (check_memo P T c (ds_task D) claim) (\<lambda>memo. case memo of Some r \<Rightarrow> ireturn r | None \<Rightarrow> attempt P T c D I claim) s"
    by (rule durable_call_is [OF assms])
  from c have key: "ei_idempotency_key claim = ds_idempotency_key D" "iv_side_effect_key c = ds_side_effect_key D"
    by (simp_all add: claim_fits_def)
  have "untouched ([] @ [(SelectRecord (ds_row D), Found x)])" for x by (simp add: untouched_def takes_effect_def)
  then have "untouched h" if "quietly ([] @ [(SelectRecord (ds_row D), Found x)]) h" for h x
    using untouched_quietly that by blast
  then show ?thesis
    unfolding call wp_ibind
    by (intro once_check_memo [OF key]) (simp_all add: once_attempt [OF c])
qed

end
