(* ===== verification/EffectivelyOnce.thy ===== *)
theory EffectivelyOnce
  imports OneDispatch
begin

text \<open>
  All workers of one dispatch over one table: at most one holds the row, and after a success the
  row can be replayed and is never claimed again.
\<close>

section \<open>Prefixes of an execution\<close>

lemma exec_prefix:
  assumes "exec W0 db0 tr db W" and "tr = as @ [Did i op r] @ bs"
  shows "\<exists>db1 W1 k. exec W0 db0 as db1 W1 \<and> W1 i = Stmt op k"
  using assms
proof (induction arbitrary: bs rule: exec_induct)
  case (event tr db W j op' k r' db')
  show ?case
  proof (cases bs rule: rev_cases)
    case Nil
    then have "tr = as" "i = j" "op = op'" using event.prems by auto
    with event.hyps(1,2) show ?thesis by blast
  next
    case (snoc bs' e)
    then have "tr = as @ [Did i op r] @ bs'" using event.prems by auto
    then show ?thesis by (rule event.IH)
  qed
qed auto

section \<open>Histories\<close>

lemma once_legal: "once P T D run h op \<Longrightarrow> legal op"
  by (cases op) (auto simp: once_def)

lemma once_row: "once P T D run h op \<Longrightarrow> takes_effect (op, r) = Some (k, v) \<Longrightarrow> k = ds_row D"
  by (cases op) (auto simp: once_def takes_effect_def split: if_splits)

lemma holds_snoc:
  assumes "holds k (h @ [e]) t"
  shows "if takes_effect e = None then holds k h t else \<exists>c. e = (c, Changed True) \<and> claims c k t"
proof -
  obtain h1 c h2 where h: "h @ [e] = h1 @ [(c, Changed True)] @ h2" "untouched h1" "claims c k t"
    "\<forall>e \<in> set h2. takes_effect e = None" using assms by (auto simp: holds_def)
  show ?thesis
  proof (cases h2 rule: rev_cases)
    case Nil
    with h show ?thesis by (simp add: takes_effect_def claims_written)
  next
    case (snoc h2' e')
    then have "e = e'" "h = h1 @ [(c, Changed True)] @ h2'" using h(1) by auto
    moreover have "holds k h t" unfolding holds_def using calculation(2) h snoc by auto
    ultimately show ?thesis using h(4) snoc by simp
  qed
qed

lemma holds_same: "takes_effect e = None \<Longrightarrow> holds k (h @ [e]) t \<longleftrightarrow> holds k h t"
  using holds_snoc [of k h e t] holds_extend [of k h t "[e]"] by auto

lemma ok_called_snoc: "ok_called (h @ [e]) \<Longrightarrow> ok_called h \<or> fst e = CallProvider"
  by (auto simp: ok_called_def)

lemma ok_called_called: "ok_called h \<Longrightarrow> called h"
  by (auto simp: ok_called_def called_def)

section \<open>The invariant\<close>

definition has_seen :: "row_key \<Rightarrow> hist \<Rightarrow> idem_record \<Rightarrow> bool" where
  "has_seen k h r \<longleftrightarrow> (SelectRecord k, Found (Some r)) \<in> set h"

lemma declined_seen: "declined P T D h t \<Longrightarrow> \<exists>r. has_seen (ds_row D) h r \<and> id_updated_at r = t"
  unfolding declined_def has_seen_def by auto

lemma declined_snoc:
  assumes "declined P T D (h @ [e]) t"
  shows "declined P T D h t \<or> (\<exists>x r. e = (SelectRecord (ds_row D), Found x) \<and> has_seen (ds_row D) h r \<and> id_updated_at r = t \<and>
    (\<forall>row. x = Some row \<longrightarrow> \<not> replays P T D row))"
proof -
  obtain h1 x h2 r where h: "h @ [e] = h1 @ [(SelectRecord (ds_row D), Found x)] @ h2"
    "(SelectRecord (ds_row D), Found (Some r)) \<in> set h1" "id_updated_at r = t" "\<forall>row. x = Some row \<longrightarrow> \<not> replays P T D row"
    using assms by (auto simp: declined_def)
  show ?thesis
  proof (cases h2 rule: rev_cases)
    case Nil
    with h have "e = (SelectRecord (ds_row D), Found x)" "h = h1" by auto
    with h show ?thesis by (auto simp: has_seen_def)
  next
    case (snoc h2' e')
    then have "h = h1 @ [(SelectRecord (ds_row D), Found x)] @ h2'" using h(1) by auto
    then have "declined P T D h t" unfolding declined_def using h(2-4) by blast
    then show ?thesis ..
  qed
qed

text \<open>The row and what the histories \<open>H\<close> of the workers, whose runs are \<open>run\<close>, say about it.\<close>

definition row_inv :: "prims \<Rightarrow> text_io \<Rightarrow> dispatch \<Rightarrow> (nat \<Rightarrow> pystr) \<Rightarrow> (nat \<Rightarrow> hist) \<Rightarrow> idem_record option \<Rightarrow> bool" where
  "row_inv P T D run H row \<longleftrightarrow>
     (\<forall>r. row = Some r \<longrightarrow> meta_ok P D (id_metadata r)) \<and>
     (\<forall>i t. holds (ds_row D) (H i) t \<longrightarrow> (\<exists>r. row = Some r \<and> id_status r = u ''started'' \<and> id_updated_at r = t \<and> id_run_id r = run i)) \<and>
     (\<forall>i j t t'. holds (ds_row D) (H i) t \<longrightarrow> holds (ds_row D) (H j) t' \<longrightarrow> i = j) \<and>
     (\<forall>i. ok_called (H i) \<longrightarrow> (\<exists>t. holds (ds_row D) (H i) t) \<or> (\<exists>r. row = Some r \<and> replays P T D r)) \<and>
     (\<forall>i r. has_seen (ds_row D) (H i) r \<longrightarrow> (\<exists>r'. row = Some r' \<and> id_updated_at r \<le> id_updated_at r')) \<and>
     (\<forall>i r t. declined P T D (H i) t \<longrightarrow> row = Some r \<longrightarrow> id_updated_at r = t \<longrightarrow> \<not> replays P T D r) \<and>
     (\<forall>i. was_inserted (ds_row D) (H i) \<longrightarrow> row \<noteq> None)"

lemma row_invD:
  assumes "row_inv P T D run H row"
  shows "row = Some r \<Longrightarrow> meta_ok P D (id_metadata r)"
    and "holds (ds_row D) (H i) t \<Longrightarrow> \<exists>r. row = Some r \<and> id_status r = u ''started'' \<and> id_updated_at r = t \<and> id_run_id r = run i"
    and "holds (ds_row D) (H i) t \<Longrightarrow> holds (ds_row D) (H j) t' \<Longrightarrow> i = j"
    and "ok_called (H i) \<Longrightarrow> (\<exists>t. holds (ds_row D) (H i) t) \<or> (\<exists>r. row = Some r \<and> replays P T D r)"
    and "has_seen (ds_row D) (H i) r \<Longrightarrow> \<exists>r'. row = Some r' \<and> id_updated_at r \<le> id_updated_at r'"
    and "declined P T D (H i) t \<Longrightarrow> row = Some r \<Longrightarrow> id_updated_at r = t \<Longrightarrow> \<not> replays P T D r"
    and "was_inserted (ds_row D) (H i) \<Longrightarrow> row \<noteq> None"
proof -
  note c = assms [unfolded row_inv_def]
  note c2 = c [THEN conjunct2] and c3 = c [THEN conjunct2, THEN conjunct2]
  note c4 = c3 [THEN conjunct2] and c5 = c3 [THEN conjunct2, THEN conjunct2]
  note c6 = c5 [THEN conjunct2] and c7 = c5 [THEN conjunct2, THEN conjunct2]
  show "row = Some r \<Longrightarrow> meta_ok P D (id_metadata r)" by (erule c [THEN conjunct1, rule_format])
  show "holds (ds_row D) (H i) t \<Longrightarrow> \<exists>r. row = Some r \<and> id_status r = u ''started'' \<and> id_updated_at r = t \<and> id_run_id r = run i"
    by (erule c2 [THEN conjunct1, rule_format])
  show "holds (ds_row D) (H i) t \<Longrightarrow> holds (ds_row D) (H j) t' \<Longrightarrow> i = j"
    by (erule (1) c3 [THEN conjunct1, rule_format])
  show "ok_called (H i) \<Longrightarrow> (\<exists>t. holds (ds_row D) (H i) t) \<or> (\<exists>r. row = Some r \<and> replays P T D r)"
    by (erule c4 [THEN conjunct1, rule_format])
  show "has_seen (ds_row D) (H i) r \<Longrightarrow> \<exists>r'. row = Some r' \<and> id_updated_at r \<le> id_updated_at r'"
    by (erule c5 [THEN conjunct1, rule_format])
  show "declined P T D (H i) t \<Longrightarrow> row = Some r \<Longrightarrow> id_updated_at r = t \<Longrightarrow> \<not> replays P T D r"
    by (erule (2) c6 [THEN conjunct1, rule_format])
  show "was_inserted (ds_row D) (H i) \<Longrightarrow> row \<noteq> None" by (erule c7 [rule_format])
qed

lemma row_invI:
  assumes "\<And>r. row = Some r \<Longrightarrow> meta_ok P D (id_metadata r)"
    and "\<And>i t. holds (ds_row D) (H i) t \<Longrightarrow> \<exists>r. row = Some r \<and> id_status r = u ''started'' \<and> id_updated_at r = t \<and> id_run_id r = run i"
    and "\<And>i j t t'. holds (ds_row D) (H i) t \<Longrightarrow> holds (ds_row D) (H j) t' \<Longrightarrow> i = j"
    and "\<And>i. ok_called (H i) \<Longrightarrow> (\<exists>t. holds (ds_row D) (H i) t) \<or> (\<exists>r. row = Some r \<and> replays P T D r)"
    and "\<And>i r. has_seen (ds_row D) (H i) r \<Longrightarrow> \<exists>r'. row = Some r' \<and> id_updated_at r \<le> id_updated_at r'"
    and "\<And>i t r. declined P T D (H i) t \<Longrightarrow> row = Some r \<Longrightarrow> id_updated_at r = t \<Longrightarrow> \<not> replays P T D r"
    and "\<And>i. was_inserted (ds_row D) (H i) \<Longrightarrow> row \<noteq> None"
  shows "row_inv P T D run H row"
  unfolding row_inv_def
  by (intro conjI allI impI)
    (erule assms(1), erule assms(2), erule (1) assms(3), erule assms(4), erule assms(5), erule (2) assms(6), erule assms(7))

text \<open>A row that nobody holds, and that cannot be replayed, is claimed by the worker \<open>i\<close>.\<close>

lemma row_inv_claim:
  assumes inv: "row_inv P T D run H row" and i: "untouched (H i)" and c: "claims c (ds_row D) now"
    and old: "\<And>r. row = Some r \<Longrightarrow> id_status r \<noteq> u ''started'' \<and> \<not> replays P T D r \<and> id_updated_at r < now"
    and new: "meta_ok P D (id_metadata r')" "id_status r' = u ''started''" "id_updated_at r' = now" "id_run_id r' = run i"
  shows "row_inv P T D run (H(i := H i @ [(c, Changed True)])) (Some r')"
proof -
  let ?H = "H(i := H i @ [(c, Changed True)])"
  have none: "\<not> holds (ds_row D) (H j) t" for j t using row_invD(2) [OF inv] old by blast
  have c': "takes_effect (c, Changed True) \<noteq> None" using claims_written [OF c] by (simp add: takes_effect_def)
  have now: "t = now" if "claims c (ds_row D) t" for t using that c by (cases c) auto
  have holds: "j = i \<and> t = now" if "holds (ds_row D) (?H j) t" for j t
    using that none holds_snoc [of "ds_row D" "H i" "(c, Changed True)" t] c' now by (auto split: if_splits)
  have "\<not> ok_called (H j)" for j using row_invD(4) [OF inv] none old by blast
  then have ok: "\<not> ok_called (?H j)" for j using c by (auto simp: ok_called_def)
  have has_seen: "id_updated_at r < now" if "has_seen (ds_row D) (?H j) r" for j r
  proof -
    have "has_seen (ds_row D) (H j) r" using that c by (auto simp: has_seen_def split: if_splits)
    then show ?thesis using row_invD(5) [OF inv] old by fastforce
  qed
  have declined: "t < now" if "declined P T D (?H j) t" for j t using declined_seen [OF that] has_seen by blast
  show ?thesis
  proof (rule row_invI)
    show "\<exists>r. Some r' = Some r \<and> id_status r = u ''started'' \<and> id_updated_at r = t \<and> id_run_id r = run j"
      if "holds (ds_row D) (?H j) t" for j t using holds [OF that] new by simp
    show "a = b" if "holds (ds_row D) (?H a) t" "holds (ds_row D) (?H b) t'" for a b t t'
      using holds [OF that(1)] holds [OF that(2)] by simp
    show "\<exists>r''. Some r' = Some r'' \<and> id_updated_at r \<le> id_updated_at r''" if "has_seen (ds_row D) (?H j) r" for j r
      using has_seen [OF that] new by simp
    show "\<not> replays P T D r" if "declined P T D (?H j) t" "Some r' = Some r" "id_updated_at r = t" for j t r
      using declined [OF that(1)] that(2,3) new(3) by simp
  qed (use new ok in simp_all)
qed

text \<open>The holder \<open>i\<close> completes.\<close>

lemma row_inv_complete:
  assumes inv: "row_inv P T D run H row" and i: "holds (ds_row D) (H i) t"
    and old: "row = Some r" and new: "meta_ok P D (id_metadata r')" "t < id_updated_at r'" "ok_called (H i) \<Longrightarrow> replays P T D r'"
    and op: "op = UpdateResult (ds_row D) status rid m now e"
  shows "row_inv P T D run (H(i := H i @ [(op, Changed True)])) (Some r')"
proof -
  let ?H = "H(i := H i @ [(op, Changed True)])"
  have r: "id_status r = u ''started''" "id_updated_at r = t" using row_invD(2) [OF inv i] old by auto
  have eff: "takes_effect (op, Changed True) \<noteq> None" by (simp add: takes_effect_def op)
  have none: "\<not> holds (ds_row D) (?H j) t'" for j t'
  proof
    assume h: "holds (ds_row D) (?H j) t'"
    show False
    proof (cases "j = i")
      case True
      then have "\<exists>c. (op, Changed True) = (c, Changed True) \<and> claims c (ds_row D) t'"
        using holds_snoc [of "ds_row D" "H i" "(op, Changed True)" t'] h eff by (simp only: fun_upd_same if_False)
      then show ?thesis using op by simp
    next
      case False
      then show ?thesis using row_invD(3) [OF inv i] h by auto
    qed
  qed
  have ok: "replays P T D r'" if "ok_called (?H j)" for j
  proof -
    have "ok_called (H j)" using that op by (auto simp: ok_called_def split: if_splits)
    then have "j = i" using row_invD(4) [OF inv, of j] row_invD(3) [OF inv i] old r(1) by (auto simp: replayable_def)
    then show ?thesis using new(3) \<open>ok_called (H j)\<close> by simp
  qed
  have has_seen: "id_updated_at x < id_updated_at r'" if "has_seen (ds_row D) (?H j) x" for j x
  proof -
    have "has_seen (ds_row D) (H j) x" using that op by (auto simp: has_seen_def split: if_splits)
    then show ?thesis using row_invD(5) [OF inv] old r(2) new(2) by fastforce
  qed
  have declined: "t' < id_updated_at r'" if "declined P T D (?H j) t'" for j t' using declined_seen [OF that] has_seen by blast
  show ?thesis
  proof (rule row_invI)
    show "\<exists>r''. Some r' = Some r'' \<and> id_updated_at x \<le> id_updated_at r''" if "has_seen (ds_row D) (?H j) x" for j x
      using has_seen [OF that] by simp
    show "\<not> replays P T D x" if "declined P T D (?H j) t'" "Some r' = Some x" "id_updated_at x = t'" for j t' x
      using declined [OF that(1)] that(2,3) by simp
    show "(\<exists>t. holds (ds_row D) (?H j) t) \<or> (\<exists>r. Some r' = Some r \<and> replays P T D r)" if "ok_called (?H j)" for j
      using ok [OF that] by simp
  qed (use new(1) none in simp_all)
qed

text \<open>A step of \<open>i\<close> that leaves the row.\<close>

lemma row_inv_other:
  assumes inv: "row_inv P T D run H row" and e: "takes_effect e = None"
    and call: "fst e = CallProvider \<Longrightarrow> \<exists>t. holds (ds_row D) (H i) t"
    and read: "\<And>x. e = (SelectRecord (ds_row D), Found x) \<Longrightarrow> x = row"
    and ins: "\<And>I m n b. e = (InsertStarted (ds_row D) I m n, Changed b) \<Longrightarrow> row \<noteq> None"
  shows "row_inv P T D run (H(i := H i @ [e])) row"
proof -
  let ?H = "H(i := H i @ [e])"
  have holds: "holds (ds_row D) (?H j) t \<longleftrightarrow> holds (ds_row D) (H j) t" for j t
    using holds_same [OF e] by simp
  have ok: "ok_called (H j) \<or> (\<exists>t. holds (ds_row D) (H j) t)" if "ok_called (?H j)" for j
    using that ok_called_snoc [of "H i" e] call by (auto split: if_splits)
  have has_seen: "\<exists>r'. row = Some r' \<and> id_updated_at r \<le> id_updated_at r'" if s: "has_seen (ds_row D) (?H j) r" for j r
  proof (cases "has_seen (ds_row D) (H j) r")
    case True
    then show ?thesis using row_invD(5) [OF inv] by blast
  next
    case False
    then have "e = (SelectRecord (ds_row D), Found (Some r))" using s by (auto simp: has_seen_def split: if_splits)
    from read [OF this] show ?thesis by auto
  qed
  have declined: "\<not> replays P T D r" if d: "declined P T D (?H j) t" and r: "row = Some r" "id_updated_at r = t" for j t r
  proof (cases "declined P T D (H j) t")
    case True
    then show ?thesis using row_invD(6) [OF inv] r by blast
  next
    case False
    then have "declined P T D (H i @ [e]) t" "j = i" using d by (auto split: if_splits)
    then show ?thesis using declined_snoc [of P T D "H i" e t] False read r by auto
  qed
  have inserted: "row \<noteq> None" if w: "was_inserted (ds_row D) (?H j)" for j
  proof (cases "was_inserted (ds_row D) (H j)")
    case True
    then show ?thesis using row_invD(7) [OF inv] by blast
  next
    case False
    then have "\<exists>I m n b. e = (InsertStarted (ds_row D) I m n, Changed b)" using w
      by (auto simp: was_inserted_def split: if_splits)
    then show ?thesis using ins by blast
  qed
  show ?thesis
  proof (rule row_invI)
    show "(\<exists>t. holds (ds_row D) (?H j) t) \<or> (\<exists>r. row = Some r \<and> replays P T D r)" if "ok_called (?H j)" for j
      using ok [OF that] row_invD(4) [OF inv, of j] unfolding holds by blast
  qed (use row_invD(1-3) [OF inv] has_seen declined inserted in \<open>(simp only: holds)?; blast\<close>)+
qed

section \<open>Steps keep it\<close>

lemma once_fits:
  assumes inv: "row_inv P T D run H (map_of (tb_records db) (ds_row D))" and e: "event_effect db op r db'"
    and a: "well_answered T op r"
  shows "fits_once P T D (H i) op r"
proof -
  have nf: "r \<noteq> Failed" using a by (simp add: well_answered_def)
  show ?thesis
  proof (cases "run_sql db op")
    case None
    then have "outside op r" using e by (auto simp: event_effect_def)
    with a show ?thesis by (cases "(op, r)" rule: outside.cases) (auto simp: fits_once_def)
  next
    case (Some dr)
    have out: "\<not> outside op r" using Some by (cases "(op, r)" rule: outside.cases) auto
    then have sql: "run_sql db op = Some (db', r)" using e nf by (auto simp: event_effect_def)
    then show ?thesis
      using a row_invD(1,7) [OF inv]
      by (cases op) (auto simp: fits_once_def update_where_cases split: option.splits if_splits)
  qed
qed

lemma changed_sql: "event_effect db op (Changed b) db' \<Longrightarrow> run_sql db op = Some (db', Changed b)"
  using outside_unchanged by (auto simp: event_effect_def)

lemma row_inv_step:
  assumes inv: "row_inv P T D run H (map_of (tb_records db) (ds_row D))" and may: "once P T D (run i) (H i) op"
    and e: "event_effect db op r db'"
  shows "row_inv P T D run (H(i := H i @ [(op, r)])) (map_of (tb_records db') (ds_row D))"
proof (cases "takes_effect (op, r)")
  case None
  have "table_change (tb_records db) (op, r) (tb_records db')"
    using e once_legal [OF may] by (auto simp: table_change_def)
  from idem_table.kept [OF this] None have row: "map_of (tb_records db') (ds_row D) = map_of (tb_records db) (ds_row D)"
    by simp
  show ?thesis
    unfolding row
  proof (rule row_inv_other [OF inv None])
    show "\<exists>t. holds (ds_row D) (H i) t" if "fst (op, r) = CallProvider" using may that by (simp add: once_def)
    show "x = map_of (tb_records db) (ds_row D)" if "(op, r) = (SelectRecord (ds_row D), Found x)" for x
      using e that by (auto simp: event_effect_def)
    show "map_of (tb_records db) (ds_row D) \<noteq> None" if "(op, r) = (InsertStarted (ds_row D) I m n, Changed b)" for I m n b
    proof -
      have "b = False" using None that by (auto simp: takes_effect_def)
      then show ?thesis using changed_sql [of db op b db'] e that by (auto split: option.splits)
    qed
  qed
next
  case (Some kv)
  obtain v where kv: "kv = (ds_row D, v)" using once_row [OF may] Some by (cases kv) blast
  have r: "r = Changed True" "written_row op = Some (ds_row D, v)"
    using Some by (auto simp: takes_effect_def kv split: if_splits)
  have sql: "run_sql db op = Some (db', Changed True)" using changed_sql e r(1) by blast
  let ?row = "map_of (tb_records db) (ds_row D)"
  consider (ins) I m now where "op = InsertStarted (ds_row D) I m now" | (own) I status ex now where "op = UpdateOwner (ds_row D) I status ex now"
    | (res) status rid m now ex where "op = UpdateResult (ds_row D) status rid m now ex"
    using r(2) may by (cases op) (auto simp: once_def)
  then show ?thesis
  proof cases
    case ins
    then have "?row = None" "map_of (tb_records db') (ds_row D) = Some (started_record I m now)"
      using sql by (auto split: option.splits)
    then show ?thesis
      using may row_inv_claim [OF inv, of i op now "started_record I m now"]
      by (auto simp: once_def ins r(1) started_record_def)
  next
    case own
    then obtain old t where old: "?row = Some old" "ex = Some t" "id_updated_at old = t" "id_status old = status" "t < now"
      "map_of (tb_records db') (ds_row D) = Some (owned_record I now old)"
      using sql may by (auto simp: update_where_cases matches_def once_def split: if_splits option.splits)
    have "\<not> replays P T D old"
    proof
      assume "replays P T D old"
      then have "declined P T D (H i) t" using may old by (auto simp: once_def own replayable_def)
      with row_invD(6) [OF inv this old(1,3)] \<open>replays P T D old\<close> show False by simp
    qed
    then show ?thesis
      using may old row_inv_claim [OF inv, of i op now "owned_record I now old"] row_invD(1) [OF inv]
      by (auto simp: once_def own r(1) owned_record_def)
  next
    case res
    then obtain old t where old: "?row = Some old" "ex = Some t" "id_updated_at old = t" "t < now" "holds (ds_row D) (H i) t"
      "map_of (tb_records db') (ds_row D) = Some (result_record status rid m now old)"
      using sql may by (auto simp: update_where_cases matches_def once_def split: if_splits option.splits)
    have run: "id_run_id old = run i" using row_invD(2) [OF inv old(5)] old(1) by auto
    show ?thesis
      unfolding old(6) r(1)
      by (rule row_inv_complete [OF inv old(5,1)])
        (use may old(2,4) run in \<open>auto simp: once_def res result_record_def replayable_def\<close>)
  qed
qed

lemma row_inv_start: "row_inv P T D run (\<lambda>i. []) None"
  by (auto simp: row_inv_def holds_def ok_called_def has_seen_def declined_def was_inserted_def)

text \<open>The assumptions of this theory about an execution.\<close>

definition orderly :: "prims \<Rightarrow> text_io \<Rightarrow> dispatch \<Rightarrow> (nat \<Rightarrow> invoker) \<Rightarrow> (nat \<Rightarrow> execution_identity) \<Rightarrow> idem_db \<Rightarrow> event list \<Rightarrow> bool" where
  "orderly P T D cs I db0 tr \<longleftrightarrow> (\<forall>i. dispatches P D (cs i) (I i)) \<and> map_of (tb_records db0) (ds_row D) = None \<and>
     (\<forall>i op r. Did i op r \<in> set tr \<longrightarrow> well_answered T op r)"

lemma once_invariant:
  assumes "exec (workers P T cs) db0 tr db W" and "orderly P T D cs I db0 tr"
  shows "row_inv P T D (\<lambda>i. ei_run_id (I i)) (\<lambda>i. own i tr) (map_of (tb_records db) (ds_row D)) \<and>
    (\<forall>i. wp_once P T D (ei_run_id (I i)) (W i) (own i tr) (\<lambda>_ _. True))"
  using assms
proof (induction rule: exec_induct)
  case start
  then show ?case using row_inv_start once_durable_call by (auto simp: orderly_def)
next
  case (event tr db W i op k r db')
  have ord: "orderly P T D cs I db0 tr" and a: "well_answered T op r" using event.prems by (auto simp: orderly_def)
  from event.IH [OF ord] have inv: "row_inv P T D (\<lambda>i. ei_run_id (I i)) (\<lambda>i. own i tr) (map_of (tb_records db) (ds_row D))"
    and w: "\<And>j. wp_once P T D (ei_run_id (I j)) (W j) (own j tr) (\<lambda>_ _. True)" by blast+
  have s: "once P T D (ei_run_id (I i)) (own i tr) op"
    "fits_once P T D (own i tr) op r \<Longrightarrow> wp_once P T D (ei_run_id (I i)) (k r) (own i tr @ [(op, r)]) (\<lambda>_ _. True)"
    using w [of i] event.hyps(2) by simp_all
  have H: "(\<lambda>j. own j (tr @ [Did i op r])) = (\<lambda>j. own j tr)(i := own i tr @ [(op, r)])" by auto
  have "row_inv P T D (\<lambda>i. ei_run_id (I i)) (\<lambda>j. own j (tr @ [Did i op r])) (map_of (tb_records db') (ds_row D))"
    unfolding H by (rule row_inv_step [OF inv _ event.hyps(3)]) (rule s(1))
  moreover have "wp_once P T D (ei_run_id (I j)) ((W(i := k r)) j) (own j (tr @ [Did i op r])) (\<lambda>_ _. True)" for j
    using w s(2) [OF once_fits [OF inv event.hyps(3) a]] by auto
  ultimately show ?case by blast
next
  case (others tr db W rs)
  then show ?case by simp
qed

lemma orderly_prefix: "orderly P T D cs I db0 (a @ b) \<Longrightarrow> orderly P T D cs I db0 a"
  by (auto simp: orderly_def)

text \<open>What is known just before the step of an execution.\<close>

lemma once_before:
  assumes "exec (workers P T cs) db0 (as @ [Did i op r] @ bs) db W" and "orderly P T D cs I db0 (as @ [Did i op r] @ bs)"
  obtains row where "row_inv P T D (\<lambda>i. ei_run_id (I i)) (\<lambda>i. own i as) row"
    and "once P T D (ei_run_id (I i)) (own i as) op"
proof -
  obtain db1 W1 k where x: "exec (workers P T cs) db0 as db1 W1" "W1 i = Stmt op k"
    using exec_prefix [OF assms(1) refl] by blast
  from once_invariant [OF x(1) orderly_prefix [OF assms(2)]]
  have inv: "row_inv P T D (\<lambda>i. ei_run_id (I i)) (\<lambda>i. own i as) (map_of (tb_records db1) (ds_row D))"
    and w: "wp_once P T D (ei_run_id (I i)) (W1 i) (own i as) (\<lambda>_ _. True)" by blast+
  have "once P T D (ei_run_id (I i)) (own i as) op" using w x(2) by simp
  with inv show ?thesis by (rule that)
qed

text \<open>Two calls do not overlap: between them the first caller ends its hold on the row.\<close>

lemma calls_do_not_overlap:
  assumes "exec (workers P T cs) db0 (as @ [Did i CallProvider r] @ bs @ [Did j CallProvider r'] @ fs) db W"
    and "orderly P T D cs I db0 (as @ [Did i CallProvider r] @ bs @ [Did j CallProvider r'] @ fs)"
  shows "\<exists>op v. Did i op (Changed True) \<in> set bs \<and> written_row op = Some (ds_row D, v)"
proof (rule ccontr)
  let ?as = "as @ [Did i CallProvider r] @ bs"
  have x: "exec (workers P T cs) db0 (?as @ [Did j CallProvider r'] @ fs) db W"
    and o: "orderly P T D cs I db0 (?as @ [Did j CallProvider r'] @ fs)" using assms by simp_all
  assume none: "\<not> ?thesis"
  obtain t where i: "holds (ds_row D) (own i as) t" using once_before [OF assms] by (auto simp: once_def)
  obtain row where inv: "row_inv P T D (\<lambda>i. ei_run_id (I i)) (\<lambda>i. own i ?as) row"
    and may: "once P T D (ei_run_id (I j)) (own j ?as) CallProvider" using once_before [OF x o] by blast
  have "takes_effect e = None" if e: "e \<in> set (own i ([Did i CallProvider r] @ bs))" for e
  proof -
    obtain op q where op: "e = (op, q)" by (cases e)
    show ?thesis
    proof (cases "(op, q) \<in> set (own i bs)")
      case False
      then show ?thesis using e op by (simp add: takes_effect_def)
    next
      case True
      then obtain b1 b2 where bs: "bs = b1 @ [Did i op q] @ b2"
        using own_member by (metis append_Cons append_Nil split_list)
      have "exec (workers P T cs) db0 ((as @ [Did i CallProvider r] @ b1) @ [Did i op q] @ (b2 @ [Did j CallProvider r'] @ fs)) db W"
        "orderly P T D cs I db0 ((as @ [Did i CallProvider r] @ b1) @ [Did i op q] @ (b2 @ [Did j CallProvider r'] @ fs))"
        using assms by (simp_all add: bs)
      from once_before [OF this] have o: "once P T D (ei_run_id (I i)) (own i (as @ [Did i CallProvider r] @ b1)) op" by blast
      show ?thesis
      proof (rule ccontr)
        assume "takes_effect e \<noteq> None"
        then obtain k v where "takes_effect (op, q) = Some (k, v)" by (auto simp: op)
        moreover from this have "k = ds_row D" by (rule once_row [OF o])
        ultimately show False using none bs by (auto simp: takes_effect_def split: if_splits)
      qed
    qed
  qed
  then have "holds (ds_row D) (own i ?as) t"
    using holds_extend [OF i, of "own i ([Did i CallProvider r] @ bs)"] by simp
  moreover obtain t' where j: "holds (ds_row D) (own j ?as) t'" "\<not> called (own j ?as)" using may by (auto simp: once_def)
  ultimately have "i = j" using row_invD(3) [OF inv] by blast
  then show False using j(2) by (auto simp: called_def)
qed

end
