(* ===== verification/Attempts.thy ===== *)
theory Attempts
  imports EffectivelyOnce
begin

text \<open>
  A worker that runs alone to its end: a deterministic interpreter of its program, given the
  answers from outside, and the execution it is; with a small worker for the examples.
\<close>

section \<open>Running alone\<close>

primrec alone :: "(statement \<Rightarrow> reply) \<Rightarrow> 'x prog \<Rightarrow> idem_db \<Rightarrow> hist \<times> 'x \<times> idem_db" where
  "alone env (Return x) db = ([], x, db)"
| "alone env (Stmt op k) db =
     (let (db', r) = (case run_sql db op of Some dr \<Rightarrow> dr | None \<Rightarrow> (db, env op));
          (h, x, db'') = alone env (k r) db'
      in ((op, r) # h, x, db''))"

text \<open>The outside answers every statement that is no SQL.\<close>

definition answering :: "(statement \<Rightarrow> reply) \<Rightarrow> bool" where
  "answering env \<longleftrightarrow> outside UtcNow (env UtcNow) \<and> outside EffectsNow (env EffectsNow) \<and>
     outside CallProvider (env CallProvider) \<and> outside CallResult (env CallResult)"

definition own_events :: "nat \<Rightarrow> hist \<Rightarrow> event list" where
  "own_events i h = map (\<lambda>(op, r). Did i op r) h"

lemma alone_exec:
  assumes "answering env" and "exec W0 db0 tr db W" and "W i = p" and "alone env p db = (h, x, db')"
  shows "exec W0 db0 (tr @ own_events i h) db' (W(i := Return x))"
  using assms(2-)
proof (induction p arbitrary: tr db W h)
  case (Return y)
  then have "h = []" "x = y" "db' = db" "W(i := Return x) = W" by auto
  with Return.prems show ?case by (simp add: own_events_def)
next
  case (Stmt op k)
  obtain db1 r where s: "(case run_sql db op of Some dr \<Rightarrow> dr | None \<Rightarrow> (db, env op)) = (db1, r)" by fastforce
  obtain h' where h: "h = (op, r) # h'" "alone env (k r) db1 = (h', x, db')"
    using Stmt.prems(3) s by (auto split: prod.splits)
  have "exec W0 db0 (tr @ [Did i op r]) db1 (W(i := k r))"
  proof (cases "run_sql db op")
    case None
    then have "outside op r" "db1 = db" using assms(1) s by (cases op; auto simp: answering_def)+
    then show ?thesis using exec_outside [OF Stmt.prems(1,2)] by simp
  next
    case (Some dr)
    then show ?thesis using exec_sql [OF Stmt.prems(1,2)] s by simp
  qed
  from Stmt.IH [OF rangeI this fun_upd_same h(2)] show ?case
    unfolding h(1) own_events_def fun_upd_upd by simp
qed

lemma alone_pbind [simp]:
  "alone env (pbind p f) db =
     (case alone env p db of (h, x, db1) \<Rightarrow> case alone env (f x) db1 of (h', y, db2) \<Rightarrow> (h @ h', y, db2))"
  by (induction p arbitrary: db) (auto simp: Let_def split: prod.splits)

lemma alone_sbind:
  "alone env (sbind p f) db =
     (case alone env p db of (h, Inl e, db1) \<Rightarrow> (h, Inl e, db1)
      | (h, Inr x, db1) \<Rightarrow> (case alone env (f x) db1 of (h', y, db2) \<Rightarrow> (h @ h', y, db2)))"
  by (auto simp: sbind_def split: prod.splits sum.splits)

lemma alone_ibind:
  "alone env (ibind p f s) db =
     (case alone env (p s) db of (h, (s', Inl e), db1) \<Rightarrow> (h, (s', Inl e), db1)
      | (h, (s', Inr x), db1) \<Rightarrow> (case alone env (f x s') db1 of (h', y, db2) \<Rightarrow> (h @ h', y, db2)))"
  by (auto simp: ibind_def split: prod.splits sum.splits)

lemma alone_itry:
  "alone env (itry p g f s) db =
     (case alone env (p s) db of (h, (s', Inl e), db1) \<Rightarrow> (case alone env (g e s') db1 of (h', y, db2) \<Rightarrow> (h @ h', y, db2))
      | (h, (s', Inr x), db1) \<Rightarrow> (case alone env (f x s') db1 of (h', y, db2) \<Rightarrow> (h @ h', y, db2)))"
  by (auto simp: itry_def split: prod.splits sum.splits)

lemma alone_ilift:
  "alone env (ilift p s) db = (case alone env p db of (h, x, db1) \<Rightarrow> (h, (s, x), db1))"
  by (simp add: ilift_def split: prod.splits)

lemma alone_leaf [simp]:
  "alone env (ireturn x s) db = ([], (s, Inr x), db)"
  "alone env (iraise e s) db = ([], (s, Inl e), db)"
  "alone env (imodify f s) db = ([], (f s, Inr ()), db)"
  "alone env (audit_failure s) db = ([], (s\<lparr>is_audit_failures := Suc (is_audit_failures s)\<rparr>, Inr ()), db)"
  by (simp_all add: ireturn_def iraise_def imodify_def audit_failure_def)

lemma alone_ask:
  "alone env (ask op sel) db =
     (case (case run_sql db op of Some dr \<Rightarrow> dr | None \<Rightarrow> (db, env op)) of (db1, r) \<Rightarrow>
        ([(op, r)], (case sel r of None \<Rightarrow> Inl DatabaseError | Some x \<Rightarrow> Inr x), db1))"
  by (simp add: ask_def split: prod.splits option.splits)

lemmas alone_rules = alone_sbind alone_ibind alone_itry alone_ilift alone_ask

section \<open>Attempts\<close>

text \<open>A quiet program calls no provider and leaves the records.\<close>

lemma alone_quiet:
  assumes "quiet p" and "alone env p db = (h, x, db')"
  shows "quietly [] h \<and> tb_records db' = tb_records db"
  using assms
proof (induction p arbitrary: h db)
  case (Stmt op k)
  obtain db1 r where s: "(case run_sql db op of Some dr \<Rightarrow> dr | None \<Rightarrow> (db, env op)) = (db1, r)" by fastforce
  obtain h' where h: "h = (op, r) # h'" "alone env (k r) db1 = (h', x, db')"
    using Stmt.prems(2) s by (auto split: prod.splits)
  have op: "harmless op" and k: "quiet (k r)" using Stmt.prems(1) by simp_all
  have "tb_records db1 = tb_records db" using s op by (cases op) auto
  then show ?case using Stmt.IH [OF rangeI k h(2)] op by (simp add: h(1) quietly_def)
qed simp_all

lemma not_called_append [simp]: "called (h @ h') \<longleftrightarrow> called h \<or> called h'"
  by (auto simp: called_def)

lemma called_Cons [simp]: "called ((op, r) # h) \<longleftrightarrow> op = CallProvider \<or> called h"
  by (auto simp: called_def)

lemma called_Nil [simp]: "\<not> called []"
  by (simp add: called_def)

lemma quietly_not_called: "quietly [] h \<Longrightarrow> \<not> called h"
  using called_quietly [of "[]" h] by simp

text \<open>A lost begin: nothing changes but the receipts, and an other operation is an error.\<close>

lemma alone_lost_begin:
  assumes I: "ei_idempotency_key I = ds_idempotency_key D" "is_ok (require_for_dispatch I)" and key: "ds_side_effect_key D \<noteq> []"
    and m: "dumped_column P m = Inr column" and row: "map_of (tb_records db) (ds_row D) = Some r"
    and t: "env UtcNow = Time t"
    and run: "alone env (try_begin_with_token P T I (ds_side_effect_key D) m None least) db = (h, y, db')"
  shows "\<not> called h \<and> tb_records db' = tb_records db \<and>
    (let old = operation_hash P (id_metadata r); new = operation_hash P m in
     if old \<noteq> [] \<and> new \<noteq> [] \<and> old \<noteq> new then \<exists>e. y = Inl e else y = Inr None)"
proof -
  obtain J where J: "require_for_dispatch I = Inr J" using I(2) by (auto simp: is_ok_iff)
  let ?h = "handle_existing_idempotency_record P T I (ds_row D) r m None"
  obtain h1 y1 db1 where b: "alone env ?h db = (h1, y1, db1)" by (cases "alone env ?h db") auto
  have "alone env (try_begin_with_token P T I (ds_side_effect_key D) m None least) db =
    ((UtcNow, Time t) # (InsertStarted (ds_row D) I column (next_idempotency_token t None least), Changed False) #
     (SelectRecord (ds_row D), Found (Some r)) # h1, (case y1 of Inl e \<Rightarrow> Inl e | Inr _ \<Rightarrow> Inr None), db1)"
    using I(1) J key m row t b
    by (simp add: try_begin_with_token_def Let_def utc_now_def get_idempotency_record_def alone_rules split: sum.splits)
  with run have h: "h = (UtcNow, Time t) # (InsertStarted (ds_row D) I column (next_idempotency_token t None least), Changed False) #
     (SelectRecord (ds_row D), Found (Some r)) # h1" "y = (case y1 of Inl e \<Rightarrow> Inl e | Inr _ \<Rightarrow> Inr None)" "db' = db1" by simp_all
  have "quiet ?h"
    unfolding handle_existing_idempotency_record_def Let_def holder_is_stale_def
    by (auto intro!: quiet_sbind quiet_records)
  from alone_quiet [OF this b] have q: "\<not> called h1" "tb_records db1 = tb_records db" using quietly_not_called by blast+
  moreover have "if operation_hash P (id_metadata r) \<noteq> [] \<and> operation_hash P m \<noteq> [] \<and> operation_hash P (id_metadata r) \<noteq> operation_hash P m
     then \<exists>e. y1 = Inl e else y1 = Inr ()"
    using b J m
    by (auto simp: handle_existing_idempotency_record_def Let_def holder_is_stale_def alone_rules record_idempotency_consumed_def
        record_receipt_for_identity_def build_runtime_receipt_def record_runtime_receipt_def split: prod.splits sum.splits)
  ultimately show ?thesis using h by (auto simp: Let_def split: if_splits)
qed

lemma alone_missed:
  assumes "ei_idempotency_key claim = ds_idempotency_key D" and "iv_side_effect_key c = ds_side_effect_key D"
    and "\<And>r. map_of (tb_records db) (ds_row D) = Some r \<Longrightarrow> id_status r \<noteq> u ''completed''"
  shows "alone env (check_memo P T c (ds_task D) claim s) db =
    ([(SelectRecord (ds_row D), Found (map_of (tb_records db) (ds_row D)))], (s, Inr None), db)"
  using assms by (auto simp: check_memo_def get_idempotency_record_def alone_rules split: option.splits)

text \<open>A completed dispatch.\<close>

lemma alone_replay:
  assumes d: "dispatches P D c I" and row: "map_of (tb_records db) (ds_row D) = Some r" "replays P T D r"
    and result: "is_ok (decode_memo_result T (id_metadata r))"
    and run: "alone env (durable_call P T c s) db = (h, (s', y), db')"
  shows "(\<exists>m. y = Inr m) \<and> is_memo_hit s' \<and> \<not> called h \<and> tb_records db' = tb_records db"
proof -
  obtain claim where c: "claim_fits D (ei_run_id I) c I claim"
    and call: "durable_call P T c s = ibind (check_memo P T c (ds_task D) claim)
      (\<lambda>memo. case memo of Some r \<Rightarrow> ireturn r | None \<Rightarrow> attempt P T c D I claim) s"
    by (rule durable_call_is [OF d])
  then have key: "ei_idempotency_key claim = ds_idempotency_key D" "iv_side_effect_key c = ds_side_effect_key D"
    by (simp_all add: claim_fits_def)
  obtain h1 s1 y1 db1 where m: "alone env (check_memo P T c (ds_task D) claim s) db = (h1, (s1, y1), db1)"
    by (metis surj_pair)
  have q: "\<not> called h1" "tb_records db1 = tb_records db"
    using alone_quiet [OF quiet_check_memo m] quietly_not_called by blast+
  obtain receipt where memo: "memo_from_record P T c (ds_idempotency_key D) r (ds_task D) = ireturn (Some receipt)"
    using row(2) memo_replayed [of P T _ c] key(2) by (metis replayable_def)
  obtain v where v: "decode_memo_result T (id_metadata r) = Inr v" using result by (auto simp: is_ok_iff)
  have "y1 = Inr (Some receipt) \<and> is_memo_hit s1"
    using m row memo v
    by (auto simp: check_memo_def get_idempotency_record_def alone_rules key replayable_def memo_ok_def split: prod.splits sum.splits)
  with run m q show ?thesis by (auto simp: call alone_ibind)
qed

text \<open>A dispatch without a record.\<close>

lemma named_shape_ok:
  assumes "named d" and "\<And>k v. (k, v) \<in> set d \<Longrightarrow> is_ok (json_shape P v)"
  shows "is_ok (json_shape P (PDict d))"
proof -
  let ?e = "map (\<lambda>(k, v). (k, projr (json_shape P v))) (sort_str d)"
  have "list_all2 (shaped P) (sort_str d) ?e"
    using assms(2) by (fastforce simp: list_all2_map2 list_all2_same shaped_def is_ok_iff)
  with json_shape_dict [of d P "PDict ?e"] assms(1) show ?thesis by (auto simp: named_def is_ok_iff)
qed

lemma begin_column: "dumped_column P (begin_metadata h t) = Inr (begin_metadata h t)"
proof -
  have "sort_str (begin_metadata h t) = begin_metadata h t" by (simp add: begin_metadata_def u_def)
  then have "json_shape P (PDict (begin_metadata h t)) = Inr (PDict (begin_metadata h t))"
    by (subst json_shape_dict) (auto simp: begin_metadata_def is_str_def shaped_def)
  then show ?thesis by (auto simp: dumped_column_Inr)
qed

lemma alone_receipt:
  assumes "require_for_dispatch I = Inr J" and "dumped_column P payload = Inr column"
  shows "\<exists>rr. alone env (record_receipt_for_identity P I type status key payload) db =
    ([(InsertReceipt rr, Inserted)], Inr (), db\<lparr>tb_receipts := tb_receipts db @ [rr]\<rparr>)"
  using assms by (simp add: record_receipt_for_identity_def build_runtime_receipt_def record_runtime_receipt_def alone_rules)

lemma alone_begin:
  assumes I: "ei_idempotency_key I = ds_idempotency_key D" "require_for_dispatch I = Inr J" and key: "ds_side_effect_key D \<noteq> []"
    and m: "dumped_column P m = Inr column" and row: "map_of (tb_records db) (ds_row D) = None" and t: "env UtcNow = Time t"
  shows "\<exists>r1 r2 rs. alone env (try_begin_with_token P T I (ds_side_effect_key D) m None (Some t')) db =
    ([(UtcNow, Time t), (InsertStarted (ds_row D) I column (max t t'), Changed True), (InsertReceipt r1, Inserted), (InsertReceipt r2, Inserted)],
     Inr (Some (max t t')),
     db\<lparr>tb_records := dset (ds_row D) (started_record I column (max t t')) (tb_records db), tb_receipts := rs\<rparr>)"
proof -
  have "next_idempotency_token t None (Some t') = max t t'" by (simp add: next_idempotency_token_def)
  then show ?thesis
    using I key m row t
    by (simp add: try_begin_with_token_def Let_def utc_now_def alone_rules record_idempotency_consumed_def record_side_effect_intent_def
        record_receipt_for_identity_def build_runtime_receipt_def record_runtime_receipt_def)
      (rule exI, rule refl)
qed

text \<open>The memo of a receipt, and the row its completion leaves.\<close>

definition memo_entries :: "dispatch \<Rightarrow> (pyval \<times> pyval) list \<Rightarrow> (pyval \<times> pyval) list" where
  "memo_entries D blob =
     [(PStr (u ''operation_hash''), PStr (ds_hash D)), (PStr (u ''receipt''), PDict blob),
      (PStr (u ''result_json''), PNone), (PStr (u ''result_omitted_reason''), PNone)]"

lemma memo_column:
  assumes "is_ok (json_shape P (PDict blob))"
  obtains column where "dumped_column P (dmerge (begin_metadata (ds_hash D) (ds_task D)) (memo_entries D blob)) = Inr column"
    and "vget column (u ''result_json'') = PNone"
proof -
  let ?m = "[(PStr (u ''operation_hash''), PStr (ds_hash D)), (PStr (u ''task_id''), PStr (ds_task D)),
      (PStr (u ''receipt''), PDict blob), (PStr (u ''result_json''), PNone), (PStr (u ''result_omitted_reason''), PNone)]"
  have m: "dmerge (begin_metadata (ds_hash D) (ds_task D)) (memo_entries D blob) = ?m"
    by (simp add: dmerge_def begin_metadata_def memo_entries_def)
  have n: "named ?m" by (simp add: named_def is_str_def)
  have "is_ok (json_shape P (PDict ?m))" using assms by (intro named_shape_ok [OF n]) auto
  then obtain column where column: "dumped_column P ?m = Inr column" by (auto simp: dumped_column_Inr is_ok_iff)
  have "map_of ?m (PStr (u ''result_json'')) = Some PNone" by simp
  from dumped_column_lookup(2) [OF n column this] have "vget column (u ''result_json'') = PNone" by (auto simp: vget_map_of)
  with column that show ?thesis by (simp add: m)
qed

lemma alone_complete:
  assumes c: "claim_fits D run c I claim" and t: "env UtcNow = Time t'"
    and row: "map_of (tb_records db) (ds_row D) = Some r" "id_status r = u ''started''" "id_updated_at r = t"
    and column: "dumped_column P (dmerge (id_metadata r) meta) = Inr column"
  shows "\<exists>h s' db' now. alone env (complete_fail_open P c claim status rid meta (Some t) s) db = (h, (s', Inr ()), db') \<and>
    map_of (tb_records db') (ds_row D) = Some (result_record status rid column now r) \<and> \<not> called h \<and>
    (UpdateResult (ds_row D) status rid column now (Some t), Changed True) \<in> set h"
proof -
  from c obtain J where J: "ei_idempotency_key claim = ds_idempotency_key D" "require_for_dispatch claim = Inr J"
    and key: "iv_side_effect_key c = ds_side_effect_key D" by (rule claim_fitsD)
  let ?now = "next_idempotency_token t' (Some t) None"
  let ?row = "result_record status rid column ?now r"
  let ?db = "db\<lparr>tb_records := dset (ds_row D) ?row (tb_records db)\<rparr>"
  let ?rec = "record_side_effect_complete P claim (ds_side_effect_key D) status rid (dmerge (id_metadata r) meta)"
  obtain h1 y1 db1 where rec: "alone env ?rec ?db = (h1, y1, db1)" by (metis surj_pair)
  have q: "\<not> called h1" "tb_records db1 = tb_records ?db"
    using alone_quiet [OF quiet_records(5) rec] quietly_not_called by blast+
  have "run_sql db (UpdateResult (ds_row D) status rid column ?now (Some t)) = Some (?db, Changed True)"
    using row by (simp add: update_where_cases matches_def)
  then show ?thesis
    unfolding complete_fail_open_def key
    using J row(1) column t rec q
    by (cases y1) (auto simp: complete_idempotent_side_effect_def Let_def utc_now_def get_idempotency_record_def alone_rules
        merge_idempotency_metadata_def key)
qed

lemma alone_execute:
  assumes c: "claim_fits D run c I claim" and t: "env UtcNow = Time t'" and x: "env CallProvider = Returned x" "is_ok_receipt x"
    and res: "env CallResult = Gave None"
    and row: "map_of (tb_records db) (ds_row D) = Some r" "id_status r = u ''started''" "id_updated_at r = t"
    and blob: "receipt_to_dict P T (bind_receipt c I claim (ds_task D) x) = Inr blob"
    and column: "dumped_column P (dmerge (id_metadata r) (memo_entries D blob)) = Inr column"
  shows "\<exists>h s' db' now rid. alone env (execute_claimed P T c I claim (ds_task D) (ds_hash D) (Some t) s) db =
      ((CallProvider, Returned x) # h, (s', Inr (bind_receipt c I claim (ds_task D) x)), db') \<and>
    map_of (tb_records db') (ds_row D) = Some (result_record (u ''completed'') rid column now r) \<and> \<not> called h \<and>
    (UpdateResult (ds_row D) (u ''completed'') rid column now (Some t), Changed True) \<in> set h"
proof -
  let ?r = "bind_receipt c I claim (ds_task D) x"
  let ?meta = "dmerge (memo_entries D blob) []"
  have meta: "?meta = memo_entries D blob" by (simp add: dmerge_def)
  have ok: "is_ok_receipt ?r" using x(2) by (simp add: bound_status)
  from alone_complete [where s = s and env = env and D = D and t = t and t' = t' and meta = "memo_entries D blob" and r = r and status = "u ''completed''" and rid = "field_str P T (er_receipt_id ?r)", OF c t row column]
  obtain h s' db' now where
    "alone env (complete_fail_open P c claim (u ''completed'') (field_str P T (er_receipt_id ?r)) (memo_entries D blob) (Some t) s) db = (h, (s', Inr ()), db')"
    "map_of (tb_records db') (ds_row D) = Some (result_record (u ''completed'') (field_str P T (er_receipt_id ?r)) column now r)" "\<not> called h"
    "(UpdateResult (ds_row D) (u ''completed'') (field_str P T (er_receipt_id ?r)) column now (Some t), Changed True) \<in> set h" by blast
  moreover have "execute_claimed P T c I claim (ds_task D) (ds_hash D) (Some t) s =
     itry (ilift call_provider)
       (\<lambda>e. ibind (complete_fail_open P c claim (u ''failed'') [] [(PStr (u ''operation_hash''), PStr (ds_hash D))] (Some t))
         (\<lambda>_. iraise e))
       (\<lambda>answer.
         let receipt = bind_receipt c I claim (ds_task D) answer; ok = is_ok_receipt receipt in
         ibind (ilift (lift (raised (receipt_to_dict P T receipt)))) (\<lambda>blob.
         ibind (if ok \<and> iv_result_provider c then ilift call_result else ireturn None) (\<lambda>result.
         ibind (ilift (lift (raised (case result of None \<Rightarrow> Inr [] | Some v \<Rightarrow> encode_memo_result T v)))) (\<lambda>memo.
         ibind (complete_fail_open P c claim (if ok then u ''completed'' else u ''failed'')
             (field_str P T (er_receipt_id receipt)) (dmerge (memo_entries D blob) memo) (Some t)) (\<lambda>_.
           ireturn receipt))))) s"
    by (simp add: execute_claimed_def memo_entries_def)
  ultimately show ?thesis
    using x(1) res by (auto simp: alone_rules call_provider_def call_result_def Let_def ok blob meta)
qed

text \<open>A fresh dispatch calls the provider once, returns its receipt and leaves a row that can be replayed.\<close>

lemma alone_fresh:
  assumes d: "dispatches P D c I" and row: "map_of (tb_records db) (ds_row D) = None"
    and env: "env UtcNow = Time t" "env EffectsNow = Time t'" "env CallProvider = Returned x" "env CallResult = Gave None"
    and x: "is_ok_receipt x" "readable T x"
    and claim: "with_updates I [(u ''idempotency_key'', ds_idempotency_key D)] [] = Inr claim"
    and blob: "receipt_to_dict P T (bind_receipt c I claim (ds_task D) x) = Inr blob" "is_ok (json_shape P (PDict blob))"
  shows "\<exists>as bs s' db' r. alone env (durable_call P T c s) db =
      (as @ [(CallProvider, Returned x)] @ bs, (s', Inr (bind_receipt c I claim (ds_task D) x)), db') \<and>
    \<not> called as \<and> \<not> called bs \<and> map_of (tb_records db') (ds_row D) = Some r \<and> replays P T D r \<and>
    vget (id_metadata r) (u ''result_json'') = PNone \<and>
    (\<exists>m rid column now. (InsertStarted (ds_row D) claim m (max t t'), Changed True) \<in> set as \<and>
      (UpdateResult (ds_row D) (u ''completed'') rid column now (Some (max t t')), Changed True) \<in> set bs)"
proof -
  obtain claim' where w: "with_updates I [(u ''idempotency_key'', ds_idempotency_key D)] [] = Inr claim'"
    and c': "claim_fits D (ei_run_id I) c I claim'"
    and call': "durable_call P T c s = ibind (check_memo P T c (ds_task D) claim')
      (\<lambda>memo. case memo of Some r \<Rightarrow> ireturn r | None \<Rightarrow> attempt P T c D I claim') s"
    by (rule durable_call_is [OF d])
  have same: "claim' = claim" using w claim by simp
  note c = c' [unfolded same] and call = call' [unfolded same]
  from c obtain J where J: "ei_idempotency_key claim = ds_idempotency_key D" "ei_run_id claim = ei_run_id I" "require_for_dispatch claim = Inr J"
    and key: "iv_side_effect_key c = ds_side_effect_key D" "ds_side_effect_key D \<noteq> []" by (rule claim_fitsD)
  let ?m = "begin_metadata (ds_hash D) (ds_task D)" and ?t = "max t t'"
  obtain r1 r2 rs where begun: "alone env (try_begin_with_token P T claim (ds_side_effect_key D) ?m None (Some t')) db =
    ([(UtcNow, Time t), (InsertStarted (ds_row D) claim ?m ?t, Changed True), (InsertReceipt r1, Inserted), (InsertReceipt r2, Inserted)],
     Inr (Some ?t), db\<lparr>tb_records := dset (ds_row D) (started_record claim ?m ?t) (tb_records db), tb_receipts := rs\<rparr>)"
    using alone_begin [where env = env and t' = t', OF J(1,3) key(2) begin_column row env(1)] by blast
  let ?db = "db\<lparr>tb_records := dset (ds_row D) (started_record claim ?m ?t) (tb_records db), tb_receipts := rs\<rparr>"
  have started: "map_of (tb_records ?db) (ds_row D) = Some (started_record claim ?m ?t)"
    "id_status (started_record claim ?m ?t) = u ''started''" "id_updated_at (started_record claim ?m ?t) = ?t"
    "id_metadata (started_record claim ?m ?t) = ?m" "id_run_id (started_record claim ?m ?t) = ei_run_id claim"
    by (simp_all add: started_record_def)
  obtain column where column: "dumped_column P (dmerge ?m (memo_entries D blob)) = Inr column" "vget column (u ''result_json'') = PNone"
    using memo_column [OF blob(2)] by blast
  obtain h s' db' now rid where run: "alone env (execute_claimed P T c I claim (ds_task D) (ds_hash D) (Some ?t) s) ?db =
      ((CallProvider, Returned x) # h, (s', Inr (bind_receipt c I claim (ds_task D) x)), db')"
    "map_of (tb_records db') (ds_row D) = Some (result_record (u ''completed'') rid column now (started_record claim ?m ?t))" "\<not> called h"
    "(UpdateResult (ds_row D) (u ''completed'') rid column now (Some ?t), Changed True) \<in> set h"
    using alone_execute [where s = s, OF c env(1,3) x(1) env(4) started(1-3) blob(1)] column(1) started(4) by metis
  have missed: "alone env (check_memo P T c (ds_task D) claim s) db = ([(SelectRecord (ds_row D), Found None)], (s, Inr None), db)"
    using alone_missed [where s = s and db = db and env = env and P = P and T = T, OF J(1) key(1)] row by simp
  have "memo_of P T D (ei_run_id I) column"
    using completed_memo_ok [where memo = "[]" and old = ?m, OF x(2) blob(1)] column(1) J(1) key(1)
    by (simp add: memo_entries_def dmerge_def named_def begin_metadata_def is_str_def)
  then have "replays P T D (result_record (u ''completed'') rid column now (started_record claim ?m ?t))"
    by (simp add: replayable_def result_record_def started_record_def J(2))
  moreover have "alone env (durable_call P T c s) db =
    ([(SelectRecord (ds_row D), Found None), (EffectsNow, Time t'), (UtcNow, Time t), (InsertStarted (ds_row D) claim ?m ?t, Changed True),
      (InsertReceipt r1, Inserted), (InsertReceipt r2, Inserted)] @ [(CallProvider, Returned x)] @ h,
     (s', Inr (bind_receipt c I claim (ds_task D) x)), db')"
    by (simp add: call alone_ibind missed attempt_def alone_itry alone_ilift alone_sbind alone_ask env begun run(1))
  ultimately show ?thesis using run(2-4) column(2)
    by (intro exI conjI) (assumption | simp add: result_record_def)+
qed

lemma alone_answers:
  assumes "alone env p db = (h, x, db')"
    and "\<And>op. op \<in> {UtcNow, EffectsNow, CallProvider, CallResult} \<Longrightarrow> well_answered T op (env op)"
    and "(op, r) \<in> set h"
  shows "well_answered T op r"
  using assms(1,3)
proof (induction p arbitrary: h db)
  case (Stmt op' k)
  obtain db1 r' where s: "(case run_sql db op' of Some dr \<Rightarrow> dr | None \<Rightarrow> (db, env op')) = (db1, r')" by fastforce
  obtain h' where h: "h = (op', r') # h'" "alone env (k r') db1 = (h', x, db')"
    using Stmt.prems(1) s by (auto split: prod.splits)
  have "well_answered T op' r'"
  proof (cases "run_sql db op'")
    case None
    then have "op' \<in> {UtcNow, EffectsNow, CallProvider, CallResult}" by (cases op') auto
    then show ?thesis using assms(2) s None by auto
  next
    case (Some dr)
    then show ?thesis using s
      by (cases op') (auto simp: well_answered_def update_where_cases split: option.splits if_splits)
  qed
  then show ?case using Stmt.IH [OF rangeI h(2)] Stmt.prems(2) h(1) by auto
qed simp

end
