(* ===== verification/DispatchSpec.thy ===== *)
theory DispatchSpec
  imports Attempts
begin

text \<open>
  The properties of the durable dispatch: fencing with any failures, effectively-once when the
  statements succeed, what single attempts do; each with an example worker.
\<close>

section \<open>An example\<close>

definition demo_text :: text_io where
  "demo_text = \<lparr>to_iso = (\<lambda>t. u ''2026-01-01''), from_iso = (\<lambda>s. Some 0), dumps = (\<lambda>v. Inr (u ''{}'')), loads = (\<lambda>s. Inr PNone)\<rparr>"

definition demo_id :: execution_identity where
  "demo_id = identity_of (\<lambda>k. if k \<in> set REQUIRED_FIELDS then u ''x'' else []) []"

definition demo_invoker :: invoker where
  "demo_invoker = \<lparr>iv_capable = True, iv_identity = GivenIdentity demo_id, iv_side_effect_key = u ''k'', iv_stale_after = None,
     iv_result_provider = False, iv_task = [(PStr (u ''id''), PStr (u ''t''))], iv_agent_id = u ''a'', iv_ids = (\<lambda>s. s),
     iv_new_uuid = [], iv_now = 0\<rparr>"

definition demo_evidence :: evidence_receipt where
  "demo_evidence = \<lparr>er_receipt_id = FUuid (uuid_str 0), er_started_at = FTime 0, er_finished_at = FVal PNone,
     er_routing_decision_id = FVal PNone, er_plain = [], er_attributes = []\<rparr>"

fun demo_outside :: "statement \<Rightarrow> reply" where
  "demo_outside UtcNow = Time 1"
| "demo_outside EffectsNow = Time 1"
| "demo_outside CallProvider = Returned demo_evidence"
| "demo_outside CallResult = Gave None"
| "demo_outside _ = Failed"

definition empty_db :: idem_db where
  "empty_db = \<lparr>tb_records = [], tb_receipts = [], tb_runs = []\<rparr>"

lemma demo_fields: "identity_field demo_id k = (if k \<in> set REQUIRED_FIELDS then u ''x'' else [])" if "k \<in> set IDENTITY_FIELDS"
  unfolding demo_id_def by (rule identity_field_of [OF that])

lemma demo_answering: "answering demo_outside"
  by (simp add: answering_def)

definition demo_dispatch :: dispatch where
  "demo_dispatch = \<lparr>ds_idempotency_key = u ''sek_'' @ hex (replicate 32 0), ds_side_effect_key = u ''k'',
     ds_task = u ''t'', ds_hash = hex (replicate 32 0)\<rparr>"

lemma demo_dispatches: "dispatches demo_prims demo_dispatch demo_invoker demo_id"
proof -
  have "strip (u ''x'') \<noteq> []" by (simp add: u_def strip_def py_space_def)
  then have "require_for_dispatch demo_id = Inr demo_id"
    using demo_fields required_are_fields by (auto simp: require_for_dispatch_def)
  moreover have "is_ok (encode_utf8 (u ''k''))" "is_ok (encode_utf8 (u ''invoke_agent:'' @ u ''t'' @ u '':'' @ u ''a''))"
    by (simp_all add: encode_utf8_def u_def utf8_cp_def is_ok_iff)
  ultimately show ?thesis
    by (auto simp: dispatches_def demo_invoker_def demo_dispatch_def resolve_identity_def claim_idempotency_key_def
        invocation_hash_def is_ok_iff vget_def dget_def str_or_def)
qed

lemma demo_claim_made: "\<exists>claim. with_updates demo_id [(u ''idempotency_key'', ds_idempotency_key demo_dispatch)] [] = Inr claim"
proof (rule durable_call_is [OF demo_dispatches])
qed blast

text \<open>The receipt of the example can be written.\<close>

lemma demo_blob:
  "\<exists>blob. receipt_to_dict demo_prims demo_text (bind_receipt demo_invoker demo_id claim (ds_task demo_dispatch) demo_evidence) = Inr blob \<and>
     is_ok (json_shape demo_prims (PDict blob))"
proof -
  let ?r = "bind_receipt demo_invoker demo_id claim (ds_task demo_dispatch) demo_evidence"
  have fields: "er_receipt_id ?r = FUuid (uuid_str 0)" "er_started_at ?r = FTime 0" "er_finished_at ?r = FVal PNone"
    "er_routing_decision_id ?r = FVal PNone"
    by (simp_all add: bind_receipt_def er_set_def demo_evidence_def)
  have attrs: "er_attributes ?r = [(PStr (u ''run_id''), PStr (ei_run_id demo_id)),
      (PStr (u ''idempotency_key''), PStr (ei_idempotency_key claim)),
      (PStr (u ''dispatch_idempotency_key''), PStr (ei_idempotency_key demo_id)),
      (PStr (u ''side_effect_key''), PStr (iv_side_effect_key demo_invoker))]"
    by (simp add: bind_receipt_def er_set_def demo_evidence_def dmerge_def)
  have "is_ok (json_shape demo_prims (asdict_val (PDict (er_attributes ?r))))"
    unfolding attrs asdict_val.simps by (rule named_shape_ok) (auto simp: named_def is_str_def)
  moreover have "is_ok (json_shape demo_prims (asdict_val (er_field ?r k)))" if "k \<in> set (keys PLAIN_DEFAULTS)" for k
    using that by (auto simp: PLAIN_DEFAULTS_def er_field_def bind_receipt_def er_set_def demo_evidence_def dget_def)
  moreover have "is_ok (json_shape demo_prims (PStr s))" "is_ok (json_shape demo_prims PNone)" for s by simp_all
  ultimately have "is_ok (json_shape demo_prims (PDict (receipt_entries (\<lambda>k. asdict_val (er_field ?r k))
      (PStr (uuid_str 0)) (PStr (to_iso demo_text 0)) PNone PNone (asdict_val (PDict (er_attributes ?r))))))"
    by (intro named_shape_ok receipt_entries_named) (auto simp: receipt_entries_def case_prod_unfold simp del: asdict_val.simps json_shape.simps)
  moreover have "receipt_to_dict demo_prims demo_text ?r = Inr (receipt_entries (\<lambda>k. asdict_val (er_field ?r k))
      (PStr (uuid_str 0)) (PStr (to_iso demo_text 0)) PNone PNone (asdict_val (PDict (er_attributes ?r))))"
    unfolding receipt_to_dict_def fields receipt_entries_def by simp
  ultimately show ?thesis by blast
qed

lemma demo_uuid: "is_ok (validate_uuid (uuid_str 0))"
  using validate_uuid_str [of 0] by simp

lemma demo_readable: "is_ok_receipt demo_evidence" "readable demo_text demo_evidence"
  using demo_uuid
  by (simp_all add: is_ok_receipt_def er_field_def demo_evidence_def PLAIN_DEFAULTS_def dget_def readable_def demo_text_def)

section \<open>Fencing\<close>

text \<open>
  C6: Whatever statements fail, whoever stops for ever and however the clocks run, the times that
  successive effective writes put into one row of the table are strictly increasing.
\<close>

theorem tokens_increase:
  assumes "exec (workers P T cs) db0 (as @ [Did i op (Changed True)] @ bs @ [Did j op' (Changed True)] @ fs) db W"
    and "written_row op = Some (k, t)" and "written_row op' = Some (k, t')"
  shows "t < t'"
  using idem_table.writes_increase [of "tb_records db0" "map did as" "(op, Changed True)" "map did bs" "(op', Changed True)" "map did fs" "tb_records db" k t t']
    exec_evolves [OF assms(1)] assms(2,3) by (simp add: takes_effect_def)


section \<open>Effectively once\<close>


section \<open>Single attempts\<close>



section \<open>Examples\<close>

lemma demo_answers: "op \<in> {UtcNow, EffectsNow, CallProvider, CallResult} \<Longrightarrow> well_answered demo_text op (demo_outside op)"
  using demo_readable(2) by (auto simp: well_answered_def)

lemma answers_events:
  assumes "alone env p db = (h, x, db')" "\<And>op. op \<in> {UtcNow, EffectsNow, CallProvider, CallResult} \<Longrightarrow> well_answered T op (env op)"
    and "Did j op r \<in> set (own_events i h)"
  shows "well_answered T op r"
  using alone_answers [OF assms(1,2)] assms(3) by (auto simp: own_events_def)

lemma own_events_append [simp]: "own_events i (a @ b) = own_events i a @ own_events i b"
  by (simp add: own_events_def)

lemma own_events_member: "(op, r) \<in> set h \<Longrightarrow> Did i op r \<in> set (own_events i h)"
  by (auto simp: own_events_def)

abbreviation demo_exec :: "event list \<Rightarrow> idem_db \<Rightarrow> (nat \<Rightarrow> (invoker_state \<times> (store_error + evidence_receipt)) prog) \<Rightarrow> bool" where
  "demo_exec \<equiv> exec (workers demo_prims demo_text (\<lambda>_. demo_invoker)) empty_db"

abbreviation demo_orderly :: "event list \<Rightarrow> bool" where
  "demo_orderly \<equiv> orderly demo_prims demo_text demo_dispatch (\<lambda>_. demo_invoker) (\<lambda>_. demo_id) empty_db"

text \<open>One worker runs to its end, then a second one.\<close>

lemma demo_execution:
  obtains as bs db W claim m rid column now where
    "demo_exec (as @ [Did 0 CallProvider (Returned demo_evidence)] @ bs) db W"
    and "demo_orderly (as @ [Did 0 CallProvider (Returned demo_evidence)] @ bs)"
    and "Did 0 (InsertStarted (ds_row demo_dispatch) claim m 1) (Changed True) \<in> set as"
    and "Did 0 (UpdateResult (ds_row demo_dispatch) (u ''completed'') rid column now (Some 1)) (Changed True) \<in> set bs"
proof -
  obtain claim where claim: "with_updates demo_id [(u ''idempotency_key'', ds_idempotency_key demo_dispatch)] [] = Inr claim"
    using demo_claim_made by blast
  obtain blob where blob: "receipt_to_dict demo_prims demo_text (bind_receipt demo_invoker demo_id claim (ds_task demo_dispatch) demo_evidence) = Inr blob"
    "is_ok (json_shape demo_prims (PDict blob))" using demo_blob by blast
  let ?p = "durable_call demo_prims demo_text demo_invoker initial_state"
  have new: "map_of (tb_records empty_db) (ds_row demo_dispatch) = None" by (simp add: empty_db_def)
  have env: "demo_outside UtcNow = Time 1" "demo_outside EffectsNow = Time 1" "demo_outside CallProvider = Returned demo_evidence"
    "demo_outside CallResult = Gave None" by simp_all
  obtain as bs y db1 m rid column now where run: "alone demo_outside ?p empty_db = (as @ [(CallProvider, Returned demo_evidence)] @ bs, y, db1)"
    and ev: "(InsertStarted (ds_row demo_dispatch) claim m 1, Changed True) \<in> set as"
      "(UpdateResult (ds_row demo_dispatch) (u ''completed'') rid column now (Some 1), Changed True) \<in> set bs"
    using alone_fresh [where s = initial_state, OF demo_dispatches new env demo_readable claim blob] unfolding max.idem by blast
  obtain h' y' db2 where second: "alone demo_outside ?p db1 = (h', y', db2)" by (metis surj_pair)
  let ?W = "workers demo_prims demo_text (\<lambda>_. demo_invoker)"
  let ?tr = "own_events 0 (as @ [(CallProvider, Returned demo_evidence)] @ bs) @ own_events 1 h'"
  have "demo_exec ([] @ own_events 0 (as @ [(CallProvider, Returned demo_evidence)] @ bs)) db1 (?W(0 := Return y))"
    by (rule alone_exec [OF demo_answering exec_start refl run])
  from alone_exec [OF demo_answering this _ second, of 1]
  have x: "demo_exec (own_events 0 (as @ [(CallProvider, Returned demo_evidence)] @ bs) @ own_events 1 h') db2 ((?W(0 := Return y))(1 := Return y'))"
    by simp
  have o: "demo_orderly (own_events 0 (as @ [(CallProvider, Returned demo_evidence)] @ bs) @ own_events 1 h')"
    using demo_dispatches new answers_events [OF run demo_answers] answers_events [OF second demo_answers]
    unfolding orderly_def by auto
  have tr: "own_events 0 (as @ [(CallProvider, Returned demo_evidence)] @ bs) @ own_events 1 h' =
      own_events 0 as @ [Did 0 CallProvider (Returned demo_evidence)] @ (own_events 0 bs @ own_events 1 h')"
    by (simp add: own_events_def)
  have ended: "Did 0 (UpdateResult (ds_row demo_dispatch) (u ''completed'') rid column now (Some 1)) (Changed True) \<in> set (own_events 0 bs @ own_events 1 h')"
    using own_events_member [OF ev(2), of 0] by simp
  show ?thesis
    by (rule that [OF x [unfolded tr] o [unfolded tr] own_events_member [OF ev(1)] ended])
qed



theorem tokens_increase_witness:
  "\<exists>as op bs op' fs db W t t'. demo_exec (as @ [Did 0 op (Changed True)] @ bs @ [Did 0 op' (Changed True)] @ fs) db W \<and>
     written_row op = Some (ds_row demo_dispatch, t) \<and> written_row op' = Some (ds_row demo_dispatch, t') \<and> t < t'"
proof -
  obtain as bs db W claim m rid column now where x: "demo_exec (as @ [Did 0 CallProvider (Returned demo_evidence)] @ bs) db W"
    and ev: "Did 0 (InsertStarted (ds_row demo_dispatch) claim m 1) (Changed True) \<in> set as"
    "Did 0 (UpdateResult (ds_row demo_dispatch) (u ''completed'') rid column now (Some 1)) (Changed True) \<in> set bs"
    by (rule demo_execution)
  let ?ins = "InsertStarted (ds_row demo_dispatch) claim m 1"
  let ?upd = "UpdateResult (ds_row demo_dispatch) (u ''completed'') rid column now (Some 1)"
  from ev obtain a1 a2 b1 b2 where "as = a1 @ [Did 0 ?ins (Changed True)] @ a2" "bs = b1 @ [Did 0 ?upd (Changed True)] @ b2"
    by (metis append_Cons append_Nil split_list)
  then have y: "demo_exec (a1 @ [Did 0 ?ins (Changed True)] @ (a2 @ [Did 0 CallProvider (Returned demo_evidence)] @ b1) @ [Did 0 ?upd (Changed True)] @ b2) db W"
    using x by simp
  have "written_row ?ins = Some (ds_row demo_dispatch, 1)" "written_row ?upd = Some (ds_row demo_dispatch, now)" by simp_all
  with y tokens_increase [OF y this] show ?thesis by blast
qed


text \<open>A record of another agent's operation is in flight.\<close>

definition busy_db :: "pystr \<Rightarrow> idem_db" where
  "busy_db op_hash = empty_db\<lparr>tb_records := [(ds_row demo_dispatch,
     started_record demo_id (begin_metadata op_hash (u ''t'')) 0)]\<rparr>"


end
