(* ===== verification/Spec2Isabelle.thy ===== *)
theory Spec2Isabelle
  imports CompilerSpec EngineSpec MerkleFile Kernel ReconcilerSpec TcbSpec MessagesSpec DispatchSpec
begin

text \<open>
  A verification library for four parts of the repository whose behaviour is decided by their
  own code:
  \<^item> the graph engine DharmaGraph, src/dharma_swarm/graph: a graph of nodes over versioned channels
    is compiled and run in supersteps, with checkpoints, a journal of pending writes, and a
    reconciler for dispatches that were never finished;
  \<^item> the durable dispatch of provider calls: graph/durable_invoker.py over the idempotency table and the
    identity table of src/dharma_swarm/runtime_state.py, with the execution identities of
    spine/identity.py and the receipts of spine/receipt.py;
  \<^item> the telos kernel, src/packages/telos-kernel/telos_kernel: capability tokens, signed receipts and
    a signed manifest around an append-only log of hashes, which gates self-modification;
  \<^item> the purity verifier, src/packages/titanium-verify/titanium_verify: it decides whether the core
    functions of a package declare every effect they reach.

  \<^bold>\<open>How the parts interact.\<close> The compiler turns a builder into tables of channels, triggers, joins and
  branches. The scheduler prepares the ready tasks from the channel versions, the executor runs
  them on snapshots, routing turns their results into writes, and the state validates all writes
  of the superstep before it commits any. The persistence runtime journals the writes before the
  commit and stores a checkpoint after it; on resume it replays what the journal holds. The
  reconciler works on the tables of the runtime store after a crash. A node that calls a provider
  does so through the durable invoker: every worker of one side effect races for one row of the
  idempotency table, the winner calls and records, the others replay or give up. In the kernel, \<open>boot\<close> and
  \<open>check\<close> compose manifest, capabilities, receipts, log and notary. The verifier is a pipeline:
  frontend, effects, call graph, fixpoint, conditions, verdict.

  \<^bold>\<open>Theories.\<close>
  \<^item> \<open>Py\<close>, \<open>PyVal\<close>: strings as code points, errors as sums, dictionaries as association lists in
    insertion order, Python values with their \<open>==\<close>, truth, hashing and JSON; UTF-8, hex and HMAC.
  \<^item> \<open>GTypes\<close> (types.py, errors.py), \<open>Channels\<close> (channels.py), \<open>Routing\<close> (routing.py), \<open>GState\<close>
    (state.py), \<open>Persistence\<close> (persistence.py, _persistence_state.py, _persistence_io.py), \<open>Compiler\<close>
    (compiler.py), \<open>Executor\<close> (executor.py, interrupts.py), \<open>PersistenceRuntime\<close>
    (persistence_runtime.py), \<open>Scheduler\<close> (scheduler.py), \<open>Messages\<close> (messages.py), \<open>Reconciler\<close>
    (reconciler.py, receipt_authority.py, reconcile_board.py): a record per class, one definition per
    method, named as in the source where HOL allows it.
  \<^item> \<open>Runs\<close> has the states that starting, stepping and resuming reach, \<open>Recovery\<close> a crash between journal
    and commit, \<open>CompilerSpec\<close>, \<open>EngineSpec\<close>, \<open>MessagesSpec\<close> and \<open>ReconcilerSpec\<close> the promises of the
    components; \<open>Samples\<close> and \<open>Samples2\<close> evaluate small graphs for the witnesses. The properties that
    need the whole engine stand in this theory.
  \<^item> \<open>Identity\<close> (spine/identity.py and the table execution_identities), \<open>Idempotency\<close> (the table
    idempotency_records, its operations and the receipts), \<open>DurableInvoker\<close> (durable_invoker.py): the
    operations are programs over SQL statements, one statement being one transaction.
    \<open>Interleaving\<close> has the step relation of several workers over one database and a calculus of what
    a program may do after what it has seen; \<open>Fencing\<close> the versions of a row; \<open>Memo\<close> the rows that can be
    replayed; \<open>OneDispatch\<close> the discipline of the workers of one dispatch; \<open>EffectivelyOnce\<close> the
    invariant of the row; \<open>Attempts\<close> a worker that runs alone; \<open>DispatchSpec\<close> and \<open>IdentitySpec\<close> the properties.
  \<^item> \<open>KResult\<close> (result.py), \<open>Canonical\<close> (canonical.py), \<open>Capabilities\<close> (capabilities.py), \<open>Receipt\<close>
    (receipt.py), \<open>MerkleLog\<close> (merkle_log.py), \<open>MerkleFile\<close> (the file backend), \<open>Manifest\<close>
    (manifest.py), \<open>Notary\<close> (notary.py, checker.py), \<open>Kernel\<close> (__init__.py); each holds its properties.
  \<^item> \<open>TcbFrontend\<close>, \<open>TcbEffects\<close>, \<open>TcbVc\<close> (with solvers.py, report.py, verifier.py) are the verifier;
    \<open>TcbPurity\<close>, \<open>TcbVerdict\<close> and \<open>TcbSpec\<close> show what its verdict means.

  \<^bold>\<open>Interfaces.\<close> A contract between components is a locale, interpreted on the model's own definitions
  in the theory that provides them: \<open>two_phase\<close> (validate, then commit without failure) by the
  channels; \<open>pending_journal\<close> (put, recover, clear) by the thread files; \<open>hash_chain\<close> (equal digests
  give equal histories or a collision) by the Merkle log over SHA-256 and by the tokens over HMAC;
  \<open>threshold_votes\<close> (K of N with overlapping quorums) by the manifest's signers; \<open>keyed_merge\<close> (merge
  by id against a reference without indices) by chat messages and by UI messages; \<open>versioned_table\<close> (a change keeps the rows it does not write and
  raises the version of the row it writes) by the idempotency table under its conditional updates.

  \<^bold>\<open>What the lemmas show.\<close> For the engine: a run does not depend on the order tasks are
  dispatched in, a resumed run and a replayed superstep end where the uninterrupted one ends, a
  failed superstep changes nothing, compilation accepts exactly the valid graphs, every reachable
  state is consistent, a run stays in its budget and ends quiescent. For messages and the
  reconciler: the merge equals its reference; a boot pass settles every orphan once, and only with
  full authority as completed. For the durable dispatch: with any failures, stops and clocks the
  times in a row increase and a completion that takes effect is that of the last claim; when no
  statement fails and no record goes stale, no worker calls the provider after a success; a retry
  replays; an attempt that meets the record of another operation calls without a claim. For the kernel: canonical bytes determine values, an equal head
  hash gives equal payloads or a collision, logs built by boots and checks verify, checks fail
  closed, caveats only narrow, quorums count signers and overlap. For the verifier: it returns,
  its worklist computes reachability, and VERIFIED is equivalent to honest declarations.

  \<^bold>\<open>Loops.\<close> Kahn's queue, the reachability walk, the superstep loop (its measure is the supersteps left
  in the budget), the search for a free checkpoint id and the traversals of syntax trees are
  functions with termination proofs. The worklist of the verifier is \<open>while_option\<close>, and
  \<open>verify_package_returns\<close> proves that it ends. No definition takes fuel. Programs over statements are a datatype without loops, so every worker
  has finitely many steps.

  \<^bold>\<open>Parameters.\<close> What the code takes from outside is an argument: node functions, reducers, branch
  predicates, dispatch orders, time-outs, clocks and random ids, ISO times and \<open>json\<close> texts (\<open>text_io\<close>), the answers of providers, the SHA-256 function, Ed25519, the
  repr of floats and strings, the iteration order of sets, the SMT solver, and what loading and saving files
  gives. Hypotheses on them are named: that a dispatch order is a permutation of the tasks, that a
  node answers the same task alike, that the solver is right and decides the conditions it
  is given; that no statement fails and what providers return can be read back, where the property
  is about calling once (\<open>orderly\<close>), and nothing of this for fencing. A collision of a hash is a disjunct of the conclusion, never assumed away.

  \<^bold>\<open>Not modelled.\<close> The text of exceptions and log lines; \<open>copy.deepcopy\<close>, which is the identity on
  values; locks, temporary files and fsync; asynchronous waiting inside a superstep; migrations and
  pragmas of the database, whose failures are modelled as statements that fail without an effect. Of the graph package the adapters and projections (checkpoint.py, schema.py,
  subgraph.py, world.py, persistence_adapter.py) are thin layers over the modelled
  operations. The swarm's orchestration, model providers, evolution, scripts and the tables of the
  runtime store that neither the reconciler nor the durable dispatch uses are I/O around databases, subprocesses and model output and have no
  specification of their own to prove.
\<close>

section \<open>Runs of a compiled graph\<close>

text \<open>
  C1: A run does not depend on the order its tasks are dispatched in. A graph that compiles is
  started and run to completion under one dispatch order; under any other order that permutes
  the ready tasks it starts in the same state, completes too, and ends with the same state,
  versions seen, digest, number of supersteps and persisted store.
\<close>

theorem run_order_independent:
  assumes "compile b ao ac = Inr (cf_graph cf)"
    and "\<forall>(n, f) \<in> set (b_channels b). fresh_body f = f \<and> wf_body f"
    and "start_run P cf rp input = Inr rs" and "run_loop P cf 0 0 rs = (rs1, Inr ())"
    and "reordered (cf_env cf) env'"
  shows "start_run P (cf\<lparr>cf_env := env'\<rparr>) rp input = Inr rs \<and>
    (\<exists>rs2. run_loop P (cf\<lparr>cf_env := env'\<rparr>) 0 0 rs = (rs2, Inr ()) \<and> agree rs1 rs2)"
proof -
  have wfc: "wf_compiled (cf_graph cf)" using assms(1) by (rule compile_wf_compiled)
  have fresh: "fresh_factories (cg_factories (cf_graph cf))" using assms(1,2) by (rule compile_fresh)
  have inv: "run_inv cf rs" using start_run_ok [OF wfc fresh assms(3)] by (simp add: run_ok_def)
  have "cg_managed_remaining (cf_graph cf) = None" using assms(1) by (rule compile_managed)
  from run_loop_agree [OF wfc this assms(5) _ refl inv _ assms(4), of "cf_cap cf" 0 rs]
  have "\<exists>rs2. run_loop P (cf\<lparr>cf_env := env'\<rparr>) 0 0 rs = (rs2, Inr ()) \<and> agree rs1 rs2"
    by (simp add: agree_def)
  moreover have "start_run P (cf\<lparr>cf_env := env'\<rparr>) rp input = start_run P cf rp input"
    by (rule start_run_env)
  ultimately show ?thesis using assms(3) by simp
qed

lemma run_order_independent_witness:
  "reordered demo_env demo_env_rev \<and>
   (\<exists>rs2. run_loop demo_prims (demo_config\<lparr>cf_env := demo_env_rev\<rparr>) 0 0 demo_start = (rs2, Inr ()) \<and>
      agree demo_final rs2)"
proof -
  have r: "reordered demo_env demo_env_rev" by (simp add: reordered_def demo_env_def demo_env_rev_def)
  have "compile demo_builder False False = Inr (cf_graph demo_config)" by (simp add: demo_compiles)
  moreover have "\<forall>(n, f) \<in> set (b_channels demo_builder). fresh_body f = f \<and> wf_body f"
    unfolding demo_builder_def by (rule demo_channels)
  moreover have "reordered (cf_env demo_config) demo_env_rev" using r by simp
  ultimately show ?thesis
    using run_order_independent [OF _ _ demo_starts demo_runs, of demo_builder False False demo_env_rev] r by blast
qed

text \<open>
  C2: A checkpoint can be resumed. When a run that gives out checkpoints completes from a
  reachable state, the run resumed from the last checkpoint given out up to that state, under
  any dispatch order, completes too and ends with the same state, versions seen, digest, number
  of supersteps and persisted store.
\<close>

theorem resume_continues:
  assumes "compiled_from b cf" and "reachable P cf s rs" and "cf_on_checkpoint cf" and "rs_emitted rs \<noteq> []"
    and "run_loop P cf base s rs = (rs1, Inr ())" and "base \<le> s" and "reordered (cf_env cf) env'"
  shows "\<exists>rs' rs2. resume_run P cf (rs_persist rs) (last (rs_emitted rs)) = Inr rs' \<and>
    run_loop P (cf\<lparr>cf_env := env'\<rparr>) s s rs' = (rs2, Inr ()) \<and> agree rs1 rs2"
proof -
  note wf = compiled_fromD [OF assms(1)]
  have ok: "run_ok P cf rs" and com: "rs_committed rs = s"
    using reachable_ok [OF assms(2) wf(1,2)] by simp_all
  have cp: "run_checkpoint_of cf (rs_state rs) (rs_seen rs) s (rs_digest rs) = Inr (last (rs_emitted rs))"
    using reachable_emitted [OF assms(2) wf(1,2) assms(3)] assms(4) by (simp add: emitted_ok_def)
  with resume_agree [OF ok] com obtain rs' where
    r: "resume_run P cf (rs_persist rs) (last (rs_emitted rs)) = Inr rs'" "agree rs rs'" by auto
  have "run_inv cf rs" using ok by (simp add: run_ok_def)
  from run_loop_agree [OF wf(1,3) assms(7) _ _ this r(2) assms(5), of "cf_cap cf" s] assms(6) r(1)
  show ?thesis by auto
qed

lemma resume_continues_witness:
  "\<exists>rs' rs2. resume_run demo_prims demo_config demo_persist (demo_checkpoint_at 0 0 [] [([97], []), ([98], [])]) = Inr rs' \<and>
     run_loop demo_prims (demo_config\<lparr>cf_env := demo_env_rev\<rparr>) 0 0 rs' = (rs2, Inr ()) \<and> agree demo_final rs2"
proof -
  have "reordered (cf_env demo_config) demo_env_rev" by (simp add: reordered_def demo_env_def demo_env_rev_def)
  from resume_continues [OF demo_config_compiled demo_reachable(1) _ _ demo_runs _ this] show ?thesis
    by (simp add: demo_start_def)
qed

text \<open>
  C12: What is true of every state a run can reach, by starting, stepping and resuming: the
  superstep counter is the number of supersteps committed, the recorded digest is the digest of
  the state, the channels are those of the compiled graph in well-formed states, and the versions
  seen are kept for exactly the nodes of the graph.
\<close>

theorem run_state_invariant:
  assumes "compiled_from b cf" and "reachable P cf s rs"
  shows "rs_committed rs = s \<and> gs_digest P (rs_state rs) = Inr (rs_digest rs) \<and>
    built_from (cg_factories (cf_graph cf)) (rs_state rs) \<and> keys (rs_seen rs) = keys (cg_nodes (cf_graph cf))"
  using reachable_ok [OF assms(2) compiled_fromD(1,2) [OF assms(1)]] by (simp add: run_ok_def run_inv_def)

lemma run_state_invariant_witness: "gs_digest demo_prims (rs_state demo_final) = Inr (rs_digest demo_final)"
  using run_state_invariant [OF demo_config_compiled demo_reachable(2)] by simp

text \<open>
  The checkpoints a run gives out are numbered one after the other, up to the current
  superstep, and the last one records the current digest and versions seen.
\<close>

theorem checkpoints_consecutive:
  assumes "compiled_from b cf" and "reachable P cf s rs" and "cf_on_checkpoint cf"
  shows "(\<exists>k \<le> s + 1. map cp_superstep (rs_emitted rs) = [k..<s + 1]) \<and>
    (rs_emitted rs \<noteq> [] \<longrightarrow> cp_digest (last (rs_emitted rs)) = rs_digest rs \<and>
       cp_seen (last (rs_emitted rs)) = rs_seen rs)"
  using reachable_emitted [OF assms(2) compiled_fromD(1,2) [OF assms(1)] assms(3)]
  by (auto simp: emitted_ok_def run_checkpoint_of_def emap_Inr_iff)

lemma checkpoints_consecutive_witness:
  "\<exists>k. map cp_superstep (rs_emitted demo_final) = [k..<2] \<and> cp_seen (last (rs_emitted demo_final)) = demo_seen"
proof -
  have f: "rs_emitted demo_final \<noteq> []" "rs_seen demo_final = demo_seen" by (simp_all add: demo_final_def)
  with checkpoints_consecutive [OF demo_config_compiled demo_reachable(2) demo_config_simps(5)] show ?thesis
    by (metis One_nat_def Suc_1 Suc_eq_plus1)
qed



text \<open>
  C29: A run ends, within its budget. From a state that was started or resumed the loop commits
  at most as many supersteps as the cap says, whatever the nodes do and however it ends.
\<close>

theorem run_within_budget:
  assumes "run_loop P cf (rs_committed rs) (rs_committed rs) rs = (rs', r)"
  shows "rs_committed rs \<le> rs_committed rs' \<and>
    int (rs_committed rs') - int (rs_committed rs) \<le> max 0 (cf_cap cf)"
  using run_loop_budget [OF assms refl] by simp

lemma run_within_budget_witness: "int (rs_committed demo_final) \<le> 4"
  using run_within_budget [of demo_prims demo_config demo_start demo_final "Inr ()"] demo_runs
  by (simp add: demo_start_def demo_config_def)

text \<open>
  C28: A run that completes has nothing left to do: no node of the graph has a trigger it has not
  seen, and no Send is waiting in the channel of tasks.
\<close>

theorem run_ends_quiescent:
  assumes "compiled_from b cf" and "reachable P cf s rs" and "run_loop P cf base s rs = (rs', Inr ())"
    and "n \<in> fst ` set (cg_nodes (cf_graph cf))"
  shows "\<not> node_ready (cf_graph cf) (gs_versions (rs_state rs')) (rs_seen rs') n \<and>
    (\<exists>c. map_of (gs_channels (rs_state rs')) TASKS_CHANNEL = Some c \<and> ch_body c = TopicChannel [])"
proof -
  note wf = compiled_fromD [OF assms(1)]
  have "run_inv cf rs" using reachable_ok [OF assms(2) wf(1,2)] by (simp add: run_ok_def)
  note q = run_loop_quiescent [OF assms(3) this wf(1)]
  have "n \<in> set (cg_order (cf_graph cf))" using wf(1) assms(4) by (simp add: wf_compiled_def)
  with q show ?thesis by blast
qed

lemma run_ends_quiescent_witness:
  "\<not> node_ready demo_graph (gs_versions (rs_state demo_final)) (rs_seen demo_final) [97]"
  using run_ends_quiescent [OF demo_config_compiled demo_reachable(1), of 0 demo_final "[97]"] demo_runs
  by (simp add: demo_graph_def graph_of_def)



end
